(* ===== verification/Aeon_Prelude.thy ===== *)
theory Aeon_Prelude
  imports Complex_Main "HOL-Library.Code_Target_Numeral"
begin

text \<open>
  Shared vocabulary of the development.

  \<^item> Results: a C++ member function that may throw and that mutates its object is a function
    from the state to a pair of a result and the state it leaves behind. The result is
    \<open>Inl e\<close> for a throw and \<open>Inr x\<close> for a return. The state is there on both sides, because a
    throw does not undo the assignments made before it.
  \<^item> Loops: \<open>check_all\<close> is a read-only loop that throws at the first bad element, \<open>for_each\<close> is a
    loop whose body mutates the state and may throw.
  \<^item> Vectors used as stacks: \<open>push_back\<close>, \<open>back\<close> and \<open>pop_back\<close> are \<open>xs @ [x]\<close>, \<open>last\<close> and
    \<open>butlast\<close>.
  \<^item> Casts: \<open>u16\<close> and \<open>u32\<close> are the unsigned narrowing conversions.
\<close>

named_theorems loop_simps \<open>unfolding of the loop combinators\<close>

subsection \<open>Results that keep the state\<close>

type_synonym ('e, 's, 'a) outcome = "('e + 'a) \<times> 's"

definition ok :: "'a \<Rightarrow> 's \<Rightarrow> ('e, 's, 'a) outcome" where
  "ok x s = (Inr x, s)"

definition throw :: "'e \<Rightarrow> 's \<Rightarrow> ('e, 's, 'a) outcome" where
  "throw e s = (Inl e, s)"

definition and_then ::
  "('e, 's, 'a) outcome \<Rightarrow> ('a \<Rightarrow> 's \<Rightarrow> ('e, 's, 'b) outcome) \<Rightarrow> ('e, 's, 'b) outcome" where
  "and_then m k = (case m of (Inl e, s) \<Rightarrow> (Inl e, s) | (Inr x, s) \<Rightarrow> k x s)"

text \<open>A read-only check followed by a continuation.\<close>

definition after_check ::
  "('e + unit) \<Rightarrow> 's \<Rightarrow> ('s \<Rightarrow> ('e, 's, 'b) outcome) \<Rightarrow> ('e, 's, 'b) outcome" where
  "after_check c s k = (case c of Inl e \<Rightarrow> (Inl e, s) | Inr _ \<Rightarrow> k s)"

lemma and_then_simps [simp]:
  "and_then (ok x s) k = k x s"
  "and_then (throw e s) k = throw e s"
  "and_then (Inr x, s) k = k x s"
  "and_then (Inl e, s) k = (Inl e, s)"
  by (simp_all add: and_then_def ok_def throw_def)

lemma after_check_simps [simp]:
  "after_check (Inl e) s k = throw e s"
  "after_check (Inr u) s k = k s"
  by (simp_all add: after_check_def throw_def)

lemma ok_throw_inject [simp]:
  "ok x s = ok y t \<longleftrightarrow> x = y \<and> s = t"
  "throw e s = throw f t \<longleftrightarrow> e = f \<and> s = t"
  "ok x s \<noteq> throw e t"
  "throw e t \<noteq> ok x s"
  by (simp_all add: ok_def throw_def)

lemma outcome_cases:
  obtains (ok) x s where "m = ok x s" | (throw) e s where "m = throw e s"
  by (cases m; cases "fst m") (auto simp: ok_def throw_def)

lemma snd_ok_throw [simp]: "snd (ok x s) = s" "snd (throw e s) = s"
  by (simp_all add: ok_def throw_def)

lemma fst_ok_throw [simp]: "fst (ok x s) = Inr x" "fst (throw e s) = Inl e"
  by (simp_all add: ok_def throw_def)

text \<open>An invariant that both steps of a sequence keep is kept by the sequence.\<close>

lemma and_then_inv:
  assumes "P (snd m)" and "\<And>x s. m = ok x s \<Longrightarrow> P (snd (k x s))"
  shows "P (snd (and_then m k))"
  using assms by (cases m rule: outcome_cases) auto

lemma after_check_inv:
  assumes "P s" and "c = Inr () \<Longrightarrow> P (snd (k s))"
  shows "P (snd (after_check c s k))"
  using assms by (cases c) auto

lemma and_then_eq_ok:
  "and_then m k = ok y t \<longleftrightarrow> (\<exists>x s. m = ok x s \<and> k x s = ok y t)"
  by (cases m rule: outcome_cases) auto

lemma after_check_eq_ok:
  "after_check c s k = ok y t \<longleftrightarrow> c = Inr () \<and> k s = ok y t"
  by (cases c) auto

subsection \<open>Loops\<close>

fun check_all :: "('a \<Rightarrow> 'e + unit) \<Rightarrow> 'a list \<Rightarrow> 'e + unit" where
  "check_all f [] = Inr ()"
| "check_all f (x # xs) = (case f x of Inl e \<Rightarrow> Inl e | Inr _ \<Rightarrow> check_all f xs)"

lemma check_all_ok [simp]:
  "check_all f xs = Inr () \<longleftrightarrow> (\<forall>x\<in>set xs. f x = Inr ())"
  by (induction xs) (auto split: sum.splits)

definition check_then :: "('e + unit) \<Rightarrow> ('e + unit) \<Rightarrow> 'e + unit" where
  "check_then a b = (case a of Inl e \<Rightarrow> Inl e | Inr _ \<Rightarrow> b)"

lemma check_then_ok [simp]: "check_then a b = Inr () \<longleftrightarrow> a = Inr () \<and> b = Inr ()"
  by (cases a) (auto simp: check_then_def)

fun for_each :: "('a \<Rightarrow> 's \<Rightarrow> ('e, 's, unit) outcome) \<Rightarrow> 'a list \<Rightarrow> 's \<Rightarrow> ('e, 's, unit) outcome" where
  "for_each f [] s = ok () s"
| "for_each f (x # xs) s = and_then (f x s) (\<lambda>_ s'. for_each f xs s')"

lemma for_each_inv:
  assumes "P s" and "\<And>x s. x \<in> set xs \<Longrightarrow> P s \<Longrightarrow> P (snd (f x s))"
  shows "P (snd (for_each f xs s))"
  using assms
proof (induction xs arbitrary: s)
  case Nil
  then show ?case by simp
next
  case (Cons x xs)
  have "P (snd (f x s))" using Cons.prems by simp
  then show ?case
    using Cons.IH Cons.prems(2) by (simp add: and_then_inv) (rule and_then_inv; simp)
qed

lemma for_each_append [loop_simps]:
  "for_each f (xs @ ys) s = and_then (for_each f xs s) (\<lambda>_ s'. for_each f ys s')"
proof (induction xs arbitrary: s)
  case Nil
  then show ?case by simp
next
  case (Cons x xs)
  then show ?case by (cases "f x s" rule: outcome_cases) auto
qed

subsection \<open>Casts\<close>

definition u16 :: "nat \<Rightarrow> nat" where
  "u16 n = n mod 2 ^ 16"

definition u32 :: "nat \<Rightarrow> nat" where
  "u32 n = n mod 2 ^ 32"

lemma u32_id [simp]: "n < 2 ^ 32 \<Longrightarrow> u32 n = n"
  by (simp add: u32_def)

lemma u16_id [simp]: "n < 2 ^ 16 \<Longrightarrow> u16 n = n"
  by (simp add: u16_def)

lemma u32_less: "u32 n < 2 ^ 32"
  by (simp add: u32_def)

subsection \<open>Lists\<close>

lemma set_butlast_distinct: "distinct xs \<Longrightarrow> xs \<noteq> [] \<Longrightarrow> set (butlast xs) = set xs - {last xs}"
  by (induction xs rule: rev_induct) simp_all

lemma distinct_snoc_iff [simp]: "distinct (xs @ [x]) \<longleftrightarrow> distinct xs \<and> x \<notin> set xs"
  by auto

lemma find_Some_nth:
  "find P xs = Some x \<Longrightarrow> \<exists>i<length xs. xs ! i = x \<and> P x"
  by (auto simp: find_Some_iff)

lemma nth_update_keep: "xs ! s = x \<Longrightarrow> xs[i := x] ! s = x"
  by (cases "i < length xs"; cases "i = s") (simp_all add: list_update_beyond)

end
