(* ===== verification/Expert_Registry_Types.thy ===== *)
theory Expert_Registry_Types
  imports Aeon_Prelude
begin

text \<open>
  The expert registry's data vocabulary, after
  \<^verbatim>\<open>src/infrastructure/expert/residency/expert_registry_types.hpp\<close> and the data members of
  \<^verbatim>\<open>expert_registry.hpp\<close>.

  Unsigned ids, capacities and counters are \<open>nat\<close>; a slot index with the \<open>-1\<close> sentinel is an
  \<open>int\<close>. The ids and slots of a registry stay below \<open>2 ^ 31\<close> (\<open>init\<close> is given the model's 43 by 256
  experts), where the source's casts between \<open>uint32_t\<close> and \<open>int32_t\<close> are the identity; the 64-bit
  counters are not wrapped. A \<open>std::list\<close> iterator held by an entry is the id its list node holds.
  The \<open>float\<close> moving average, which nothing reads, is computed in exact arithmetic.
\<close>

datatype ExpertTier = HOT_VRAM | WARM_HOST | COLD_NVME

datatype ExpertOperation = OP_NONE | IO_PENDING | PROMOTION_PENDING | DEMOTION_PENDING

datatype ExpertGpuTransfer = GT_NONE | H2D_PENDING | D2H_PENDING

datatype ExpertDemotionDropReason = DROP_NONE | QUEUE_PRESSURE | WARM_DESTINATION_UNAVAILABLE

fun expert_demotion_drop_reason_name :: "ExpertDemotionDropReason \<Rightarrow> string" where
  "expert_demotion_drop_reason_name QUEUE_PRESSURE = ''queue_pressure''"
| "expert_demotion_drop_reason_name WARM_DESTINATION_UNAVAILABLE = ''warm_destination_unavailable''"
| "expert_demotion_drop_reason_name DROP_NONE = ''unspecified''"

datatype ExpertPublication = PUBLISHED | UNPUBLISHED

datatype ExpertSlotState = UNALLOCATED | ACTIVE | RECLAIMABLE

datatype ExpertRequestKind = HOT_HIT | WARM_PROMOTION | COLD_MISS | PENDING | COLD_STAGED

record ExpertCatalogEntry =
  global_expert_id :: nat
  layer_id :: nat
  expert_id :: nat
  owner :: ExpertTier
  slot_idx :: int
  pending_slot_idx :: int
  operation :: ExpertOperation
  gpu_transfer :: ExpertGpuTransfer
  publication :: ExpertPublication
  slot_state :: ExpertSlotState
  demotion_drop_reason :: ExpertDemotionDropReason
  operation_id :: nat
  lease_count :: nat
  in_lru :: bool
  shadow_vram_slot :: int
  warm_shadow :: bool
  resident_at_prefill_begin :: bool
  activation_count :: nat
  last_step_used :: nat
  moving_frequency :: real
  lru_it :: nat

text \<open>The member initialisers of a default-constructed entry.\<close>

definition default_entry :: ExpertCatalogEntry where
  "default_entry = \<lparr>global_expert_id = 0, layer_id = 0, expert_id = 0, owner = COLD_NVME,
     slot_idx = -1, pending_slot_idx = -1, operation = OP_NONE, gpu_transfer = GT_NONE,
     publication = PUBLISHED, slot_state = UNALLOCATED, demotion_drop_reason = DROP_NONE,
     operation_id = 0, lease_count = 0, in_lru = False, shadow_vram_slot = -1, warm_shadow = False,
     resident_at_prefill_begin = False, activation_count = 0, last_step_used = 0,
     moving_frequency = 0, lru_it = 0\<rparr>"

record ExpertDemotionReservation =
  dr_operation_id :: nat
  dr_victim_gid :: nat
  dr_source_vram_slot :: nat
  dr_destination_host_slot :: nat

record ExpertRequestReservation =
  rq_kind :: ExpertRequestKind
  rq_source_tier :: ExpertTier
  rq_global_expert_id :: nat
  rq_operation_id :: nat
  rq_vram_slot :: int
  rq_source_host_slot :: int
  rq_lease_acquired :: bool
  rq_demotion :: "ExpertDemotionReservation option"

datatype PrefillAlloc = FreeListOnly | BoundedEvict

record ExpertRegistry =
  num_layers :: nat
  experts_per_layer :: nat
  total_experts :: nat
  vram_capacity :: nat
  host_capacity :: nat
  host_capacity_usable :: nat
  catalog :: "ExpertCatalogEntry list"
  vram_slots :: "int list"
  free_vram_slots :: "nat list"
  host_slots :: "int list"
  free_host_slots :: "nat list"
  vram_slot_reservations :: "nat list"
  host_slot_reservations :: "nat list"
  hot_vram_lru :: "nat list"
  warm_host_lru :: "nat list"
  hits_hot :: nat
  hits_warm :: nat
  misses_cold :: nat
  demotion_attempts :: nat
  demotion_completions :: nat
  demotion_drops :: nat
  shadow_copies :: nat
  next_operation_id :: nat
  pending_demotion_count :: nat
  warm_frozen :: bool
  validate_each_request :: bool
  prefill_stream :: bool
  prefill_alloc :: PrefillAlloc
  shadow_slot_of_expert :: "int list"
  shadow_lru :: "nat list"

text \<open>
  The exceptions the registry throws: the standard exception class and its message, without the
  diagnostic numbers some messages append.
\<close>

datatype reg_error =
    LogicError string
  | OutOfRange string
  | RuntimeError string
  | InvalidArgument string

type_synonym 'a reg_outcome = "(reg_error, ExpertRegistry, 'a) outcome"

text \<open>\<open>catalog[g]\<close> and an assignment through a reference to it.\<close>

definition ent :: "ExpertRegistry \<Rightarrow> nat \<Rightarrow> ExpertCatalogEntry" where
  "ent r g = catalog r ! g"

definition upd_ent ::
  "nat \<Rightarrow> (ExpertCatalogEntry \<Rightarrow> ExpertCatalogEntry) \<Rightarrow> ExpertRegistry \<Rightarrow> ExpertRegistry" where
  "upd_ent g f r = r\<lparr>catalog := (catalog r)[g := f (catalog r ! g)]\<rparr>"

end
