(* ===== verification/Expert_Registry.thy ===== *)
theory Expert_Registry
  imports Expert_Registry_Types
begin

text \<open>
  The expert registry: which tier (VRAM, pinned host memory, NVMe) owns every routed expert, which
  physical slot it occupies, and the transfers in flight between the tiers. This theory models the
  operations, after \<^verbatim>\<open>expert_registry.hpp\<close>, \<^verbatim>\<open>warm_partition.hpp\<close>, \<^verbatim>\<open>prefill_residency.hpp\<close> and
  \<^verbatim>\<open>expert_registry_validation.hpp\<close>; \<open>Registry_Invariant\<close> and the theories after it hold the
  proofs. Every public mutator is a function from the registry to an outcome, so a throw in the
  middle of an operation keeps the assignments made before it.
\<close>

subsection \<open>The audit (expert_registry_validation.hpp)\<close>

definition require_that :: "bool \<Rightarrow> string \<Rightarrow> reg_error + unit" where
  "require_that b msg = (if b then Inr () else Inl (LogicError msg))"

text \<open>One iteration of the audit's first loop over the catalog.\<close>

definition validate_entry :: "ExpertRegistry \<Rightarrow> ExpertCatalogEntry \<Rightarrow> reg_error + unit" where
  "validate_entry r e =
     check_then
       (case owner e of
          HOT_VRAM \<Rightarrow> require_that
            (\<not> (slot_idx e < 0 \<or> vram_capacity r \<le> nat (slot_idx e) \<or>
               vram_slots r ! nat (slot_idx e) \<noteq> int (global_expert_id e)))
            ''Hot entry does not map to its VRAM slot''
        | WARM_HOST \<Rightarrow> require_that
            (\<not> (slot_idx e < 0 \<or> host_capacity_usable r \<le> nat (slot_idx e) \<or>
               host_slots r ! nat (slot_idx e) \<noteq> int (global_expert_id e)))
            ''Warm entry does not map to its host slot''
        | COLD_NVME \<Rightarrow> require_that (slot_idx e = -1) ''Cold entry owns a physical slot'')
     (check_then
       (require_that (\<not> (operation e \<noteq> OP_NONE \<and> operation_id e = 0))
          ''pending entry has no operation ID'')
     (check_then
       (require_that (\<not> (operation e = OP_NONE \<and> gpu_transfer e \<noteq> GT_NONE))
          ''idle entry has a pending GPU transfer'')
       (require_that (\<not> (operation e \<noteq> OP_NONE \<and> 0 \<le> pending_slot_idx e \<and>
            (vram_capacity r \<le> nat (pending_slot_idx e) \<or>
             vram_slot_reservations r ! nat (pending_slot_idx e) \<noteq> operation_id e)))
          ''pending entry does not own its VRAM reservation'')))"

text \<open>
  One iteration of the audit's loop over the VRAM slots. The source's \<open>hot_seen[slot]\<close> is set
  only in the iteration of that slot, after its test, so the test never fires and is left out; so
  is \<open>warm_seen[slot]\<close> below.
\<close>

definition validate_vram_slot :: "ExpertRegistry \<Rightarrow> nat \<Rightarrow> reg_error + unit" where
  "validate_vram_slot r slot =
     (let gid = vram_slots r ! slot in
      check_then
        (if 0 \<le> gid then
           check_then
             (require_that (nat gid < length (catalog r)) ''VRAM slot names an unknown expert'')
             (let o_e = catalog r ! nat gid;
                  is_hot_owner = (owner o_e = HOT_VRAM \<and> slot_idx o_e = int slot);
                  is_shadow = (owner o_e = WARM_HOST \<and> shadow_vram_slot o_e = int slot)
              in require_that (is_hot_owner \<or> is_shadow) ''VRAM slot map is not bijective'')
         else Inr ())
        (if vram_slot_reservations r ! slot \<noteq> 0 \<and> gid < 0 then
           require_that
             (list_ex (\<lambda>e. operation_id e = vram_slot_reservations r ! slot \<and>
                           pending_slot_idx e = int slot) (catalog r))
             ''orphaned VRAM reservation''
         else Inr ()))"

definition validate_host_slot :: "ExpertRegistry \<Rightarrow> nat \<Rightarrow> reg_error + unit" where
  "validate_host_slot r slot =
     (let gid = host_slots r ! slot in
      check_then
        (if 0 \<le> gid then
           require_that
             (\<not> (length (catalog r) \<le> nat gid \<or>
                owner (catalog r ! nat gid) \<noteq> WARM_HOST \<or>
                slot_idx (catalog r ! nat gid) \<noteq> int slot))
             ''host slot map is not bijective''
         else Inr ())
        (if host_slot_reservations r ! slot \<noteq> 0 then
           require_that
             (list_ex (\<lambda>e. operation_id e = host_slot_reservations r ! slot \<and>
                           (slot_idx e = int slot \<or> operation e = DEMOTION_PENDING)) (catalog r))
             ''orphaned host reservation''
         else Inr ()))"

text \<open>The scan of the shadow LRU; \<open>seen\<close> is the ids marked in \<open>shadow_seen\<close>.\<close>

fun shadow_scan :: "ExpertRegistry \<Rightarrow> nat list \<Rightarrow> nat list \<Rightarrow> reg_error + nat list" where
  "shadow_scan r [] seen = Inr seen"
| "shadow_scan r (gid # gids) seen =
     (if total_experts r \<le> gid \<or> gid \<in> set seen then
        Inl (LogicError ''shadow LRU contains an invalid expert'')
      else let e = catalog r ! gid in
        if owner e \<noteq> WARM_HOST \<or> shadow_vram_slot e < 0 \<or>
           vram_capacity r \<le> nat (shadow_vram_slot e) \<or>
           vram_slots r ! nat (shadow_vram_slot e) \<noteq> int gid then
          Inl (LogicError ''shadow LRU disagrees with the catalog'')
        else shadow_scan r gids (gid # seen))"

definition validate_shadow_entry ::
  "ExpertRegistry \<Rightarrow> nat list \<Rightarrow> ExpertCatalogEntry \<Rightarrow> reg_error + unit" where
  "validate_shadow_entry r seen e =
     check_then
       (require_that (\<not> (0 \<le> shadow_vram_slot e \<and> global_expert_id e \<notin> set seen))
          ''shadow residency is not in the shadow LRU'')
     (check_then
       (require_that (\<not> (warm_shadow e \<and> operation e = OP_NONE))
          ''an idle entry is flagged as a shadow copy in flight'')
       (require_that
          (\<not> (length (shadow_slot_of_expert r) = total_experts r \<and>
             shadow_slot_of_expert r ! global_expert_id e \<noteq> shadow_vram_slot e))
          ''shadow slot map disagrees with the catalog''))"

fun lru_scan ::
  "ExpertRegistry \<Rightarrow> ExpertTier \<Rightarrow> nat list \<Rightarrow> nat list \<Rightarrow> reg_error + nat list" where
  "lru_scan r tier [] seen = Inr seen"
| "lru_scan r tier (gid # gids) seen =
     (if length (catalog r) \<le> gid \<or> gid \<in> set seen \<or> \<not> in_lru (catalog r ! gid) \<or>
         owner (catalog r ! gid) \<noteq> tier \<or> publication (catalog r ! gid) \<noteq> PUBLISHED \<or>
         operation (catalog r ! gid) \<noteq> OP_NONE then
        Inl (LogicError ''LRU contains an invalid catalog entry'')
      else lru_scan r tier gids (gid # seen))"

definition validate_lru :: "ExpertRegistry \<Rightarrow> nat list \<Rightarrow> ExpertTier \<Rightarrow> reg_error + unit" where
  "validate_lru r lru tier =
     (case lru_scan r tier lru [] of
        Inl err \<Rightarrow> Inl err
      | Inr seen \<Rightarrow> check_all (\<lambda>e.
          require_that (\<not> (owner e = tier \<and> in_lru e \<noteq> (global_expert_id e \<in> set seen)))
            ''LRU membership disagrees with catalog entry'') (catalog r))"

definition validate_invariants :: "ExpertRegistry \<Rightarrow> reg_error + unit" where
  "validate_invariants r =
     check_then
       (require_that
          (\<not> (length (vram_slots r) \<noteq> vram_capacity r \<or> length (host_slots r) \<noteq> host_capacity r \<or>
             length (vram_slot_reservations r) \<noteq> vram_capacity r \<or>
             length (host_slot_reservations r) \<noteq> host_capacity r))
          ''physical slot vectors have inconsistent sizes'')
     (check_then (check_all (validate_entry r) (catalog r))
     (check_then (check_all (validate_vram_slot r) [0..<vram_capacity r])
     (check_then (check_all (validate_host_slot r) [0..<host_capacity r])
     (check_then
       (case shadow_scan r (shadow_lru r) [] of
          Inl err \<Rightarrow> Inl err
        | Inr seen \<Rightarrow> check_all (validate_shadow_entry r seen) (catalog r))
     (check_then
       (require_that (\<not> (\<not> warm_frozen r \<and> shadow_lru r \<noteq> []))
          ''a shadow residency exists outside prefill streaming'')
     (check_then
       (if \<not> prefill_stream r then
          check_all (\<lambda>e. require_that (\<not> resident_at_prefill_begin e)
            ''a prefill-begin residency mark exists outside prefill streaming'') (catalog r)
        else Inr ())
     (check_then
       (check_all (\<lambda>e. require_that (\<not> (resident_at_prefill_begin e \<and> owner e \<noteq> HOT_VRAM))
          ''a prefill-begin residency mark on a non-Hot entry'') (catalog r))
     (check_then
       (validate_lru r (hot_vram_lru r) HOT_VRAM)
       (validate_lru r (warm_host_lru r) WARM_HOST)))))))))"

definition invariants_hold :: "ExpertRegistry \<Rightarrow> bool" where
  "invariants_hold r = (validate_invariants r = Inr ())"

text \<open>
  The audit as the last statement of an operation: unconditional at the boundaries, and behind
  \<open>validate_each_request\<close> on the per-request path (\<open>checked_validate\<close>).
\<close>

definition validated :: "'a \<Rightarrow> ExpertRegistry \<Rightarrow> 'a reg_outcome" where
  "validated x r = after_check (validate_invariants r) r (ok x)"

definition checked_validate :: "'a \<Rightarrow> ExpertRegistry \<Rightarrow> 'a reg_outcome" where
  "checked_validate x r = (if validate_each_request r then validated x r else ok x r)"

subsection \<open>Usage tracking and the LRU lists\<close>

definition get_global_id :: "ExpertRegistry \<Rightarrow> nat \<Rightarrow> nat \<Rightarrow> reg_error + nat" where
  "get_global_id r l e =
     (if num_layers r \<le> l \<or> experts_per_layer r \<le> e then
        Inl (OutOfRange ''expert coordinates are out of range'')
      else Inr (u32 (l * experts_per_layer r + e)))"

definition record_activation :: "nat \<Rightarrow> ExpertCatalogEntry \<Rightarrow> ExpertCatalogEntry" where
  "record_activation current_step e =
     e\<lparr>activation_count := Suc (activation_count e), last_step_used := current_step,
       moving_frequency := (1 - 1 / 10) * moving_frequency e + 1 / 10\<rparr>"

definition push_lru_front :: "ExpertCatalogEntry \<Rightarrow> nat list \<Rightarrow> ExpertCatalogEntry \<times> nat list" where
  "push_lru_front e lru =
     (if in_lru e then (e, lru)
      else (e\<lparr>lru_it := global_expert_id e, in_lru := True\<rparr>, global_expert_id e # lru))"

definition remove_from_lru ::
  "ExpertCatalogEntry \<Rightarrow> nat list \<Rightarrow> nat \<Rightarrow> reg_error + ExpertCatalogEntry \<times> nat list" where
  "remove_from_lru e lru gid =
     (if \<not> in_lru e then Inr (e, lru)
      else if lru_it e \<noteq> gid then
        Inl (LogicError ''LRU iterator does not match catalog entry'')
      else Inr (e\<lparr>in_lru := False\<rparr>, remove1 (lru_it e) lru))"

text \<open>The two uses of each, on the Hot and on the Warm list, for the entry \<open>g\<close>.\<close>

definition push_hot :: "nat \<Rightarrow> ExpertRegistry \<Rightarrow> ExpertRegistry" where
  "push_hot g r =
     (let (e, l) = push_lru_front (ent r g) (hot_vram_lru r)
      in r\<lparr>catalog := (catalog r)[g := e], hot_vram_lru := l\<rparr>)"

definition push_warm :: "nat \<Rightarrow> ExpertRegistry \<Rightarrow> ExpertRegistry" where
  "push_warm g r =
     (let (e, l) = push_lru_front (ent r g) (warm_host_lru r)
      in r\<lparr>catalog := (catalog r)[g := e], warm_host_lru := l\<rparr>)"

definition remove_hot :: "nat \<Rightarrow> ExpertRegistry \<Rightarrow> unit reg_outcome" where
  "remove_hot g r =
     (case remove_from_lru (ent r g) (hot_vram_lru r) g of
        Inl err \<Rightarrow> throw err r
      | Inr (e, l) \<Rightarrow> ok () (r\<lparr>catalog := (catalog r)[g := e], hot_vram_lru := l\<rparr>))"

definition remove_warm :: "nat \<Rightarrow> ExpertRegistry \<Rightarrow> unit reg_outcome" where
  "remove_warm g r =
     (case remove_from_lru (ent r g) (warm_host_lru r) g of
        Inl err \<Rightarrow> throw err r
      | Inr (e, l) \<Rightarrow> ok () (r\<lparr>catalog := (catalog r)[g := e], warm_host_lru := l\<rparr>))"

definition touch_hot :: "nat \<Rightarrow> ExpertRegistry \<Rightarrow> unit reg_outcome" where
  "touch_hot g r = and_then (remove_hot g r) (\<lambda>_ r'. ok () (push_hot g r'))"

definition shadow_touch :: "nat \<Rightarrow> ExpertRegistry \<Rightarrow> ExpertRegistry" where
  "shadow_touch g r = r\<lparr>shadow_lru := g # removeAll g (shadow_lru r)\<rparr>"

definition release_shadow_residency :: "nat \<Rightarrow> ExpertRegistry \<Rightarrow> ExpertRegistry" where
  "release_shadow_residency g r =
     (if shadow_vram_slot (ent r g) < 0 then r
      else upd_ent g (\<lambda>e. e\<lparr>shadow_vram_slot := -1\<rparr>)
        (r\<lparr>shadow_lru := removeAll (global_expert_id (ent r g)) (shadow_lru r),
           shadow_slot_of_expert := (shadow_slot_of_expert r)[global_expert_id (ent r g) := -1]\<rparr>))"

subsection \<open>Destinations: a VRAM slot, and a Warm slot for its victim\<close>

text \<open>The candidates an eviction passes over, in the order of the source's tests.\<close>

definition reclaimable :: "nat \<Rightarrow> ExpertCatalogEntry \<Rightarrow> bool" where
  "reclaimable incoming_gid c \<longleftrightarrow>
     \<not> (global_expert_id c = incoming_gid \<or> operation c \<noteq> OP_NONE \<or> gpu_transfer c \<noteq> GT_NONE \<or>
        publication c \<noteq> PUBLISHED \<or> lease_count c \<noteq> 0)"

definition reclaimable_in_prefill :: "nat \<Rightarrow> ExpertCatalogEntry \<Rightarrow> bool" where
  "reclaimable_in_prefill incoming_gid c \<longleftrightarrow>
     \<not> (global_expert_id c = incoming_gid \<or> resident_at_prefill_begin c \<or>
        operation c \<noteq> OP_NONE \<or> gpu_transfer c \<noteq> GT_NONE \<or>
        publication c \<noteq> PUBLISHED \<or> lease_count c \<noteq> 0)"

definition reclaimable_shadow :: "ExpertCatalogEntry \<Rightarrow> bool" where
  "reclaimable_shadow c \<longleftrightarrow>
     \<not> (shadow_vram_slot c < 0 \<or> lease_count c \<noteq> 0 \<or> operation c \<noteq> OP_NONE \<or>
        publication c \<noteq> PUBLISHED)"

definition reserve_warm_destination :: "nat \<Rightarrow> nat \<Rightarrow> ExpertRegistry \<Rightarrow> int reg_outcome" where
  "reserve_warm_destination excluded_gid op_id r =
     (if free_host_slots r \<noteq> [] then
        let slot = last (free_host_slots r) in
        ok (int slot) (r\<lparr>free_host_slots := butlast (free_host_slots r),
             host_slot_reservations := (host_slot_reservations r)[slot := op_id]\<rparr>)
      else
        case find (\<lambda>g. reclaimable excluded_gid (ent r g)) (rev (warm_host_lru r)) of
          None \<Rightarrow> ok (-1) r
        | Some c \<Rightarrow>
            let slot = slot_idx (ent r c) in
            and_then (remove_warm c r) (\<lambda>_ r1.
              let r2 = upd_ent c (\<lambda>e. e\<lparr>owner := COLD_NVME, slot_idx := -1,
                         pending_slot_idx := -1, slot_state := UNALLOCATED\<rparr>) r1 in
              ok slot (r2\<lparr>host_slots := (host_slots r2)[nat slot := -1],
                host_slot_reservations := (host_slot_reservations r2)[nat slot := op_id]\<rparr>)))"

text \<open>The eviction of a prefill: a release, never a demotion.\<close>

definition prefill_destination ::
  "nat \<Rightarrow> nat \<Rightarrow> ExpertRegistry \<Rightarrow> (nat \<times> ExpertDemotionReservation option) reg_outcome" where
  "prefill_destination incoming_gid op_id r =
     (case find (\<lambda>g. reclaimable_shadow (ent r g)) (rev (shadow_lru r)) of
        Some c \<Rightarrow>
          let slot = nat (shadow_vram_slot (ent r c));
              r1 = release_shadow_residency c r in
          ok (slot, None)
            (r1\<lparr>vram_slots := (vram_slots r1)[slot := -1],
                vram_slot_reservations := (vram_slot_reservations r1)[slot := op_id]\<rparr>)
      | None \<Rightarrow>
        case find (\<lambda>g. reclaimable_in_prefill incoming_gid (ent r g)) (rev (hot_vram_lru r)) of
          None \<Rightarrow> throw (RuntimeError
            ''no reclaimable Hot VRAM slot is available in prefill'') r
        | Some v \<Rightarrow>
            let slot = nat (slot_idx (ent r v)) in
            and_then (remove_hot v r) (\<lambda>_ r1.
              let r2 = upd_ent v (\<lambda>e. e\<lparr>owner := COLD_NVME, slot_idx := -1,
                         pending_slot_idx := -1, publication := PUBLISHED,
                         slot_state := UNALLOCATED, operation := OP_NONE,
                         gpu_transfer := GT_NONE\<rparr>)
                       (r1\<lparr>vram_slots := (vram_slots r1)[slot := -1]\<rparr>) in
              ok (slot, None)
                (r2\<lparr>vram_slot_reservations := (vram_slot_reservations r2)[slot := op_id]\<rparr>)))"

text \<open>
  The victim of a decode eviction after its VRAM slot is reserved: a demotion is queued for it, or
  it is dropped when there is no Warm tier, the queue is full, or no Warm slot can be had.
\<close>

definition demote_victim ::
  "nat \<Rightarrow> nat \<Rightarrow> nat \<Rightarrow> nat \<Rightarrow> nat \<Rightarrow> ExpertRegistry \<Rightarrow>
   (nat \<times> ExpertDemotionReservation option) reg_outcome" where
  "demote_victim v slot incoming_gid op_id demotion_queue_capacity r =
     (let r1 = upd_ent v (\<lambda>e. e\<lparr>operation := DEMOTION_PENDING, operation_id := op_id,
                 publication := UNPUBLISHED, slot_state := ACTIVE, pending_slot_idx := -1\<rparr>) r in
      if host_capacity r1 = 0 then
        ok (slot, None) (upd_ent v (\<lambda>e. e\<lparr>gpu_transfer := GT_NONE\<rparr>) r1)
      else let r2 = r1\<lparr>demotion_attempts := Suc (demotion_attempts r1)\<rparr> in
      if demotion_queue_capacity \<le> pending_demotion_count r2 then
        ok (slot, None)
          ((upd_ent v (\<lambda>e. e\<lparr>gpu_transfer := GT_NONE,
              demotion_drop_reason := QUEUE_PRESSURE\<rparr>) r2)
            \<lparr>demotion_drops := Suc (demotion_drops r2)\<rparr>)
      else and_then (reserve_warm_destination incoming_gid op_id r2) (\<lambda>dest r3.
        if dest < 0 then
          ok (slot, None)
            ((upd_ent v (\<lambda>e. e\<lparr>gpu_transfer := GT_NONE,
                demotion_drop_reason := WARM_DESTINATION_UNAVAILABLE\<rparr>) r3)
              \<lparr>demotion_drops := Suc (demotion_drops r3)\<rparr>)
        else
          ok (slot, Some \<lparr>dr_operation_id = op_id,
                dr_victim_gid = global_expert_id (ent r3 v), dr_source_vram_slot = slot,
                dr_destination_host_slot = nat dest\<rparr>)
            ((upd_ent v (\<lambda>e. e\<lparr>gpu_transfer := D2H_PENDING,
                demotion_drop_reason := DROP_NONE\<rparr>) r3)
              \<lparr>pending_demotion_count := Suc (pending_demotion_count r3)\<rparr>)))"

definition reserve_vram_destination ::
  "nat \<Rightarrow> nat \<Rightarrow> nat \<Rightarrow> ExpertRegistry \<Rightarrow> (nat \<times> ExpertDemotionReservation option) reg_outcome" where
  "reserve_vram_destination incoming_gid op_id demotion_queue_capacity r =
     (if free_vram_slots r \<noteq> [] then
        let slot = last (free_vram_slots r) in
        ok (slot, None) (r\<lparr>free_vram_slots := butlast (free_vram_slots r),
             vram_slot_reservations := (vram_slot_reservations r)[slot := op_id]\<rparr>)
      else if prefill_stream r \<and> prefill_alloc r = FreeListOnly then
        throw (RuntimeError ''prefill stream has no free VRAM slot for a load'') r
      else if prefill_stream r \<or> warm_frozen r then
        prefill_destination incoming_gid op_id r
      else
        case find (\<lambda>g. reclaimable incoming_gid (ent r g)) (rev (hot_vram_lru r)) of
          None \<Rightarrow> throw (RuntimeError ''no reclaimable Hot VRAM slot is available'') r
        | Some v \<Rightarrow>
            let slot = nat (slot_idx (ent r v)) in
            and_then (remove_hot v r) (\<lambda>_ r1.
              demote_victim v slot incoming_gid op_id demotion_queue_capacity
                (r1\<lparr>vram_slot_reservations := (vram_slot_reservations r1)[slot := op_id]\<rparr>)))"

subsection \<open>Requests\<close>

definition lease :: "ExpertCatalogEntry \<Rightarrow> ExpertCatalogEntry" where
  "lease e = e\<lparr>lease_count := Suc (lease_count e)\<rparr>"

text \<open>The destination of a request: taken now, or deferred when the request is staged only.\<close>

definition optional_destination ::
  "bool \<Rightarrow> nat \<Rightarrow> nat \<Rightarrow> nat \<Rightarrow> ExpertRegistry \<Rightarrow>
   (nat \<times> ExpertDemotionReservation option) option reg_outcome" where
  "optional_destination defer gid op_id cap r =
     (if defer then ok None r
      else and_then (reserve_vram_destination gid op_id cap r) (\<lambda>d r'. ok (Some d) r'))"

definition destination_slot :: "(nat \<times> 'd) option \<Rightarrow> int" where
  "destination_slot d = (case d of None \<Rightarrow> -1 | Some (s, _) \<Rightarrow> int s)"

text \<open>A Warm-owned expert requested while Warm is frozen: the non-destructive copy.\<close>

definition reserve_shadow ::
  "nat \<Rightarrow> nat \<Rightarrow> bool \<Rightarrow> ExpertRegistry \<Rightarrow> ExpertRequestReservation reg_outcome" where
  "reserve_shadow gid cap stage_only r =
     (if 0 \<le> shadow_vram_slot (ent r gid) then
        ok \<lparr>rq_kind = HOT_HIT, rq_source_tier = HOT_VRAM, rq_global_expert_id = gid,
            rq_operation_id = 0, rq_vram_slot = shadow_vram_slot (ent r gid),
            rq_source_host_slot = -1, rq_lease_acquired = True, rq_demotion = None\<rparr>
          (upd_ent gid lease (shadow_touch gid (r\<lparr>hits_hot := Suc (hits_hot r)\<rparr>)))
      else
        let op_id = next_operation_id r;
            r0 = r\<lparr>next_operation_id := Suc (next_operation_id r)\<rparr> in
        and_then (optional_destination stage_only gid op_id cap r0) (\<lambda>d r1.
          let src = slot_idx (ent r1 gid);
              r2 = r1\<lparr>hits_warm := Suc (hits_warm r1), shadow_copies := Suc (shadow_copies r1)\<rparr> in
          and_then (remove_warm gid r2) (\<lambda>_ r3.
            checked_validate
              \<lparr>rq_kind = WARM_PROMOTION, rq_source_tier = WARM_HOST, rq_global_expert_id = gid,
               rq_operation_id = op_id, rq_vram_slot = destination_slot d,
               rq_source_host_slot = src, rq_lease_acquired = True, rq_demotion = None\<rparr>
              (upd_ent gid (\<lambda>e. e\<lparr>operation := PROMOTION_PENDING, operation_id := op_id,
                 gpu_transfer := H2D_PENDING, publication := UNPUBLISHED, slot_state := ACTIVE,
                 lease_count := Suc (lease_count e), pending_slot_idx := destination_slot d,
                 warm_shadow := True\<rparr>) r3))))"

text \<open>A Warm promotion or a cold read.\<close>

definition reserve_transfer ::
  "nat \<Rightarrow> nat \<Rightarrow> bool \<Rightarrow> ExpertRegistry \<Rightarrow> ExpertRequestReservation reg_outcome" where
  "reserve_transfer gid cap stage_only r =
     (let op_id = next_operation_id r;
          r0 = r\<lparr>next_operation_id := Suc (next_operation_id r)\<rparr>;
          source_tier = owner (ent r gid);
          defer_vram = (stage_only \<and> source_tier = COLD_NVME) in
      and_then (optional_destination defer_vram gid op_id cap r0) (\<lambda>d r1.
        and_then
          (if source_tier = WARM_HOST then
             let r2 = r1\<lparr>hits_warm := Suc (hits_warm r1)\<rparr>;
                 src = slot_idx (ent r2 gid) in
             and_then (remove_warm gid r2) (\<lambda>_ r3.
               ok src (upd_ent gid (\<lambda>e. e\<lparr>operation := PROMOTION_PENDING\<rparr>)
                 (r3\<lparr>host_slot_reservations := (host_slot_reservations r3)[nat src := op_id]\<rparr>)))
           else
             ok (-1) (upd_ent gid (\<lambda>e. e\<lparr>operation := IO_PENDING\<rparr>)
               (r1\<lparr>misses_cold := Suc (misses_cold r1)\<rparr>)))
          (\<lambda>src r4.
            checked_validate
              \<lparr>rq_kind = (if defer_vram then COLD_STAGED
                          else if source_tier = WARM_HOST then WARM_PROMOTION else COLD_MISS),
               rq_source_tier = source_tier, rq_global_expert_id = gid,
               rq_operation_id = op_id, rq_vram_slot = destination_slot d,
               rq_source_host_slot = src, rq_lease_acquired = True,
               rq_demotion = (case d of None \<Rightarrow> None | Some (_, dem) \<Rightarrow> dem)\<rparr>
              (upd_ent gid (\<lambda>e. e\<lparr>operation_id := op_id, gpu_transfer := H2D_PENDING,
                 publication := UNPUBLISHED, slot_state := ACTIVE,
                 lease_count := Suc (lease_count e),
                 pending_slot_idx := destination_slot d\<rparr>) r4))))"

definition reserve_request_by_gid ::
  "nat \<Rightarrow> nat \<Rightarrow> nat \<Rightarrow> bool \<Rightarrow> ExpertRegistry \<Rightarrow> ExpertRequestReservation reg_outcome" where
  "reserve_request_by_gid gid current_step cap stage_only r =
     (if length (catalog r) \<le> gid then
        throw (OutOfRange ''global expert ID is out of range'') r
      else
        let r0 = upd_ent gid (record_activation current_step) r; e = ent r0 gid in
        if operation e \<noteq> OP_NONE \<or> publication e = UNPUBLISHED then
          if operation e = OP_NONE \<or> operation_id e = 0 then
            throw (LogicError ''unpublished entry has no pending operation'') r0
          else
            ok \<lparr>rq_kind = PENDING, rq_source_tier = owner e, rq_global_expert_id = gid,
                rq_operation_id = operation_id e, rq_vram_slot = pending_slot_idx e,
                rq_source_host_slot = (if owner e = WARM_HOST then slot_idx e else -1),
                rq_lease_acquired = True, rq_demotion = None\<rparr>
              (upd_ent gid lease r0)
        else if owner e = HOT_VRAM then
          and_then (touch_hot gid (r0\<lparr>hits_hot := Suc (hits_hot r0)\<rparr>)) (\<lambda>_ r1.
            ok \<lparr>rq_kind = HOT_HIT, rq_source_tier = HOT_VRAM, rq_global_expert_id = gid,
                rq_operation_id = 0, rq_vram_slot = slot_idx (ent r1 gid),
                rq_source_host_slot = -1, rq_lease_acquired = True, rq_demotion = None\<rparr>
              (upd_ent gid lease r1))
        else if warm_frozen r0 \<and> owner e = WARM_HOST then reserve_shadow gid cap stage_only r0
        else reserve_transfer gid cap stage_only r0)"

definition reserve_request ::
  "nat \<Rightarrow> nat \<Rightarrow> nat \<Rightarrow> nat \<Rightarrow> bool \<Rightarrow> ExpertRegistry \<Rightarrow> ExpertRequestReservation reg_outcome" where
  "reserve_request l e current_step cap stage_only r =
     (case get_global_id r l e of
        Inl err \<Rightarrow> throw err r
      | Inr gid \<Rightarrow> reserve_request_by_gid gid current_step cap stage_only r)"

definition find_incoming_operation :: "nat \<Rightarrow> ExpertRegistry \<Rightarrow> nat option" where
  "find_incoming_operation op_id r =
     find (\<lambda>g. operation_id (ent r g) = op_id \<and>
               (operation (ent r g) = IO_PENDING \<or> operation (ent r g) = PROMOTION_PENDING))
       [0..<length (catalog r)]"

definition find_operation_victim :: "nat \<Rightarrow> ExpertRegistry \<Rightarrow> nat option" where
  "find_operation_victim op_id r =
     find (\<lambda>g. operation_id (ent r g) = op_id \<and> operation (ent r g) = DEMOTION_PENDING)
       [0..<length (catalog r)]"

definition attach_vram_destination :: "nat \<Rightarrow> nat \<Rightarrow> ExpertRegistry \<Rightarrow> int reg_outcome" where
  "attach_vram_destination op_id cap r =
     (case find_incoming_operation op_id r of
        None \<Rightarrow> throw (LogicError ''attach_vram_destination has no pending request'') r
      | Some g \<Rightarrow>
          if 0 \<le> pending_slot_idx (ent r g) then ok (pending_slot_idx (ent r g)) r
          else and_then (reserve_vram_destination (global_expert_id (ent r g)) op_id cap r)
            (\<lambda>(slot, _) r1.
              ok (int slot) (upd_ent g (\<lambda>e. e\<lparr>pending_slot_idx := int slot\<rparr>) r1)))"

definition release_lease :: "nat \<Rightarrow> ExpertRegistry \<Rightarrow> unit reg_outcome" where
  "release_lease gid r =
     (if length (catalog r) \<le> gid \<or> lease_count (ent r gid) = 0 then
        throw (LogicError ''releasing an unleased expert'') r
      else ok () (upd_ent gid (\<lambda>e. e\<lparr>lease_count := lease_count e - 1\<rparr>) r))"

subsection \<open>Host-slot bookkeeping (warm_partition.hpp)\<close>

definition find_reserved_host_slot :: "nat \<Rightarrow> ExpertRegistry \<Rightarrow> int" where
  "find_reserved_host_slot op_id r =
     (case find (\<lambda>s. host_slot_reservations r ! s = op_id \<and> host_slots r ! s < 0)
             [0..<host_capacity r] of
        Some s \<Rightarrow> int s
      | None \<Rightarrow>
          (case find (\<lambda>s. host_slot_reservations r ! s = op_id) [0..<host_capacity r] of
             Some s \<Rightarrow> int s
           | None \<Rightarrow> -1))"

definition release_reserved_host_slot :: "nat \<Rightarrow> ExpertRegistry \<Rightarrow> ExpertRegistry" where
  "release_reserved_host_slot slot r =
     r\<lparr>host_slots := (host_slots r)[slot := -1],
       host_slot_reservations := (host_slot_reservations r)[slot := 0],
       free_host_slots := free_host_slots r @ [slot]\<rparr>"

definition rebuild_free_host_slots :: "ExpertRegistry \<Rightarrow> ExpertRegistry" where
  "rebuild_free_host_slots r =
     r\<lparr>free_host_slots :=
         filter (\<lambda>s. host_slots r ! s < 0 \<and> host_slot_reservations r ! s = 0)
           (rev [0..<host_capacity_usable r])\<rparr>"

text \<open>The body of the loop of \<open>grow_host_capacity\<close>.\<close>

definition recover_host_slot :: "nat \<Rightarrow> ExpertRegistry \<Rightarrow> unit reg_outcome" where
  "recover_host_slot slot r =
     (if 0 \<le> host_slots r ! slot \<or> host_slot_reservations r ! slot \<noteq> 0 then
        throw (LogicError ''cannot grow Warm capacity over a slot still in use'') r
      else ok () (r\<lparr>free_host_slots := free_host_slots r @ [slot]\<rparr>))"

definition grow_host_capacity :: "nat \<Rightarrow> ExpertRegistry \<Rightarrow> unit reg_outcome" where
  "grow_host_capacity usable r =
     (if usable \<le> host_capacity_usable r then ok () r
      else if host_capacity r < usable then
        throw (OutOfRange ''host capacity exceeds the allocated region'') r
      else and_then (for_each recover_host_slot [host_capacity_usable r..<usable] r)
        (\<lambda>_ r1. checked_validate () (r1\<lparr>host_capacity_usable := usable\<rparr>)))"

definition shrink_host_capacity :: "nat \<Rightarrow> ExpertRegistry \<Rightarrow> unit reg_outcome" where
  "shrink_host_capacity usable r =
     (if host_capacity_usable r \<le> usable then ok () r
      else after_check
        (check_all (\<lambda>s. require_that
             (\<not> (0 \<le> host_slots r ! s \<or> host_slot_reservations r ! s \<noteq> 0))
             ''cannot shrink Warm capacity under a slot still in use'')
           [usable..<host_capacity_usable r]) r
        (\<lambda>r. checked_validate ()
               (rebuild_free_host_slots (r\<lparr>host_capacity_usable := usable\<rparr>))))"

text \<open>
  The body of the loop of \<open>release_host_tail\<close>. The count of demoted experts, which the loop
  accumulates in \<open>released\<close>, is threaded as part of the state.
\<close>

definition release_host_tail_step ::
  "nat \<Rightarrow> nat \<times> ExpertRegistry \<Rightarrow> (reg_error, nat \<times> ExpertRegistry, unit) outcome" where
  "release_host_tail_step slot nr =
     (let released = fst nr; r = snd nr; gid = host_slots r ! slot in
      if gid < 0 then ok () nr
      else let e = ent r (nat gid) in
        if owner e \<noteq> WARM_HOST then
          throw (LogicError ''host tail slot is not Warm-owned'') nr
        else if lease_count e \<noteq> 0 \<or> operation e \<noteq> OP_NONE then
          throw (LogicError ''cannot surrender a Warm slot with a live lease or transfer'') nr
        else
          case (if in_lru e then remove_warm (nat gid) r else ok () r) of
            (Inl err, r1) \<Rightarrow> throw err (released, r1)
          | (Inr _, r1) \<Rightarrow>
              ok () (Suc released,
                upd_ent (nat gid) (\<lambda>e. e\<lparr>owner := COLD_NVME, slot_idx := -1,
                    slot_state := UNALLOCATED\<rparr>)
                  (r1\<lparr>host_slots := (host_slots r1)[slot := -1]\<rparr>)))"

definition release_host_tail :: "nat \<Rightarrow> ExpertRegistry \<Rightarrow> nat reg_outcome" where
  "release_host_tail keep r =
     (if host_capacity_usable r < keep then
        throw (OutOfRange ''host tail keep-point is out of range'') r
      else
        case for_each release_host_tail_step [keep..<host_capacity_usable r] (0, r) of
          (Inl err, (n, r1)) \<Rightarrow> throw err r1
        | (Inr _, (n, r1)) \<Rightarrow> checked_validate n r1)"

subsection \<open>Completions and failures\<close>

definition complete_demotion :: "nat \<Rightarrow> ExpertRegistry \<Rightarrow> unit reg_outcome" where
  "complete_demotion op_id r =
     (case find_operation_victim op_id r of
        None \<Rightarrow> throw (LogicError ''demotion completion does not match a pending D2H'') r
      | Some v \<Rightarrow>
          if gpu_transfer (ent r v) \<noteq> D2H_PENDING then
            throw (LogicError ''demotion completion does not match a pending D2H'') r
          else
            let src = slot_idx (ent r v); dest = find_reserved_host_slot op_id r in
            if src < 0 \<or> dest < 0 then
              throw (LogicError ''demotion completion lost a physical slot'') r
            else
              let r1 = r\<lparr>host_slots :=
                           (host_slots r)[nat dest := int (global_expert_id (ent r v))],
                         host_slot_reservations := (host_slot_reservations r)[nat dest := 0]\<rparr>;
                  r2 = upd_ent v (\<lambda>e. e\<lparr>owner := WARM_HOST, slot_idx := dest,
                         pending_slot_idx := -1, operation := OP_NONE, gpu_transfer := GT_NONE,
                         publication := PUBLISHED, slot_state := ACTIVE,
                         demotion_drop_reason := DROP_NONE\<rparr>) r1;
                  r3 = push_warm v r2 in
              checked_validate ()
                (r3\<lparr>vram_slots := (vram_slots r3)[nat src := -1],
                    pending_demotion_count := pending_demotion_count r3 - 1,
                    demotion_completions := Suc (demotion_completions r3)\<rparr>))"

definition release_destination :: "nat \<Rightarrow> ExpertRegistry \<Rightarrow> ExpertRegistry" where
  "release_destination op_id r =
     (let dest = find_reserved_host_slot op_id r in
      if 0 \<le> dest then release_reserved_host_slot (nat dest) r else r)"

definition drop_demotion :: "nat \<Rightarrow> ExpertRegistry \<Rightarrow> unit reg_outcome" where
  "drop_demotion op_id r =
     (case find_operation_victim op_id r of
        None \<Rightarrow> throw (LogicError ''demotion drop does not match a pending victim'') r
      | Some v \<Rightarrow>
          if gpu_transfer (ent r v) = D2H_PENDING then
            throw (LogicError ''submitted D2H cannot be dropped'') r
          else
            let r1 = upd_ent v (\<lambda>e. e\<lparr>gpu_transfer := GT_NONE,
                       demotion_drop_reason := DROP_NONE\<rparr>) (release_destination op_id r) in
            checked_validate () (r1\<lparr>demotion_drops := Suc (demotion_drops r1)\<rparr>))"

text \<open>The assignments that send a victim back to NVMe, in \<open>fail_demotion\<close>, \<open>complete_request\<close> and
  \<open>fail_request\<close>.\<close>

definition retire :: "ExpertCatalogEntry \<Rightarrow> ExpertCatalogEntry" where
  "retire e = e\<lparr>owner := COLD_NVME, slot_idx := -1, pending_slot_idx := -1,
     operation := OP_NONE, gpu_transfer := GT_NONE, publication := PUBLISHED,
     slot_state := UNALLOCATED, demotion_drop_reason := DROP_NONE\<rparr>"

definition fail_demotion :: "nat \<Rightarrow> ExpertRegistry \<Rightarrow> unit reg_outcome" where
  "fail_demotion op_id r =
     (case find_operation_victim op_id r of
        None \<Rightarrow> throw (LogicError ''demotion failure does not match a pending victim'') r
      | Some v \<Rightarrow>
          if gpu_transfer (ent r v) \<noteq> D2H_PENDING then
            throw (LogicError ''unsent demotion is not a transfer failure'') r
          else
            let r1 = release_destination op_id r;
                src = slot_idx (ent r1 v);
                r2 = upd_ent v retire r1;
                r3 = (if 0 \<le> src then r2\<lparr>vram_slots := (vram_slots r2)[nat src := -1]\<rparr> else r2) in
            checked_validate ()
              (r3\<lparr>pending_demotion_count := pending_demotion_count r3 - 1,
                  demotion_drops := Suc (demotion_drops r3)\<rparr>))"

text \<open>\<open>complete_request\<close> for a Warm shadow copy.\<close>

definition complete_shadow :: "nat \<Rightarrow> int \<Rightarrow> ExpertRegistry \<Rightarrow> unit reg_outcome" where
  "complete_shadow g dest r =
     (let r1 = upd_ent g (\<lambda>e. e\<lparr>operation := OP_NONE, operation_id := 0,
                 gpu_transfer := GT_NONE, publication := PUBLISHED, slot_state := ACTIVE,
                 pending_slot_idx := -1, warm_shadow := False, shadow_vram_slot := dest\<rparr>) r;
          gid = global_expert_id (ent r1 g);
          r2 = r1\<lparr>shadow_slot_of_expert := (shadow_slot_of_expert r1)[gid := dest],
                  vram_slots := (vram_slots r1)[nat dest := int gid],
                  vram_slot_reservations := (vram_slot_reservations r1)[nat dest := 0]\<rparr>
      in checked_validate () (shadow_touch gid (push_warm g r2)))"

text \<open>The victim of an eviction whose demotion was dropped, when its request settles.\<close>

definition retire_victim :: "bool \<Rightarrow> nat \<Rightarrow> ExpertRegistry \<Rightarrow> ExpertRegistry" where
  "retire_victim free_slot v r =
     (let vs = slot_idx (ent r v);
          r1 = (if 0 \<le> vs \<and> vram_slots r ! nat vs = int (global_expert_id (ent r v)) then
                  (let r' = r\<lparr>vram_slots := (vram_slots r)[nat vs := -1]\<rparr> in
                   if free_slot then r'\<lparr>free_vram_slots := free_vram_slots r' @ [nat vs]\<rparr> else r')
                else r)
      in upd_ent v retire r1)"

definition land_request :: "nat \<Rightarrow> int \<Rightarrow> ExpertRegistry \<Rightarrow> unit reg_outcome" where
  "land_request g dest r =
     (let finish = (\<lambda>r1.
            let r2 = upd_ent g (\<lambda>e. e\<lparr>owner := HOT_VRAM, slot_idx := dest,
                       pending_slot_idx := -1, operation := OP_NONE, gpu_transfer := GT_NONE,
                       publication := PUBLISHED, slot_state := ACTIVE\<rparr>) r1;
                r3 = r2\<lparr>vram_slots :=
                          (vram_slots r2)[nat dest := int (global_expert_id (ent r2 g))],
                        vram_slot_reservations := (vram_slot_reservations r2)[nat dest := 0]\<rparr>
            in checked_validate () (push_hot g r3)) in
      if owner (ent r g) = WARM_HOST then
        let src = slot_idx (ent r g) in
        if src < 0 \<or> host_slots r ! nat src \<noteq> int (global_expert_id (ent r g)) then
          throw (LogicError ''promotion completion lost its Warm source'') r
        else finish (r\<lparr>host_slots := (host_slots r)[nat src := -1],
                       host_slot_reservations := (host_slot_reservations r)[nat src := 0],
                       free_host_slots := free_host_slots r @ [nat src]\<rparr>)
      else finish r)"

definition complete_request :: "nat \<Rightarrow> ExpertRegistry \<Rightarrow> unit reg_outcome" where
  "complete_request op_id r =
     (case find_incoming_operation op_id r of
        None \<Rightarrow> throw (LogicError ''H2D completion does not match a pending request'') r
      | Some g \<Rightarrow>
          if gpu_transfer (ent r g) \<noteq> H2D_PENDING then
            throw (LogicError ''H2D completion does not match a pending request'') r
          else
            let dest = pending_slot_idx (ent r g) in
            if dest < 0 \<or> vram_slot_reservations r ! nat dest \<noteq> op_id then
              throw (LogicError ''request completion lost its VRAM reservation'') r
            else if warm_shadow (ent r g) then complete_shadow g dest r
            else
              case find_operation_victim op_id r of
                None \<Rightarrow> land_request g dest r
              | Some v \<Rightarrow>
                  if gpu_transfer (ent r v) = D2H_PENDING then
                    throw (LogicError ''H2D completed before its D2H dependency'') r
                  else land_request g dest (retire_victim False v r))"

definition release_vram_reservation :: "int \<Rightarrow> ExpertRegistry \<Rightarrow> ExpertRegistry" where
  "release_vram_reservation dest r =
     (if 0 \<le> dest then
        (let r1 = r\<lparr>vram_slot_reservations := (vram_slot_reservations r)[nat dest := 0]\<rparr> in
         if vram_slots r1 ! nat dest = -1
         then r1\<lparr>free_vram_slots := free_vram_slots r1 @ [nat dest]\<rparr> else r1)
      else r)"

definition fail_shadow :: "nat \<Rightarrow> ExpertRegistry \<Rightarrow> unit reg_outcome" where
  "fail_shadow g r =
     (let r1 = release_vram_reservation (pending_slot_idx (ent r g)) r;
          r2 = upd_ent g (\<lambda>e. e\<lparr>operation := OP_NONE, operation_id := 0, gpu_transfer := GT_NONE,
                 publication := PUBLISHED, slot_state := ACTIVE, pending_slot_idx := -1,
                 warm_shadow := False\<rparr>) r1
      in checked_validate () (push_warm g r2))"

definition fail_incoming :: "nat \<Rightarrow> ExpertRegistry \<Rightarrow> unit reg_outcome" where
  "fail_incoming g r =
     (let r1 = (if owner (ent r g) = WARM_HOST then
                  push_warm g (r\<lparr>host_slot_reservations :=
                    (host_slot_reservations r)[nat (slot_idx (ent r g)) := 0]\<rparr>)
                else r)
      in checked_validate () (upd_ent g (\<lambda>e. e\<lparr>pending_slot_idx := -1, operation := OP_NONE,
           gpu_transfer := GT_NONE, publication := PUBLISHED\<rparr>) r1))"

definition fail_request :: "nat \<Rightarrow> ExpertRegistry \<Rightarrow> unit reg_outcome" where
  "fail_request op_id r =
     (case find_incoming_operation op_id r of
        None \<Rightarrow> throw (LogicError ''request failure does not match a pending request'') r
      | Some g \<Rightarrow>
          if warm_shadow (ent r g) then fail_shadow g r
          else
            let dest = pending_slot_idx (ent r g) in
            case find_operation_victim op_id r of
              None \<Rightarrow> fail_incoming g (release_vram_reservation dest r)
            | Some v \<Rightarrow>
                if gpu_transfer (ent r v) = D2H_PENDING then
                  throw (LogicError ''request failed before submitted D2H completed'') r
                else fail_incoming g
                       (retire_victim True v (release_vram_reservation dest r)))"

subsection \<open>Prefill streaming (prefill_residency.hpp)\<close>

text \<open>One turn of the drain loop of \<open>begin_prefill_stream\<close>: the least recently used Hot resident
  goes back to NVMe.\<close>

definition drain_one :: "ExpertRegistry \<Rightarrow> ExpertRegistry" where
  "drain_one r =
     (let gid = last (hot_vram_lru r);
          slot = slot_idx (ent r gid);
          r1 = upd_ent gid (\<lambda>e. e\<lparr>in_lru := False, resident_at_prefill_begin := False\<rparr>)
                 (r\<lparr>hot_vram_lru := butlast (hot_vram_lru r)\<rparr>);
          r2 = (if 0 \<le> slot then
                  r1\<lparr>vram_slots := (vram_slots r1)[nat slot := -1],
                     free_vram_slots := free_vram_slots r1 @ [nat slot]\<rparr>
                else r1)
      in upd_ent gid (\<lambda>e. e\<lparr>owner := COLD_NVME, slot_idx := -1,
           slot_state := UNALLOCATED\<rparr>) r2)"

text \<open>The marking loop and the resets before the drain.\<close>

definition mark_residents :: "ExpertRegistry \<Rightarrow> ExpertRegistry" where
  "mark_residents r =
     r\<lparr>catalog := map (\<lambda>e. e\<lparr>resident_at_prefill_begin := (owner e = HOT_VRAM),
                      pending_slot_idx := -1, warm_shadow := False, shadow_vram_slot := -1\<rparr>)
                    (catalog r),
       shadow_lru := [],
       shadow_slot_of_expert := replicate (total_experts r) (-1),
       vram_slot_reservations := map (\<lambda>_. 0) (vram_slot_reservations r)\<rparr>"

definition begin_prefill_stream ::
  "nat \<Rightarrow> PrefillAlloc \<Rightarrow> ExpertRegistry \<Rightarrow> unit reg_outcome" where
  "begin_prefill_stream drain_slots alloc r =
     (if prefill_stream r then ok () r
      else after_check
        (check_all (\<lambda>e. check_then
             (require_that (lease_count e = 0) ''begin_prefill_stream with a live lease'')
             (require_that (operation e = OP_NONE)
               ''begin_prefill_stream with a transfer still in flight''))
           (catalog r)) r
        (\<lambda>r. let r1 = mark_residents r;
                 r2 = (drain_one ^^ min drain_slots (length (hot_vram_lru r1))) r1
             in validated () (r2\<lparr>prefill_stream := True, prefill_alloc := alloc,
                                 warm_frozen := True\<rparr>)))"

definition end_prefill_stream :: "ExpertRegistry \<Rightarrow> unit reg_outcome" where
  "end_prefill_stream r =
     (if \<not> prefill_stream r then ok () r
      else after_check
        (check_all (\<lambda>e.
           check_then (require_that (\<not> (owner e = HOT_VRAM \<and> \<not> resident_at_prefill_begin e))
             ''end_prefill_stream with a prefill-admitted Hot resident'')
           (check_then (require_that (shadow_vram_slot e < 0)
             ''end_prefill_stream with a resident Warm shadow'')
           (check_then (require_that (lease_count e = 0) ''end_prefill_stream with a live lease'')
             (require_that (operation e = OP_NONE)
                ''end_prefill_stream with a pending transfer''))))
           (catalog r)) r
        (\<lambda>r. validated () (r\<lparr>prefill_stream := False, warm_frozen := False,
               catalog := map (\<lambda>e. e\<lparr>resident_at_prefill_begin := False\<rparr>) (catalog r)\<rparr>)))"

text \<open>The body of the loop of \<open>release_layer\<close>, for the entry at one catalog index: a
  prefill-admitted Hot copy is returned, then a Warm shadow is.\<close>

definition release_hot_copy :: "nat \<Rightarrow> ExpertRegistry \<Rightarrow> unit reg_outcome" where
  "release_hot_copy g r =
     (if owner (ent r g) = HOT_VRAM \<and> \<not> resident_at_prefill_begin (ent r g) then
        and_then (if in_lru (ent r g) then
                    (case remove_from_lru (ent r g) (hot_vram_lru r)
                            (global_expert_id (ent r g)) of
                       Inl err \<Rightarrow> throw err r
                     | Inr (e, l) \<Rightarrow> ok () (r\<lparr>catalog := (catalog r)[g := e], hot_vram_lru := l\<rparr>))
                  else ok () r)
          (\<lambda>_ r1.
            let slot = slot_idx (ent r1 g);
                r2 = (if 0 \<le> slot then
                        r1\<lparr>vram_slots := (vram_slots r1)[nat slot := -1],
                           free_vram_slots := free_vram_slots r1 @ [nat slot]\<rparr>
                      else r1)
            in ok () (upd_ent g (\<lambda>e. e\<lparr>owner := COLD_NVME, slot_idx := -1,
                 slot_state := UNALLOCATED\<rparr>) r2))
      else ok () r)"

definition release_shadow_copy :: "nat \<Rightarrow> ExpertRegistry \<Rightarrow> ExpertRegistry" where
  "release_shadow_copy g r =
     (let slot = shadow_vram_slot (ent r g) in
      if 0 \<le> slot then
        let r1 = release_shadow_residency g r in
        r1\<lparr>vram_slots := (vram_slots r1)[nat slot := -1],
           free_vram_slots := free_vram_slots r1 @ [nat slot]\<rparr>
      else r)"

definition release_layer_entry :: "nat \<Rightarrow> ExpertRegistry \<Rightarrow> unit reg_outcome" where
  "release_layer_entry g r =
     (if lease_count (ent r g) \<noteq> 0 then
        throw (LogicError ''release_layer with a live lease'') r
      else if operation (ent r g) \<noteq> OP_NONE then
        throw (LogicError ''release_layer with a transfer still in flight'') r
      else and_then (release_hot_copy g r) (\<lambda>_ r1. ok () (release_shadow_copy g r1)))"

definition release_layer :: "nat \<Rightarrow> ExpertRegistry \<Rightarrow> unit reg_outcome" where
  "release_layer layer r =
     (if \<not> prefill_stream r then
        throw (LogicError ''release_layer outside prefill streaming'') r
      else if num_layers r \<le> layer then
        throw (OutOfRange ''release_layer layer is out of range'') r
      else and_then
        (for_each (\<lambda>index. release_layer_entry (layer * experts_per_layer r + index))
           [0..<experts_per_layer r] r)
        (\<lambda>_ r1. validated () r1))"

text \<open>
  \<open>release_shadow_residencies\<close>: the loop erases the node it stands on, so it visits the list as it
  was at entry.
\<close>

definition release_idle_shadow :: "nat \<Rightarrow> ExpertRegistry \<Rightarrow> ExpertRegistry" where
  "release_idle_shadow g r =
     (if operation (ent r g) \<noteq> OP_NONE \<or> lease_count (ent r g) \<noteq> 0 then r
      else
        let slot = shadow_vram_slot (ent r g);
            r1 = (upd_ent g (\<lambda>e. e\<lparr>shadow_vram_slot := -1\<rparr>) r)
                   \<lparr>shadow_slot_of_expert :=
                      (shadow_slot_of_expert r)[global_expert_id (ent r g) := -1]\<rparr>;
            r2 = (if 0 \<le> slot then
                    r1\<lparr>vram_slots := (vram_slots r1)[nat slot := -1],
                       free_vram_slots := free_vram_slots r1 @ [nat slot]\<rparr>
                  else r1)
        in r2\<lparr>shadow_lru := remove1 g (shadow_lru r2)\<rparr>)"

definition release_shadow_residencies :: "ExpertRegistry \<Rightarrow> ExpertRegistry" where
  "release_shadow_residencies r = fold release_idle_shadow (shadow_lru r) r"

definition set_warm_frozen :: "bool \<Rightarrow> ExpertRegistry \<Rightarrow> unit reg_outcome" where
  "set_warm_frozen frozen r =
     (if prefill_stream r then ok () r
      else if frozen = warm_frozen r then ok () r
      else
        let r1 = r\<lparr>warm_frozen := frozen\<rparr>;
            r2 = (if \<not> frozen then release_shadow_residencies r1 else r1)
        in validated () r2)"

subsection \<open>Queries\<close>

definition expert_resident_at :: "ExpertCatalogEntry \<Rightarrow> bool" where
  "expert_resident_at e \<longleftrightarrow> owner e = HOT_VRAM \<or> 0 \<le> shadow_vram_slot e"

definition expert_resident :: "nat \<Rightarrow> nat \<Rightarrow> ExpertRegistry \<Rightarrow> reg_error + bool" where
  "expert_resident l e r =
     (case get_global_id r l e of
        Inl err \<Rightarrow> Inl err
      | Inr gid \<Rightarrow> Inr (expert_resident_at (ent r gid)))"

definition layer_resident_count :: "nat \<Rightarrow> ExpertRegistry \<Rightarrow> nat" where
  "layer_resident_count layer r =
     (if num_layers r \<le> layer then 0
      else length (filter (\<lambda>index. expert_resident_at
                             (ent r (layer * experts_per_layer r + index)))
             [0..<experts_per_layer r]))"

definition free_vram_slot_count :: "ExpertRegistry \<Rightarrow> nat" where
  "free_vram_slot_count r = length (free_vram_slots r)"

definition preserved_resident_count :: "ExpertRegistry \<Rightarrow> nat" where
  "preserved_resident_count r = length (filter resident_at_prefill_begin (catalog r))"

definition shadow_resident_count :: "ExpertRegistry \<Rightarrow> nat" where
  "shadow_resident_count r = length (shadow_lru r)"

definition shadow_slot_of :: "nat \<Rightarrow> ExpertRegistry \<Rightarrow> int" where
  "shadow_slot_of gid r =
     (if length (shadow_slot_of_expert r) \<le> gid then -1 else shadow_slot_of_expert r ! gid)"

definition pending_transfer_count :: "ExpertRegistry \<Rightarrow> nat" where
  "pending_transfer_count r =
     length (remdups (map operation_id
       (filter (\<lambda>e. operation e \<noteq> OP_NONE \<and> operation_id e \<noteq> 0) (catalog r))))"

definition published_hot_slots :: "ExpertRegistry \<Rightarrow> nat" where
  "published_hot_slots r = length (hot_vram_lru r)"

definition published_warm_slots :: "ExpertRegistry \<Rightarrow> nat" where
  "published_warm_slots r = length (warm_host_lru r)"

definition reset_counters :: "ExpertRegistry \<Rightarrow> ExpertRegistry" where
  "reset_counters r = r\<lparr>hits_hot := 0, hits_warm := 0, misses_cold := 0,
     demotion_attempts := 0, demotion_completions := 0, demotion_drops := 0\<rparr>"

definition set_validate_each_request :: "bool \<Rightarrow> ExpertRegistry \<Rightarrow> ExpertRegistry" where
  "set_validate_each_request enabled r = r\<lparr>validate_each_request := enabled\<rparr>"

subsection \<open>Construction\<close>

text \<open>
  The catalog after the nested loop of \<open>init\<close>, which writes each index
  \<open>layer * experts_per_layer + expert\<close> once.
\<close>

definition fresh_catalog :: "nat \<Rightarrow> nat \<Rightarrow> ExpertCatalogEntry list" where
  "fresh_catalog n experts_layer =
     map (\<lambda>gid. default_entry\<lparr>global_expert_id := gid, layer_id := u16 (gid div experts_layer),
                  expert_id := u16 (gid mod experts_layer)\<rparr>) [0..<n]"

text \<open>
  The double loop of \<open>populate_round_robin\<close> over the (expert, layer) pairs, expert-major:
  \<open>va\<close> and \<open>ha\<close> are \<open>vram_assigned\<close> and \<open>host_assigned\<close>.
\<close>

fun populate_loop ::
  "bool \<Rightarrow> (nat \<times> nat) list \<Rightarrow> nat \<Rightarrow> nat \<Rightarrow> ExpertRegistry \<Rightarrow> ExpertRegistry" where
  "populate_loop preload [] va ha r = r"
| "populate_loop preload ((expert, layer) # rest) va ha r =
     (let gid = u32 (layer * experts_per_layer r + expert) in
      if va < vram_capacity r then
        let slot = last (free_vram_slots r);
            r1 = upd_ent gid (\<lambda>e. e\<lparr>owner := HOT_VRAM, slot_idx := int slot,
                   slot_state := ACTIVE\<rparr>)
                 (r\<lparr>free_vram_slots := butlast (free_vram_slots r),
                    vram_slots := (vram_slots r)[slot := int gid]\<rparr>)
        in populate_loop preload rest (Suc va) ha (push_hot gid r1)
      else if preload \<and> ha < host_capacity_usable r then
        let slot = last (free_host_slots r);
            r1 = upd_ent gid (\<lambda>e. e\<lparr>owner := WARM_HOST, slot_idx := int slot,
                   slot_state := ACTIVE\<rparr>)
                 (r\<lparr>free_host_slots := butlast (free_host_slots r),
                    host_slots := (host_slots r)[slot := int gid]\<rparr>)
        in populate_loop preload rest va (Suc ha) (push_warm gid r1)
      else if preload then r
      else populate_loop preload rest va ha r)"

definition populate_round_robin :: "bool \<Rightarrow> ExpertRegistry \<Rightarrow> ExpertRegistry" where
  "populate_round_robin preload r =
     populate_loop preload
       (List.product [0..<experts_per_layer r] [0..<num_layers r]) 0 0 r"

text \<open>The state \<open>init\<close> reaches just before it populates the tiers.\<close>

definition blank_registry ::
  "nat \<Rightarrow> nat \<Rightarrow> nat \<Rightarrow> nat \<Rightarrow> ExpertRegistry \<Rightarrow> ExpertRegistry" where
  "blank_registry layers experts_layer vram_cap host_cap r =
     (let n = u32 (layers * experts_layer) in
      r\<lparr>num_layers := layers, experts_per_layer := experts_layer, total_experts := n,
        vram_capacity := vram_cap, host_capacity := host_cap,
        catalog := fresh_catalog n experts_layer,
        vram_slots := replicate vram_cap (-1),
        vram_slot_reservations := replicate vram_cap 0,
        free_vram_slots := rev [0..<vram_cap],
        hot_vram_lru := [],
        host_slots := replicate host_cap (-1),
        host_slot_reservations := replicate host_cap 0,
        host_capacity_usable := host_cap,
        free_host_slots := rev [0..<host_cap],
        warm_host_lru := [],
        hits_hot := 0, hits_warm := 0, misses_cold := 0, demotion_attempts := 0,
        demotion_completions := 0, demotion_drops := 0, shadow_copies := 0,
        next_operation_id := 1, pending_demotion_count := 0,
        shadow_slot_of_expert := replicate n (-1), shadow_lru := [],
        warm_frozen := False, prefill_stream := False\<rparr>)"

definition init ::
  "nat \<Rightarrow> nat \<Rightarrow> nat \<Rightarrow> nat \<Rightarrow> bool \<Rightarrow> ExpertRegistry \<Rightarrow> unit reg_outcome" where
  "init layers experts_layer vram_cap host_cap preload_warm_host r =
     (if vram_cap = 0 then
        throw (InvalidArgument ''hot_capacity must be greater than zero'') r
      else validated ()
        (populate_round_robin preload_warm_host
          (blank_registry layers experts_layer vram_cap host_cap r)))"

text \<open>A default-constructed registry.\<close>

definition default_registry :: ExpertRegistry where
  "default_registry = \<lparr>num_layers = 43, experts_per_layer = 256, total_experts = 11008,
     vram_capacity = 0, host_capacity = 0, host_capacity_usable = 0, catalog = [],
     vram_slots = [], free_vram_slots = [], host_slots = [], free_host_slots = [],
     vram_slot_reservations = [], host_slot_reservations = [], hot_vram_lru = [],
     warm_host_lru = [], hits_hot = 0, hits_warm = 0, misses_cold = 0, demotion_attempts = 0,
     demotion_completions = 0, demotion_drops = 0, shadow_copies = 0, next_operation_id = 1,
     pending_demotion_count = 0, warm_frozen = False, validate_each_request = False,
     prefill_stream = False, prefill_alloc = FreeListOnly, shadow_slot_of_expert = [],
     shadow_lru = []\<rparr>"

end
