(* ===== verification/Registry_Invariant.thy ===== *)
theory Registry_Invariant
  imports Expert_Registry
begin

text \<open>
  The registry's invariant, stronger than the source's own audit, and its consequence that the
  audit passes. The conjuncts say, for every expert: which fields an idle entry, a read or
  promotion in flight and an eviction victim have (\<open>entry_shape\<close>); that the entries and the two slot
  arrays name each other (\<open>inv_vmap\<close>, \<open>inv_hmap\<close>); that a reserved slot belongs to exactly one
  operation in flight (\<open>inv_vres\<close>, \<open>inv_hres\<close>, \<open>inv_ops\<close>); that the LRU lists, free lists, the demotion
  counter and the mode flags agree with the catalog.

  \<open>inv_vres\<close> and \<open>inv_hres\<close> take a slot that is reserved but not yet claimed by an entry: the state in
  the middle of a reservation. Between operations there is none.
\<close>

subsection \<open>Access lemmas\<close>

lemma ent_upd_ent:
  "g < length (catalog r) \<Longrightarrow> ent (upd_ent g f r) x = (if x = g then f (ent r g) else ent r x)"
  by (simp add: ent_def upd_ent_def nth_list_update)

lemma upd_ent_sel [simp]:
  "num_layers (upd_ent g f r) = num_layers r"
  "experts_per_layer (upd_ent g f r) = experts_per_layer r"
  "total_experts (upd_ent g f r) = total_experts r"
  "vram_capacity (upd_ent g f r) = vram_capacity r"
  "host_capacity (upd_ent g f r) = host_capacity r"
  "host_capacity_usable (upd_ent g f r) = host_capacity_usable r"
  "length (catalog (upd_ent g f r)) = length (catalog r)"
  "vram_slots (upd_ent g f r) = vram_slots r"
  "free_vram_slots (upd_ent g f r) = free_vram_slots r"
  "host_slots (upd_ent g f r) = host_slots r"
  "free_host_slots (upd_ent g f r) = free_host_slots r"
  "vram_slot_reservations (upd_ent g f r) = vram_slot_reservations r"
  "host_slot_reservations (upd_ent g f r) = host_slot_reservations r"
  "hot_vram_lru (upd_ent g f r) = hot_vram_lru r"
  "warm_host_lru (upd_ent g f r) = warm_host_lru r"
  "next_operation_id (upd_ent g f r) = next_operation_id r"
  "pending_demotion_count (upd_ent g f r) = pending_demotion_count r"
  "warm_frozen (upd_ent g f r) = warm_frozen r"
  "validate_each_request (upd_ent g f r) = validate_each_request r"
  "prefill_stream (upd_ent g f r) = prefill_stream r"
  "prefill_alloc (upd_ent g f r) = prefill_alloc r"
  "shadow_slot_of_expert (upd_ent g f r) = shadow_slot_of_expert r"
  "shadow_lru (upd_ent g f r) = shadow_lru r"
  "hits_hot (upd_ent g f r) = hits_hot r"
  "hits_warm (upd_ent g f r) = hits_warm r"
  "misses_cold (upd_ent g f r) = misses_cold r"
  "demotion_attempts (upd_ent g f r) = demotion_attempts r"
  "demotion_completions (upd_ent g f r) = demotion_completions r"
  "demotion_drops (upd_ent g f r) = demotion_drops r"
  "shadow_copies (upd_ent g f r) = shadow_copies r"
  by (simp_all add: upd_ent_def)

lemma ent_other_fields [simp]:
  "ent (r\<lparr>host_capacity_usable := a1\<rparr>) = ent r"
  "ent (r\<lparr>vram_slots := a2\<rparr>) = ent r"
  "ent (r\<lparr>free_vram_slots := a3\<rparr>) = ent r"
  "ent (r\<lparr>host_slots := a4\<rparr>) = ent r"
  "ent (r\<lparr>free_host_slots := a5\<rparr>) = ent r"
  "ent (r\<lparr>vram_slot_reservations := a6\<rparr>) = ent r"
  "ent (r\<lparr>host_slot_reservations := a7\<rparr>) = ent r"
  "ent (r\<lparr>hot_vram_lru := a8\<rparr>) = ent r"
  "ent (r\<lparr>warm_host_lru := a9\<rparr>) = ent r"
  "ent (r\<lparr>hits_hot := b1\<rparr>) = ent r"
  "ent (r\<lparr>hits_warm := b2\<rparr>) = ent r"
  "ent (r\<lparr>misses_cold := b3\<rparr>) = ent r"
  "ent (r\<lparr>demotion_attempts := b4\<rparr>) = ent r"
  "ent (r\<lparr>demotion_completions := b5\<rparr>) = ent r"
  "ent (r\<lparr>demotion_drops := b6\<rparr>) = ent r"
  "ent (r\<lparr>shadow_copies := b7\<rparr>) = ent r"
  "ent (r\<lparr>next_operation_id := b8\<rparr>) = ent r"
  "ent (r\<lparr>pending_demotion_count := b9\<rparr>) = ent r"
  "ent (r\<lparr>warm_frozen := c1\<rparr>) = ent r"
  "ent (r\<lparr>validate_each_request := c2\<rparr>) = ent r"
  "ent (r\<lparr>prefill_stream := c3\<rparr>) = ent r"
  "ent (r\<lparr>prefill_alloc := c4\<rparr>) = ent r"
  "ent (r\<lparr>shadow_slot_of_expert := c5\<rparr>) = ent r"
  "ent (r\<lparr>shadow_lru := c6\<rparr>) = ent r"
  by (simp_all add: ent_def fun_eq_iff)

lemma push_hot_eq:
  "\<not> in_lru (ent r g) \<Longrightarrow> push_hot g r =
     (upd_ent g (\<lambda>e. e\<lparr>lru_it := global_expert_id e, in_lru := True\<rparr>) r)
       \<lparr>hot_vram_lru := global_expert_id (ent r g) # hot_vram_lru r\<rparr>"
  by (simp add: push_hot_def push_lru_front_def upd_ent_def ent_def)

lemma push_warm_eq:
  "\<not> in_lru (ent r g) \<Longrightarrow> push_warm g r =
     (upd_ent g (\<lambda>e. e\<lparr>lru_it := global_expert_id e, in_lru := True\<rparr>) r)
       \<lparr>warm_host_lru := global_expert_id (ent r g) # warm_host_lru r\<rparr>"
  by (simp add: push_warm_def push_lru_front_def upd_ent_def ent_def)

lemma remove_hot_eq:
  "in_lru (ent r g) \<Longrightarrow> lru_it (ent r g) = g \<Longrightarrow> remove_hot g r = ok ()
     ((upd_ent g (\<lambda>e. e\<lparr>in_lru := False\<rparr>) r)\<lparr>hot_vram_lru := remove1 g (hot_vram_lru r)\<rparr>)"
  by (simp add: remove_hot_def remove_from_lru_def upd_ent_def ent_def)

lemma remove_warm_eq:
  "in_lru (ent r g) \<Longrightarrow> lru_it (ent r g) = g \<Longrightarrow> remove_warm g r = ok ()
     ((upd_ent g (\<lambda>e. e\<lparr>in_lru := False\<rparr>) r)\<lparr>warm_host_lru := remove1 g (warm_host_lru r)\<rparr>)"
  by (simp add: remove_warm_def remove_from_lru_def upd_ent_def ent_def)

subsection \<open>The invariant\<close>

definition incoming :: "ExpertCatalogEntry \<Rightarrow> bool" where
  "incoming e \<longleftrightarrow> operation e = IO_PENDING \<or> operation e = PROMOTION_PENDING"

definition entry_shape :: "ExpertCatalogEntry \<Rightarrow> bool" where
  "entry_shape e \<longleftrightarrow>
     (case operation e of
        OP_NONE \<Rightarrow> publication e = PUBLISHED \<and> gpu_transfer e = GT_NONE \<and>
          pending_slot_idx e = -1 \<and> \<not> warm_shadow e \<and> (in_lru e \<longleftrightarrow> owner e \<noteq> COLD_NVME)
      | IO_PENDING \<Rightarrow> owner e = COLD_NVME \<and> gpu_transfer e = H2D_PENDING \<and>
          publication e = UNPUBLISHED \<and> \<not> warm_shadow e \<and> \<not> in_lru e \<and> operation_id e \<noteq> 0
      | PROMOTION_PENDING \<Rightarrow> owner e = WARM_HOST \<and> gpu_transfer e = H2D_PENDING \<and>
          publication e = UNPUBLISHED \<and> \<not> in_lru e \<and> operation_id e \<noteq> 0 \<and>
          shadow_vram_slot e = -1
      | DEMOTION_PENDING \<Rightarrow> owner e = HOT_VRAM \<and> gpu_transfer e \<noteq> H2D_PENDING \<and>
          publication e = UNPUBLISHED \<and> \<not> warm_shadow e \<and> \<not> in_lru e \<and> operation_id e \<noteq> 0 \<and>
          pending_slot_idx e = -1 \<and> \<not> resident_at_prefill_begin e) \<and>
     (in_lru e \<longrightarrow> lru_it e = global_expert_id e) \<and>
     (owner e = COLD_NVME \<longleftrightarrow> slot_idx e = -1) \<and> -1 \<le> slot_idx e \<and>
     (owner e \<noteq> WARM_HOST \<longrightarrow> shadow_vram_slot e = -1) \<and>
     -1 \<le> pending_slot_idx e \<and> -1 \<le> shadow_vram_slot e \<and>
     (resident_at_prefill_begin e \<longrightarrow> owner e = HOT_VRAM)"

definition inv_sizes :: "ExpertRegistry \<Rightarrow> bool" where
  "inv_sizes r \<longleftrightarrow> length (catalog r) = total_experts r \<and>
     total_experts r = num_layers r * experts_per_layer r \<and>
     length (vram_slots r) = vram_capacity r \<and>
     length (vram_slot_reservations r) = vram_capacity r \<and>
     length (host_slots r) = host_capacity r \<and>
     length (host_slot_reservations r) = host_capacity r \<and>
     host_capacity_usable r \<le> host_capacity r \<and>
     length (shadow_slot_of_expert r) = total_experts r \<and> 0 < next_operation_id r"

definition inv_entries :: "ExpertRegistry \<Rightarrow> bool" where
  "inv_entries r \<longleftrightarrow> (\<forall>g<total_experts r. entry_shape (ent r g) \<and>
     global_expert_id (ent r g) = g \<and> operation_id (ent r g) < next_operation_id r)"

definition inv_vmap :: "ExpertRegistry \<Rightarrow> bool" where
  "inv_vmap r \<longleftrightarrow>
     (\<forall>g<total_experts r. owner (ent r g) = HOT_VRAM \<longrightarrow>
        nat (slot_idx (ent r g)) < vram_capacity r \<and>
        vram_slots r ! nat (slot_idx (ent r g)) = int g) \<and>
     (\<forall>g<total_experts r. shadow_vram_slot (ent r g) \<noteq> -1 \<longrightarrow>
        nat (shadow_vram_slot (ent r g)) < vram_capacity r \<and>
        vram_slots r ! nat (shadow_vram_slot (ent r g)) = int g) \<and>
     (\<forall>s<vram_capacity r. vram_slots r ! s \<noteq> -1 \<longrightarrow>
        0 \<le> vram_slots r ! s \<and> nat (vram_slots r ! s) < total_experts r \<and>
        (owner (ent r (nat (vram_slots r ! s))) = HOT_VRAM \<and>
           slot_idx (ent r (nat (vram_slots r ! s))) = int s \<or>
         owner (ent r (nat (vram_slots r ! s))) = WARM_HOST \<and>
           shadow_vram_slot (ent r (nat (vram_slots r ! s))) = int s))"

definition inv_hmap :: "ExpertRegistry \<Rightarrow> bool" where
  "inv_hmap r \<longleftrightarrow>
     (\<forall>g<total_experts r. owner (ent r g) = WARM_HOST \<longrightarrow>
        nat (slot_idx (ent r g)) < host_capacity_usable r \<and>
        host_slots r ! nat (slot_idx (ent r g)) = int g) \<and>
     (\<forall>s<host_capacity r. host_slots r ! s \<noteq> -1 \<longrightarrow>
        0 \<le> host_slots r ! s \<and> nat (host_slots r ! s) < total_experts r \<and>
        owner (ent r (nat (host_slots r ! s))) = WARM_HOST \<and>
        slot_idx (ent r (nat (host_slots r ! s))) = int s)"

definition inv_vres :: "nat option \<Rightarrow> ExpertRegistry \<Rightarrow> bool" where
  "inv_vres hole r \<longleftrightarrow>
     (\<forall>g<total_experts r. incoming (ent r g) \<and> pending_slot_idx (ent r g) \<noteq> -1 \<longrightarrow>
        nat (pending_slot_idx (ent r g)) < vram_capacity r \<and>
        vram_slot_reservations r ! nat (pending_slot_idx (ent r g)) = operation_id (ent r g) \<and>
        hole \<noteq> Some (nat (pending_slot_idx (ent r g)))) \<and>
     (\<forall>g<total_experts r. operation (ent r g) = DEMOTION_PENDING \<longrightarrow>
        vram_slot_reservations r ! nat (slot_idx (ent r g)) = operation_id (ent r g)) \<and>
     (\<forall>s<vram_capacity r. vram_slot_reservations r ! s \<noteq> 0 \<longrightarrow>
        hole = Some s \<or>
        (\<exists>g<total_experts r. incoming (ent r g) \<and> pending_slot_idx (ent r g) = int s)) \<and>
     (\<forall>s<vram_capacity r. vram_slot_reservations r ! s \<noteq> 0 \<longrightarrow> vram_slots r ! s \<noteq> -1 \<longrightarrow>
        operation (ent r (nat (vram_slots r ! s))) = DEMOTION_PENDING) \<and>
     (\<forall>g<total_experts r. warm_shadow (ent r g) \<and> pending_slot_idx (ent r g) \<noteq> -1 \<longrightarrow>
        vram_slots r ! nat (pending_slot_idx (ent r g)) = -1)"

definition inv_hres :: "nat option \<Rightarrow> ExpertRegistry \<Rightarrow> bool" where
  "inv_hres hole r \<longleftrightarrow>
     (\<forall>g<total_experts r. operation (ent r g) = PROMOTION_PENDING \<and> \<not> warm_shadow (ent r g) \<longrightarrow>
        host_slot_reservations r ! nat (slot_idx (ent r g)) = operation_id (ent r g)) \<and>
     (\<forall>g<total_experts r. owner (ent r g) = WARM_HOST \<and>
          (operation (ent r g) = OP_NONE \<or> warm_shadow (ent r g)) \<longrightarrow>
        host_slot_reservations r ! nat (slot_idx (ent r g)) = 0) \<and>
     (\<forall>g<total_experts r. gpu_transfer (ent r g) = D2H_PENDING \<longrightarrow>
        (\<exists>s<host_capacity r. host_slot_reservations r ! s = operation_id (ent r g) \<and>
           host_slots r ! s = -1)) \<and>
     (\<forall>s<host_capacity r. host_slot_reservations r ! s \<noteq> 0 \<longrightarrow> host_slots r ! s = -1 \<longrightarrow>
        s < host_capacity_usable r \<and>
        (hole = Some s \<or>
         (\<exists>g<total_experts r. gpu_transfer (ent r g) = D2H_PENDING \<and>
            operation_id (ent r g) = host_slot_reservations r ! s))) \<and>
     (\<forall>s<host_capacity r. \<forall>s'<host_capacity r. host_slot_reservations r ! s \<noteq> 0 \<longrightarrow>
        host_slot_reservations r ! s = host_slot_reservations r ! s' \<longrightarrow>
        host_slots r ! s = -1 \<longrightarrow> host_slots r ! s' = -1 \<longrightarrow> s = s')"

definition inv_ops :: "ExpertRegistry \<Rightarrow> bool" where
  "inv_ops r \<longleftrightarrow>
     (\<forall>g<total_experts r. \<forall>h<total_experts r. incoming (ent r g) \<longrightarrow> incoming (ent r h) \<longrightarrow>
        operation_id (ent r g) = operation_id (ent r h) \<longrightarrow> g = h) \<and>
     (\<forall>g<total_experts r. \<forall>h<total_experts r. operation (ent r g) = DEMOTION_PENDING \<longrightarrow>
        operation (ent r h) = DEMOTION_PENDING \<longrightarrow>
        operation_id (ent r g) = operation_id (ent r h) \<longrightarrow> g = h)"

definition inv_lru :: "ExpertRegistry \<Rightarrow> bool" where
  "inv_lru r \<longleftrightarrow>
     distinct (hot_vram_lru r) \<and>
     (\<forall>g. g \<in> set (hot_vram_lru r) \<longleftrightarrow>
        g < total_experts r \<and> in_lru (ent r g) \<and> owner (ent r g) = HOT_VRAM) \<and>
     distinct (warm_host_lru r) \<and>
     (\<forall>g. g \<in> set (warm_host_lru r) \<longleftrightarrow>
        g < total_experts r \<and> in_lru (ent r g) \<and> owner (ent r g) = WARM_HOST) \<and>
     distinct (shadow_lru r) \<and>
     (\<forall>g. g \<in> set (shadow_lru r) \<longleftrightarrow> g < total_experts r \<and> shadow_vram_slot (ent r g) \<noteq> -1) \<and>
     (\<forall>g<total_experts r. shadow_slot_of_expert r ! g = shadow_vram_slot (ent r g))"

definition inv_free :: "ExpertRegistry \<Rightarrow> bool" where
  "inv_free r \<longleftrightarrow>
     distinct (free_vram_slots r) \<and>
     (\<forall>s. s \<in> set (free_vram_slots r) \<longleftrightarrow>
        s < vram_capacity r \<and> vram_slots r ! s = -1 \<and> vram_slot_reservations r ! s = 0) \<and>
     distinct (free_host_slots r) \<and>
     (\<forall>s\<in>set (free_host_slots r). s < host_capacity_usable r \<and> host_slots r ! s = -1 \<and>
        host_slot_reservations r ! s = 0)"

definition inv_count :: "ExpertRegistry \<Rightarrow> bool" where
  "inv_count r \<longleftrightarrow> pending_demotion_count r =
     card {g. g < total_experts r \<and> gpu_transfer (ent r g) = D2H_PENDING}"

definition inv_mode :: "ExpertRegistry \<Rightarrow> bool" where
  "inv_mode r \<longleftrightarrow>
     (\<not> warm_frozen r \<longrightarrow> shadow_lru r = [] \<and> (\<forall>g<total_experts r. \<not> warm_shadow (ent r g))) \<and>
     (prefill_stream r \<longrightarrow> warm_frozen r) \<and>
     (\<not> prefill_stream r \<longrightarrow> (\<forall>g<total_experts r. \<not> resident_at_prefill_begin (ent r g)))"

definition reg_inv_holes :: "nat option \<Rightarrow> nat option \<Rightarrow> ExpertRegistry \<Rightarrow> bool" where
  "reg_inv_holes vh hh r \<longleftrightarrow> inv_sizes r \<and> inv_entries r \<and> inv_vmap r \<and> inv_hmap r \<and>
     inv_vres vh r \<and> inv_hres hh r \<and> inv_ops r \<and> inv_lru r \<and> inv_free r \<and> inv_count r \<and> inv_mode r"

abbreviation reg_inv :: "ExpertRegistry \<Rightarrow> bool" where
  "reg_inv \<equiv> reg_inv_holes None None"

lemmas inv_defs = reg_inv_holes_def inv_sizes_def inv_entries_def inv_vmap_def inv_hmap_def
  inv_vres_def inv_hres_def inv_ops_def inv_lru_def inv_free_def inv_count_def inv_mode_def

lemma require_that_ok [simp]: "require_that b m = Inr () \<longleftrightarrow> b"
  by (simp add: require_that_def)

lemma all_catalog:
  "length (catalog r) = total_experts r \<Longrightarrow>
   (\<forall>e\<in>set (catalog r). P e) \<longleftrightarrow> (\<forall>g<total_experts r. P (ent r g))"
  by (auto simp: all_set_conv_all_nth ent_def)

lemma list_ex_catalog:
  "length (catalog r) = total_experts r \<Longrightarrow>
   list_ex P (catalog r) \<longleftrightarrow> (\<exists>g<total_experts r. P (ent r g))"
  by (auto simp: list_ex_iff in_set_conv_nth ent_def) (metis nth_mem)

subsection \<open>Using the invariant\<close>

lemma reg_invD:
  assumes "reg_inv_holes vh hh r"
  shows "inv_sizes r" "inv_entries r" "inv_vmap r" "inv_hmap r" "inv_vres vh r" "inv_hres hh r"
    "inv_ops r" "inv_lru r" "inv_free r" "inv_count r" "inv_mode r"
  using assms by (simp_all add: reg_inv_holes_def)

lemma inv_sizesD:
  assumes "inv_sizes r"
  shows "length (catalog r) = total_experts r"
     "length (vram_slots r) = vram_capacity r" "length (vram_slot_reservations r) = vram_capacity r"
     "length (host_slots r) = host_capacity r" "length (host_slot_reservations r) = host_capacity r"
     "host_capacity_usable r \<le> host_capacity r"
     "length (shadow_slot_of_expert r) = total_experts r" "0 < next_operation_id r"
  using assms unfolding inv_sizes_def by blast+

lemma inv_sizes_total: "inv_sizes r \<Longrightarrow> total_experts r = num_layers r * experts_per_layer r"
  unfolding inv_sizes_def by blast

lemma inv_entriesD:
  assumes "inv_entries r" and "g < total_experts r"
  shows "entry_shape (ent r g)" "global_expert_id (ent r g) = g"
    "operation_id (ent r g) < next_operation_id r"
  using assms unfolding inv_entries_def by blast+

lemma inv_vmapD:
  assumes "inv_vmap r"
  shows "g < total_experts r \<Longrightarrow> owner (ent r g) = HOT_VRAM \<Longrightarrow>
      nat (slot_idx (ent r g)) < vram_capacity r \<and> vram_slots r ! nat (slot_idx (ent r g)) = int g"
    "g < total_experts r \<Longrightarrow> shadow_vram_slot (ent r g) \<noteq> -1 \<Longrightarrow>
      nat (shadow_vram_slot (ent r g)) < vram_capacity r \<and>
      vram_slots r ! nat (shadow_vram_slot (ent r g)) = int g"
    "s < vram_capacity r \<Longrightarrow> vram_slots r ! s \<noteq> -1 \<Longrightarrow>
        0 \<le> vram_slots r ! s \<and> nat (vram_slots r ! s) < total_experts r \<and>
        (owner (ent r (nat (vram_slots r ! s))) = HOT_VRAM \<and>
           slot_idx (ent r (nat (vram_slots r ! s))) = int s \<or>
         owner (ent r (nat (vram_slots r ! s))) = WARM_HOST \<and>
           shadow_vram_slot (ent r (nat (vram_slots r ! s))) = int s)"
  using assms unfolding inv_vmap_def by blast+

lemma inv_hmapD:
  assumes "inv_hmap r"
  shows "g < total_experts r \<Longrightarrow> owner (ent r g) = WARM_HOST \<Longrightarrow>
      nat (slot_idx (ent r g)) < host_capacity_usable r \<and>
      host_slots r ! nat (slot_idx (ent r g)) = int g"
    "s < host_capacity r \<Longrightarrow> host_slots r ! s \<noteq> -1 \<Longrightarrow>
        0 \<le> host_slots r ! s \<and> nat (host_slots r ! s) < total_experts r \<and>
        owner (ent r (nat (host_slots r ! s))) = WARM_HOST \<and>
        slot_idx (ent r (nat (host_slots r ! s))) = int s"
  using assms unfolding inv_hmap_def by blast+

lemma inv_vresD:
  assumes "inv_vres h r"
  shows "g < total_experts r \<Longrightarrow> incoming (ent r g) \<Longrightarrow> pending_slot_idx (ent r g) \<noteq> -1 \<Longrightarrow>
        nat (pending_slot_idx (ent r g)) < vram_capacity r \<and>
        vram_slot_reservations r ! nat (pending_slot_idx (ent r g)) = operation_id (ent r g) \<and>
        h \<noteq> Some (nat (pending_slot_idx (ent r g)))"
    "g < total_experts r \<Longrightarrow> operation (ent r g) = DEMOTION_PENDING \<Longrightarrow>
        vram_slot_reservations r ! nat (slot_idx (ent r g)) = operation_id (ent r g)"
    "s < vram_capacity r \<Longrightarrow> vram_slot_reservations r ! s \<noteq> 0 \<Longrightarrow> h = Some s \<or>
        (\<exists>g<total_experts r. incoming (ent r g) \<and> pending_slot_idx (ent r g) = int s)"
    "s < vram_capacity r \<Longrightarrow> vram_slot_reservations r ! s \<noteq> 0 \<Longrightarrow> vram_slots r ! s \<noteq> -1 \<Longrightarrow>
        operation (ent r (nat (vram_slots r ! s))) = DEMOTION_PENDING"
    "g < total_experts r \<Longrightarrow> warm_shadow (ent r g) \<Longrightarrow> pending_slot_idx (ent r g) \<noteq> -1 \<Longrightarrow>
        vram_slots r ! nat (pending_slot_idx (ent r g)) = -1"
  using assms unfolding inv_vres_def by blast+

lemma inv_hresD:
  assumes "inv_hres h r"
  shows "g < total_experts r \<Longrightarrow> operation (ent r g) = PROMOTION_PENDING \<Longrightarrow>
        \<not> warm_shadow (ent r g) \<Longrightarrow>
        host_slot_reservations r ! nat (slot_idx (ent r g)) = operation_id (ent r g)"
    "g < total_experts r \<Longrightarrow> owner (ent r g) = WARM_HOST \<Longrightarrow>
        operation (ent r g) = OP_NONE \<or> warm_shadow (ent r g) \<Longrightarrow>
        host_slot_reservations r ! nat (slot_idx (ent r g)) = 0"
    "g < total_experts r \<Longrightarrow> gpu_transfer (ent r g) = D2H_PENDING \<Longrightarrow>
        \<exists>s<host_capacity r. host_slot_reservations r ! s = operation_id (ent r g) \<and>
           host_slots r ! s = -1"
    "s < host_capacity r \<Longrightarrow> host_slot_reservations r ! s \<noteq> 0 \<Longrightarrow> host_slots r ! s = -1 \<Longrightarrow>
        s < host_capacity_usable r \<and> (h = Some s \<or>
         (\<exists>g<total_experts r. gpu_transfer (ent r g) = D2H_PENDING \<and>
            operation_id (ent r g) = host_slot_reservations r ! s))"
    "s < host_capacity r \<Longrightarrow> s' < host_capacity r \<Longrightarrow> host_slot_reservations r ! s \<noteq> 0 \<Longrightarrow>
        host_slot_reservations r ! s = host_slot_reservations r ! s' \<Longrightarrow>
        host_slots r ! s = -1 \<Longrightarrow> host_slots r ! s' = -1 \<Longrightarrow> s = s'"
  using assms unfolding inv_hres_def by blast+

lemma entry_shapeD:
  assumes "entry_shape e"
  shows "operation e = OP_NONE \<Longrightarrow> publication e = PUBLISHED \<and> gpu_transfer e = GT_NONE \<and>
          pending_slot_idx e = -1 \<and> \<not> warm_shadow e \<and> (in_lru e \<longleftrightarrow> owner e \<noteq> COLD_NVME)"
    "operation e = IO_PENDING \<Longrightarrow> owner e = COLD_NVME \<and> gpu_transfer e = H2D_PENDING \<and>
          publication e = UNPUBLISHED \<and> \<not> warm_shadow e \<and> \<not> in_lru e \<and> operation_id e \<noteq> 0"
    "operation e = PROMOTION_PENDING \<Longrightarrow> owner e = WARM_HOST \<and> gpu_transfer e = H2D_PENDING \<and>
          publication e = UNPUBLISHED \<and> \<not> in_lru e \<and> operation_id e \<noteq> 0 \<and>
          shadow_vram_slot e = -1"
    "operation e = DEMOTION_PENDING \<Longrightarrow> owner e = HOT_VRAM \<and> gpu_transfer e \<noteq> H2D_PENDING \<and>
          publication e = UNPUBLISHED \<and> \<not> warm_shadow e \<and> \<not> in_lru e \<and> operation_id e \<noteq> 0 \<and>
          pending_slot_idx e = -1 \<and> \<not> resident_at_prefill_begin e"
    "in_lru e \<Longrightarrow> lru_it e = global_expert_id e"
    "owner e = COLD_NVME \<longleftrightarrow> slot_idx e = -1" "-1 \<le> slot_idx e"
    "owner e \<noteq> WARM_HOST \<Longrightarrow> shadow_vram_slot e = -1"
    "-1 \<le> pending_slot_idx e" "-1 \<le> shadow_vram_slot e"
    "resident_at_prefill_begin e \<Longrightarrow> owner e = HOT_VRAM"
  using assms unfolding entry_shape_def by simp_all

text \<open>What single fields of a well-shaped entry say.\<close>

lemma shape_in_lru: "entry_shape e \<Longrightarrow> in_lru e \<Longrightarrow>
    operation e = OP_NONE \<and> publication e = PUBLISHED \<and> gpu_transfer e = GT_NONE \<and> lru_it e = global_expert_id e"
  by (cases "operation e") (auto dest: entry_shapeD)

lemma shape_d2h: "entry_shape e \<Longrightarrow> gpu_transfer e = D2H_PENDING \<Longrightarrow> operation e = DEMOTION_PENDING"
  by (cases "operation e") (auto dest: entry_shapeD)

lemma shape_pending: "entry_shape e \<Longrightarrow> pending_slot_idx e \<noteq> -1 \<Longrightarrow> incoming e"
  by (cases "operation e") (auto dest: entry_shapeD simp: incoming_def)

lemma shape_op_id: "entry_shape e \<Longrightarrow> operation e \<noteq> OP_NONE \<Longrightarrow> operation_id e \<noteq> 0"
  by (cases "operation e") (auto dest: entry_shapeD)

lemma shape_warm_shadow: "entry_shape e \<Longrightarrow> warm_shadow e \<Longrightarrow> operation e = PROMOTION_PENDING"
  by (cases "operation e") (auto dest: entry_shapeD)

lemma shape_slot: "entry_shape e \<Longrightarrow> owner e \<noteq> COLD_NVME \<Longrightarrow> 0 \<le> slot_idx e"
  using entry_shapeD(6,7)[of e] by linarith

lemma shape_warm: "entry_shape e \<Longrightarrow> owner e = WARM_HOST \<Longrightarrow> operation e = OP_NONE \<or> operation e = PROMOTION_PENDING"
  by (cases "operation e") (auto dest: entry_shapeD)

lemma shape_shadow: "entry_shape e \<Longrightarrow> shadow_vram_slot e \<noteq> -1 \<Longrightarrow> owner e = WARM_HOST \<and> operation e = OP_NONE \<and> 0 \<le> shadow_vram_slot e"
  using entry_shapeD(8,10)[of e] entry_shapeD(3)[of e] shape_warm[of e] by force

subsection \<open>Establishing the invariant\<close>

lemma reg_inv_holesI:
  assumes "inv_sizes r" "inv_entries r" "inv_vmap r" "inv_hmap r" "inv_vres vh r" "inv_hres hh r"
    "inv_ops r" "inv_lru r" "inv_free r" "inv_count r" "inv_mode r"
  shows "reg_inv_holes vh hh r"
  using assms by (simp add: reg_inv_holes_def)

text \<open>The entries after an update of one of them.\<close>

lemma inv_entries_one:
  assumes "inv_entries r" and "total_experts r' = total_experts r"
    and "next_operation_id r \<le> next_operation_id r'"
    and "\<And>g. g \<noteq> v \<Longrightarrow> ent r' g = ent r g"
    and "entry_shape (ent r' v)" "global_expert_id (ent r' v) = v"
    and "operation_id (ent r' v) < next_operation_id r'"
  shows "inv_entries r'"
  unfolding inv_entries_def
proof (intro allI impI)
  fix g assume "g < total_experts r'"
  then show "entry_shape (ent r' g) \<and> global_expert_id (ent r' g) = g \<and>
      operation_id (ent r' g) < next_operation_id r'"
    using assms by (cases "g = v") (auto simp: inv_entries_def)
qed

lemma card_without:
  assumes "v < (n::nat)" and "P v"
  shows "card {g. g < n \<and> g \<noteq> v \<and> P g} = card {g. g < n \<and> P g} - 1"
proof -
  have "{g. g < n \<and> g \<noteq> v \<and> P g} = {g. g < n \<and> P g} - {v}" by auto
  then show ?thesis using assms by simp
qed

subsection \<open>The audit passes\<close>

lemma validate_entry_ok:
  assumes inv: "reg_inv r" and g: "g < total_experts r"
  shows "validate_entry r (ent r g) = Inr ()"
proof -
  note I = reg_invD[OF inv]
  have sh: "entry_shape (ent r g)" and id: "global_expert_id (ent r g) = g"
    using I(2) g by (auto dest: inv_entriesD)
  have op: "operation (ent r g) = OP_NONE \<or> operation_id (ent r g) \<noteq> 0"
    using shape_op_id[OF sh] by blast
  have "owner (ent r g) \<noteq> COLD_NVME \<Longrightarrow> 0 \<le> slot_idx (ent r g)"
    using sh by (rule shape_slot)
  moreover have "pending_slot_idx (ent r g) \<noteq> -1 \<Longrightarrow>
        nat (pending_slot_idx (ent r g)) < vram_capacity r \<and>
        vram_slot_reservations r ! nat (pending_slot_idx (ent r g)) = operation_id (ent r g)"
    using inv_vresD(1)[OF I(5) g] shape_pending[OF sh] by blast
  moreover have "pending_slot_idx (ent r g) \<noteq> -1 \<or> \<not> 0 \<le> pending_slot_idx (ent r g)" by linarith
  ultimately show ?thesis
    using sh inv_vmapD(1)[OF I(3) g] inv_hmapD(1)[OF I(4) g]
      entry_shapeD(1)[OF sh] entry_shapeD(6)[OF sh] op
    by (cases "owner (ent r g)") (auto simp: validate_entry_def id)
qed

lemma validate_vram_slot_ok:
  assumes inv: "reg_inv r" and s: "s < vram_capacity r"
  shows "validate_vram_slot r s = Inr ()"
proof -
  note I = reg_invD[OF inv]
  have res: "\<exists>g<total_experts r. operation_id (ent r g) = vram_slot_reservations r ! s \<and>
      pending_slot_idx (ent r g) = int s" if nz: "vram_slot_reservations r ! s \<noteq> 0"
  proof -
    obtain g where g: "g < total_experts r" "incoming (ent r g)" "pending_slot_idx (ent r g) = int s"
      using inv_vresD(3)[OF I(5) s nz] by auto
    then show ?thesis using inv_vresD(1)[OF I(5) g(1,2)] by auto
  qed
  have "length (catalog r) = total_experts r" using I(1) by (rule inv_sizesD)
  then show ?thesis
    using res inv_vmapD(3)[OF I(3) s]
    by (auto simp: validate_vram_slot_def Let_def ent_def[symmetric] list_ex_catalog)
qed

lemma validate_host_slot_ok:
  assumes inv: "reg_inv r" and s: "s < host_capacity r"
  shows "validate_host_slot r s = Inr ()"
proof -
  note I = reg_invD[OF inv]
  note H = inv_hmapD(2)[OF I(4) s]
  have "\<exists>g<total_experts r. operation_id (ent r g) = host_slot_reservations r ! s \<and> 
        (slot_idx (ent r g) = int s \<or> operation (ent r g) = DEMOTION_PENDING)"
    if nz: "host_slot_reservations r ! s \<noteq> 0"
  proof (cases "host_slots r ! s = -1")
    case True
    then show ?thesis using inv_hresD(4)[OF I(6) s nz] shape_d2h inv_entriesD(1)[OF I(2)] by blast
  next
    case False
    let ?g = "nat (host_slots r ! s)"
    have g: "?g < total_experts r" "owner (ent r ?g) = WARM_HOST" "slot_idx (ent r ?g) = int s"
      using H[OF False] by auto
    then have "operation (ent r ?g) = PROMOTION_PENDING \<and> \<not> warm_shadow (ent r ?g)"
      using inv_hresD(2)[OF I(6) g(1,2)] nz shape_warm[OF inv_entriesD(1)[OF I(2) g(1)] g(2)] by auto
    then show ?thesis using inv_hresD(1)[OF I(6) g(1)] g by auto
  qed
  moreover have "length (catalog r) = total_experts r" using I(1) by (rule inv_sizesD)
  ultimately show ?thesis using H
    by (auto simp: validate_host_slot_def Let_def ent_def[symmetric] list_ex_catalog)
qed

lemma lru_scan_ok:
  assumes "distinct (lru @ seen)" and "length (catalog r) = total_experts r"
    and "\<forall>g\<in>set lru. g < total_experts r \<and> in_lru (ent r g) \<and> owner (ent r g) = tier \<and>
           publication (ent r g) = PUBLISHED \<and> operation (ent r g) = OP_NONE"
  shows "lru_scan r tier lru seen = Inr (rev lru @ seen)"
  using assms by (induction lru arbitrary: seen) (auto simp: ent_def)

lemma shadow_scan_ok:
  assumes "distinct (lru @ seen)"
    and "\<forall>g\<in>set lru. g < total_experts r \<and> owner (ent r g) = WARM_HOST \<and>
           0 \<le> shadow_vram_slot (ent r g) \<and> nat (shadow_vram_slot (ent r g)) < vram_capacity r \<and>
           vram_slots r ! nat (shadow_vram_slot (ent r g)) = int g"
  shows "shadow_scan r lru seen = Inr (rev lru @ seen)"
  using assms by (induction lru arbitrary: seen) (auto simp: ent_def Let_def)

lemma validate_lru_ok:
  assumes inv: "reg_inv r" and "distinct lru" 
    and lru: "\<And>g. g \<in> set lru \<longleftrightarrow> g < total_experts r \<and> in_lru (ent r g) \<and> owner (ent r g) = tier"
  shows "validate_lru r lru tier = Inr ()"
proof -
  note I = reg_invD[OF inv]
  have len: "length (catalog r) = total_experts r" using I(1) by (rule inv_sizesD)
  have "lru_scan r tier lru [] = Inr (rev lru)"
    using lru_scan_ok[of lru "[]" r tier] assms(2) len lru inv_entriesD(1)[OF I(2)] shape_in_lru
    by auto
  then show ?thesis
    using lru inv_entriesD(2)[OF I(2)] by (auto simp: validate_lru_def len all_catalog)
qed

lemma reg_inv_validates:
  assumes inv: "reg_inv r"
  shows "validate_invariants r = Inr ()"
proof -
  note I = reg_invD[OF inv]
  note len = inv_sizesD[OF I(1)]
  have sh: "\<And>g. g < total_experts r \<Longrightarrow> entry_shape (ent r g)" using I(2) by (rule inv_entriesD)
  have lru: "validate_lru r (hot_vram_lru r) HOT_VRAM = Inr ()"
    "validate_lru r (warm_host_lru r) WARM_HOST = Inr ()"
    using I(8) by (auto intro!: validate_lru_ok[OF inv] simp: inv_lru_def)
  have scan: "shadow_scan r (shadow_lru r) [] = Inr (rev (shadow_lru r))"
    using shadow_scan_ok[of "shadow_lru r" "[]" r] I(8) inv_vmapD(2)[OF I(3)] shape_shadow[OF sh]
    by (auto simp: inv_lru_def)
  have "\<forall>g<total_experts r. validate_shadow_entry r (rev (shadow_lru r)) (ent r g) = Inr ()"
    using I(8) inv_entriesD(2)[OF I(2)] shape_warm_shadow[OF sh]
    by (auto simp: validate_shadow_entry_def inv_lru_def)
  moreover have "\<forall>g<total_experts r. validate_entry r (ent r g) = Inr ()"
    using validate_entry_ok[OF inv] by blast
  ultimately show ?thesis
    using len lru scan I(11) validate_vram_slot_ok[OF inv] validate_host_slot_ok[OF inv]
      entry_shapeD(11)[OF sh]
    by (auto simp: validate_invariants_def all_catalog inv_mode_def)
qed

end
