(* ===== verification/Registry_Slots.thy ===== *)
theory Registry_Slots
  imports Registry_Invariant
begin

text \<open>
  How the slot conjuncts of the invariant move under the few changes the operations are made of: one
  entry leaves or takes a slot, a reservation is opened, claimed or given back. Each lemma speaks of
  the state \<open>r\<close> before and \<open>r'\<close> after, which agree on every entry but \<open>v\<close>.
\<close>

subsection \<open>VRAM occupancy\<close>

lemma vmap_release:
  assumes vm: "inv_vmap r" and s: "s < vram_capacity r" "vram_slots r ! s = int v"
    and len: "length (vram_slots r) = vram_capacity r"
    and T: "total_experts r' = total_experts r" "vram_capacity r' = vram_capacity r"
    and E: "\<And>g. g \<noteq> v \<Longrightarrow> ent r' g = ent r g"
    and E': "owner (ent r' v) \<noteq> HOT_VRAM" "shadow_vram_slot (ent r' v) = -1"
    and V: "vram_slots r' = (vram_slots r)[s := -1]"
  shows "inv_vmap r'"
  unfolding inv_vmap_def T
proof (intro conjI allI impI)
  fix g assume g: "g < total_experts r" and o: "owner (ent r' g) = HOT_VRAM"
  then have gv: "g \<noteq> v" using E' by auto
  then show "nat (slot_idx (ent r' g)) < vram_capacity r"
    "vram_slots r' ! nat (slot_idx (ent r' g)) = int g"
    using inv_vmapD(1)[OF vm g] o E[OF gv] s V len by (auto simp: nth_list_update)
next
  fix g assume g: "g < total_experts r" and o: "shadow_vram_slot (ent r' g) \<noteq> -1"
  then have gv: "g \<noteq> v" using E' by auto
  then show "nat (shadow_vram_slot (ent r' g)) < vram_capacity r"
    "vram_slots r' ! nat (shadow_vram_slot (ent r' g)) = int g"
    using inv_vmapD(2)[OF vm g] o E[OF gv] s V len by (auto simp: nth_list_update)
next
  fix t assume t: "t < vram_capacity r" and n: "vram_slots r' ! t \<noteq> -1"
  have ts: "t \<noteq> s" using n V t len by auto
  then have eq: "vram_slots r' ! t = vram_slots r ! t" using V by simp
  note occ = inv_vmapD(3)[OF vm t]
  have "owner (ent r v) = HOT_VRAM \<and> slot_idx (ent r v) = int s \<or>
      owner (ent r v) = WARM_HOST \<and> shadow_vram_slot (ent r v) = int s"
    using inv_vmapD(3)[OF vm s(1)] s(2) by simp
  then have "nat (vram_slots r ! t) \<noteq> v"
    using occ n ts unfolding eq by fastforce
  then show "0 \<le> vram_slots r' ! t" "nat (vram_slots r' ! t) < total_experts r"
     "owner (ent r' (nat (vram_slots r' ! t))) = HOT_VRAM \<and> slot_idx (ent r' (nat (vram_slots r' ! t))) = int t \<or>
      owner (ent r' (nat (vram_slots r' ! t))) = WARM_HOST \<and> shadow_vram_slot (ent r' (nat (vram_slots r' ! t))) = int t"
    using occ n eq E by auto
qed

lemma vmap_occupy:
  assumes vm: "inv_vmap r" and s: "s < vram_capacity r" "vram_slots r ! s = -1"
    and v: "v < total_experts r" "owner (ent r v) \<noteq> HOT_VRAM" "shadow_vram_slot (ent r v) = -1"
    and len: "length (vram_slots r) = vram_capacity r"
    and T: "total_experts r' = total_experts r" "vram_capacity r' = vram_capacity r"
    and E: "\<And>g. g \<noteq> v \<Longrightarrow> ent r' g = ent r g"
    and E': "owner (ent r' v) = HOT_VRAM \<and> slot_idx (ent r' v) = int s \<and> shadow_vram_slot (ent r' v) = -1 \<or>
             owner (ent r' v) = WARM_HOST \<and> shadow_vram_slot (ent r' v) = int s"
    and V: "vram_slots r' = (vram_slots r)[s := int v]"
  shows "inv_vmap r'"
  unfolding inv_vmap_def T
proof (intro conjI allI impI)
  fix g assume g: "g < total_experts r" and o: "owner (ent r' g) = HOT_VRAM"
  show "nat (slot_idx (ent r' g)) < vram_capacity r"
    "vram_slots r' ! nat (slot_idx (ent r' g)) = int g"
    using inv_vmapD(1)[OF vm g] o E[of g] E' s V len by (cases "g = v"; auto simp: nth_list_update)+
next
  fix g assume g: "g < total_experts r" and o: "shadow_vram_slot (ent r' g) \<noteq> -1"
  show "nat (shadow_vram_slot (ent r' g)) < vram_capacity r"
    "vram_slots r' ! nat (shadow_vram_slot (ent r' g)) = int g"
    using inv_vmapD(2)[OF vm g] o E[of g] E' s V len by (cases "g = v"; auto simp: nth_list_update)+
next
  fix t assume t: "t < vram_capacity r" and n: "vram_slots r' ! t \<noteq> -1"
  have ne: "t \<noteq> s \<Longrightarrow> nat (vram_slots r ! t) \<noteq> v"
    using inv_vmapD(3)[OF vm t] n V v by auto
  show "0 \<le> vram_slots r' ! t" "nat (vram_slots r' ! t) < total_experts r"
     "owner (ent r' (nat (vram_slots r' ! t))) = HOT_VRAM \<and> slot_idx (ent r' (nat (vram_slots r' ! t))) = int t \<or>
      owner (ent r' (nat (vram_slots r' ! t))) = WARM_HOST \<and> shadow_vram_slot (ent r' (nat (vram_slots r' ! t))) = int t"
    using inv_vmapD(3)[OF vm t] n E E' V ne s len v by (cases "t = s"; auto)+
qed

lemma vmap_frame:
  assumes vm: "inv_vmap r"
    and T: "total_experts r' = total_experts r" "vram_capacity r' = vram_capacity r" "vram_slots r' = vram_slots r"
    and E: "\<And>g. g < total_experts r \<Longrightarrow> (owner (ent r' g) = HOT_VRAM \<longleftrightarrow> owner (ent r g) = HOT_VRAM) \<and>
        (owner (ent r g) = HOT_VRAM \<longrightarrow> slot_idx (ent r' g) = slot_idx (ent r g)) \<and>
        shadow_vram_slot (ent r' g) = shadow_vram_slot (ent r g) \<and>
        (shadow_vram_slot (ent r g) \<noteq> -1 \<longrightarrow> owner (ent r' g) = owner (ent r g))"
  shows "inv_vmap r'"
  unfolding inv_vmap_def T
proof (intro conjI allI impI)
  fix g assume g: "g < total_experts r"
  show "nat (slot_idx (ent r' g)) < vram_capacity r" "vram_slots r ! nat (slot_idx (ent r' g)) = int g"
    if "owner (ent r' g) = HOT_VRAM"
    using inv_vmapD(1)[OF vm g] E[OF g] that by auto
  show "nat (shadow_vram_slot (ent r' g)) < vram_capacity r"
    "vram_slots r ! nat (shadow_vram_slot (ent r' g)) = int g"
    if "shadow_vram_slot (ent r' g) \<noteq> -1"
    using inv_vmapD(2)[OF vm g] E[OF g] that by auto
next
  fix t assume t: "t < vram_capacity r" and n: "vram_slots r ! t \<noteq> -1"
  note occ = inv_vmapD(3)[OF vm t n]
  show "0 \<le> vram_slots r ! t" "nat (vram_slots r ! t) < total_experts r"
     "owner (ent r' (nat (vram_slots r ! t))) = HOT_VRAM \<and> slot_idx (ent r' (nat (vram_slots r ! t))) = int t \<or>
      owner (ent r' (nat (vram_slots r ! t))) = WARM_HOST \<and> shadow_vram_slot (ent r' (nat (vram_slots r ! t))) = int t"
    using occ E[of "nat (vram_slots r ! t)"] by auto
qed

subsection \<open>Host occupancy\<close>

lemma hmap_release:
  assumes hm: "inv_hmap r" and s: "s < host_capacity r" "host_slots r ! s = int v"
    and len: "length (host_slots r) = host_capacity r" "host_capacity_usable r \<le> host_capacity r"
    and T: "total_experts r' = total_experts r" "host_capacity r' = host_capacity r"
      "host_capacity_usable r' = host_capacity_usable r"
    and E: "\<And>g. g \<noteq> v \<Longrightarrow> ent r' g = ent r g"
    and E': "owner (ent r' v) \<noteq> WARM_HOST"
    and V: "host_slots r' = (host_slots r)[s := -1]"
  shows "inv_hmap r'"
  unfolding inv_hmap_def T
proof (intro conjI allI impI)
  fix g assume g: "g < total_experts r" and o: "owner (ent r' g) = WARM_HOST"
  then have gv: "g \<noteq> v" using E' by auto
  then show "nat (slot_idx (ent r' g)) < host_capacity_usable r"
    "host_slots r' ! nat (slot_idx (ent r' g)) = int g"
    using inv_hmapD(1)[OF hm g] o E[OF gv] s V len by (auto simp: nth_list_update)
next
  fix t assume t: "t < host_capacity r" and n: "host_slots r' ! t \<noteq> -1"
  have ts: "t \<noteq> s" using n V t len by auto
  then have eq: "host_slots r' ! t = host_slots r ! t" using V by simp
  note occ = inv_hmapD(2)[OF hm t]
  have "slot_idx (ent r v) = int s" using inv_hmapD(2)[OF hm s(1)] s(2) by simp
  then have "nat (host_slots r ! t) \<noteq> v"
    using occ n ts unfolding eq by fastforce
  then show "0 \<le> host_slots r' ! t" "nat (host_slots r' ! t) < total_experts r"
     "owner (ent r' (nat (host_slots r' ! t))) = WARM_HOST"
     "slot_idx (ent r' (nat (host_slots r' ! t))) = int t"
    using occ n eq E by auto
qed

lemma hmap_occupy:
  assumes hm: "inv_hmap r" and s: "s < host_capacity_usable r" "host_slots r ! s = -1"
    and v: "v < total_experts r" "owner (ent r v) \<noteq> WARM_HOST"
    and len: "length (host_slots r) = host_capacity r" "host_capacity_usable r \<le> host_capacity r"
    and T: "total_experts r' = total_experts r" "host_capacity r' = host_capacity r"
      "host_capacity_usable r' = host_capacity_usable r"
    and E: "\<And>g. g \<noteq> v \<Longrightarrow> ent r' g = ent r g"
    and E': "owner (ent r' v) = WARM_HOST" "slot_idx (ent r' v) = int s"
    and V: "host_slots r' = (host_slots r)[s := int v]"
  shows "inv_hmap r'"
  unfolding inv_hmap_def T
proof (intro conjI allI impI)
  fix g assume g: "g < total_experts r" and o: "owner (ent r' g) = WARM_HOST"
  show "nat (slot_idx (ent r' g)) < host_capacity_usable r"
    "host_slots r' ! nat (slot_idx (ent r' g)) = int g"
    using inv_hmapD(1)[OF hm g] o E[of g] E' s V len by (cases "g = v"; auto simp: nth_list_update)+
next
  fix t assume t: "t < host_capacity r" and n: "host_slots r' ! t \<noteq> -1"
  have ne: "t \<noteq> s \<Longrightarrow> nat (host_slots r ! t) \<noteq> v"
    using inv_hmapD(2)[OF hm t] n V v by auto
  show "0 \<le> host_slots r' ! t" "nat (host_slots r' ! t) < total_experts r"
     "owner (ent r' (nat (host_slots r' ! t))) = WARM_HOST"
     "slot_idx (ent r' (nat (host_slots r' ! t))) = int t"
    using inv_hmapD(2)[OF hm t] n E E' V ne s len v by (cases "t = s"; auto)+
qed

lemma hmap_frame:
  assumes hm: "inv_hmap r"
    and T: "total_experts r' = total_experts r" "host_capacity r' = host_capacity r"
      "host_capacity_usable r' = host_capacity_usable r" "host_slots r' = host_slots r"
    and E: "\<And>g. g < total_experts r \<Longrightarrow> (owner (ent r' g) = WARM_HOST \<longleftrightarrow> owner (ent r g) = WARM_HOST) \<and>
        (owner (ent r g) = WARM_HOST \<longrightarrow> slot_idx (ent r' g) = slot_idx (ent r g))"
  shows "inv_hmap r'"
  unfolding inv_hmap_def T
proof (intro conjI allI impI)
  fix g assume g: "g < total_experts r" and "owner (ent r' g) = WARM_HOST"
  then show "nat (slot_idx (ent r' g)) < host_capacity_usable r"
      "host_slots r ! nat (slot_idx (ent r' g)) = int g"
    using inv_hmapD(1)[OF hm g] E[OF g] by auto
next
  fix t assume t: "t < host_capacity r" and n: "host_slots r ! t \<noteq> -1"
  show "0 \<le> host_slots r ! t" "nat (host_slots r ! t) < total_experts r"
     "owner (ent r' (nat (host_slots r ! t))) = WARM_HOST"
     "slot_idx (ent r' (nat (host_slots r ! t))) = int t"
    using inv_hmapD(2)[OF hm t n] E[of "nat (host_slots r ! t)"] by auto
qed

subsection \<open>VRAM reservations\<close>

text \<open>The fields of an entry the VRAM reservations depend on.\<close>

definition vres_view :: "ExpertCatalogEntry \<Rightarrow> bool \<times> int \<times> nat \<times> bool \<times> int \<times> bool" where
  "vres_view e = (incoming e, (if incoming e then pending_slot_idx e else -1),
     (if incoming e \<or> operation e = DEMOTION_PENDING then operation_id e else 0),
     operation e = DEMOTION_PENDING, (if operation e = DEMOTION_PENDING then slot_idx e else -1),
     warm_shadow e)"

lemma vres_view_eqD:
  assumes "vres_view a = vres_view b"
  shows "incoming a \<longleftrightarrow> incoming b" "incoming b \<Longrightarrow> pending_slot_idx a = pending_slot_idx b"
    "incoming b \<Longrightarrow> operation_id a = operation_id b"
    "operation a = DEMOTION_PENDING \<longleftrightarrow> operation b = DEMOTION_PENDING"
    "operation b = DEMOTION_PENDING \<Longrightarrow> slot_idx a = slot_idx b"
    "operation b = DEMOTION_PENDING \<Longrightarrow> operation_id a = operation_id b"
    "warm_shadow a = warm_shadow b"
  using assms by (auto simp: vres_view_def split: if_splits)


lemma vres_frame:
  assumes vr: "inv_vres h r"
    and T: "total_experts r' = total_experts r" "vram_capacity r' = vram_capacity r"
      "vram_slot_reservations r' = vram_slot_reservations r"
    and V: "\<And>s. s < vram_capacity r \<Longrightarrow> vram_slots r' ! s = vram_slots r ! s \<or> vram_slots r' ! s = -1"
    and E: "\<And>g. g < total_experts r \<Longrightarrow> vres_view (ent r' g) = vres_view (ent r g)"
    and occ: "\<And>s. s < vram_capacity r \<Longrightarrow> vram_slots r ! s \<noteq> -1 \<Longrightarrow> nat (vram_slots r ! s) < total_experts r"
    and ws: "\<And>g. g < total_experts r \<Longrightarrow> warm_shadow (ent r g) \<Longrightarrow> incoming (ent r g)"
  shows "inv_vres h r'"
  unfolding inv_vres_def T
proof (intro conjI allI impI)
  fix g assume g: "g < total_experts r"
  note e = vres_view_eqD[OF E[OF g]]
  show "nat (pending_slot_idx (ent r' g)) < vram_capacity r"
    "vram_slot_reservations r ! nat (pending_slot_idx (ent r' g)) = operation_id (ent r' g)"
    "h \<noteq> Some (nat (pending_slot_idx (ent r' g)))"
    if "incoming (ent r' g) \<and> pending_slot_idx (ent r' g) \<noteq> -1"
    using inv_vresD(1)[OF vr g] that e by simp_all
  show "vram_slot_reservations r ! nat (slot_idx (ent r' g)) = operation_id (ent r' g)"
    if "operation (ent r' g) = DEMOTION_PENDING"
    using inv_vresD(2)[OF vr g] that e by simp
  show "vram_slots r' ! nat (pending_slot_idx (ent r' g)) = -1"
    if "warm_shadow (ent r' g) \<and> pending_slot_idx (ent r' g) \<noteq> -1"
    using inv_vresD(1,5)[OF vr g] that e V[of "nat (pending_slot_idx (ent r g))"] ws[OF g] by auto
next
  fix s assume s: "s < vram_capacity r" and nz: "vram_slot_reservations r ! s \<noteq> 0"
  show "h = Some s \<or> (\<exists>g<total_experts r. incoming (ent r' g) \<and> pending_slot_idx (ent r' g) = int s)"
    using inv_vresD(3)[OF vr s nz] vres_view_eqD(1,2)[OF E] by metis
  show "operation (ent r' (nat (vram_slots r' ! s))) = DEMOTION_PENDING" if n: "vram_slots r' ! s \<noteq> -1"
  proof -
    have eq: "vram_slots r' ! s = vram_slots r ! s" using V[OF s] n by auto
    then show ?thesis
      using inv_vresD(4)[OF vr s nz] n occ[OF s] vres_view_eqD(4)[OF E] by simp
  qed
qed

text \<open>The entry \<open>v\<close> gives its reserved slot back, or the copy landed in it.\<close>

lemma vres_settle:
  assumes vr: "inv_vres None r" and v: "v < total_experts r" "incoming (ent r v)"
      "pending_slot_idx (ent r v) = int s"
    and uniq: "\<And>g. g < total_experts r \<Longrightarrow> incoming (ent r g) \<Longrightarrow>
                operation_id (ent r g) = operation_id (ent r v) \<Longrightarrow> g = v"
    and nodem: "vram_slots r ! s = -1"
    and dem: "\<And>g. g < total_experts r \<Longrightarrow> operation (ent r g) = DEMOTION_PENDING \<Longrightarrow>
          vram_slots r ! nat (slot_idx (ent r g)) = int g"
    and occ: "\<And>s. s < vram_capacity r \<Longrightarrow> vram_slots r ! s \<noteq> -1 \<Longrightarrow>
       nat (vram_slots r ! s) < total_experts r \<and> 0 \<le> vram_slots r ! s"
    and len: "length (vram_slot_reservations r) = vram_capacity r"
    and ws: "\<And>g. g < total_experts r \<Longrightarrow> warm_shadow (ent r g) \<Longrightarrow> incoming (ent r g)"
    and T: "total_experts r' = total_experts r" "vram_capacity r' = vram_capacity r"
    and R: "vram_slot_reservations r' = (vram_slot_reservations r)[s := 0]"
    and V: "vram_slots r' = (vram_slots r)[s := x]"
    and E: "\<And>g. g \<noteq> v \<Longrightarrow> ent r' g = ent r g"
    and E': "operation (ent r' v) = OP_NONE" "\<not> warm_shadow (ent r' v)"
  shows "inv_vres None r'"
  unfolding inv_vres_def T
proof (intro conjI allI impI)
  have nat_s: "nat (pending_slot_idx (ent r v)) = s" using v by simp
  have pv: "s < vram_capacity r" "vram_slot_reservations r ! s = operation_id (ent r v)"
    using inv_vresD(1)[OF vr v(1,2)] v(3) by auto
  fix g assume g: "g < total_experts r"
  show c1: "nat (pending_slot_idx (ent r' g)) < vram_capacity r"
    "vram_slot_reservations r' ! nat (pending_slot_idx (ent r' g)) = operation_id (ent r' g)"
    "None \<noteq> Some (nat (pending_slot_idx (ent r' g)))"
    if a: "incoming (ent r' g) \<and> pending_slot_idx (ent r' g) \<noteq> -1"
  proof -
    have gv: "g \<noteq> v" using a E' by (auto simp: incoming_def)
    have "nat (pending_slot_idx (ent r g)) \<noteq> s"
      using inv_vresD(1)[OF vr g] a E[OF gv] uniq[OF g] gv pv by auto
    then show "nat (pending_slot_idx (ent r' g)) < vram_capacity r"
      "vram_slot_reservations r' ! nat (pending_slot_idx (ent r' g)) = operation_id (ent r' g)"
      "None \<noteq> Some (nat (pending_slot_idx (ent r' g)))"
      using inv_vresD(1)[OF vr g] a E[OF gv] R by auto
  qed
  show "vram_slot_reservations r' ! nat (slot_idx (ent r' g)) = operation_id (ent r' g)"
    if a: "operation (ent r' g) = DEMOTION_PENDING"
  proof -
    have gv: "g \<noteq> v" using a E' by auto
    then have "nat (slot_idx (ent r g)) \<noteq> s" using dem[OF g] a E[OF gv] nodem by auto
    then show ?thesis using inv_vresD(2)[OF vr g] a E[OF gv] R by auto
  qed
  show "vram_slots r' ! nat (pending_slot_idx (ent r' g)) = -1"
    if a: "warm_shadow (ent r' g) \<and> pending_slot_idx (ent r' g) \<noteq> -1"
  proof -
    have gv: "g \<noteq> v" using a E' by auto
    have "incoming (ent r g)" using ws[OF g] a E[OF gv] by auto
    then have "nat (pending_slot_idx (ent r g)) \<noteq> s"
      using inv_vresD(1)[OF vr g] a E[OF gv] uniq[OF g] gv pv by auto
    then show ?thesis using inv_vresD(5)[OF vr g] a E[OF gv] V by auto
  qed
next
  have pv: "s < vram_capacity r"
    using inv_vresD(1)[OF vr v(1,2)] v(3) by auto
  fix t assume t: "t < vram_capacity r" and nz': "vram_slot_reservations r' ! t \<noteq> 0"
  have ts: "t \<noteq> s" using nz' R len t by auto
  have nz: "vram_slot_reservations r ! t \<noteq> 0" using nz' R ts by simp
  obtain g where g: "g < total_experts r" "incoming (ent r g)" "pending_slot_idx (ent r g) = int t"
    using inv_vresD(3)[OF vr t nz] by auto
  have "g \<noteq> v" using g(3) v(3) ts by auto
  then show "None = Some t \<or> (\<exists>g<total_experts r. incoming (ent r' g) \<and> pending_slot_idx (ent r' g) = int t)"
    using g E by auto
  show "operation (ent r' (nat (vram_slots r' ! t))) = DEMOTION_PENDING" if n: "vram_slots r' ! t \<noteq> -1"
  proof -
    have n': "vram_slots r ! t \<noteq> -1" and eq: "vram_slots r' ! t = vram_slots r ! t" using n V ts by auto
    have d: "operation (ent r (nat (vram_slots r ! t))) = DEMOTION_PENDING" by (rule inv_vresD(4)[OF vr t nz n'])
    then have "nat (vram_slots r ! t) \<noteq> v" using v(2) by (auto simp: incoming_def)
    then show ?thesis using d E eq by simp
  qed
qed


text \<open>A victim \<open>v\<close> leaves the slot that was reserved from under it.\<close>

lemma vres_victim_leaves:
  assumes vr: "inv_vres h r" and v: "v < total_experts r" "operation (ent r v) = DEMOTION_PENDING"
    and s: "\<And>t. t < vram_capacity r \<Longrightarrow> vram_slots r ! t \<noteq> -1 \<Longrightarrow> nat (vram_slots r ! t) = v \<Longrightarrow> t = s"
    and ws: "\<And>g. g < total_experts r \<Longrightarrow> warm_shadow (ent r g) \<Longrightarrow> incoming (ent r g)"
    and len: "length (vram_slots r) = vram_capacity r"
    and T: "total_experts r' = total_experts r" "vram_capacity r' = vram_capacity r"
      "vram_slot_reservations r' = vram_slot_reservations r"
    and V: "vram_slots r' = (vram_slots r)[s := -1]"
    and E: "\<And>g. g \<noteq> v \<Longrightarrow> ent r' g = ent r g"
    and E': "operation (ent r' v) = OP_NONE" "\<not> warm_shadow (ent r' v)"
  shows "inv_vres h r'"
  unfolding inv_vres_def T
proof (intro conjI allI impI)
  fix g assume g: "g < total_experts r"
  show "nat (pending_slot_idx (ent r' g)) < vram_capacity r"
    "vram_slot_reservations r ! nat (pending_slot_idx (ent r' g)) = operation_id (ent r' g)"
    "h \<noteq> Some (nat (pending_slot_idx (ent r' g)))"
    if "incoming (ent r' g) \<and> pending_slot_idx (ent r' g) \<noteq> -1"
    using inv_vresD(1)[OF vr g] that E[of g] E' by (cases "g = v"; auto simp: incoming_def)+
  show "vram_slot_reservations r ! nat (slot_idx (ent r' g)) = operation_id (ent r' g)"
    if "operation (ent r' g) = DEMOTION_PENDING"
    using inv_vresD(2)[OF vr g] that E[of g] E' by (cases "g = v") auto
  show "vram_slots r' ! nat (pending_slot_idx (ent r' g)) = -1"
    if a: "warm_shadow (ent r' g) \<and> pending_slot_idx (ent r' g) \<noteq> -1"
  proof -
    have gv: "g \<noteq> v" using a E' by auto
    then have "vram_slots r ! nat (pending_slot_idx (ent r g)) = -1"
        "nat (pending_slot_idx (ent r g)) < vram_capacity r"
      using inv_vresD(1,5)[OF vr g] ws[OF g] a E[OF gv] by auto
    then show ?thesis
      using E[OF gv] V len by (cases "s = nat (pending_slot_idx (ent r g))") auto
  qed
next
  fix t assume t: "t < vram_capacity r" and nz: "vram_slot_reservations r ! t \<noteq> 0"
  show "h = Some t \<or> (\<exists>g<total_experts r. incoming (ent r' g) \<and> pending_slot_idx (ent r' g) = int t)"
  proof (rule disjCI)
    assume "\<not> (\<exists>g<total_experts r. incoming (ent r' g) \<and> pending_slot_idx (ent r' g) = int t)"
    then have "\<not> (\<exists>g<total_experts r. incoming (ent r g) \<and> pending_slot_idx (ent r g) = int t)"
      using E v(2) by (auto simp: incoming_def) (metis ExpertOperation.distinct)+
    then show "h = Some t" using inv_vresD(3)[OF vr t nz] by blast
  qed
  show "operation (ent r' (nat (vram_slots r' ! t))) = DEMOTION_PENDING" if n: "vram_slots r' ! t \<noteq> -1"
  proof -
    have "t \<noteq> s" using n V t len by auto
    then have eq: "vram_slots r' ! t = vram_slots r ! t" and ne: "nat (vram_slots r ! t) \<noteq> v"
      using V s[OF t] n by auto
    then show ?thesis using inv_vresD(4)[OF vr t nz] n E by simp
  qed
qed

text \<open>A slot is reserved for an operation no entry has claimed yet.\<close>

lemma vres_reserve:
  assumes vr: "inv_vres None r" and s: "s < vram_capacity r" "vram_slot_reservations r ! s = 0"
    and len: "length (vram_slot_reservations r) = vram_capacity r"
    and ws: "\<And>g. g < total_experts r \<Longrightarrow> warm_shadow (ent r g) \<Longrightarrow> incoming (ent r g)"
    and shape: "\<And>g. g < total_experts r \<Longrightarrow> operation (ent r g) \<noteq> OP_NONE \<Longrightarrow> operation_id (ent r g) \<noteq> 0"
    and occ: "\<And>s. s < vram_capacity r \<Longrightarrow> vram_slots r ! s \<noteq> -1 \<Longrightarrow> nat (vram_slots r ! s) < total_experts r"
    and T: "total_experts r' = total_experts r" "vram_capacity r' = vram_capacity r"
    and R: "vram_slot_reservations r' = (vram_slot_reservations r)[s := op_id]"
    and V: "vram_slots r' ! s = -1" "\<And>t. t \<noteq> s \<Longrightarrow> vram_slots r' ! t = vram_slots r ! t"
    and E: "\<And>g. g < total_experts r \<Longrightarrow> vres_view (ent r' g) = vres_view (ent r g)"
  shows "inv_vres (Some s) r'"
  unfolding inv_vres_def T
proof (intro conjI allI impI)
  fix g assume g: "g < total_experts r"
  note e = vres_view_eqD[OF E[OF g]]
  have ns: "nat (pending_slot_idx (ent r g)) \<noteq> s" if "incoming (ent r g)" "pending_slot_idx (ent r g) \<noteq> -1"
    using inv_vresD(1)[OF vr g that] s shape[OF g] that(1) by (auto simp: incoming_def)
  show "nat (pending_slot_idx (ent r' g)) < vram_capacity r"
    "vram_slot_reservations r' ! nat (pending_slot_idx (ent r' g)) = operation_id (ent r' g)"
    "Some s \<noteq> Some (nat (pending_slot_idx (ent r' g)))"
    if "incoming (ent r' g) \<and> pending_slot_idx (ent r' g) \<noteq> -1"
    using inv_vresD(1)[OF vr g] that e ns R by auto
  show "vram_slot_reservations r' ! nat (slot_idx (ent r' g)) = operation_id (ent r' g)"
    if a: "operation (ent r' g) = DEMOTION_PENDING"
  proof -
    have d: "operation (ent r g) = DEMOTION_PENDING" using a e by simp
    then have "nat (slot_idx (ent r g)) \<noteq> s" using inv_vresD(2)[OF vr g d] s(2) shape[OF g] by auto
    then show ?thesis using inv_vresD(2)[OF vr g d] e d R by simp
  qed
  show "vram_slots r' ! nat (pending_slot_idx (ent r' g)) = -1"
    if "warm_shadow (ent r' g) \<and> pending_slot_idx (ent r' g) \<noteq> -1"
    using inv_vresD(5)[OF vr g] that e V ns ws[OF g] by auto
next
  fix t assume t: "t < vram_capacity r" and nz: "vram_slot_reservations r' ! t \<noteq> 0"
  show "Some s = Some t \<or> (\<exists>g<total_experts r. incoming (ent r' g) \<and> pending_slot_idx (ent r' g) = int t)"
  proof (cases "t = s")
    case False
    then have "vram_slot_reservations r ! t \<noteq> 0" using nz R by simp
    then obtain g where "g < total_experts r" "incoming (ent r g)" "pending_slot_idx (ent r g) = int t"
      using inv_vresD(3)[OF vr t] by auto
    then show ?thesis using vres_view_eqD(1,2)[OF E] by auto
  qed simp
  show "operation (ent r' (nat (vram_slots r' ! t))) = DEMOTION_PENDING" if n: "vram_slots r' ! t \<noteq> -1"
  proof -
    have ts: "t \<noteq> s" using n V(1) by auto
    then have "vram_slot_reservations r ! t \<noteq> 0" "vram_slots r ! t \<noteq> -1" "vram_slots r' ! t = vram_slots r ! t"
      using nz n R V(2) by auto
    then show ?thesis using inv_vresD(4)[OF vr t] occ[OF t] vres_view_eqD(4)[OF E] by simp
  qed
qed

text \<open>The same for the slot of a resident \<open>v\<close> that becomes the victim of the operation.\<close>

lemma vres_victim:
  assumes vr: "inv_vres None r" and s: "s < vram_capacity r" "vram_slot_reservations r ! s = 0"
      "vram_slots r ! s = int v"
    and v: "v < total_experts r" "operation (ent r v) = OP_NONE" "\<not> warm_shadow (ent r v)"
    and len: "length (vram_slot_reservations r) = vram_capacity r"
    and shape: "\<And>g. g < total_experts r \<Longrightarrow> operation (ent r g) \<noteq> OP_NONE \<Longrightarrow> operation_id (ent r g) \<noteq> 0"
    and T: "total_experts r' = total_experts r" "vram_capacity r' = vram_capacity r" "vram_slots r' = vram_slots r"
    and R: "vram_slot_reservations r' = (vram_slot_reservations r)[s := op_id]"
    and E: "\<And>g. g < total_experts r \<Longrightarrow> g \<noteq> v \<Longrightarrow> vres_view (ent r' g) = vres_view (ent r g)"
    and E': "operation (ent r' v) = DEMOTION_PENDING" "operation_id (ent r' v) = op_id"
      "slot_idx (ent r' v) = int s" "\<not> warm_shadow (ent r' v)"
    and ws: "\<And>g. g < total_experts r \<Longrightarrow> warm_shadow (ent r g) \<Longrightarrow> incoming (ent r g)"
    and occ: "\<And>s. s < vram_capacity r \<Longrightarrow> vram_slots r ! s \<noteq> -1 \<Longrightarrow> nat (vram_slots r ! s) < total_experts r"
  shows "inv_vres (Some s) r'"
  unfolding inv_vres_def T
proof (intro conjI allI impI)
  fix g assume g: "g < total_experts r"
  have ns: "nat (pending_slot_idx (ent r g)) \<noteq> s" if "incoming (ent r g)" "pending_slot_idx (ent r g) \<noteq> -1"
    using inv_vresD(1)[OF vr g that] s shape[OF g] that(1) by (auto simp: incoming_def)
  show "nat (pending_slot_idx (ent r' g)) < vram_capacity r"
    "vram_slot_reservations r' ! nat (pending_slot_idx (ent r' g)) = operation_id (ent r' g)"
    "Some s \<noteq> Some (nat (pending_slot_idx (ent r' g)))"
    if a: "incoming (ent r' g) \<and> pending_slot_idx (ent r' g) \<noteq> -1"
  proof -
    have gv: "g \<noteq> v" using a E' by (auto simp: incoming_def)
    note e = vres_view_eqD[OF E[OF g gv]]
    show "nat (pending_slot_idx (ent r' g)) < vram_capacity r"
      "vram_slot_reservations r' ! nat (pending_slot_idx (ent r' g)) = operation_id (ent r' g)"
      "Some s \<noteq> Some (nat (pending_slot_idx (ent r' g)))"
      using inv_vresD(1)[OF vr g] a e ns R by auto
  qed
  show "vram_slot_reservations r' ! nat (slot_idx (ent r' g)) = operation_id (ent r' g)"
    if a: "operation (ent r' g) = DEMOTION_PENDING"
  proof (cases "g = v")
    case True
    then show ?thesis using E' R s len by simp
  next
    case False
    note e = vres_view_eqD[OF E[OF g False]]
    have d: "operation (ent r g) = DEMOTION_PENDING" using a e by simp
    then have "nat (slot_idx (ent r g)) \<noteq> s" using inv_vresD(2)[OF vr g d] s(2) shape[OF g] by auto
    then show ?thesis using inv_vresD(2)[OF vr g d] e d R by simp
  qed
  show "vram_slots r ! nat (pending_slot_idx (ent r' g)) = -1"
    if a: "warm_shadow (ent r' g) \<and> pending_slot_idx (ent r' g) \<noteq> -1"
  proof -
    have gv: "g \<noteq> v" using a E' by auto
    note e = vres_view_eqD[OF E[OF g gv]]
    show ?thesis using inv_vresD(5)[OF vr g] a e ws[OF g] by auto
  qed
next
  fix t assume t: "t < vram_capacity r" and nz: "vram_slot_reservations r' ! t \<noteq> 0"
  have nz': "vram_slot_reservations r ! t \<noteq> 0" if "t \<noteq> s" using nz R that by simp
  show "Some s = Some t \<or> (\<exists>g<total_experts r. incoming (ent r' g) \<and> pending_slot_idx (ent r' g) = int t)"
  proof (cases "t = s")
    case False
    then obtain g where g: "g < total_experts r" "incoming (ent r g)" "pending_slot_idx (ent r g) = int t"
      using inv_vresD(3)[OF vr t nz'] by auto
    then have "g \<noteq> v" using v(2) by (auto simp: incoming_def)
    then show ?thesis using g vres_view_eqD(1,2)[OF E] by auto
  qed simp
  show "operation (ent r' (nat (vram_slots r ! t))) = DEMOTION_PENDING" if n: "vram_slots r ! t \<noteq> -1"
  proof (cases "t = s \<or> nat (vram_slots r ! t) = v")
    case True
    then show ?thesis using E' s(3) by auto
  next
    case False
    then show ?thesis
      using inv_vresD(4)[OF vr t nz' n] occ[OF t n] vres_view_eqD(4)[OF E] by auto
  qed
qed

text \<open>The reserved slot is claimed by the entry \<open>v\<close>, a new or a staged request.\<close>

lemma vres_claim:
  assumes vr: "inv_vres (Some s) r" and s: "s < vram_capacity r" "vram_slot_reservations r ! s = op_id"
    and v: "v < total_experts r" "operation (ent r v) \<noteq> DEMOTION_PENDING"
      "incoming (ent r v) \<Longrightarrow> pending_slot_idx (ent r v) = -1"
    and T: "total_experts r' = total_experts r" "vram_capacity r' = vram_capacity r" "vram_slots r' = vram_slots r"
      "vram_slot_reservations r' = vram_slot_reservations r"
    and E: "\<And>g. g \<noteq> v \<Longrightarrow> ent r' g = ent r g"
    and E': "incoming (ent r' v)" "operation_id (ent r' v) = op_id"
      "pending_slot_idx (ent r' v) = int s" "warm_shadow (ent r' v) \<Longrightarrow> vram_slots r ! s = -1"
  shows "inv_vres None r'"
  unfolding inv_vres_def T
proof (intro conjI allI impI)
  fix g assume g: "g < total_experts r"
  show "nat (pending_slot_idx (ent r' g)) < vram_capacity r"
    "vram_slot_reservations r ! nat (pending_slot_idx (ent r' g)) = operation_id (ent r' g)"
    "None \<noteq> Some (nat (pending_slot_idx (ent r' g)))"
    if "incoming (ent r' g) \<and> pending_slot_idx (ent r' g) \<noteq> -1"
    using inv_vresD(1)[OF vr g] that E[of g] E' s by (cases "g = v"; auto)+
  show "vram_slot_reservations r ! nat (slot_idx (ent r' g)) = operation_id (ent r' g)"
    if "operation (ent r' g) = DEMOTION_PENDING"
    using inv_vresD(2)[OF vr g] that E[of g] E' by (cases "g = v") (auto simp: incoming_def)
  show "vram_slots r ! nat (pending_slot_idx (ent r' g)) = -1"
    if "warm_shadow (ent r' g) \<and> pending_slot_idx (ent r' g) \<noteq> -1"
    using inv_vresD(5)[OF vr g] that E[of g] E' by (cases "g = v") auto
next
  fix t assume t: "t < vram_capacity r" and nz: "vram_slot_reservations r ! t \<noteq> 0"
  show "None = Some t \<or> (\<exists>g<total_experts r. incoming (ent r' g) \<and> pending_slot_idx (ent r' g) = int t)"
  proof (cases "t = s")
    case True
    then show ?thesis using v E' by auto
  next
    case False
    then obtain g where g: "g < total_experts r" "incoming (ent r g)" "pending_slot_idx (ent r g) = int t"
      using inv_vresD(3)[OF vr t nz] by auto
    then have "g \<noteq> v" using v(3) by auto
    then show ?thesis using g E by auto
  qed
  show "operation (ent r' (nat (vram_slots r ! t))) = DEMOTION_PENDING" if n: "vram_slots r ! t \<noteq> -1"
  proof -
    have d: "operation (ent r (nat (vram_slots r ! t))) = DEMOTION_PENDING"
      by (rule inv_vresD(4)[OF vr t nz n])
    then have "nat (vram_slots r ! t) \<noteq> v" using v(2) by auto
    then show ?thesis using d E by simp
  qed
qed

text \<open>An entry with no VRAM slot of its own enters or leaves the staged state.\<close>

lemma vres_unslotted:
  assumes vr: "inv_vres None r" and v: "v < total_experts r" "operation (ent r v) \<noteq> DEMOTION_PENDING"
      "incoming (ent r v) \<Longrightarrow> pending_slot_idx (ent r v) = -1"
    and T: "total_experts r' = total_experts r" "vram_capacity r' = vram_capacity r" "vram_slots r' = vram_slots r"
      "vram_slot_reservations r' = vram_slot_reservations r"
    and E: "\<And>g. g \<noteq> v \<Longrightarrow> ent r' g = ent r g"
    and E': "operation (ent r' v) \<noteq> DEMOTION_PENDING" "pending_slot_idx (ent r' v) = -1"
  shows "inv_vres None r'"
  unfolding inv_vres_def T
proof (intro conjI allI impI)
  fix g assume g: "g < total_experts r"
  show "nat (pending_slot_idx (ent r' g)) < vram_capacity r"
    "vram_slot_reservations r ! nat (pending_slot_idx (ent r' g)) = operation_id (ent r' g)"
    "None \<noteq> Some (nat (pending_slot_idx (ent r' g)))"
    if "incoming (ent r' g) \<and> pending_slot_idx (ent r' g) \<noteq> -1"
    using inv_vresD(1)[OF vr g] that E[of g] E' by (cases "g = v"; auto)+
  show "vram_slot_reservations r ! nat (slot_idx (ent r' g)) = operation_id (ent r' g)"
    if "operation (ent r' g) = DEMOTION_PENDING"
    using inv_vresD(2)[OF vr g] that E[of g] E' by (cases "g = v") auto
  show "vram_slots r ! nat (pending_slot_idx (ent r' g)) = -1"
    if "warm_shadow (ent r' g) \<and> pending_slot_idx (ent r' g) \<noteq> -1"
    using inv_vresD(5)[OF vr g] that E[of g] E' by (cases "g = v") auto
next
  fix t assume t: "t < vram_capacity r" and nz: "vram_slot_reservations r ! t \<noteq> 0"
  obtain g where g: "g < total_experts r" "incoming (ent r g)" "pending_slot_idx (ent r g) = int t"
    using inv_vresD(3)[OF vr t nz] by auto
  then have "g \<noteq> v" using v(3) by auto
  then show "None = Some t \<or> (\<exists>g<total_experts r. incoming (ent r' g) \<and> pending_slot_idx (ent r' g) = int t)"
    using g E by auto
  show "operation (ent r' (nat (vram_slots r ! t))) = DEMOTION_PENDING" if n: "vram_slots r ! t \<noteq> -1"
  proof -
    have d: "operation (ent r (nat (vram_slots r ! t))) = DEMOTION_PENDING"
      by (rule inv_vresD(4)[OF vr t nz n])
    then have "nat (vram_slots r ! t) \<noteq> v" using v(2) by auto
    then show ?thesis using d E by simp
  qed
qed


text \<open>The side conditions of these lemmas that the rest of the invariant gives.\<close>

lemma slot_side_conditions:
  assumes "inv_entries r" and "inv_vmap r"
  shows "\<And>s. s < vram_capacity r \<Longrightarrow> vram_slots r ! s \<noteq> -1 \<Longrightarrow> nat (vram_slots r ! s) < total_experts r"
    "\<And>g. g < total_experts r \<Longrightarrow> warm_shadow (ent r g) \<Longrightarrow> incoming (ent r g)"
    "\<And>g. g < total_experts r \<Longrightarrow> operation (ent r g) \<noteq> OP_NONE \<Longrightarrow> operation_id (ent r g) \<noteq> 0"
    "\<And>g. g < total_experts r \<Longrightarrow> operation (ent r g) = PROMOTION_PENDING \<Longrightarrow>
       owner (ent r g) = WARM_HOST"
  using inv_vmapD(3)[OF assms(2)] shape_warm_shadow[OF inv_entriesD(1)[OF assms(1)]]
    shape_op_id[OF inv_entriesD(1)[OF assms(1)]] entry_shapeD(3)[OF inv_entriesD(1)[OF assms(1)]]
  by (auto simp: incoming_def)

lemma vmap_hot_unique:
  assumes "inv_entries r" and vm: "inv_vmap r" and v: "v < total_experts r" "owner (ent r v) = HOT_VRAM"
    and t: "t < vram_capacity r" "vram_slots r ! t \<noteq> -1" "nat (vram_slots r ! t) = v"
  shows "t = nat (slot_idx (ent r v))"
  using inv_vmapD(3)[OF vm t(1,2)] t(3) v(2) by auto

subsection \<open>Host reservations\<close>

definition hres_view :: "ExpertCatalogEntry \<Rightarrow> bool \<times> bool \<times> int \<times> bool \<times> nat" where
  "hres_view e =
     (operation e = PROMOTION_PENDING \<and> \<not> warm_shadow e,
      owner e = WARM_HOST \<and> (operation e = OP_NONE \<or> warm_shadow e),
      (if owner e = WARM_HOST \<or> operation e = PROMOTION_PENDING then slot_idx e else -1),
      gpu_transfer e = D2H_PENDING,
      (if operation e = PROMOTION_PENDING \<and> \<not> warm_shadow e \<or> gpu_transfer e = D2H_PENDING
       then operation_id e else 0))"

lemma hres_view_eqD:
  assumes "hres_view a = hres_view b"
  shows "operation a = PROMOTION_PENDING \<and> \<not> warm_shadow a \<longleftrightarrow> operation b = PROMOTION_PENDING \<and> \<not> warm_shadow b"
    "owner a = WARM_HOST \<and> (operation a = OP_NONE \<or> warm_shadow a) \<longleftrightarrow>
     owner b = WARM_HOST \<and> (operation b = OP_NONE \<or> warm_shadow b)"
    "operation b = PROMOTION_PENDING \<and> \<not> warm_shadow b \<Longrightarrow> slot_idx a = slot_idx b \<and> operation_id a = operation_id b"
    "owner b = WARM_HOST \<and> (operation b = OP_NONE \<or> warm_shadow b) \<Longrightarrow> slot_idx a = slot_idx b"
    "gpu_transfer a = D2H_PENDING \<longleftrightarrow> gpu_transfer b = D2H_PENDING"
    "gpu_transfer b = D2H_PENDING \<Longrightarrow> operation_id a = operation_id b"
  using assms by (auto simp: hres_view_def split: if_splits)

lemma hres_frame:
  assumes h: "inv_hres k r"
    and T: "total_experts r' = total_experts r" "host_capacity r' = host_capacity r"
      "host_capacity_usable r' = host_capacity_usable r" "host_slots r' = host_slots r"
      "host_slot_reservations r' = host_slot_reservations r"
    and E: "\<And>g. g < total_experts r \<Longrightarrow> hres_view (ent r' g) = hres_view (ent r g)"
  shows "inv_hres k r'"
  unfolding inv_hres_def T
proof (intro conjI allI impI)
  fix g assume g: "g < total_experts r"
  note e = hres_view_eqD[OF E[OF g]]
  show "host_slot_reservations r ! nat (slot_idx (ent r' g)) = operation_id (ent r' g)"
    if "operation (ent r' g) = PROMOTION_PENDING \<and> \<not> warm_shadow (ent r' g)"
    using inv_hresD(1)[OF h g] that e by auto
  show "host_slot_reservations r ! nat (slot_idx (ent r' g)) = 0"
    if "owner (ent r' g) = WARM_HOST \<and> (operation (ent r' g) = OP_NONE \<or> warm_shadow (ent r' g))"
    using inv_hresD(2)[OF h g] that e by auto
  show "\<exists>s<host_capacity r. host_slot_reservations r ! s = operation_id (ent r' g) \<and> host_slots r ! s = -1"
    if "gpu_transfer (ent r' g) = D2H_PENDING"
    using inv_hresD(3)[OF h g] that e by auto
next
  fix s assume s: "s < host_capacity r" "host_slot_reservations r ! s \<noteq> 0" "host_slots r ! s = -1"
  show "s < host_capacity_usable r" using inv_hresD(4)[OF h s] by blast
  show "k = Some s \<or> (\<exists>g<total_experts r. gpu_transfer (ent r' g) = D2H_PENDING \<and>
            operation_id (ent r' g) = host_slot_reservations r ! s)"
    using inv_hresD(4)[OF h s] hres_view_eqD(5,6)[OF E] by metis
next
  fix s s' assume "s < host_capacity r" "s' < host_capacity r" "host_slot_reservations r ! s \<noteq> 0"
    "host_slot_reservations r ! s = host_slot_reservations r ! s'"
    "host_slots r ! s = -1" "host_slots r ! s' = -1"
  then show "s = s'" by (rule inv_hresD(5)[OF h])
qed

text \<open>A D2H victim leaves its reserved Warm slot: the demotion completed or failed.\<close>

lemma hres_settle:
  assumes h: "inv_hres None r" and hm: "inv_hmap r"
    and v: "v < total_experts r" "operation_id (ent r v) \<noteq> 0"
    and uniq: "\<And>g. g < total_experts r \<Longrightarrow> gpu_transfer (ent r g) = D2H_PENDING \<Longrightarrow>
                operation_id (ent r g) = operation_id (ent r v) \<Longrightarrow> g = v"
    and d: "dest < host_capacity r" "host_slots r ! dest = -1"
       "host_slot_reservations r ! dest = operation_id (ent r v)"
    and sz: "length (host_slots r) = host_capacity r" "length (host_slot_reservations r) = host_capacity r"
      "host_capacity_usable r \<le> host_capacity r"
    and warm: "\<And>g. g < total_experts r \<Longrightarrow> operation (ent r g) = PROMOTION_PENDING \<Longrightarrow> owner (ent r g) = WARM_HOST"
    and T: "total_experts r' = total_experts r" "host_capacity r' = host_capacity r"
      "host_capacity_usable r' = host_capacity_usable r"
    and E: "\<And>g. g \<noteq> v \<Longrightarrow> ent r' g = ent r g"
    and E': "gpu_transfer (ent r' v) \<noteq> D2H_PENDING" "operation (ent r' v) \<noteq> PROMOTION_PENDING"
      "owner (ent r' v) = WARM_HOST \<Longrightarrow> slot_idx (ent r' v) = int dest"
    and R: "host_slot_reservations r' = (host_slot_reservations r)[dest := 0]"
      "host_slots r' = (host_slots r)[dest := w]"
  shows "inv_hres None r'"
  unfolding inv_hres_def T
proof (intro conjI allI impI)
  fix g assume g: "g < total_experts r"
    and a: "operation (ent r' g) = PROMOTION_PENDING \<and> \<not> warm_shadow (ent r' g)"
  then have gv: "g \<noteq> v" using E' by auto
  then have "nat (slot_idx (ent r g)) \<noteq> dest"
    using inv_hmapD(1)[OF hm g] warm[OF g] a d E[OF gv] by auto
  then show "host_slot_reservations r' ! nat (slot_idx (ent r' g)) = operation_id (ent r' g)"
    using inv_hresD(1)[OF h g] a E[OF gv] R by simp
next
  fix g assume g: "g < total_experts r"
    and a: "owner (ent r' g) = WARM_HOST \<and> (operation (ent r' g) = OP_NONE \<or> warm_shadow (ent r' g))"
  show "host_slot_reservations r' ! nat (slot_idx (ent r' g)) = 0"
    using inv_hresD(2)[OF h g] a E[of g] E' R d sz by (cases "g = v") (auto simp: nth_list_update)
next
  fix g assume g: "g < total_experts r" and a: "gpu_transfer (ent r' g) = D2H_PENDING"
  then have gv: "g \<noteq> v" using E' by auto
  then obtain s where "s < host_capacity r" "host_slot_reservations r ! s = operation_id (ent r g)"
      "host_slots r ! s = -1"
    using inv_hresD(3)[OF h g] a E[OF gv] by auto
  moreover have "s \<noteq> dest" using calculation uniq[OF g] gv a E[OF gv] d by auto
  ultimately show "\<exists>s<host_capacity r. host_slot_reservations r' ! s = operation_id (ent r' g) \<and>
      host_slots r' ! s = -1" using E[OF gv] R by auto
next
  fix s assume s: "s < host_capacity r" and nz: "host_slot_reservations r' ! s \<noteq> 0"
    and emp: "host_slots r' ! s = -1"
  have sd: "s \<noteq> dest" using nz R s sz by auto
  then have ss: "host_slot_reservations r ! s \<noteq> 0" "host_slots r ! s = -1" using nz emp R by auto
  obtain g where g: "g < total_experts r" "gpu_transfer (ent r g) = D2H_PENDING"
      "operation_id (ent r g) = host_slot_reservations r ! s"
    using inv_hresD(4)[OF h s ss] by auto
  have "g \<noteq> v" using inv_hresD(5)[OF h s d(1) ss(1)] g(3) d ss(2) sd by auto
  then show "s < host_capacity_usable r"
    "None = Some s \<or> (\<exists>g<total_experts r. gpu_transfer (ent r' g) = D2H_PENDING \<and>
       operation_id (ent r' g) = host_slot_reservations r' ! s)"
    using inv_hresD(4)[OF h s ss] g E R sd by auto
next
  fix s s' assume "s < host_capacity r" "s' < host_capacity r"
    "host_slot_reservations r' ! s \<noteq> 0" "host_slot_reservations r' ! s = host_slot_reservations r' ! s'"
    "host_slots r' ! s = -1" "host_slots r' ! s' = -1"
  then show "s = s'" using inv_hresD(5)[OF h, of s s'] R sz d by (auto simp: nth_list_update split: if_splits)
qed


text \<open>The Warm source of a promotion is reserved by it, or given back when it lands or fails.\<close>

lemma hres_source:
  assumes h: "inv_hres None r" and hm: "inv_hmap r"
    and v: "v < total_experts r" "owner (ent r v) = WARM_HOST" "gpu_transfer (ent r v) \<noteq> D2H_PENDING"
      "slot_idx (ent r v) = int src"
    and sz: "length (host_slots r) = host_capacity r" "length (host_slot_reservations r) = host_capacity r"
      "host_capacity_usable r \<le> host_capacity r"
    and warm: "\<And>g. g < total_experts r \<Longrightarrow> operation (ent r g) = PROMOTION_PENDING \<Longrightarrow> owner (ent r g) = WARM_HOST"
    and T: "total_experts r' = total_experts r" "host_capacity r' = host_capacity r"
      "host_capacity_usable r' = host_capacity_usable r"
    and E: "\<And>g. g \<noteq> v \<Longrightarrow> ent r' g = ent r g"
    and R: "host_slot_reservations r' = (host_slot_reservations r)[src := op_id]"
      "host_slots r' = host_slots r \<or> host_slots r' = (host_slots r)[src := -1] \<and> op_id = 0"
    and E': "gpu_transfer (ent r' v) \<noteq> D2H_PENDING"
      "operation (ent r' v) = PROMOTION_PENDING \<and> \<not> warm_shadow (ent r' v) \<Longrightarrow>
         slot_idx (ent r' v) = int src \<and> operation_id (ent r' v) = op_id"
      "owner (ent r' v) = WARM_HOST \<and> (operation (ent r' v) = OP_NONE \<or> warm_shadow (ent r' v)) \<Longrightarrow>
         slot_idx (ent r' v) = int src \<and> op_id = 0"
  shows "inv_hres None r'"
proof -
  have src: "src < host_capacity r" "host_slots r ! src = int v"
    using inv_hmapD(1)[OF hm v(1,2)] v(4) sz by auto
  have other: "nat (slot_idx (ent r g)) \<noteq> src" if "g < total_experts r" "g \<noteq> v" "owner (ent r g) = WARM_HOST" for g
    using inv_hmapD(1)[OF hm that(1,3)] that src by auto
  have free: "host_slots r' ! s = -1 \<and> host_slot_reservations r' ! s \<noteq> 0 \<Longrightarrow>
      s \<noteq> src \<and> host_slots r ! s = -1 \<and> host_slot_reservations r ! s = host_slot_reservations r' ! s" for s
    using R src sz by (cases "s = src") auto
  show ?thesis
    unfolding inv_hres_def T
  proof (intro conjI allI impI)
    fix g assume g: "g < total_experts r"
    show "host_slot_reservations r' ! nat (slot_idx (ent r' g)) = operation_id (ent r' g)"
      if a: "operation (ent r' g) = PROMOTION_PENDING \<and> \<not> warm_shadow (ent r' g)"
      using inv_hresD(1)[OF h g] a E[of g] E' R src sz other[OF g] warm[OF g] by (cases "g = v") auto
    show "host_slot_reservations r' ! nat (slot_idx (ent r' g)) = 0"
      if a: "owner (ent r' g) = WARM_HOST \<and> (operation (ent r' g) = OP_NONE \<or> warm_shadow (ent r' g))"
      using inv_hresD(2)[OF h g] a E[of g] E' R src sz other[OF g] by (cases "g = v") auto
    show "\<exists>s<host_capacity r. host_slot_reservations r' ! s = operation_id (ent r' g) \<and> host_slots r' ! s = -1"
      if a: "gpu_transfer (ent r' g) = D2H_PENDING"
    proof -
      have gv: "g \<noteq> v" using a E' by auto
      then obtain s where "s < host_capacity r" "host_slot_reservations r ! s = operation_id (ent r g)"
          "host_slots r ! s = -1"
        using inv_hresD(3)[OF h g] a E by auto
      moreover have "s \<noteq> src" using calculation src by auto
      ultimately show ?thesis using R E[OF gv] by auto
    qed
  next
    fix s assume s: "s < host_capacity r" and "host_slot_reservations r' ! s \<noteq> 0" "host_slots r' ! s = -1"
    then have f: "s \<noteq> src" "host_slots r ! s = -1" "host_slot_reservations r ! s = host_slot_reservations r' ! s"
        "host_slot_reservations r ! s \<noteq> 0"
      using free[of s] by auto
    show "s < host_capacity_usable r" using inv_hresD(4)[OF h s f(4,2)] by blast
    obtain g where g: "g < total_experts r" "gpu_transfer (ent r g) = D2H_PENDING"
        "operation_id (ent r g) = host_slot_reservations r ! s"
      using inv_hresD(4)[OF h s f(4,2)] by auto
    then have "g \<noteq> v" using v(3) by auto
    then show "None = Some s \<or> (\<exists>g<total_experts r. gpu_transfer (ent r' g) = D2H_PENDING \<and>
            operation_id (ent r' g) = host_slot_reservations r' ! s)" using g E f by auto
  next
    fix s s' assume a: "s < host_capacity r" "s' < host_capacity r" "host_slot_reservations r' ! s \<noteq> 0"
      "host_slot_reservations r' ! s = host_slot_reservations r' ! s'"
      "host_slots r' ! s = -1" "host_slots r' ! s' = -1"
    then show "s = s'" using inv_hresD(5)[OF h a(1,2)] free[of s] free[of s'] by auto
  qed
qed

text \<open>A free or evicted Warm slot is reserved for a victim that is not a D2H transfer yet, and then
  it is.\<close>

lemma hres_reserve:
  assumes h: "inv_hres None r" and s: "s < host_capacity r" "s < host_capacity_usable r"
      "host_slot_reservations r ! s = 0"
    and fresh: "\<And>t. t < host_capacity r \<Longrightarrow> host_slots r ! t = -1 \<Longrightarrow> host_slot_reservations r ! t \<noteq> op_id"
    and sz: "length (host_slot_reservations r) = host_capacity r" "host_capacity_usable r \<le> host_capacity r"
    and nz: "\<And>g. g < total_experts r \<Longrightarrow> operation (ent r g) = PROMOTION_PENDING \<or> gpu_transfer (ent r g) = D2H_PENDING \<Longrightarrow> operation_id (ent r g) \<noteq> 0"
    and T: "total_experts r' = total_experts r" "host_capacity r' = host_capacity r"
      "host_capacity_usable r' = host_capacity_usable r"
    and R: "host_slot_reservations r' = (host_slot_reservations r)[s := op_id]"
    and V: "host_slots r' ! s = -1" "\<And>t. t \<noteq> s \<Longrightarrow> host_slots r' ! t = host_slots r ! t"
    and E1: "\<And>g. g < total_experts r \<Longrightarrow> owner (ent r' g) = WARM_HOST \<or> gpu_transfer (ent r' g) = D2H_PENDING
         \<or> operation (ent r' g) = PROMOTION_PENDING \<Longrightarrow> ent r' g = ent r g"
    and E2: "\<And>g. g < total_experts r \<Longrightarrow> gpu_transfer (ent r g) = D2H_PENDING \<Longrightarrow> ent r' g = ent r g"
    and other: "\<And>g. g < total_experts r \<Longrightarrow> owner (ent r' g) = WARM_HOST \<Longrightarrow> nat (slot_idx (ent r' g)) \<noteq> s"
    and warm: "\<And>g. g < total_experts r \<Longrightarrow> operation (ent r g) = PROMOTION_PENDING \<Longrightarrow> owner (ent r g) = WARM_HOST"
  shows "inv_hres (Some s) r'"
  unfolding inv_hres_def T
proof (intro conjI allI impI)
  fix g assume g: "g < total_experts r"
  show "host_slot_reservations r' ! nat (slot_idx (ent r' g)) = operation_id (ent r' g)"
    if a: "operation (ent r' g) = PROMOTION_PENDING \<and> \<not> warm_shadow (ent r' g)"
    using inv_hresD(1)[OF h g] a E1[OF g] R other[OF g] warm[OF g] by auto
  show "host_slot_reservations r' ! nat (slot_idx (ent r' g)) = 0"
    if a: "owner (ent r' g) = WARM_HOST \<and> (operation (ent r' g) = OP_NONE \<or> warm_shadow (ent r' g))"
    using inv_hresD(2)[OF h g] a E1[OF g] R other[OF g] by auto
  show "\<exists>t<host_capacity r. host_slot_reservations r' ! t = operation_id (ent r' g) \<and> host_slots r' ! t = -1"
    if a: "gpu_transfer (ent r' g) = D2H_PENDING"
  proof -
    have e: "ent r' g = ent r g" using E1[OF g] a by simp
    then obtain t where t: "t < host_capacity r" "host_slot_reservations r ! t = operation_id (ent r g)"
        "host_slots r ! t = -1"
      using inv_hresD(3)[OF h g] a by auto
    moreover have "t \<noteq> s" using t s(3) nz[OF g] a e by auto
    ultimately show ?thesis using R V e by auto
  qed
next
  fix t assume t: "t < host_capacity r" and a: "host_slot_reservations r' ! t \<noteq> 0" "host_slots r' ! t = -1"
  show "t < host_capacity_usable r" 
    using inv_hresD(4)[OF h t] a R V s by (cases "t = s") auto
  show "Some s = Some t \<or> (\<exists>g<total_experts r. gpu_transfer (ent r' g) = D2H_PENDING \<and>
            operation_id (ent r' g) = host_slot_reservations r' ! t)"
  proof (cases "t = s")
    case False
    then obtain g where "g < total_experts r" "gpu_transfer (ent r g) = D2H_PENDING"
        "operation_id (ent r g) = host_slot_reservations r ! t"
      using inv_hresD(4)[OF h t] a R V by auto
    then show ?thesis using E2 False R by auto
  qed simp
next
  fix t t' assume a: "t < host_capacity r" "t' < host_capacity r" "host_slot_reservations r' ! t \<noteq> 0"
      "host_slot_reservations r' ! t = host_slot_reservations r' ! t'"
      "host_slots r' ! t = -1" "host_slots r' ! t' = -1"
  then show "t = t'" using inv_hresD(5)[OF h a(1,2)] fresh[of t] fresh[of t'] R V s sz
    by (cases "t = s"; cases "t' = s") auto
qed

lemma hres_claim:
  assumes h: "inv_hres (Some s) r" and s: "s < host_capacity r" "host_slot_reservations r ! s = op_id"
      "host_slots r ! s = -1"
    and v: "v < total_experts r" "owner (ent r v) = HOT_VRAM" "gpu_transfer (ent r v) \<noteq> D2H_PENDING"
    and T: "total_experts r' = total_experts r" "host_capacity r' = host_capacity r"
      "host_capacity_usable r' = host_capacity_usable r" "host_slots r' = host_slots r"
      "host_slot_reservations r' = host_slot_reservations r"
    and E: "\<And>g. g \<noteq> v \<Longrightarrow> ent r' g = ent r g"
    and E': "gpu_transfer (ent r' v) = D2H_PENDING" "operation_id (ent r' v) = op_id"
      "owner (ent r' v) = HOT_VRAM" "operation (ent r' v) = DEMOTION_PENDING"
  shows "inv_hres None r'"
  unfolding inv_hres_def T
proof (intro conjI allI impI)
  fix g assume g: "g < total_experts r"
  show "host_slot_reservations r ! nat (slot_idx (ent r' g)) = operation_id (ent r' g)"
    if "operation (ent r' g) = PROMOTION_PENDING \<and> \<not> warm_shadow (ent r' g)"
    using inv_hresD(1)[OF h g] that E[of g] E' by (cases "g = v") auto
  show "host_slot_reservations r ! nat (slot_idx (ent r' g)) = 0"
    if "owner (ent r' g) = WARM_HOST \<and> (operation (ent r' g) = OP_NONE \<or> warm_shadow (ent r' g))"
    using inv_hresD(2)[OF h g] that E[of g] E' by (cases "g = v") auto
  show "\<exists>t<host_capacity r. host_slot_reservations r ! t = operation_id (ent r' g) \<and> host_slots r ! t = -1"
    if "gpu_transfer (ent r' g) = D2H_PENDING"
    using inv_hresD(3)[OF h g] that E[of g] E' s by (cases "g = v") auto
next
  fix t assume t: "t < host_capacity r" "host_slot_reservations r ! t \<noteq> 0" "host_slots r ! t = -1"
  show "t < host_capacity_usable r" using inv_hresD(4)[OF h t] by blast
  show "None = Some t \<or> (\<exists>g<total_experts r. gpu_transfer (ent r' g) = D2H_PENDING \<and>
            operation_id (ent r' g) = host_slot_reservations r ! t)"
  proof (cases "t = s")
    case True
    then show ?thesis using v E' s by auto
  next
    case False
    then obtain g where g: "g < total_experts r" "gpu_transfer (ent r g) = D2H_PENDING"
        "operation_id (ent r g) = host_slot_reservations r ! t"
      using inv_hresD(4)[OF h t] by auto
    then have "g \<noteq> v" using v by auto
    then show ?thesis using g E by auto
  qed
next
  fix t t' assume "t < host_capacity r" "t' < host_capacity r" "host_slot_reservations r ! t \<noteq> 0"
      "host_slot_reservations r ! t = host_slot_reservations r ! t'"
      "host_slots r ! t = -1" "host_slots r ! t' = -1"
  then show "t = t'" by (rule inv_hresD(5)[OF h])
qed

subsection \<open>The demotion counter\<close>

lemma count_frame:
  assumes "inv_count r" and "total_experts r' = total_experts r"
    and "pending_demotion_count r' = pending_demotion_count r"
    and "\<And>g. g < total_experts r \<Longrightarrow>
      gpu_transfer (ent r' g) = D2H_PENDING \<longleftrightarrow> gpu_transfer (ent r g) = D2H_PENDING"
  shows "inv_count r'"
proof -
  have "{g. g < total_experts r' \<and> gpu_transfer (ent r' g) = D2H_PENDING} =
      {g. g < total_experts r \<and> gpu_transfer (ent r g) = D2H_PENDING}"
    using assms by auto
  then show ?thesis using assms by (simp add: inv_count_def)
qed

lemma count_less:
  assumes "inv_count r" and "total_experts r' = total_experts r"
    and "pending_demotion_count r' = pending_demotion_count r - 1"
    and "v < total_experts r" "gpu_transfer (ent r v) = D2H_PENDING"
      "gpu_transfer (ent r' v) \<noteq> D2H_PENDING"
    and "\<And>g. g \<noteq> v \<Longrightarrow> ent r' g = ent r g"
  shows "inv_count r'"
proof -
  have "{g. g < total_experts r' \<and> gpu_transfer (ent r' g) = D2H_PENDING} =
      {g. g < total_experts r \<and> g \<noteq> v \<and> gpu_transfer (ent r g) = D2H_PENDING}"
    using assms by (auto simp: set_eq_iff) (metis assms(6,7))+
  then show ?thesis using assms card_without[of v "total_experts r"] by (simp add: inv_count_def)
qed

lemma count_more:
  assumes "inv_count r" and "total_experts r' = total_experts r"
    and "pending_demotion_count r' = Suc (pending_demotion_count r)"
    and "v < total_experts r" "gpu_transfer (ent r v) \<noteq> D2H_PENDING"
      "gpu_transfer (ent r' v) = D2H_PENDING"
    and "\<And>g. g \<noteq> v \<Longrightarrow> ent r' g = ent r g"
  shows "inv_count r'"
proof -
  have "{g. g < total_experts r' \<and> gpu_transfer (ent r' g) = D2H_PENDING} =
      insert v {g. g < total_experts r \<and> gpu_transfer (ent r g) = D2H_PENDING}"
    using assms by (auto simp: set_eq_iff) (metis assms(5-7))+
  then show ?thesis using assms by (simp add: inv_count_def)
qed

end
