(* ===== verification/Registry_Settle.thy ===== *)
theory Registry_Settle
  imports Registry_Slots
begin

text \<open>
  The operations that end a transfer keep the invariant: \<open>complete_demotion\<close>, \<open>fail_demotion\<close>,
  \<open>complete_request\<close> and \<open>fail_request\<close>. First the state each of their branches reaches, then the
  operations themselves, whose audit passes and whose internal checks never fire.
\<close>

subsection \<open>The states the branches reach\<close>

lemma demotion_facts:
  assumes inv: "reg_inv r" and v: "v < total_experts r" and d2h: "gpu_transfer (ent r v) = D2H_PENDING"
  shows "operation (ent r v) = DEMOTION_PENDING" "owner (ent r v) = HOT_VRAM"
    "\<And>g. g < total_experts r \<Longrightarrow> gpu_transfer (ent r g) = D2H_PENDING \<Longrightarrow>
                operation_id (ent r g) = operation_id (ent r v) \<Longrightarrow> g = v"
    "0 \<le> slot_idx (ent r v)" "nat (slot_idx (ent r v)) < vram_capacity r"
    "vram_slots r ! nat (slot_idx (ent r v)) = int v"
proof -
  note I = reg_invD[OF inv]
  note sh = inv_entriesD(1)[OF I(2)]
  show dem: "operation (ent r v) = DEMOTION_PENDING" using shape_d2h sh v d2h by blast
  show o: "owner (ent r v) = HOT_VRAM" using entry_shapeD(4)[OF sh[OF v] dem] by simp
  show "0 \<le> slot_idx (ent r v)" using shape_slot[OF sh[OF v]] o by simp
  show "g = v" if g: "g < total_experts r" "gpu_transfer (ent r g) = D2H_PENDING"
     "operation_id (ent r g) = operation_id (ent r v)" for g
    using I(7) g v dem shape_d2h[OF sh[OF g(1)]] unfolding inv_ops_def by blast
  show "nat (slot_idx (ent r v)) < vram_capacity r" "vram_slots r ! nat (slot_idx (ent r v)) = int v"
    using inv_vmapD(1)[OF I(3) v o] by auto
qed

lemma complete_demotion_state:
  assumes inv: "reg_inv r" and v: "v < total_experts r" and d2h: "gpu_transfer (ent r v) = D2H_PENDING"
    and d: "dest < host_capacity r" "host_slots r ! dest = -1" 
       "host_slot_reservations r ! dest = operation_id (ent r v)"
    and r': "r' = (upd_ent v (\<lambda>e. e\<lparr>owner := WARM_HOST, slot_idx := int dest,
                         pending_slot_idx := -1, operation := OP_NONE, gpu_transfer := GT_NONE,
                         publication := PUBLISHED, slot_state := ACTIVE,
                         demotion_drop_reason := DROP_NONE, lru_it := v, in_lru := True\<rparr>) r)
             \<lparr>host_slots := (host_slots r)[dest := int v],
              host_slot_reservations := (host_slot_reservations r)[dest := 0],
              warm_host_lru := v # warm_host_lru r,
              vram_slots := (vram_slots r)[nat (slot_idx (ent r v)) := -1],
              pending_demotion_count := pending_demotion_count r - 1,
              demotion_completions := n\<rparr>"
  shows "reg_inv r'"
proof -
  note I = reg_invD[OF inv] and dm = demotion_facts[OF inv v d2h]
  note sz = inv_sizesD[OF I(1)] and side = slot_side_conditions[OF I(2,3)]
  note sh = inv_entriesD(1)[OF I(2)] and gid = inv_entriesD(2)[OF I(2)]
  note dv = entry_shapeD(4)[OF sh[OF v] dm(1)] entry_shapeD(5-)[OF sh[OF v]]
  have us: "dest < host_capacity_usable r"
    using inv_hresD(4)[OF I(6) d(1)] d dv by simp
  note st = r' ent_upd_ent v sz(1)
  show ?thesis
  proof (rule reg_inv_holesI)
    show "inv_sizes r'" using I(1) by (simp add: inv_sizes_def st)
    show "inv_entries r'"
      by (rule inv_entries_one[OF I(2), of _ v]) (use dv gid[OF v] inv_entriesD(3)[OF I(2) v] in \<open>auto simp: st entry_shape_def\<close>)
    show "inv_vmap r'"
      by (rule vmap_release[OF I(3) dm(5,6) sz(2)]) (use dv in \<open>simp_all add: st\<close>)
    show "inv_hmap r'"
      by (rule hmap_occupy[OF I(4) us d(2) v]) (use dv sz in \<open>simp_all add: st\<close>)
    show "inv_vres None r'"
      by (rule vres_victim_leaves[OF I(5) v dm(1) vmap_hot_unique[OF I(2,3) v dm(2)]]) (use dv sz side in \<open>simp_all add: st\<close>)
    show "inv_hres None r'"
      by (rule hres_settle[OF I(6) I(4) v _ dm(3) d, where w = "int v"]) (use dv sz side in \<open>auto simp: st\<close>)
    show "inv_ops r'" using I(7) by (auto simp: inv_ops_def st incoming_def)
    show "inv_lru r'" using I(8) v dv by (auto simp: inv_lru_def st)
    show "inv_free r'" using I(9) inv_vresD(2)[OF I(5) v dm(1)] dm sz d dv by (auto simp: inv_free_def st nth_list_update)
    show "inv_count r'" by (rule count_less[OF I(10) _ _ v d2h]) (simp_all add: st)
    show "inv_mode r'" using I(11) v dv by (auto simp: inv_mode_def st)
  qed
qed

lemma fail_demotion_state:
  assumes inv: "reg_inv r" and v: "v < total_experts r" and d2h: "gpu_transfer (ent r v) = D2H_PENDING"
    and d: "dest < host_capacity r" "host_slots r ! dest = -1" 
       "host_slot_reservations r ! dest = operation_id (ent r v)"
    and r': "r' = (upd_ent v retire r)
             \<lparr>host_slots := (host_slots r)[dest := -1],
              host_slot_reservations := (host_slot_reservations r)[dest := 0],
              free_host_slots := free_host_slots r @ [dest],
              vram_slots := (vram_slots r)[nat (slot_idx (ent r v)) := -1],
              pending_demotion_count := pending_demotion_count r - 1,
              demotion_drops := n\<rparr>"
  shows "reg_inv r'"
proof -
  note I = reg_invD[OF inv] and dm = demotion_facts[OF inv v d2h]
  note sz = inv_sizesD[OF I(1)] and side = slot_side_conditions[OF I(2,3)]
  note sh = inv_entriesD(1)[OF I(2)] and gid = inv_entriesD(2)[OF I(2)]
  note dv = entry_shapeD(4)[OF sh[OF v] dm(1)] entry_shapeD(5-)[OF sh[OF v]]
  have us: "dest < host_capacity_usable r"
    using inv_hresD(4)[OF I(6) d(1)] d dv by simp
  have hs: "(host_slots r)[dest := -1] = host_slots r" using d(2) by (metis list_update_id)
  note st = r' ent_upd_ent v sz(1) retire_def
  show ?thesis
  proof (rule reg_inv_holesI)
    show "inv_sizes r'" using I(1) by (simp add: inv_sizes_def st)
    show "inv_entries r'"
      by (rule inv_entries_one[OF I(2), of _ v]) (use dv gid[OF v] inv_entriesD(3)[OF I(2) v] in \<open>auto simp: st entry_shape_def\<close>)
    show "inv_vmap r'"
      by (rule vmap_release[OF I(3) dm(5,6) sz(2)]) (use dv in \<open>simp_all add: st\<close>)
    show "inv_hmap r'"
      by (rule hmap_frame[OF I(4)]) (use dv hs in \<open>simp_all add: st\<close>)
    show "inv_vres None r'"
      by (rule vres_victim_leaves[OF I(5) v dm(1) vmap_hot_unique[OF I(2,3) v dm(2)]]) (use dv sz side in \<open>simp_all add: st\<close>)
    show "inv_hres None r'"
      by (rule hres_settle[OF I(6) I(4) v _ dm(3) d, where w = "-1"]) (use dv sz side in \<open>auto simp: st\<close>)
    show "inv_ops r'" using I(7) by (auto simp: inv_ops_def st incoming_def)
    show "inv_lru r'" using I(8) v dv by (auto simp: inv_lru_def st)
    show "inv_free r'" using I(9) inv_vresD(2)[OF I(5) v dm(1)] dm sz d dv us by (auto simp: inv_free_def st nth_list_update)
    show "inv_count r'" by (rule count_less[OF I(10) _ _ v d2h]) (simp_all add: st)
    show "inv_mode r'" using I(11) v dv by (auto simp: inv_mode_def st)
  qed
qed

lemma incoming_facts:
  assumes inv: "reg_inv r" and g: "g < total_experts r" "incoming (ent r g)"
  shows "publication (ent r g) = UNPUBLISHED" "gpu_transfer (ent r g) = H2D_PENDING"
    "\<not> in_lru (ent r g)" "operation_id (ent r g) \<noteq> 0" "shadow_vram_slot (ent r g) = -1"
    "owner (ent r g) \<noteq> HOT_VRAM" "\<not> resident_at_prefill_begin (ent r g)"
    "operation (ent r g) = IO_PENDING \<longleftrightarrow> owner (ent r g) = COLD_NVME"
    "operation (ent r g) = PROMOTION_PENDING \<longleftrightarrow> owner (ent r g) = WARM_HOST"
    "warm_shadow (ent r g) \<Longrightarrow> owner (ent r g) = WARM_HOST"
    "\<And>h. h < total_experts r \<Longrightarrow> incoming (ent r h) \<Longrightarrow>
       operation_id (ent r h) = operation_id (ent r g) \<Longrightarrow> h = g"
proof -
  note I = reg_invD[OF inv]
  note sh = inv_entriesD(1)[OF I(2) g(1)]
  show "h = g" if "h < total_experts r" "incoming (ent r h)"
    "operation_id (ent r h) = operation_id (ent r g)" for h
    using I(7) g that unfolding inv_ops_def by blast
qed (use assms entry_shapeD[OF inv_entriesD(1)[OF reg_invD(2)[OF inv] g(1)]] in \<open>auto simp: incoming_def\<close>)

lemma retire_victim_state:
  assumes inv: "reg_inv r" and v: "v < total_experts r" "operation (ent r v) = DEMOTION_PENDING"
      "gpu_transfer (ent r v) \<noteq> D2H_PENDING"
    and r': "r' = (upd_ent v retire r)\<lparr>vram_slots := (vram_slots r)[nat (slot_idx (ent r v)) := -1]\<rparr>"
  shows "reg_inv r'"
proof -
  note I = reg_invD[OF inv]
  note sz = inv_sizesD[OF I(1)] and side = slot_side_conditions[OF I(2,3)]
  note sh = inv_entriesD(1)[OF I(2) v(1)] and gid = inv_entriesD(2,3)[OF I(2) v(1)]
  note dv = entry_shapeD(4)[OF sh v(2)] entry_shapeD(5-)[OF sh]
  have hot: "owner (ent r v) = HOT_VRAM" using dv by simp
  note vm = inv_vmapD(1)[OF I(3) v(1) hot]
  note st = r' ent_upd_ent v sz(1) retire_def
  show ?thesis
  proof (rule reg_inv_holesI)
    show "inv_sizes r'" using I(1) by (simp add: inv_sizes_def st)
    show "inv_entries r'"
      by (rule inv_entries_one[OF I(2), of _ v]) (use dv gid in \<open>auto simp: st entry_shape_def\<close>)
    show "inv_vmap r'"
      by (rule vmap_release[OF I(3) vm[THEN conjunct1] vm[THEN conjunct2] sz(2)])
        (use dv in \<open>simp_all add: st\<close>)
    show "inv_hmap r'" by (rule hmap_frame[OF I(4)]) (use dv in \<open>simp_all add: st\<close>)
    show "inv_vres None r'"
      by (rule vres_victim_leaves[OF I(5) v(1,2) vmap_hot_unique[OF I(2,3) v(1) hot]])
        (use dv sz side in \<open>simp_all add: st\<close>)
    show "inv_hres None r'"
      by (rule hres_frame[OF I(6)]) (use v dv in \<open>simp_all add: st hres_view_def\<close>)
    show "inv_ops r'" using I(7) by (auto simp: inv_ops_def st incoming_def)
    show "inv_lru r'" using I(8) v dv by (auto simp: inv_lru_def st)
    show "inv_free r'"
      using I(9) inv_vresD(2)[OF I(5) v(1,2)] vm sz dv by (auto simp: inv_free_def st nth_list_update)
    show "inv_count r'" by (rule count_frame[OF I(10)]) (use v in \<open>simp_all add: st\<close>)
    show "inv_mode r'" using I(11) v dv by (auto simp: inv_mode_def st)
  qed
qed

text \<open>An incoming copy has landed in an empty VRAM slot: the expert is Hot.\<close>

lemma land_cold_state:
  assumes inv: "reg_inv r" and g: "g < total_experts r" "operation (ent r g) = IO_PENDING"
      "pending_slot_idx (ent r g) = int s" and s: "vram_slots r ! s = -1"
    and r': "r' = (upd_ent g (\<lambda>e. e\<lparr>owner := HOT_VRAM, slot_idx := int s,
                   pending_slot_idx := -1, operation := OP_NONE, gpu_transfer := GT_NONE,
                   publication := PUBLISHED, slot_state := ACTIVE, lru_it := g, in_lru := True\<rparr>) r)
              \<lparr>vram_slots := (vram_slots r)[s := int g],
               vram_slot_reservations := (vram_slot_reservations r)[s := 0],
               hot_vram_lru := g # hot_vram_lru r\<rparr>"
  shows "reg_inv r'"
proof -
  note I = reg_invD[OF inv]
  note sz = inv_sizesD[OF I(1)] and side = slot_side_conditions[OF I(2,3)]
  note sh = inv_entriesD(1)[OF I(2) g(1)] and gid = inv_entriesD(2,3)[OF I(2) g(1)]
  have inc: "incoming (ent r g)" using g by (simp add: incoming_def)
  note gv = incoming_facts[OF inv g(1) inc] entry_shapeD(5-)[OF sh]
  have cold: "owner (ent r g) = COLD_NVME" "\<not> warm_shadow (ent r g)" using entry_shapeD(2)[OF sh g(2)] by auto
  have sv: "s < vram_capacity r" "vram_slot_reservations r ! s = operation_id (ent r g)"
    using inv_vresD(1)[OF I(5) g(1) inc] g(3) by auto
  note st = r' ent_upd_ent g sz(1)
  show ?thesis
  proof (rule reg_inv_holesI)
    show "inv_sizes r'" using I(1) by (simp add: inv_sizes_def st)
    show "inv_entries r'"
      by (rule inv_entries_one[OF I(2), of _ g]) (use gv gid cold in \<open>auto simp: st entry_shape_def\<close>)
    show "inv_vmap r'"
      by (rule vmap_occupy[OF I(3) sv(1) s g(1)]) (use gv sz in \<open>simp_all add: st\<close>)
    show "inv_hmap r'" by (rule hmap_frame[OF I(4)]) (use cold in \<open>simp_all add: st\<close>)
    show "inv_vres None r'"
      by (rule vres_settle[OF I(5) g(1) inc g(3) gv(11) s])
        (use side sz cold inv_vmapD[OF I(3)] entry_shapeD(4)[OF inv_entriesD(1)[OF I(2)]] in \<open>simp_all add: st\<close>)
    show "inv_hres None r'"
      by (rule hres_frame[OF I(6)]) (use g gv cold in \<open>simp_all add: st hres_view_def\<close>)
    show "inv_ops r'" using I(7) by (auto simp: inv_ops_def st incoming_def)
    show "inv_lru r'" using I(8) g cold by (auto simp: inv_lru_def st)
    show "inv_free r'"
      using I(9) sv sz s gv(4) by (auto simp: inv_free_def st nth_list_update)
    show "inv_count r'" by (rule count_frame[OF I(10)]) (use gv in \<open>simp_all add: st\<close>)
    show "inv_mode r'" using I(11) cold gv by (auto simp: inv_mode_def st)
  qed
qed

lemma land_warm_state:
  assumes inv: "reg_inv r" and g: "g < total_experts r" "operation (ent r g) = PROMOTION_PENDING"
      "\<not> warm_shadow (ent r g)" "pending_slot_idx (ent r g) = int s" and s: "vram_slots r ! s = -1"
    and r': "r' = (upd_ent g (\<lambda>e. e\<lparr>owner := HOT_VRAM, slot_idx := int s,
                   pending_slot_idx := -1, operation := OP_NONE, gpu_transfer := GT_NONE,
                   publication := PUBLISHED, slot_state := ACTIVE, lru_it := g, in_lru := True\<rparr>) r)
              \<lparr>host_slots := (host_slots r)[nat (slot_idx (ent r g)) := -1],
               host_slot_reservations := (host_slot_reservations r)[nat (slot_idx (ent r g)) := 0],
               free_host_slots := free_host_slots r @ [nat (slot_idx (ent r g))],
               vram_slots := (vram_slots r)[s := int g],
               vram_slot_reservations := (vram_slot_reservations r)[s := 0],
               hot_vram_lru := g # hot_vram_lru r\<rparr>"
  shows "reg_inv r'"
proof -
  note I = reg_invD[OF inv]
  note sz = inv_sizesD[OF I(1)] and side = slot_side_conditions[OF I(2,3)]
  note sh = inv_entriesD(1)[OF I(2) g(1)] and gid = inv_entriesD(2,3)[OF I(2) g(1)]
  have inc: "incoming (ent r g)" using g by (simp add: incoming_def)
  note gv = incoming_facts[OF inv g(1) inc] entry_shapeD(5-)[OF sh]
  have warm: "owner (ent r g) = WARM_HOST" using gv g by simp
  obtain src where src: "slot_idx (ent r g) = int src" using shape_slot[OF sh] warm nonneg_int_cases by auto
  have hm: "src < host_capacity_usable r" "host_slots r ! src = int g"
    using inv_hmapD(1)[OF I(4) g(1) warm] src by auto
  have hr: "host_slot_reservations r ! src = operation_id (ent r g)"
    using inv_hresD(1)[OF I(6) g(1,2,3)] src by simp
  have sv: "s < vram_capacity r" "vram_slot_reservations r ! s = operation_id (ent r g)"
    using inv_vresD(1)[OF I(5) g(1) inc] g by auto
  have srcc: "src < host_capacity r" using hm sz by simp
  note st = r' ent_upd_ent g sz(1) src
  show ?thesis
  proof (rule reg_inv_holesI)
    show "inv_sizes r'" using I(1) by (simp add: inv_sizes_def st)
    show "inv_entries r'"
      by (rule inv_entries_one[OF I(2), of _ g]) (use gv gid warm in \<open>auto simp: st entry_shape_def\<close>)
    show "inv_vmap r'"
      by (rule vmap_occupy[OF I(3) sv(1) s g(1)]) (use gv sz in \<open>simp_all add: st\<close>)
    show "inv_hmap r'" by (rule hmap_release[OF I(4) srcc hm(2)]) (use sz in \<open>simp_all add: st\<close>)
    show "inv_vres None r'"
      by (rule vres_settle[OF I(5) g(1) inc g(4) gv(11) s])
        (use side sz inv_vmapD[OF I(3)] entry_shapeD(4)[OF inv_entriesD(1)[OF I(2)]] in \<open>simp_all add: st\<close>)
    show "inv_hres None r'"
      by (rule hres_source[OF I(6,4) g(1) warm _ src, where op_id = 0]) (use gv sz side in \<open>simp_all add: st\<close>)
    show "inv_ops r'" using I(7) by (auto simp: inv_ops_def st incoming_def)
    show "inv_lru r'" using I(8) g gv warm by (auto simp: inv_lru_def st)
    show "inv_free r'"
      using I(9) sv sz s hm hr srcc gv(4) by (auto simp: inv_free_def st nth_list_update)
    show "inv_count r'" by (rule count_frame[OF I(10)]) (use gv in \<open>simp_all add: st\<close>)
    show "inv_mode r'" using I(11) g gv by (auto simp: inv_mode_def st)
  qed
qed

lemma complete_shadow_state:
  assumes inv: "reg_inv r" and g: "g < total_experts r" "warm_shadow (ent r g)"
      "pending_slot_idx (ent r g) = int s"
    and r': "r' = (upd_ent g (\<lambda>e. e\<lparr>operation := OP_NONE, operation_id := 0,
                 gpu_transfer := GT_NONE, publication := PUBLISHED, slot_state := ACTIVE,
                 pending_slot_idx := -1, warm_shadow := False, shadow_vram_slot := int s,
                 lru_it := g, in_lru := True\<rparr>) r)
              \<lparr>shadow_slot_of_expert := (shadow_slot_of_expert r)[g := int s],
               vram_slots := (vram_slots r)[s := int g],
               vram_slot_reservations := (vram_slot_reservations r)[s := 0],
               warm_host_lru := g # warm_host_lru r,
               shadow_lru := g # removeAll g (shadow_lru r)\<rparr>"
  shows "reg_inv r'"
proof -
  note I = reg_invD[OF inv]
  note sz = inv_sizesD[OF I(1)] and side = slot_side_conditions[OF I(2,3)]
  note sh = inv_entriesD(1)[OF I(2) g(1)] and gid = inv_entriesD(2,3)[OF I(2) g(1)]
  have prom: "operation (ent r g) = PROMOTION_PENDING" using shape_warm_shadow[OF sh g(2)] .
  then have inc: "incoming (ent r g)" by (simp add: incoming_def)
  note gv = incoming_facts[OF inv g(1) inc] entry_shapeD(5-)[OF sh]
  have warm: "owner (ent r g) = WARM_HOST" using gv prom by simp
  have s: "vram_slots r ! s = -1" using inv_vresD(5)[OF I(5) g(1,2)] g(3) by simp
  have sv: "s < vram_capacity r" "vram_slot_reservations r ! s = operation_id (ent r g)"
    using inv_vresD(1)[OF I(5) g(1) inc] g by auto
  have frozen: "warm_frozen r" using I(11) g by (auto simp: inv_mode_def)
  note st = r' ent_upd_ent g sz(1)
  show ?thesis
  proof (rule reg_inv_holesI)
    show "inv_sizes r'" using I(1) by (simp add: inv_sizes_def st)
    show "inv_entries r'"
      by (rule inv_entries_one[OF I(2), of _ g]) (use gv gid warm sz in \<open>auto simp: st entry_shape_def\<close>)
    show "inv_vmap r'"
      by (rule vmap_occupy[OF I(3) sv(1) s g(1)]) (use gv warm sz in \<open>simp_all add: st\<close>)
    show "inv_hmap r'" by (rule hmap_frame[OF I(4)]) (use warm in \<open>simp_all add: st\<close>)
    show "inv_vres None r'"
      by (rule vres_settle[OF I(5) g(1) inc g(3) gv(11) s])
        (use side sz inv_vmapD[OF I(3)] entry_shapeD(4)[OF inv_entriesD(1)[OF I(2)]] in \<open>simp_all add: st\<close>)
    show "inv_hres None r'"
      by (rule hres_frame[OF I(6)]) (use g gv warm prom in \<open>simp_all add: st hres_view_def\<close>)
    show "inv_ops r'" using I(7) by (auto simp: inv_ops_def st incoming_def)
    show "inv_lru r'" using I(8) g gv warm sz by (auto simp: inv_lru_def st nth_list_update)
    show "inv_free r'"
      using I(9) sv sz s gv(4) by (auto simp: inv_free_def st nth_list_update)
    show "inv_count r'" by (rule count_frame[OF I(10)]) (use gv in \<open>simp_all add: st\<close>)
    show "inv_mode r'" using I(11) g gv frozen by (auto simp: inv_mode_def st)
  qed
qed
text \<open>A request that failed, with no victim: the entry is idle again on its own tier, its VRAM
  reservation and its hold on a Warm source are gone.\<close>

lemma fail_state:
  assumes inv: "reg_inv r" and g: "g < total_experts r" "incoming (ent r g)"
    and p: "pending_slot_idx (ent r g) \<noteq> -1 \<Longrightarrow> vram_slots r ! nat (pending_slot_idx (ent r g)) = -1"
    and f: "owner (f (ent r g)) = owner (ent r g)" "slot_idx (f (ent r g)) = slot_idx (ent r g)"
      "pending_slot_idx (f (ent r g)) = -1" "operation (f (ent r g)) = OP_NONE"
      "gpu_transfer (f (ent r g)) = GT_NONE" "publication (f (ent r g)) = PUBLISHED"
      "\<not> warm_shadow (f (ent r g))" "shadow_vram_slot (f (ent r g)) = -1"
      "\<not> resident_at_prefill_begin (f (ent r g))" "global_expert_id (f (ent r g)) = g"
      "in_lru (f (ent r g)) \<longleftrightarrow> owner (ent r g) = WARM_HOST"
      "owner (ent r g) = WARM_HOST \<Longrightarrow> lru_it (f (ent r g)) = g"
      "operation_id (f (ent r g)) < next_operation_id r"
    and r': "r' = (upd_ent g f r)
       \<lparr>vram_slot_reservations := (if pending_slot_idx (ent r g) = -1 then vram_slot_reservations r
          else (vram_slot_reservations r)[nat (pending_slot_idx (ent r g)) := 0]),
        free_vram_slots := (if pending_slot_idx (ent r g) = -1 then free_vram_slots r
          else free_vram_slots r @ [nat (pending_slot_idx (ent r g))]),
        host_slot_reservations := (if owner (ent r g) = WARM_HOST \<and> \<not> warm_shadow (ent r g)
          then (host_slot_reservations r)[nat (slot_idx (ent r g)) := 0] else host_slot_reservations r),
        warm_host_lru := (if owner (ent r g) = WARM_HOST then g # warm_host_lru r else warm_host_lru r)\<rparr>"
  shows "reg_inv r'"
proof -
  note I = reg_invD[OF inv]
  note sz = inv_sizesD[OF I(1)] and side = slot_side_conditions[OF I(2,3)]
  note sh = inv_entriesD(1)[OF I(2) g(1)] and gid = inv_entriesD(2,3)[OF I(2) g(1)]
  note gv = incoming_facts[OF inv g] entry_shapeD(5-)[OF sh]
  have ops: "operation (ent r g) \<noteq> OP_NONE" "operation (ent r g) \<noteq> DEMOTION_PENDING" using g by (auto simp: incoming_def)
  have tier: "owner (ent r g) = COLD_NVME \<or> owner (ent r g) = WARM_HOST" using gv(6) by (cases "owner (ent r g)") auto
  note st = r' ent_upd_ent g sz(1) f
  show ?thesis
  proof (rule reg_inv_holesI)
    show "inv_sizes r'" using I(1) by (simp add: inv_sizes_def st)
    show "inv_entries r'"
      by (rule inv_entries_one[OF I(2), of _ g]) (use gv gid tier in \<open>auto simp: st entry_shape_def\<close>)
    show "inv_vmap r'" by (rule vmap_frame[OF I(3)]) (use gv in \<open>simp_all add: st\<close>)
    show "inv_hmap r'" by (rule hmap_frame[OF I(4)]) (simp_all add: st)
    show "inv_vres None r'"
    proof (cases "pending_slot_idx (ent r g) = -1")
      case True
      show ?thesis by (rule vres_unslotted[OF I(5) g(1) ops(2)]) (simp_all add: st True)
    next
      case False
      have s: "pending_slot_idx (ent r g) = int (nat (pending_slot_idx (ent r g)))" (is "_ = int ?s")
        using False entry_shapeD(9)[OF sh] by linarith
      have e: "vram_slots r ! ?s = -1" using p[OF False] .
      have keep: "(vram_slots r)[?s := -1] = vram_slots r" using e by (metis list_update_id)
      show ?thesis
        by (rule vres_settle[OF I(5) g s gv(11) e, where x = "-1"])
          (use False keep side sz inv_vmapD[OF I(3)] entry_shapeD(4)[OF inv_entriesD(1)[OF I(2)]]
            in \<open>simp_all add: st\<close>)
    qed
    show "inv_hres None r'"
    proof (cases "owner (ent r g) = WARM_HOST \<and> \<not> warm_shadow (ent r g)")
      case True
      have src: "slot_idx (ent r g) = int (nat (slot_idx (ent r g)))" and ge: "0 \<le> slot_idx (ent r g)"
        using True shape_slot[OF sh] by simp_all
      show ?thesis
        by (rule hres_source[OF I(6,4) g(1) _ _ src, where op_id = 0])
          (use True ge gv(2) sz side in \<open>simp_all add: st\<close>)
    next
      case False
      show ?thesis by (rule hres_frame[OF I(6)]) (use False ops gv in \<open>auto simp: st hres_view_def\<close>)
    qed
    show "inv_ops r'" using I(7) by (auto simp: inv_ops_def st incoming_def)
    show "inv_lru r'" using I(8) g gv by (auto simp: inv_lru_def st nth_list_update)
    show "inv_free r'"
    proof (cases "pending_slot_idx (ent r g) = -1")
      case True
      then show ?thesis using I(9) sz by (auto simp: inv_free_def st nth_list_update nth_update_keep)
    next
      case False
      then show ?thesis
        using I(9) sz p inv_vresD(1)[OF I(5) g False] gv(4)
        by (auto simp: inv_free_def st nth_list_update nth_update_keep)
    qed
    show "inv_count r'" by (rule count_frame[OF I(10)]) (use gv in \<open>simp_all add: st\<close>)
    show "inv_mode r'" using I(11) gv by (auto simp: inv_mode_def st)
  qed
qed

subsection \<open>Looking an operation up\<close>

lemma reg_inv_checked [simp]: "reg_inv r \<Longrightarrow> checked_validate x r = ok x r"
  by (simp add: checked_validate_def validated_def reg_inv_validates)

lemma reg_inv_validated [simp]: "reg_inv r \<Longrightarrow> validated x r = ok x r"
  by (simp add: validated_def reg_inv_validates)

lemma find_upt_Some: "find P [0..<n] = Some g \<Longrightarrow> g < n \<and> P g"
  by (auto simp: find_Some_iff)

lemma find_upt_None: "find P [0..<n] = None \<Longrightarrow> g < n \<Longrightarrow> \<not> P g"
  by (auto simp: find_None_iff)

lemma find_incoming_Some:
  assumes "reg_inv r" "find_incoming_operation op_id r = Some g"
  shows "g < total_experts r" "incoming (ent r g)" "operation_id (ent r g) = op_id"
  using find_upt_Some[OF assms(2)[unfolded find_incoming_operation_def]] inv_sizesD(1)[OF reg_invD(1)[OF assms(1)]]
  by (auto simp: incoming_def)

lemma find_incoming_None:
  assumes "reg_inv r" "find_incoming_operation op_id r = None" "g < total_experts r" "incoming (ent r g)"
  shows "operation_id (ent r g) \<noteq> op_id"
  using find_upt_None[OF assms(2)[unfolded find_incoming_operation_def]] inv_sizesD(1)[OF reg_invD(1)[OF assms(1)]] assms(3,4)
  by (auto simp: incoming_def)

lemma find_victim_Some:
  assumes "reg_inv r" "find_operation_victim op_id r = Some g"
  shows "g < total_experts r" "operation (ent r g) = DEMOTION_PENDING" "operation_id (ent r g) = op_id"
  using find_upt_Some[OF assms(2)[unfolded find_operation_victim_def]] inv_sizesD(1)[OF reg_invD(1)[OF assms(1)]]
  by auto

lemma find_victim_None:
  assumes "reg_inv r" "find_operation_victim op_id r = None" "g < total_experts r" "operation (ent r g) = DEMOTION_PENDING"
  shows "operation_id (ent r g) \<noteq> op_id"
  using find_upt_None[OF assms(2)[unfolded find_operation_victim_def]] inv_sizesD(1)[OF reg_invD(1)[OF assms(1)]] assms(3,4)
  by auto

text \<open>A demotion in flight has its Warm slot, and the search finds that one.\<close>

lemma find_reserved_d2h:
  assumes inv: "reg_inv r" and v: "v < total_experts r" "gpu_transfer (ent r v) = D2H_PENDING"
  obtains dest where "find_reserved_host_slot (operation_id (ent r v)) r = int dest" "dest < host_capacity r"
    "host_slots r ! dest = -1" "host_slot_reservations r ! dest = operation_id (ent r v)"
proof -
  note I = reg_invD[OF inv]
  let ?P = "\<lambda>s. host_slot_reservations r ! s = operation_id (ent r v) \<and> host_slots r ! s < 0"
  obtain s where s: "s < host_capacity r" "?P s"
    using inv_hresD(3)[OF I(6) v] by auto
  then obtain d where d: "find ?P [0..<host_capacity r] = Some d"
    using find_upt_None[of ?P "host_capacity r" s] by (cases "find ?P [0..<host_capacity r]") auto
  have "d < host_capacity r" "?P d" using find_upt_Some[OF d] by auto
  then have "host_slots r ! d = -1" using inv_hmapD(2)[OF I(4), of d] by fastforce
  then show ?thesis using that[of d] d \<open>?P d\<close> \<open>d < host_capacity r\<close> by (simp add: find_reserved_host_slot_def)
qed

lemma complete_demotion_ok:
  assumes inv: "reg_inv r" and v: "find_operation_victim op_id r = Some v"
    and d2h: "gpu_transfer (ent r v) = D2H_PENDING"
  obtains r' dest where "complete_demotion op_id r = ok () r'" "reg_inv r'" 
    "owner (ent r' v) = WARM_HOST" "slot_idx (ent r' v) = int dest" "host_slots r' ! dest = int v"
    "\<And>x. x \<noteq> v \<Longrightarrow> ent r' x = ent r x" "operation (ent r' v) = OP_NONE" "total_experts r' = total_experts r"
proof -
  note I = reg_invD[OF inv]
  note vf = find_victim_Some[OF inv v] and sz = inv_sizesD[OF I(1)]
  note dm = demotion_facts[OF inv vf(1) d2h]
  note dv = entry_shapeD(4)[OF inv_entriesD(1)[OF I(2) vf(1)] dm(1)] and gid = inv_entriesD(2)[OF I(2) vf(1)]
  obtain dest where dest: "find_reserved_host_slot op_id r = int dest" "dest < host_capacity r"
    "host_slots r ! dest = -1" "host_slot_reservations r ! dest = operation_id (ent r v)"
    using find_reserved_d2h[OF inv vf(1) d2h] vf(3) by blast
  let ?r' = "(upd_ent v (\<lambda>e. e\<lparr>owner := WARM_HOST, slot_idx := int dest,
                         pending_slot_idx := -1, operation := OP_NONE, gpu_transfer := GT_NONE,
                         publication := PUBLISHED, slot_state := ACTIVE,
                         demotion_drop_reason := DROP_NONE, lru_it := v, in_lru := True\<rparr>) r)
             \<lparr>host_slots := (host_slots r)[dest := int v],
              host_slot_reservations := (host_slot_reservations r)[dest := 0],
              warm_host_lru := v # warm_host_lru r,
              vram_slots := (vram_slots r)[nat (slot_idx (ent r v)) := -1],
              pending_demotion_count := pending_demotion_count r - 1,
              demotion_completions := Suc (demotion_completions r)\<rparr>"
  have inv': "reg_inv ?r'" by (rule complete_demotion_state[OF inv vf(1) d2h dest(2-4) refl])
  have "complete_demotion op_id r = checked_validate () ?r'"
    using dm(4) dv vf sz gid
    by (simp add: complete_demotion_def v d2h dest(1) push_warm_eq ent_upd_ent)
       (intro arg_cong[where f = "checked_validate ()"] ExpertRegistry.equality; simp add: upd_ent_def ent_def)
  then show ?thesis using that[of ?r' dest] inv' vf sz dest by (simp add: ent_upd_ent)
qed

lemma complete_demotion_inv: "reg_inv r \<Longrightarrow> reg_inv (snd (complete_demotion op_id r))"
proof (cases "find_operation_victim op_id r")
  case None
  then show "reg_inv r \<Longrightarrow> ?thesis" by (simp add: complete_demotion_def)
next
  case (Some v)
  assume inv: "reg_inv r"
  show ?thesis
  proof (cases "gpu_transfer (ent r v) = D2H_PENDING")
    case True
    obtain r' where "complete_demotion op_id r = ok () r'" "reg_inv r'"
      using complete_demotion_ok[OF inv Some True] by metis
    then show ?thesis by simp
  qed (simp add: complete_demotion_def Some inv)
qed

lemma fail_demotion_ok:
  assumes inv: "reg_inv r" and v: "find_operation_victim op_id r = Some v"
    and d2h: "gpu_transfer (ent r v) = D2H_PENDING"
  obtains r' where "fail_demotion op_id r = ok () r'" "reg_inv r'" "owner (ent r' v) = COLD_NVME"
proof -
  note I = reg_invD[OF inv]
  note vf = find_victim_Some[OF inv v] and sz = inv_sizesD[OF I(1)]
  note dm = demotion_facts[OF inv vf(1) d2h]
  obtain dest where dest: "find_reserved_host_slot op_id r = int dest" "dest < host_capacity r"
    "host_slots r ! dest = -1" "host_slot_reservations r ! dest = operation_id (ent r v)"
    using find_reserved_d2h[OF inv vf(1) d2h] vf(3) by blast
  let ?r' = "(upd_ent v retire r)
             \<lparr>host_slots := (host_slots r)[dest := -1],
              host_slot_reservations := (host_slot_reservations r)[dest := 0],
              free_host_slots := free_host_slots r @ [dest],
              vram_slots := (vram_slots r)[nat (slot_idx (ent r v)) := -1],
              pending_demotion_count := pending_demotion_count r - 1,
              demotion_drops := Suc (demotion_drops r)\<rparr>"
  have inv': "reg_inv ?r'" by (rule fail_demotion_state[OF inv vf(1) d2h dest(2-4) refl])
  have "fail_demotion op_id r = checked_validate () ?r'"
    using dm(4)
    by (simp add: fail_demotion_def v d2h dest(1) release_destination_def release_reserved_host_slot_def)
       (intro arg_cong[where f = "checked_validate ()"] ExpertRegistry.equality; simp add: upd_ent_def ent_def)
  then show ?thesis using that[of ?r'] inv' vf sz by (simp add: ent_upd_ent retire_def)
qed

lemma fail_demotion_inv: "reg_inv r \<Longrightarrow> reg_inv (snd (fail_demotion op_id r))"
proof (cases "find_operation_victim op_id r")
  case None
  then show "reg_inv r \<Longrightarrow> ?thesis" by (simp add: fail_demotion_def)
next
  case (Some v)
  assume inv: "reg_inv r"
  show ?thesis
  proof (cases "gpu_transfer (ent r v) = D2H_PENDING")
    case True
    obtain r' where "fail_demotion op_id r = ok () r'" "reg_inv r'"
      using fail_demotion_ok[OF inv Some True] by metis
    then show ?thesis by simp
  qed (simp add: fail_demotion_def Some inv)
qed

text \<open>The victim of an eviction holds the very slot its request waits for.\<close>

lemma victim_slot:
  assumes inv: "reg_inv r" and g: "g < total_experts r" "incoming (ent r g)" 
    and v: "v < total_experts r" "operation (ent r v) = DEMOTION_PENDING"
    and same: "operation_id (ent r v) = operation_id (ent r g)"
  shows "pending_slot_idx (ent r g) = slot_idx (ent r v)"
proof -
  note I = reg_invD[OF inv]
  note sh = inv_entriesD(1)[OF I(2) v(1)]
  note dv = entry_shapeD(4)[OF sh v(2)]
  have hot: "owner (ent r v) = HOT_VRAM" using dv by simp
  have ge: "0 \<le> slot_idx (ent r v)" using shape_slot[OF sh] hot by simp
  have s: "nat (slot_idx (ent r v)) < vram_capacity r" using inv_vmapD(1)[OF I(3) v(1) hot] by simp
  have rv: "vram_slot_reservations r ! nat (slot_idx (ent r v)) = operation_id (ent r v)"
    using inv_vresD(2)[OF I(5) v] .
  then obtain h where h: "h < total_experts r" "incoming (ent r h)" "pending_slot_idx (ent r h) = slot_idx (ent r v)"
    using inv_vresD(3)[OF I(5) s] dv ge by auto
  have "operation_id (ent r h) = operation_id (ent r g)"
    using inv_vresD(1)[OF I(5) h(1,2)] h(3) rv same ge by auto
  then show ?thesis using incoming_facts(11)[OF inv g h(1,2)] h(3) by simp
qed

lemma no_victim_empty:
  assumes inv: "reg_inv r" and g: "g < total_experts r" "incoming (ent r g)" "pending_slot_idx (ent r g) \<noteq> -1"
    and nov: "find_operation_victim (operation_id (ent r g)) r = None"
  shows "vram_slots r ! nat (pending_slot_idx (ent r g)) = -1"
proof (rule ccontr)
  note I = reg_invD[OF inv]
  let ?s = "nat (pending_slot_idx (ent r g))"
  assume occ: "vram_slots r ! ?s \<noteq> -1"
  have s: "?s < vram_capacity r" "vram_slot_reservations r ! ?s = operation_id (ent r g)"
    using inv_vresD(1)[OF I(5) g] by auto
  have nz: "vram_slot_reservations r ! ?s \<noteq> 0" using s incoming_facts(4)[OF inv g(1,2)] by simp
  let ?v = "nat (vram_slots r ! ?s)"
  have dem: "operation (ent r ?v) = DEMOTION_PENDING" using inv_vresD(4)[OF I(5) s(1) nz occ] .
  have v: "?v < total_experts r" "slot_idx (ent r ?v) = int ?s"
    using inv_vmapD(3)[OF I(3) s(1) occ] entry_shapeD(4)[OF inv_entriesD(1)[OF I(2)] dem] by auto
  have "operation_id (ent r ?v) = operation_id (ent r g)"
    using inv_vresD(2)[OF I(5) v(1) dem] unfolding v(2) nat_int s(2) by simp
  then show False using find_victim_None[OF inv nov v(1) dem] by simp
qed

lemma retire_victim_inv:
  assumes inv: "reg_inv r" and v: "v < total_experts r" "operation (ent r v) = DEMOTION_PENDING"
      "gpu_transfer (ent r v) \<noteq> D2H_PENDING"
  shows "retire_victim False v r = (upd_ent v retire r)\<lparr>vram_slots := (vram_slots r)[nat (slot_idx (ent r v)) := -1]\<rparr>"
    "reg_inv (retire_victim False v r)"
proof -
  note I = reg_invD[OF inv]
  note sh = inv_entriesD(1)[OF I(2) v(1)]
  have hot: "owner (ent r v) = HOT_VRAM" using entry_shapeD(4)[OF sh v(2)] by simp
  show eq: "retire_victim False v r = (upd_ent v retire r)\<lparr>vram_slots := (vram_slots r)[nat (slot_idx (ent r v)) := -1]\<rparr>"
    using inv_vmapD(1)[OF I(3) v(1) hot] inv_entriesD(2)[OF I(2) v(1)] shape_slot[OF sh] hot
    by (simp add: retire_victim_def upd_ent_def)
  show "reg_inv (retire_victim False v r)" by (rule retire_victim_state[OF inv v eq])
qed

lemma land_request_ok:
  assumes inv: "reg_inv r" and g: "g < total_experts r" "incoming (ent r g)" "\<not> warm_shadow (ent r g)"
      "pending_slot_idx (ent r g) = int s" and s: "vram_slots r ! s = -1"
  obtains r' where "land_request g (int s) r = ok () r'" "reg_inv r'"
    "owner (ent r' g) = HOT_VRAM" "slot_idx (ent r' g) = int s" "vram_slots r' ! s = int g"
    "\<And>h. h \<noteq> g \<Longrightarrow> ent r' h = ent r h"
proof -
  note I = reg_invD[OF inv]
  note sz = inv_sizesD[OF I(1)]
  note sh = inv_entriesD(1)[OF I(2) g(1)] and gid = inv_entriesD(2)[OF I(2) g(1)]
  note gv = incoming_facts[OF inv g(1,2)]
  have sv: "s < vram_capacity r" using inv_vresD(1)[OF I(5) g(1,2)] g by auto
  let ?f = "\<lambda>e. e\<lparr>owner := HOT_VRAM, slot_idx := int s,
                   pending_slot_idx := -1, operation := OP_NONE, gpu_transfer := GT_NONE,
                   publication := PUBLISHED, slot_state := ACTIVE, lru_it := g, in_lru := True\<rparr>"
  let ?src = "nat (slot_idx (ent r g))"
  show ?thesis
  proof (cases "operation (ent r g) = PROMOTION_PENDING")
    case True
    then have warm: "owner (ent r g) = WARM_HOST" using gv by simp
    let ?r' = "(upd_ent g ?f r)\<lparr>host_slots := (host_slots r)[?src := -1],
               host_slot_reservations := (host_slot_reservations r)[?src := 0],
               free_host_slots := free_host_slots r @ [?src],
               vram_slots := (vram_slots r)[s := int g],
               vram_slot_reservations := (vram_slot_reservations r)[s := 0],
               hot_vram_lru := g # hot_vram_lru r\<rparr>"
    have inv': "reg_inv ?r'" by (rule land_warm_state[OF inv g(1) True g(3,4) s refl])
    have "land_request g (int s) r = checked_validate () ?r'"
      using warm shape_slot[OF sh] inv_hmapD(1)[OF I(4) g(1)] gid g sz gv(3)
      by (simp add: land_request_def Let_def push_hot_eq ent_upd_ent)
         (intro arg_cong[where f = "checked_validate ()"] ExpertRegistry.equality; simp add: upd_ent_def ent_def)
    then show ?thesis using that[of ?r'] inv' g sz sv by (simp add: ent_upd_ent)
  next
    case False
    then have io: "operation (ent r g) = IO_PENDING" using g by (simp add: incoming_def)
    then have cold: "owner (ent r g) = COLD_NVME" using gv by simp
    let ?r' = "(upd_ent g ?f r)\<lparr>vram_slots := (vram_slots r)[s := int g],
               vram_slot_reservations := (vram_slot_reservations r)[s := 0],
               hot_vram_lru := g # hot_vram_lru r\<rparr>"
    have inv': "reg_inv ?r'" by (rule land_cold_state[OF inv g(1) io g(4) s refl])
    have "land_request g (int s) r = checked_validate () ?r'"
      using cold gid g sz gv(3)
      by (simp add: land_request_def Let_def push_hot_eq ent_upd_ent)
         (intro arg_cong[where f = "checked_validate ()"] ExpertRegistry.equality; simp add: upd_ent_def ent_def)
    then show ?thesis using that[of ?r'] inv' g sz sv by (simp add: ent_upd_ent)
  qed
qed

lemma complete_shadow_ok:
  assumes inv: "reg_inv r" and g: "g < total_experts r" "warm_shadow (ent r g)"
      "pending_slot_idx (ent r g) = int s"
  obtains r' where "complete_shadow g (int s) r = ok () r'" "reg_inv r'"
    "shadow_vram_slot (ent r' g) = int s" "vram_slots r' ! s = int g" "owner (ent r' g) = WARM_HOST"
    "\<And>h. h \<noteq> g \<Longrightarrow> ent r' h = ent r h"
proof -
  note I = reg_invD[OF inv]
  note sz = inv_sizesD[OF I(1)]
  note sh = inv_entriesD(1)[OF I(2) g(1)] and gid = inv_entriesD(2)[OF I(2) g(1)]
  have inc: "incoming (ent r g)" using slot_side_conditions(2)[OF I(2,3) g(1,2)] .
  note gv = incoming_facts[OF inv g(1) inc]
  have sv: "s < vram_capacity r" using inv_vresD(1)[OF I(5) g(1) inc] g by auto
  let ?r' = "(upd_ent g (\<lambda>e. e\<lparr>operation := OP_NONE, operation_id := 0,
                 gpu_transfer := GT_NONE, publication := PUBLISHED, slot_state := ACTIVE,
                 pending_slot_idx := -1, warm_shadow := False, shadow_vram_slot := int s,
                 lru_it := g, in_lru := True\<rparr>) r)
              \<lparr>shadow_slot_of_expert := (shadow_slot_of_expert r)[g := int s],
               vram_slots := (vram_slots r)[s := int g],
               vram_slot_reservations := (vram_slot_reservations r)[s := 0],
               warm_host_lru := g # warm_host_lru r,
               shadow_lru := g # removeAll g (shadow_lru r)\<rparr>"
  have inv': "reg_inv ?r'" by (rule complete_shadow_state[OF inv g refl])
  have "complete_shadow g (int s) r = checked_validate () ?r'"
    using gid g sz gv(3)
    by (simp add: complete_shadow_def Let_def push_warm_eq ent_upd_ent shadow_touch_def)
       (intro arg_cong[where f = "checked_validate ()"] ExpertRegistry.equality; simp add: upd_ent_def ent_def)
  then show ?thesis using that[of ?r'] inv' g sz sv gv(10) by (simp add: ent_upd_ent)
qed

text \<open>A completed H2D copy: a request of the registry with a destination and no D2H under way always
  lands, and the registry is well formed afterwards.\<close>

lemma complete_request_ok:
  assumes inv: "reg_inv r" and fi: "find_incoming_operation op_id r = Some g"
    and p: "0 \<le> pending_slot_idx (ent r g)"
    and nd: "\<And>v. find_operation_victim op_id r = Some v \<Longrightarrow> gpu_transfer (ent r v) \<noteq> D2H_PENDING"
  obtains r' where "complete_request op_id r = ok () r'" "reg_inv r'" "expert_resident_at (ent r' g)"
     "vram_slots r' ! nat (pending_slot_idx (ent r g)) = int g"
proof -
  note I = reg_invD[OF inv]
  note fg = find_incoming_Some[OF inv fi]
  note gv = incoming_facts[OF inv fg(1,2)]
  obtain s where s: "pending_slot_idx (ent r g) = int s" using p nonneg_int_cases by metis
  have sv: "s < vram_capacity r" "vram_slot_reservations r ! s = op_id"
    using inv_vresD(1)[OF I(5) fg(1,2)] s fg(3) by auto
  consider (shadow) "warm_shadow (ent r g)"
    | (alone) "\<not> warm_shadow (ent r g)" "find_operation_victim op_id r = None"
    | (victim) v where "\<not> warm_shadow (ent r g)" "find_operation_victim op_id r = Some v" by blast
  then show ?thesis
  proof cases
    case shadow
    obtain r' where r': "complete_shadow g (int s) r = ok () r'" "reg_inv r'" 
      "shadow_vram_slot (ent r' g) = int s" "vram_slots r' ! s = int g"
      using complete_shadow_ok[OF inv fg(1) shadow s] by metis
    show ?thesis
      by (rule that[of r']) (use r' shadow s sv gv in \<open>simp_all add: complete_request_def fi expert_resident_at_def\<close>)
  next
    case alone
    have e: "vram_slots r ! s = -1" using no_victim_empty[OF inv fg(1,2)] alone(2) fg(3) s by simp
    obtain r' where r': "land_request g (int s) r = ok () r'" "reg_inv r'" 
      "owner (ent r' g) = HOT_VRAM" "vram_slots r' ! s = int g"
      using land_request_ok[OF inv fg(1,2) alone(1) s e] by metis
    show ?thesis
      by (rule that[of r']) (use r' alone s sv gv in \<open>simp_all add: complete_request_def fi expert_resident_at_def\<close>)
  next
    case victim
    note vf = find_victim_Some[OF inv victim(2)]
    note rv = retire_victim_inv[OF inv vf(1,2) nd[OF victim(2)]]
    have vs: "slot_idx (ent r v) = int s"
      using victim_slot[OF inv fg(1,2) vf(1,2)] vf(3) fg(3) s by simp
    have gv': "g \<noteq> v" using fg(2) vf(2) by (auto simp: incoming_def)
    have same: "ent (retire_victim False v r) g = ent r g" "total_experts (retire_victim False v r) = total_experts r"
      "vram_slots (retire_victim False v r) ! s = -1"
      using gv' vf(1) inv_sizesD[OF I(1)] sv vs by (simp_all add: rv(1) ent_upd_ent)
    obtain r' where r': "land_request g (int s) (retire_victim False v r) = ok () r'" "reg_inv r'" 
      "owner (ent r' g) = HOT_VRAM" "vram_slots r' ! s = int g"
      by (rule land_request_ok[OF rv(2), of g s]) (use fg victim s same in simp_all)
    show ?thesis
      by (rule that[of r']) (use r' victim s sv gv nd[OF victim(2)] in \<open>simp_all add: complete_request_def fi expert_resident_at_def\<close>)
  qed
qed

lemma complete_request_inv:
  assumes inv: "reg_inv r"
  shows "reg_inv (snd (complete_request op_id r))"
proof (cases "find_incoming_operation op_id r")
  case (Some g)
  note fg = find_incoming_Some[OF inv Some]
  note gv = incoming_facts[OF inv fg(1,2)]
  consider (unslotted) "pending_slot_idx (ent r g) < 0"
    | (blocked) v where "find_operation_victim op_id r = Some v" "gpu_transfer (ent r v) = D2H_PENDING"
    | (lands) "0 \<le> pending_slot_idx (ent r g)"
        "\<And>v. find_operation_victim op_id r = Some v \<Longrightarrow> gpu_transfer (ent r v) \<noteq> D2H_PENDING" by force
  then show ?thesis
  proof cases
    case unslotted
    then show ?thesis using inv gv by (simp add: complete_request_def Some)
  next
    case blocked
    show ?thesis
    proof (cases "warm_shadow (ent r g)")
      case True
      note vf = find_victim_Some[OF inv blocked(1)]
      note dm = demotion_facts[OF inv vf(1) blocked(2)]
      have "pending_slot_idx (ent r g) = slot_idx (ent r v)"
        using victim_slot[OF inv fg(1,2) vf(1,2)] vf(3) fg(3) by simp
      then have False using inv_vresD(5)[OF reg_invD(5)[OF inv] fg(1) True] dm by simp
      then show ?thesis ..
    next
      case False
      then show ?thesis using blocked inv by (simp add: complete_request_def Some Let_def)
    qed
  next
    case lands
    obtain r' where "complete_request op_id r = ok () r'" "reg_inv r'"
      using complete_request_ok[OF inv Some lands] by metis
    then show ?thesis by simp
  qed
qed (simp add: complete_request_def inv)

lemma fail_shadow_inv:
  assumes inv: "reg_inv r" and g: "g < total_experts r" "warm_shadow (ent r g)"
  obtains r' where "fail_shadow g r = ok () r'" "reg_inv r'" "operation (ent r' g) = OP_NONE"
proof -
  note I = reg_invD[OF inv]
  note sz = inv_sizesD[OF I(1)] and gid = inv_entriesD(2)[OF I(2) g(1)]
  have inc: "incoming (ent r g)" using slot_side_conditions(2)[OF I(2,3) g(1,2)] .
  note gv = incoming_facts[OF inv g(1) inc]
  have p: "pending_slot_idx (ent r g) \<noteq> -1 \<Longrightarrow> vram_slots r ! nat (pending_slot_idx (ent r g)) = -1"
    using inv_vresD(5)[OF I(5) g] .
  have range: "-1 \<le> pending_slot_idx (ent r g)" using entry_shapeD(9)[OF inv_entriesD(1)[OF I(2) g(1)]] .
  let ?f = "\<lambda>e. e\<lparr>operation := OP_NONE, operation_id := 0, gpu_transfer := GT_NONE,
                 publication := PUBLISHED, slot_state := ACTIVE, pending_slot_idx := -1,
                 warm_shadow := False, lru_it := g, in_lru := True\<rparr>"
  let ?r' = "(upd_ent g ?f r)
       \<lparr>vram_slot_reservations := (if pending_slot_idx (ent r g) = -1 then vram_slot_reservations r
          else (vram_slot_reservations r)[nat (pending_slot_idx (ent r g)) := 0]),
        free_vram_slots := (if pending_slot_idx (ent r g) = -1 then free_vram_slots r
          else free_vram_slots r @ [nat (pending_slot_idx (ent r g))]),
        host_slot_reservations := (if owner (ent r g) = WARM_HOST \<and> \<not> warm_shadow (ent r g)
          then (host_slot_reservations r)[nat (slot_idx (ent r g)) := 0] else host_slot_reservations r),
        warm_host_lru := (if owner (ent r g) = WARM_HOST then g # warm_host_lru r else warm_host_lru r)\<rparr>"
  have inv': "reg_inv ?r'"
    by (rule fail_state[OF inv g(1) inc p _ _ _ _ _ _ _ _ _ _ _ _ _ refl]) (use gv g gid sz in simp_all)
  have "fail_shadow g r = checked_validate () ?r'"
    using gid g sz gv(3,10) p range
    by (cases "pending_slot_idx (ent r g) = -1")
       (simp_all add: fail_shadow_def release_vram_reservation_def Let_def push_warm_eq ent_upd_ent,
        (intro arg_cong[where f = "checked_validate ()"] ExpertRegistry.equality; simp add: upd_ent_def ent_def)+)
  then show ?thesis using that[of ?r'] inv' g sz by (simp add: ent_upd_ent)
qed

lemma fail_incoming_ok:
  assumes inv: "reg_inv r" and g: "g < total_experts r" "incoming (ent r g)" "\<not> warm_shadow (ent r g)"
    and p: "pending_slot_idx (ent r g) \<noteq> -1 \<Longrightarrow> vram_slots r ! nat (pending_slot_idx (ent r g)) = -1"
  obtains r' where "fail_incoming g (release_vram_reservation (pending_slot_idx (ent r g)) r) = ok () r'"
    "reg_inv r'" "operation (ent r' g) = OP_NONE" "owner (ent r' g) = owner (ent r g)"
proof -
  note I = reg_invD[OF inv]
  note sz = inv_sizesD[OF I(1)] and gid = inv_entriesD(2,3)[OF I(2) g(1)]
  note gv = incoming_facts[OF inv g(1,2)]
  have range: "-1 \<le> pending_slot_idx (ent r g)" using entry_shapeD(9)[OF inv_entriesD(1)[OF I(2) g(1)]] .
  let ?f = "\<lambda>e. (if owner e = WARM_HOST then e\<lparr>lru_it := g, in_lru := True\<rparr> else e)\<lparr>pending_slot_idx := -1,
     operation := OP_NONE, gpu_transfer := GT_NONE, publication := PUBLISHED\<rparr>"
  let ?r' = "(upd_ent g ?f r)
       \<lparr>vram_slot_reservations := (if pending_slot_idx (ent r g) = -1 then vram_slot_reservations r
          else (vram_slot_reservations r)[nat (pending_slot_idx (ent r g)) := 0]),
        free_vram_slots := (if pending_slot_idx (ent r g) = -1 then free_vram_slots r
          else free_vram_slots r @ [nat (pending_slot_idx (ent r g))]),
        host_slot_reservations := (if owner (ent r g) = WARM_HOST \<and> \<not> warm_shadow (ent r g)
          then (host_slot_reservations r)[nat (slot_idx (ent r g)) := 0] else host_slot_reservations r),
        warm_host_lru := (if owner (ent r g) = WARM_HOST then g # warm_host_lru r else warm_host_lru r)\<rparr>"
  have inv': "reg_inv ?r'"
    by (rule fail_state[OF inv g(1,2) p _ _ _ _ _ _ _ _ _ _ _ _ _ refl]) (use gv g gid sz in simp_all)
  have "fail_incoming g (release_vram_reservation (pending_slot_idx (ent r g)) r) = checked_validate () ?r'"
    using gid g sz gv(3) p range
    by (cases "pending_slot_idx (ent r g) = -1"; cases "owner (ent r g) = WARM_HOST")
       (simp_all add: fail_incoming_def release_vram_reservation_def Let_def push_warm_eq ent_upd_ent,
        (intro arg_cong[where f = "checked_validate ()"] ExpertRegistry.equality; simp add: upd_ent_def ent_def)+)
  then show ?thesis using that[of ?r'] inv' g sz by (simp add: ent_upd_ent)
qed

text \<open>The source releases the reservation before it retires the victim, and frees the slot there; the
  other order frees it too.\<close>

lemma retire_release_commute:
  assumes inv: "reg_inv r" and v: "v < total_experts r" "operation (ent r v) = DEMOTION_PENDING"
      "gpu_transfer (ent r v) \<noteq> D2H_PENDING"
  shows "retire_victim True v (release_vram_reservation (slot_idx (ent r v)) r) =
     release_vram_reservation (slot_idx (ent r v)) (retire_victim False v r)"
proof -
  note I = reg_invD[OF inv]
  note sh = inv_entriesD(1)[OF I(2) v(1)]
  have hot: "owner (ent r v) = HOT_VRAM" using entry_shapeD(4)[OF sh v(2)] by simp
  show ?thesis
    using inv_vmapD(1)[OF I(3) v(1) hot] inv_entriesD(2)[OF I(2) v(1)] shape_slot[OF sh] hot inv_sizesD[OF I(1)]
    by (simp add: retire_victim_def release_vram_reservation_def upd_ent_def Let_def)
qed

lemma fail_request_ok:
  assumes inv: "reg_inv r" and fi: "find_incoming_operation op_id r = Some g"
    and nd: "\<And>v. find_operation_victim op_id r = Some v \<Longrightarrow> gpu_transfer (ent r v) \<noteq> D2H_PENDING"
  obtains r' where "fail_request op_id r = ok () r'" "reg_inv r'" "operation (ent r' g) = OP_NONE"
proof -
  note I = reg_invD[OF inv]
  note fg = find_incoming_Some[OF inv fi]
  consider (shadow) "warm_shadow (ent r g)"
    | (alone) "\<not> warm_shadow (ent r g)" "find_operation_victim op_id r = None"
    | (victim) v where "\<not> warm_shadow (ent r g)" "find_operation_victim op_id r = Some v" by blast
  then show ?thesis
  proof cases
    case shadow
    then obtain r' where "fail_shadow g r = ok () r'" "reg_inv r'" "operation (ent r' g) = OP_NONE"
      using fail_shadow_inv[OF inv fg(1)] by metis
    then show ?thesis using that[of r'] shadow by (simp add: fail_request_def fi)
  next
    case alone
    obtain r' where "fail_incoming g (release_vram_reservation (pending_slot_idx (ent r g)) r) = ok () r'"
       "reg_inv r'" "operation (ent r' g) = OP_NONE"
      using fail_incoming_ok[OF inv fg(1,2) alone(1)] no_victim_empty[OF inv fg(1,2)] alone(2) fg(3) by metis
    then show ?thesis using that[of r'] alone by (simp add: fail_request_def fi)
  next
    case victim
    note vf = find_victim_Some[OF inv victim(2)]
    note rv = retire_victim_inv[OF inv vf(1,2) nd[OF victim(2)]]
    have vs: "pending_slot_idx (ent r g) = slot_idx (ent r v)"
      using victim_slot[OF inv fg(1,2) vf(1,2)] vf(3) fg(3) by simp
    have gv: "g \<noteq> v" using fg(2) vf(2) by (auto simp: incoming_def)
    have hot: "owner (ent r v) = HOT_VRAM" using entry_shapeD(4)[OF inv_entriesD(1)[OF I(2) vf(1)] vf(2)] by simp
    have same: "ent (retire_victim False v r) g = ent r g" "total_experts (retire_victim False v r) = total_experts r"
      "vram_slots (retire_victim False v r) ! nat (slot_idx (ent r v)) = -1"
      using gv vf(1) inv_sizesD[OF I(1)] inv_vmapD(1)[OF I(3) vf(1) hot] by (simp_all add: rv(1) ent_upd_ent)
    obtain r' where "fail_incoming g (release_vram_reservation (pending_slot_idx (ent r g)) (retire_victim False v r)) = ok () r'"
       "reg_inv r'" "operation (ent r' g) = OP_NONE"
      by (rule fail_incoming_ok[OF rv(2), of g]) (use fg victim vs same in simp_all)
    then show ?thesis
      using that[of r'] victim nd[OF victim(2)] vs
      by (simp add: fail_request_def fi retire_release_commute[OF inv vf(1,2) nd[OF victim(2)]])
  qed
qed

lemma fail_request_inv:
  assumes inv: "reg_inv r"
  shows "reg_inv (snd (fail_request op_id r))"
proof (cases "find_incoming_operation op_id r")
  case (Some g)
  note fg = find_incoming_Some[OF inv Some]
  consider (blocked) v where "find_operation_victim op_id r = Some v" "gpu_transfer (ent r v) = D2H_PENDING"
    | (fails) "\<And>v. find_operation_victim op_id r = Some v \<Longrightarrow> gpu_transfer (ent r v) \<noteq> D2H_PENDING" by blast
  then show ?thesis
  proof cases
    case blocked
    show ?thesis
    proof (cases "warm_shadow (ent r g)")
      case True
      then show ?thesis using fail_shadow_inv[OF inv fg(1) True] by (simp add: fail_request_def Some) (metis snd_ok_throw(1))
    next
      case False
      then show ?thesis using blocked inv by (simp add: fail_request_def Some Let_def)
    qed
  next
    case fails
    obtain r' where "fail_request op_id r = ok () r'" "reg_inv r'"
      using fail_request_ok[OF inv Some fails] by metis
    then show ?thesis by simp
  qed
qed (simp add: fail_request_def inv)
end
