(* ===== verification/Registry_Reserve.thy ===== *)
theory Registry_Reserve
  imports Registry_Settle
begin

text \<open>
  The operations that start a transfer keep the invariant: taking a VRAM destination (from the free
  list, by evicting in prefill, or by demoting a victim), reserving a Warm slot for the victim, and
  the requests built on them. A reservation that is not claimed yet is the hole of the invariant.
\<close>

subsection \<open>Fields the invariant does not read\<close>

definition core where
  "core e = (global_expert_id e, owner e, slot_idx e, pending_slot_idx e, operation e, gpu_transfer e,
     publication e, operation_id e, in_lru e, shadow_vram_slot e, warm_shadow e,
     resident_at_prefill_begin e, lru_it e)"

lemma core_eqD:
  assumes "core a = core b"
  shows "global_expert_id a = global_expert_id b" "owner a = owner b" "slot_idx a = slot_idx b"
    "pending_slot_idx a = pending_slot_idx b" "operation a = operation b" "gpu_transfer a = gpu_transfer b"
    "publication a = publication b" "operation_id a = operation_id b" "in_lru a = in_lru b"
    "shadow_vram_slot a = shadow_vram_slot b" "warm_shadow a = warm_shadow b"
    "resident_at_prefill_begin a = resident_at_prefill_begin b" "lru_it a = lru_it b"
  using assms by (simp_all add: core_def)

lemma core_usage [simp]:
  "core (lease e) = core e" "core (record_activation n e) = core e"
  "core (e\<lparr>lease_count := k\<rparr>) = core e"
  by (simp_all add: core_def lease_def record_activation_def)

definition same_slots :: "ExpertRegistry \<Rightarrow> ExpertRegistry \<Rightarrow> bool" where
  "same_slots r r' \<longleftrightarrow> num_layers r' = num_layers r \<and> experts_per_layer r' = experts_per_layer r \<and>
     total_experts r' = total_experts r \<and> vram_capacity r' = vram_capacity r \<and>
     host_capacity r' = host_capacity r \<and> host_capacity_usable r' = host_capacity_usable r \<and>
     length (catalog r') = length (catalog r) \<and> vram_slots r' = vram_slots r \<and>
     host_slots r' = host_slots r \<and> vram_slot_reservations r' = vram_slot_reservations r \<and>
     host_slot_reservations r' = host_slot_reservations r \<and>
     free_vram_slots r' = free_vram_slots r \<and> free_host_slots r' = free_host_slots r \<and>
     warm_host_lru r' = warm_host_lru r \<and> shadow_slot_of_expert r' = shadow_slot_of_expert r \<and>
     pending_demotion_count r' = pending_demotion_count r \<and> warm_frozen r' = warm_frozen r \<and>
     prefill_stream r' = prefill_stream r"

text \<open>Usage counters, leases, the next operation id and the order of the Hot and shadow LRU lists
  are free.\<close>

lemma reg_inv_usage:
  assumes inv: "reg_inv_holes vh hh r" and S: "same_slots r r'"
    and L: "distinct (hot_vram_lru r')" "set (hot_vram_lru r') = set (hot_vram_lru r)"
      "distinct (shadow_lru r')" "set (shadow_lru r') = set (shadow_lru r)"
    and N: "next_operation_id r \<le> next_operation_id r'"
    and E: "\<And>g. g < total_experts r \<Longrightarrow> core (ent r' g) = core (ent r g)"
  shows "reg_inv_holes vh hh r'"
proof -
  note I = reg_invD[OF inv]
  note S' = S[unfolded same_slots_def]
  note D = core_eqD[OF E]
  have inc: "incoming (ent r' g) = incoming (ent r g)" if "g < total_experts r" for g
    using D[OF that] by (simp add: incoming_def)
  have occ: "nat (vram_slots r ! s) < total_experts r" if "s < vram_capacity r" "vram_slots r ! s \<noteq> -1" for s
    using inv_vmapD(3)[OF I(3) that] by simp
  note side = slot_side_conditions[OF I(2,3)]
  show ?thesis
  proof (rule reg_inv_holesI)
    show "inv_sizes r'" using I(1) S' N by (simp add: inv_sizes_def)
    have "entry_shape (ent r' g) = entry_shape (ent r g)" if "g < total_experts r" for g
      using D[OF that] by (simp add: entry_shape_def cong: ExpertOperation.case_cong)
    moreover have "operation_id (ent r g) < next_operation_id r'" if "g < total_experts r" for g
      using inv_entriesD(3)[OF I(2) that] N by simp
    ultimately show "inv_entries r'"
      using inv_entriesD(1,2)[OF I(2)] D(1,8) S' unfolding inv_entries_def by simp
    show "inv_vmap r'" by (rule vmap_frame[OF I(3)]) (use S' D in simp_all)
    show "inv_hmap r'" by (rule hmap_frame[OF I(4)]) (use S' D in simp_all)
    show "inv_vres vh r'"
      by (rule vres_frame[OF I(5)]) (use S' D inc side in \<open>simp_all add: vres_view_def\<close>)
    show "inv_hres hh r'"
      by (rule hres_frame[OF I(6)]) (use S' D in \<open>simp_all add: hres_view_def\<close>)
    show "inv_ops r'" using I(7) S' D inc unfolding inv_ops_def by simp
    show "inv_lru r'" using I(8) S' D L unfolding inv_lru_def by auto
    show "inv_free r'" using I(9) S' by (simp add: inv_free_def)
    show "inv_count r'" by (rule count_frame[OF I(10)]) (use S' D in simp_all)
    show "inv_mode r'" using I(11) S' D L unfolding inv_mode_def by auto
  qed
qed

lemma reg_inv_upd_usage:
  assumes inv: "reg_inv_holes vh hh r" and "core (f (ent r g)) = core (ent r g)"
  shows "reg_inv_holes vh hh (upd_ent g f r)"
proof (rule reg_inv_usage[OF inv])
  show "same_slots r (upd_ent g f r)" by (simp add: same_slots_def)
  show "core (ent (upd_ent g f r) h) = core (ent r h)" for h
    using assms(2) by (cases "g < length (catalog r)"; cases "h = g")
      (simp_all add: ent_def upd_ent_def list_update_beyond)
qed (use reg_invD(8)[OF inv] in \<open>simp_all add: inv_lru_def\<close>)

lemma reg_inv_counters [simp]:
  "reg_inv_holes vh hh (r\<lparr>hits_hot := n\<rparr>) = reg_inv_holes vh hh r"
  "reg_inv_holes vh hh (r\<lparr>hits_warm := n\<rparr>) = reg_inv_holes vh hh r"
  "reg_inv_holes vh hh (r\<lparr>misses_cold := n\<rparr>) = reg_inv_holes vh hh r"
  "reg_inv_holes vh hh (r\<lparr>demotion_attempts := n\<rparr>) = reg_inv_holes vh hh r"
  "reg_inv_holes vh hh (r\<lparr>demotion_completions := n\<rparr>) = reg_inv_holes vh hh r"
  "reg_inv_holes vh hh (r\<lparr>demotion_drops := n\<rparr>) = reg_inv_holes vh hh r"
  "reg_inv_holes vh hh (r\<lparr>shadow_copies := n\<rparr>) = reg_inv_holes vh hh r"
  "reg_inv_holes vh hh (r\<lparr>validate_each_request := b\<rparr>) = reg_inv_holes vh hh r"
  by (simp_all add: inv_defs)

lemma reg_inv_next_op:
  "reg_inv_holes vh hh r \<Longrightarrow> reg_inv_holes vh hh (r\<lparr>next_operation_id := Suc (next_operation_id r)\<rparr>)"
  by (frule reg_invD(8)) (erule reg_inv_usage, auto simp: same_slots_def inv_lru_def)

lemma release_lease_inv: "reg_inv r \<Longrightarrow> reg_inv (snd (release_lease gid r))"
  by (auto simp: release_lease_def intro: reg_inv_upd_usage)

subsection \<open>A Warm slot for a victim\<close>

lemma no_shadow:
  assumes "reg_inv_holes vh hh r" "\<not> warm_frozen r" "g < total_experts r"
  shows "shadow_vram_slot (ent r g) = -1" "\<not> warm_shadow (ent r g)"
  using reg_invD(8,11)[OF assms(1)] assms(2,3) by (auto simp: inv_lru_def inv_mode_def)

lemma warm_free_state:
  assumes inv: "reg_inv_holes vh None r" and ne: "free_host_slots r \<noteq> []" and s: "s = last (free_host_slots r)"
    and fresh: "op_id \<noteq> 0" "\<And>g. g < total_experts r \<Longrightarrow> gpu_transfer (ent r g) = D2H_PENDING \<Longrightarrow> operation_id (ent r g) \<noteq> op_id"
    and r': "r' = r\<lparr>free_host_slots := butlast (free_host_slots r),
             host_slot_reservations := (host_slot_reservations r)[s := op_id]\<rparr>"
  shows "reg_inv_holes vh (Some s) r'" "s < host_capacity r" "host_slots r ! s = -1"
proof -
  note I = reg_invD[OF inv]
  note sz = inv_sizesD[OF I(1)] and side = slot_side_conditions[OF I(2,3)]
  have sf: "s \<in> set (free_host_slots r)" using ne s by simp
  then have us: "s < host_capacity_usable r" and e: "host_slots r ! s = -1" "host_slot_reservations r ! s = 0"
    using I(9) by (auto simp: inv_free_def)
  then show sc: "s < host_capacity r" "host_slots r ! s = -1" using sz by simp_all
  have fr: "host_slot_reservations r ! t \<noteq> op_id" if "t < host_capacity r" "host_slots r ! t = -1" for t
    using inv_hresD(4)[OF I(6) that(1) _ that(2)] fresh by fastforce
  have warm: "nat (slot_idx (ent r g)) \<noteq> s" if "g < total_experts r" "owner (ent r g) = WARM_HOST" for g
    using inv_hmapD(1)[OF I(4) that] e by auto
  have nz: "operation_id (ent r g) \<noteq> 0" if "g < total_experts r"
     "operation (ent r g) = PROMOTION_PENDING \<or> gpu_transfer (ent r g) = D2H_PENDING" for g
    using side(3) shape_d2h[OF inv_entriesD(1)[OF I(2) that(1)]] that by fastforce
  show "reg_inv_holes vh (Some s) r'"
  proof (rule reg_inv_holesI)
    show "inv_hres (Some s) r'"
      by (rule hres_reserve[OF I(6) sc(1) us e(2) fr sz(5,6) nz])
        (use warm side r' e in simp_all)
    show "inv_free r'"
      using I(9) set_butlast_distinct[of "free_host_slots r"] ne s sz sc
      by (auto simp: inv_free_def r' nth_list_update distinct_butlast)
  qed (use I in \<open>simp_all add: r' inv_sizes_def inv_entries_def inv_vmap_def inv_hmap_def inv_vres_def
        inv_ops_def inv_lru_def inv_count_def inv_mode_def\<close>)
qed

lemma warm_evict_state:
  assumes inv: "reg_inv_holes vh None r" and nf: "\<not> warm_frozen r"
    and c: "c \<in> set (warm_host_lru r)" "s = nat (slot_idx (ent r c))"
    and fresh: "op_id \<noteq> 0" "\<And>g. g < total_experts r \<Longrightarrow> gpu_transfer (ent r g) = D2H_PENDING \<Longrightarrow> operation_id (ent r g) \<noteq> op_id"
    and r': "r' = (upd_ent c (\<lambda>e. e\<lparr>in_lru := False, owner := COLD_NVME, slot_idx := -1,
                         pending_slot_idx := -1, slot_state := UNALLOCATED\<rparr>) r)
              \<lparr>warm_host_lru := remove1 c (warm_host_lru r),
               host_slots := (host_slots r)[s := -1],
               host_slot_reservations := (host_slot_reservations r)[s := op_id]\<rparr>"
  shows "reg_inv_holes vh (Some s) r'" "s < host_capacity r"
proof -
  note I = reg_invD[OF inv]
  note sz = inv_sizesD[OF I(1)] and side = slot_side_conditions[OF I(2,3)]
  have cw: "c < total_experts r" "in_lru (ent r c)" "owner (ent r c) = WARM_HOST"
    using c I(8) by (auto simp: inv_lru_def)
  note sh = inv_entriesD(1)[OF I(2) cw(1)] and gid = inv_entriesD(2,3)[OF I(2) cw(1)]
  note cf = shape_in_lru[OF sh cw(2)] entry_shapeD(1)[OF sh] entry_shapeD(5-)[OF sh] no_shadow[OF inv nf cw(1)]
  have nres: "\<not> resident_at_prefill_begin (ent r c)" using entry_shapeD(11)[OF sh] cw by auto
  have src: "slot_idx (ent r c) = int s" using shape_slot[OF sh] cw c by simp
  have hm: "s < host_capacity_usable r" "host_slots r ! s = int c"
    using inv_hmapD(1)[OF I(4) cw(1,3)] src by auto
  then show sc: "s < host_capacity r" using sz by simp
  have hr: "host_slot_reservations r ! s = 0"
    using inv_hresD(2)[OF I(6) cw(1,3)] cf src by simp
  have fr: "host_slot_reservations r ! t \<noteq> op_id" if "t < host_capacity r" "host_slots r ! t = -1" for t
    using inv_hresD(4)[OF I(6) that(1) _ that(2)] fresh by fastforce
  have warm: "nat (slot_idx (ent r g)) \<noteq> s" if "g < total_experts r" "owner (ent r g) = WARM_HOST" "g \<noteq> c" for g
    using inv_hmapD(1)[OF I(4) that(1,2)] hm that(3) by auto
  have nz: "operation_id (ent r g) \<noteq> 0" if "g < total_experts r"
     "operation (ent r g) = PROMOTION_PENDING \<or> gpu_transfer (ent r g) = D2H_PENDING" for g
    using side(3) shape_d2h[OF inv_entriesD(1)[OF I(2) that(1)]] that by fastforce
  note st = r' ent_upd_ent cw sz(1)
  show "reg_inv_holes vh (Some s) r'"
  proof (rule reg_inv_holesI)
    show "inv_sizes r'" using I(1) by (simp add: inv_sizes_def st)
    show "inv_entries r'"
      by (rule inv_entries_one[OF I(2), of _ c]) (use cf gid nres in \<open>auto simp: st entry_shape_def\<close>)
    show "inv_vmap r'" by (rule vmap_frame[OF I(3)]) (use cf in \<open>simp_all add: st\<close>)
    show "inv_hmap r'" by (rule hmap_release[OF I(4) sc hm(2)]) (use sz in \<open>simp_all add: st\<close>)
    show "inv_vres vh r'"
      by (rule vres_frame[OF I(5)]) (use side cf in \<open>simp_all add: st vres_view_def incoming_def\<close>)
    show "inv_hres (Some s) r'"
      by (rule hres_reserve[OF I(6) sc hm(1) hr fr sz(5,6) nz])
        (use warm side cf sc sz in \<open>auto simp: st split: if_splits\<close>)
    show "inv_ops r'" using I(7) cf by (auto simp: inv_ops_def st incoming_def)
    show "inv_lru r'" using I(8) cw cf by (auto simp: inv_lru_def st)
    show "inv_free r'" using I(9) sz hm sc by (auto simp: inv_free_def st nth_list_update)
    show "inv_count r'" by (rule count_frame[OF I(10)]) (use cf in \<open>simp_all add: st\<close>)
    show "inv_mode r'" using I(11) cf nf nres by (auto simp: inv_mode_def st)
  qed
qed

text \<open>The fields that taking a Warm slot leaves alone.\<close>

definition warm_only :: "ExpertRegistry \<Rightarrow> ExpertRegistry \<Rightarrow> bool" where
  "warm_only r r' \<longleftrightarrow> num_layers r' = num_layers r \<and>
     experts_per_layer r' = experts_per_layer r \<and>
     total_experts r' = total_experts r \<and>
     vram_capacity r' = vram_capacity r \<and>
     host_capacity r' = host_capacity r \<and>
     host_capacity_usable r' = host_capacity_usable r \<and>
     length (catalog r') = length (catalog r) \<and>
     vram_slots r' = vram_slots r \<and>
     free_vram_slots r' = free_vram_slots r \<and>
     vram_slot_reservations r' = vram_slot_reservations r \<and>
     hot_vram_lru r' = hot_vram_lru r \<and>
     next_operation_id r' = next_operation_id r \<and>
     pending_demotion_count r' = pending_demotion_count r \<and>
     warm_frozen r' = warm_frozen r \<and>
     prefill_stream r' = prefill_stream r \<and>
     shadow_lru r' = shadow_lru r \<and>
     shadow_slot_of_expert r' = shadow_slot_of_expert r \<and>
     validate_each_request r' = validate_each_request r"

lemma warm_onlyD:
  assumes "warm_only r r'"
  shows "num_layers r' = num_layers r"
    "experts_per_layer r' = experts_per_layer r"
    "total_experts r' = total_experts r"
    "vram_capacity r' = vram_capacity r"
    "host_capacity r' = host_capacity r"
    "host_capacity_usable r' = host_capacity_usable r"
    "length (catalog r') = length (catalog r)"
    "vram_slots r' = vram_slots r"
    "free_vram_slots r' = free_vram_slots r"
    "vram_slot_reservations r' = vram_slot_reservations r"
    "hot_vram_lru r' = hot_vram_lru r"
    "next_operation_id r' = next_operation_id r"
    "pending_demotion_count r' = pending_demotion_count r"
    "warm_frozen r' = warm_frozen r"
    "prefill_stream r' = prefill_stream r"
    "shadow_lru r' = shadow_lru r"
    "shadow_slot_of_expert r' = shadow_slot_of_expert r"
    "validate_each_request r' = validate_each_request r"
  using assms by (simp_all add: warm_only_def)

lemma reserve_warm_destination_cases:
  assumes inv: "reg_inv_holes vh None r" and nf: "\<not> warm_frozen r" and op: "op_id \<noteq> 0"
    and fr: "\<forall>g<total_experts r. gpu_transfer (ent r g) = D2H_PENDING \<longrightarrow> operation_id (ent r g) \<noteq> op_id"
  obtains (none) "reserve_warm_destination excl op_id r = ok (-1) r"
  | (slot) s r' where "reserve_warm_destination excl op_id r = ok (int s) r'" "reg_inv_holes vh (Some s) r'"
      "s < host_capacity r" "host_slots r' ! s = -1" "host_slot_reservations r' ! s = op_id" "warm_only r r'"
      "\<And>g. g < total_experts r \<Longrightarrow> g = excl \<or> owner (ent r g) \<noteq> WARM_HOST \<or> operation (ent r g) \<noteq> OP_NONE \<Longrightarrow> ent r' g = ent r g"
      "\<And>g. ent r' g = ent r g \<or> operation (ent r' g) = OP_NONE"
      "\<And>g. lease_count (ent r g) \<noteq> 0 \<Longrightarrow> ent r' g = ent r g"
proof (cases "free_host_slots r = []")
  case False
  let ?s = "last (free_host_slots r)"
  let ?r' = "r\<lparr>free_host_slots := butlast (free_host_slots r),
             host_slot_reservations := (host_slot_reservations r)[?s := op_id]\<rparr>"
  note w = warm_free_state[OF inv False refl op fr[rule_format] refl]
  show ?thesis
    by (rule slot[of ?s ?r'])
      (use w inv_sizesD[OF reg_invD(1)[OF inv]] False in \<open>simp_all add: reserve_warm_destination_def Let_def warm_only_def\<close>)
next
  case True
  note I = reg_invD[OF inv]
  note sz = inv_sizesD[OF I(1)]
  show ?thesis
  proof (cases "find (\<lambda>g. reclaimable excl (ent r g)) (rev (warm_host_lru r))")
    case None
    show ?thesis by (rule none) (simp add: reserve_warm_destination_def True None)
  next
    case (Some c)
    have c: "c \<in> set (warm_host_lru r)" "reclaimable excl (ent r c)"
      using find_Some_nth[OF Some] by (auto simp: in_set_conv_nth) (metis length_rev nth_mem set_rev in_set_conv_nth)
    have cw: "c < total_experts r" "in_lru (ent r c)" "owner (ent r c) = WARM_HOST"
      using c I(8) by (auto simp: inv_lru_def)
    note sh = inv_entriesD(1)[OF I(2) cw(1)] and gid = inv_entriesD(2)[OF I(2) cw(1)]
    have it: "lru_it (ent r c) = c" "operation (ent r c) = OP_NONE" using shape_in_lru[OF sh cw(2)] gid by simp_all
    let ?s = "nat (slot_idx (ent r c))"
    have s: "slot_idx (ent r c) = int ?s" using shape_slot[OF sh] cw by simp
    let ?r' = "(upd_ent c (\<lambda>e. e\<lparr>in_lru := False, owner := COLD_NVME, slot_idx := -1,
                         pending_slot_idx := -1, slot_state := UNALLOCATED\<rparr>) r)
              \<lparr>warm_host_lru := remove1 c (warm_host_lru r),
               host_slots := (host_slots r)[?s := -1],
               host_slot_reservations := (host_slot_reservations r)[?s := op_id]\<rparr>"
    note w = warm_evict_state[OF inv nf c(1) refl op fr[rule_format] refl]
    have "reserve_warm_destination excl op_id r = ok (int ?s) ?r'"
      using s cw it sz
      by (simp add: reserve_warm_destination_def True Some Let_def remove_warm_eq)
         (simp add: upd_ent_def)
    then show ?thesis
      by (rule slot)
        (use w s sz cw it c(2) in \<open>auto simp: ent_upd_ent warm_only_def reclaimable_def gid\<close>)
  qed
qed

subsection \<open>The victim of a decode eviction\<close>

text \<open>An operation id no demotion uses yet.\<close>

definition op_ready :: "nat \<Rightarrow> ExpertRegistry \<Rightarrow> bool" where
  "op_ready op_id r \<longleftrightarrow> op_id \<noteq> 0 \<and> op_id < next_operation_id r \<and>
     (\<forall>g<total_experts r. operation (ent r g) = DEMOTION_PENDING \<longrightarrow> operation_id (ent r g) \<noteq> op_id)"

lemma victim_state:
  assumes inv: "reg_inv r" and nf: "\<not> warm_frozen r" and ready: "op_ready op_id r"
    and v: "v \<in> set (hot_vram_lru r)" and s: "s = nat (slot_idx (ent r v))"
    and r': "r' = (upd_ent v (\<lambda>e. e\<lparr>in_lru := False, operation := DEMOTION_PENDING, operation_id := op_id,
                 publication := UNPUBLISHED, slot_state := ACTIVE, pending_slot_idx := -1\<rparr>) r)
              \<lparr>hot_vram_lru := remove1 v (hot_vram_lru r),
               vram_slot_reservations := (vram_slot_reservations r)[s := op_id]\<rparr>"
  shows "reg_inv_holes (Some s) None r'" "s < vram_capacity r"
proof -
  note I = reg_invD[OF inv]
  note sz = inv_sizesD[OF I(1)] and side = slot_side_conditions[OF I(2,3)]
  have vh: "v < total_experts r" "in_lru (ent r v)" "owner (ent r v) = HOT_VRAM"
    using v I(8) by (auto simp: inv_lru_def)
  note sh = inv_entriesD(1)[OF I(2) vh(1)] and gid = inv_entriesD(2,3)[OF I(2) vh(1)]
  have idle: "operation (ent r v) = OP_NONE" using shape_in_lru[OF sh vh(2)] by simp
  note vf = entry_shapeD(1)[OF sh idle] entry_shapeD(5-)[OF sh] no_shadow[OF inv nf vh(1)]
  have nres: "\<not> resident_at_prefill_begin (ent r v)" using I(11) nf vh(1) by (auto simp: inv_mode_def)
  have src: "slot_idx (ent r v) = int s" using shape_slot[OF sh] vh s by simp
  have vm: "s < vram_capacity r" "vram_slots r ! s = int v"
    using inv_vmapD(1)[OF I(3) vh(1,3)] src by auto
  then show "s < vram_capacity r" by simp
  have free: "vram_slot_reservations r ! s = 0"
    using inv_vresD(4)[OF I(5) vm(1)] vm idle by fastforce
  note op = ready[unfolded op_ready_def]
  note st = r' ent_upd_ent vh sz(1)
  show "reg_inv_holes (Some s) None r'"
  proof (rule reg_inv_holesI)
    show "inv_sizes r'" using I(1) by (simp add: inv_sizes_def st)
    show "inv_entries r'"
      by (rule inv_entries_one[OF I(2), of _ v]) (use vf gid nres op src in \<open>auto simp: st entry_shape_def\<close>)
    show "inv_vmap r'" by (rule vmap_frame[OF I(3)]) (simp_all add: st)
    show "inv_hmap r'" by (rule hmap_frame[OF I(4)]) (simp_all add: st)
    show "inv_vres (Some s) r'"
      by (rule vres_victim[OF I(5) vm(1) free vm(2) vh(1) idle])
        (use side vf sz src in \<open>simp_all add: st\<close>)
    show "inv_hres None r'"
      by (rule hres_frame[OF I(6)]) (use vf idle in \<open>simp_all add: st hres_view_def\<close>)
    show "inv_ops r'" using I(7) idle op by (auto simp: inv_ops_def st incoming_def)
    show "inv_lru r'" using I(8) vh by (auto simp: inv_lru_def st)
    show "inv_free r'" using I(9) sz vm by (auto simp: inv_free_def st nth_list_update)
    show "inv_count r'" by (rule count_frame[OF I(10)]) (simp_all add: st)
    show "inv_mode r'" using I(11) vf nf nres by (auto simp: inv_mode_def st)
  qed
qed

lemma claim_warm_state:
  assumes inv: "reg_inv_holes vh (Some s) r" and v: "v < total_experts r" "operation (ent r v) = DEMOTION_PENDING"
      "gpu_transfer (ent r v) \<noteq> D2H_PENDING"
    and s: "s < host_capacity r" "host_slot_reservations r ! s = operation_id (ent r v)" "host_slots r ! s = -1"
    and r': "r' = (upd_ent v (\<lambda>e. e\<lparr>gpu_transfer := D2H_PENDING, demotion_drop_reason := DROP_NONE\<rparr>) r)
              \<lparr>pending_demotion_count := Suc (pending_demotion_count r)\<rparr>"
  shows "reg_inv_holes vh None r'"
proof -
  note I = reg_invD[OF inv]
  note sz = inv_sizesD[OF I(1)] and side = slot_side_conditions[OF I(2,3)]
  note sh = inv_entriesD(1)[OF I(2) v(1)] and gid = inv_entriesD(2,3)[OF I(2) v(1)]
  note vf = entry_shapeD(4)[OF sh v(2)] entry_shapeD(5-)[OF sh]
  note st = r' ent_upd_ent v sz(1)
  show ?thesis
  proof (rule reg_inv_holesI)
    show "inv_sizes r'" using I(1) by (simp add: inv_sizes_def st)
    show "inv_entries r'"
      by (rule inv_entries_one[OF I(2), of _ v]) (use vf gid in \<open>auto simp: st entry_shape_def\<close>)
    show "inv_vmap r'" by (rule vmap_frame[OF I(3)]) (simp_all add: st)
    show "inv_hmap r'" by (rule hmap_frame[OF I(4)]) (simp_all add: st)
    show "inv_vres vh r'"
      by (rule vres_frame[OF I(5)]) (use side in \<open>simp_all add: st vres_view_def incoming_def\<close>)
    show "inv_hres None r'"
      by (rule hres_claim[OF I(6) s v(1) _ v(3)]) (use vf in \<open>simp_all add: st\<close>)
    show "inv_ops r'" using I(7) v by (auto simp: inv_ops_def st incoming_def)
    show "inv_lru r'" using I(8) v by (auto simp: inv_lru_def st)
    show "inv_free r'" using I(9) by (auto simp: inv_free_def st)
    show "inv_count r'" by (rule count_more[OF I(10) _ _ v(1,3)]) (simp_all add: st)
    show "inv_mode r'" using I(11) by (auto simp: inv_mode_def st)
  qed
qed

text \<open>What an eviction must not touch: a leased expert, a resident marked when the prefill began,
  and, while Warm is frozen, which experts Warm owns.\<close>

definition spared :: "ExpertRegistry \<Rightarrow> ExpertRegistry \<Rightarrow> bool" where
  "spared r r' \<longleftrightarrow> (\<forall>g<total_experts r.
     (lease_count (ent r g) \<noteq> 0 \<or> resident_at_prefill_begin (ent r g) \<longrightarrow> ent r' g = ent r g) \<and>
     (warm_frozen r \<longrightarrow> (owner (ent r' g) = WARM_HOST \<longleftrightarrow> owner (ent r g) = WARM_HOST)))"

lemma spared_one:
  assumes "\<And>x. x \<noteq> v \<Longrightarrow> ent r' x = ent r x" and "lease_count (ent r v) = 0" "\<not> resident_at_prefill_begin (ent r v)"
    and "warm_frozen r \<Longrightarrow> owner (ent r' v) = WARM_HOST \<longleftrightarrow> owner (ent r v) = WARM_HOST"
  shows "spared r r'"
  unfolding spared_def by (metis assms)

lemma spared_upd:
  assumes "spared r r1" and "\<And>x. x \<noteq> v \<Longrightarrow> ent r' x = ent r1 x"
    and "lease_count (ent r v) = 0" "\<not> resident_at_prefill_begin (ent r v)" "owner (ent r' v) = owner (ent r1 v)"
  shows "spared r r'"
  using assms unfolding spared_def by metis

text \<open>The contract of \<open>reserve_vram_destination\<close>: a reserved slot nobody has claimed yet, the
  requesting entry and every transfer in flight untouched, and the slot empty when Warm is frozen.\<close>

definition vram_taken :: "nat \<Rightarrow> nat \<Rightarrow> nat \<Rightarrow> ExpertRegistry \<Rightarrow> ExpertRegistry \<Rightarrow> bool" where
  "vram_taken op_id gid slot r r' \<longleftrightarrow> reg_inv_holes (Some slot) None r' \<and>
     slot < vram_capacity r' \<and> vram_slot_reservations r' ! slot = op_id \<and>
     total_experts r' = total_experts r \<and> next_operation_id r' = next_operation_id r \<and>
     warm_frozen r' = warm_frozen r \<and> prefill_stream r' = prefill_stream r \<and>
     ent r' gid = ent r gid \<and> (warm_frozen r \<longrightarrow> vram_slots r' ! slot = -1) \<and>
     (\<forall>g<total_experts r. incoming (ent r' g) \<longrightarrow> ent r' g = ent r g) \<and> spared r r'"

definition demotion_of :: "nat \<Rightarrow> nat \<Rightarrow> ExpertDemotionReservation option \<Rightarrow> ExpertRegistry \<Rightarrow> bool" where
  "demotion_of op_id slot d r' \<longleftrightarrow> (case d of
       None \<Rightarrow> \<forall>g<total_experts r'. gpu_transfer (ent r' g) = D2H_PENDING \<longrightarrow> operation_id (ent r' g) \<noteq> op_id
     | Some x \<Rightarrow> dr_operation_id x = op_id \<and> dr_source_vram_slot x = slot \<and>
         dr_victim_gid x < total_experts r' \<and> gpu_transfer (ent r' (dr_victim_gid x)) = D2H_PENDING \<and>
         operation_id (ent r' (dr_victim_gid x)) = op_id \<and>
         slot_idx (ent r' (dr_victim_gid x)) = int slot \<and>
         dr_destination_host_slot x < host_capacity r' \<and>
         host_slots r' ! dr_destination_host_slot x = -1 \<and>
         host_slot_reservations r' ! dr_destination_host_slot x = op_id)"

lemma vram_taken_usage:
  assumes t: "vram_taken op_id gid s r r1" and v: "v < total_experts r" "\<not> incoming (ent r1 v)" "v \<noteq> gid"
    and f: "core (f (ent r1 v)) = core (ent r1 v)"
    and ev: "lease_count (ent r v) = 0" "\<not> resident_at_prefill_begin (ent r v)"
  shows "vram_taken op_id gid s r (upd_ent v f r1)"
proof -
  have inv: "reg_inv_holes (Some s) None r1" and T: "total_experts r1 = total_experts r"
    and sp: "spared r r1" using t by (simp_all add: vram_taken_def)
  have e: "ent (upd_ent v f r1) x = (if x = v then f (ent r1 v) else ent r1 x)" for x
    using ent_upd_ent v(1) T inv_sizesD(1)[OF reg_invD(1)[OF inv]] by simp
  have ni: "\<not> incoming (f (ent r1 v))" using v(2) core_eqD(5)[OF f] by (simp add: incoming_def)
  have "spared r (upd_ent v f r1)"
    by (rule spared_upd[OF sp, of v]) (use ev core_eqD(2)[OF f] in \<open>simp_all add: e\<close>)
  then show ?thesis
    using t v reg_inv_upd_usage[OF inv, of f v] f ni by (auto simp: vram_taken_def e)
qed

lemma vram_taken_counters:
  "vram_taken op_id gid s r (r1\<lparr>demotion_attempts := n\<rparr>) = vram_taken op_id gid s r r1"
  "vram_taken op_id gid s r (r1\<lparr>demotion_drops := n\<rparr>) = vram_taken op_id gid s r r1"
  by (simp_all add: vram_taken_def spared_def)

text \<open>The victim is marked; a demotion is queued for it, or it is dropped.\<close>

lemma demote_victim_marked:
  assumes t: "vram_taken op_id gid s r r1" and nf: "\<not> warm_frozen r1" and op: "op_id \<noteq> 0"
    and v: "v < total_experts r" "v \<noteq> gid" "operation (ent r1 v) = DEMOTION_PENDING"
      "gpu_transfer (ent r1 v) = GT_NONE" "operation_id (ent r1 v) = op_id" "slot_idx (ent r1 v) = int s"
    and start: "upd_ent v (\<lambda>e. e\<lparr>operation := DEMOTION_PENDING, operation_id := op_id,
       publication := UNPUBLISHED, slot_state := ACTIVE, pending_slot_idx := -1\<rparr>) rr = r1"
    and g: "gid < total_experts r"
    and ev: "lease_count (ent r v) = 0" "\<not> resident_at_prefill_begin (ent r v)"
  obtains d r' where "demote_victim v s gid op_id cap rr = ok (s, d) r'" "vram_taken op_id gid s r r'"
    "demotion_of op_id s d r'"
proof -
  have inv: "reg_inv_holes (Some s) None r1" and T: "total_experts r1 = total_experts r"
    using t by (simp_all add: vram_taken_def)
  note I = reg_invD[OF inv]
  have ni: "\<not> incoming (ent r1 v)" using v(3) by (simp add: incoming_def)
  have v1: "v < total_experts r1" using v(1) T by simp
  have c: "core ((ent r1 v)\<lparr>gpu_transfer := GT_NONE\<rparr>) = core (ent r1 v)"
    "core ((ent r1 v)\<lparr>gpu_transfer := GT_NONE, demotion_drop_reason := x\<rparr>) = core (ent r1 v)" for x
    using v(4) by (simp_all add: core_def)
  have none: "\<And>g. g < total_experts r1 \<Longrightarrow> gpu_transfer (ent r1 g) = D2H_PENDING \<Longrightarrow> operation_id (ent r1 g) \<noteq> op_id"
    using I(7) v v1 shape_d2h[OF inv_entriesD(1)[OF I(2)]] unfolding inv_ops_def by (metis ExpertGpuTransfer.distinct(3))
  define r2 where "r2 = r1\<lparr>demotion_attempts := Suc (demotion_attempts r1)\<rparr>"
  have t2: "vram_taken op_id gid s r r2" and e2: "ent r2 = ent r1" and inv2: "reg_inv_holes (Some s) None r2"
    and T2: "total_experts r2 = total_experts r1" "warm_frozen r2 = warm_frozen r1"
    using t inv by (simp_all add: r2_def vram_taken_counters)
  have drop: "vram_taken op_id gid s r (upd_ent v (\<lambda>e. e\<lparr>gpu_transfer := GT_NONE\<rparr>) r1)"
    "vram_taken op_id gid s r (upd_ent v (\<lambda>e. e\<lparr>gpu_transfer := GT_NONE, demotion_drop_reason := x\<rparr>) r2)" for x
    using vram_taken_usage[OF t v(1) ni v(2)] vram_taken_usage[OF t2 v(1) _ v(2)] ni e2 c ev by simp_all
  have lost: "demotion_of op_id s None (upd_ent v (\<lambda>e. e\<lparr>gpu_transfer := GT_NONE\<rparr>) r1)"
    "demotion_of op_id s None ((upd_ent v (\<lambda>e. e\<lparr>gpu_transfer := GT_NONE, demotion_drop_reason := x\<rparr>) r2)\<lparr>demotion_drops := n\<rparr>)" for x n
    using none v1 inv_sizesD(1)[OF I(1)] inv_sizesD(1)[OF reg_invD(1)[OF inv2]] e2 T2
    by (auto simp: demotion_of_def ent_upd_ent)
  have nf2: "\<not> warm_frozen r2" using nf T2 by simp
  have none2: "\<forall>g<total_experts r2. gpu_transfer (ent r2 g) = D2H_PENDING \<longrightarrow> operation_id (ent r2 g) \<noteq> op_id"
    using none T2 e2 by simp
  consider (flat) "host_capacity r1 = 0" | (full) "host_capacity r1 \<noteq> 0" "cap \<le> pending_demotion_count r2"
    | (search) "host_capacity r1 \<noteq> 0" "\<not> cap \<le> pending_demotion_count r2" by blast
  then show ?thesis
  proof cases
    case flat
    show ?thesis
      by (rule that[of None]) (use flat drop lost in \<open>simp_all add: demote_victim_def start\<close>)
  next
    case full
    show ?thesis
      by (rule that[of None "(upd_ent v (\<lambda>e. e\<lparr>gpu_transfer := GT_NONE, demotion_drop_reason := QUEUE_PRESSURE\<rparr>) r2)
            \<lparr>demotion_drops := Suc (demotion_drops r2)\<rparr>"])
        (use full drop(2) lost(2) in \<open>simp_all add: demote_victim_def Let_def start
          r2_def[symmetric] vram_taken_counters\<close>)
  next
    case search
    have go: "demote_victim v s gid op_id cap rr = and_then (reserve_warm_destination gid op_id r2) (\<lambda>dest r3.
        if dest < 0 then
          ok (s, None)
            ((upd_ent v (\<lambda>e. e\<lparr>gpu_transfer := GT_NONE,
                demotion_drop_reason := WARM_DESTINATION_UNAVAILABLE\<rparr>) r3)
              \<lparr>demotion_drops := Suc (demotion_drops r3)\<rparr>)
        else
          ok (s, Some \<lparr>dr_operation_id = op_id,
                dr_victim_gid = global_expert_id (ent r3 v), dr_source_vram_slot = s,
                dr_destination_host_slot = nat dest\<rparr>)
            ((upd_ent v (\<lambda>e. e\<lparr>gpu_transfer := D2H_PENDING,
                demotion_drop_reason := DROP_NONE\<rparr>) r3)
              \<lparr>pending_demotion_count := Suc (pending_demotion_count r3)\<rparr>))"
      using search by (simp add: demote_victim_def Let_def start r2_def)
    show ?thesis
    proof (cases rule: reserve_warm_destination_cases[OF inv2 nf2 op none2, of gid, case_names no_slot slot])
      case no_slot
      show ?thesis
        by (rule that[of None "(upd_ent v (\<lambda>e. e\<lparr>gpu_transfer := GT_NONE,
                demotion_drop_reason := WARM_DESTINATION_UNAVAILABLE\<rparr>) r2)
            \<lparr>demotion_drops := Suc (demotion_drops r2)\<rparr>"])
          (use no_slot drop(2) lost(2) in \<open>simp_all add: go vram_taken_counters\<close>)
    next
      case (slot h r3)
      note W = warm_onlyD[OF slot(6)]
      have e3: "ent r3 v = ent r1 v" "ent r3 gid = ent r1 gid"
        using slot(7)[of v] slot(7)[of gid] v v1 T2 e2 g T by simp_all
      have i3: "ent r3 x = ent r1 x" if "incoming (ent r3 x)" for x
        using slot(8)[of x] that e2 by (auto simp: incoming_def)
      note sz = inv_sizesD(1)[OF reg_invD(1)[OF slot(2)]]
      define r' where "r' = (upd_ent v (\<lambda>e. e\<lparr>gpu_transfer := D2H_PENDING, demotion_drop_reason := DROP_NONE\<rparr>) r3)
          \<lparr>pending_demotion_count := Suc (pending_demotion_count r3)\<rparr>"
      have v3: "v < total_experts r3" using v1 T2 W by simp
      have inv': "reg_inv_holes (Some s) None r'"
        by (rule claim_warm_state[OF slot(2) v3 _ _ _ _ slot(4) r'_def]) (use e3 v slot W r2_def in simp_all)
      have e': "ent r' v = (ent r1 v)\<lparr>gpu_transfer := D2H_PENDING, demotion_drop_reason := DROP_NONE\<rparr>"
        "\<And>x. x \<noteq> v \<Longrightarrow> ent r' x = ent r3 x"
        using v3 sz e3 by (simp_all add: ent_upd_ent r'_def)
      have inc: "ent r' x = ent r x" if "x < total_experts r" "incoming (ent r' x)" for x
      proof -
        have "x \<noteq> v" using that(2) e'(1) v(3) by (auto simp: incoming_def)
        then have "ent r' x = ent r1 x" using that(2) e'(2) i3 by metis
        then show ?thesis using t that by (auto simp: vram_taken_def)
      qed
      have "ent r' gid = ent r gid" using e'(2)[of gid] e3 v(2) t by (simp add: vram_taken_def)
      moreover have "spared r r'"
      proof -
        have frz: "\<not> warm_frozen r" and sp: "spared r r1" using t nf by (simp_all add: vram_taken_def)
        have "\<not> resident_at_prefill_begin (ent r1 x)" if "x < total_experts r" for x
          using I(11) nf that T by (auto simp: inv_mode_def)
        then have "ent r' x = ent r x" if "x < total_experts r" "lease_count (ent r x) \<noteq> 0 \<or> resident_at_prefill_begin (ent r x)" for x
          using sp that ev e'(2) slot(9)[of x] e2 unfolding spared_def by metis
        then show ?thesis using frz by (simp add: spared_def)
      qed
      ultimately have taken: "vram_taken op_id gid s r r'"
        using t inv' inc W nf T2 by (simp add: vram_taken_def r2_def r'_def)
      have gid: "global_expert_id (ent r1 v) = v" using inv_entriesD(2)[OF I(2) v1] .
      have dem: "demotion_of op_id s (Some \<lparr>dr_operation_id = op_id, dr_victim_gid = v, dr_source_vram_slot = s,
                dr_destination_host_slot = h\<rparr>) r'"
        using slot(3-5) e'(1) v v3 W(5) by (simp add: demotion_of_def r'_def r2_def)
      show ?thesis
        by (rule that[OF _ taken dem]) (use slot(1) e3(1) gid in \<open>simp add: go r'_def\<close>)
    qed
  qed
qed

subsection \<open>The VRAM destination\<close>

lemma find_rev_Some: "find P (rev xs) = Some x \<Longrightarrow> x \<in> set xs \<and> P x"
  by (metis find_Some_nth nth_mem set_rev)

lemma vram_free_state:
  assumes inv: "reg_inv r" and ne: "free_vram_slots r \<noteq> []" and s: "s = last (free_vram_slots r)"
    and r': "r' = r\<lparr>free_vram_slots := butlast (free_vram_slots r),
             vram_slot_reservations := (vram_slot_reservations r)[s := op_id]\<rparr>" and op: "op_id \<noteq> 0"
  shows "vram_taken op_id gid s r r'"
proof -
  note I = reg_invD[OF inv]
  note sz = inv_sizesD[OF I(1)] and side = slot_side_conditions[OF I(2,3)]
  have sf: "s \<in> set (free_vram_slots r)" using ne s by simp
  then have e: "s < vram_capacity r" "vram_slots r ! s = -1" "vram_slot_reservations r ! s = 0"
    using I(9) by (auto simp: inv_free_def)
  have "reg_inv_holes (Some s) None r'"
  proof (rule reg_inv_holesI)
    show "inv_vres (Some s) r'"
      by (rule vres_reserve[OF I(5) e(1,3)]) (use side r' e sz in simp_all)
    show "inv_free r'"
      using I(9) set_butlast_distinct[of "free_vram_slots r"] ne s sz e op
      by (auto simp: inv_free_def r' nth_list_update distinct_butlast)
  qed (use I in \<open>simp_all add: r' inv_sizes_def inv_entries_def inv_vmap_def inv_hmap_def inv_hres_def
        inv_ops_def inv_lru_def inv_count_def inv_mode_def\<close>)
  then show ?thesis using e sz by (simp add: vram_taken_def spared_def r')
qed

lemma shadow_evict_state:
  assumes inv: "reg_inv r" and c: "c < total_experts r" "shadow_vram_slot (ent r c) \<noteq> -1"
    and s: "s = nat (shadow_vram_slot (ent r c))" and op: "op_id \<noteq> 0" and g: "shadow_vram_slot (ent r gid) = -1"
    and free: "lease_count (ent r c) = 0"
    and r': "r' = (upd_ent c (\<lambda>e. e\<lparr>shadow_vram_slot := -1\<rparr>) r)
             \<lparr>shadow_lru := removeAll c (shadow_lru r), shadow_slot_of_expert := (shadow_slot_of_expert r)[c := -1],
              vram_slots := (vram_slots r)[s := -1],
              vram_slot_reservations := (vram_slot_reservations r)[s := op_id]\<rparr>"
  shows "vram_taken op_id gid s r r'"
proof -
  note I = reg_invD[OF inv]
  note sz = inv_sizesD[OF I(1)] and side = slot_side_conditions[OF I(2,3)]
  note sh = inv_entriesD(1)[OF I(2) c(1)] and gid = inv_entriesD(2,3)[OF I(2) c(1)]
  note cs = shape_shadow[OF sh c(2)]
  note cf = entry_shapeD(1)[OF sh] entry_shapeD(5-)[OF sh]
  have vm: "s < vram_capacity r" "vram_slots r ! s = int c"
    using inv_vmapD(2)[OF I(3) c] s by auto
  have unres: "vram_slot_reservations r ! s = 0"
    using inv_vresD(4)[OF I(5) vm(1)] vm cs by fastforce
  have frozen: "warm_frozen r" using I(8,11) c by (auto simp: inv_lru_def inv_mode_def)
  note st = r' ent_upd_ent c sz(1)
  have "spared r r'"
    by (rule spared_one[of c]) (use free cs cf in \<open>auto simp: st\<close>)
  moreover have "reg_inv_holes (Some s) None r'"
  proof (rule reg_inv_holesI)
    show "inv_sizes r'" using I(1) by (simp add: inv_sizes_def st)
    show "inv_entries r'"
      by (rule inv_entries_one[OF I(2), of _ c]) (use cs cf gid in \<open>auto simp: st entry_shape_def\<close>)
    show "inv_vmap r'" by (rule vmap_release[OF I(3) vm sz(2)]) (use cs in \<open>simp_all add: st\<close>)
    show "inv_hmap r'" by (rule hmap_frame[OF I(4)]) (simp_all add: st)
    show "inv_vres (Some s) r'"
      by (rule vres_reserve[OF I(5) vm(1) unres]) (use side sz vm in \<open>simp_all add: st vres_view_def incoming_def\<close>)
    show "inv_hres None r'" by (rule hres_frame[OF I(6)]) (simp_all add: st hres_view_def)
    show "inv_ops r'" using I(7) by (auto simp: inv_ops_def st incoming_def)
    show "inv_lru r'" using I(8) c sz by (auto simp: inv_lru_def st nth_list_update distinct_removeAll)
    show "inv_free r'" using I(9) sz vm op by (auto simp: inv_free_def st nth_list_update)
    show "inv_count r'" by (rule count_frame[OF I(10)]) (simp_all add: st)
    show "inv_mode r'" using I(11) frozen by (auto simp: inv_mode_def st)
  qed
  moreover have "gid \<noteq> c" using g c by auto
  moreover have "ent r' x = ent r x" if "incoming (ent r' x)" for x
    using that cs by (auto simp: st incoming_def split: if_splits)
  ultimately show ?thesis using vm sz by (simp add: vram_taken_def r' ent_upd_ent c)
qed

lemma hot_evict_state:
  assumes inv: "reg_inv r" and v: "v \<in> set (hot_vram_lru r)" "\<not> resident_at_prefill_begin (ent r v)"
    and s: "s = nat (slot_idx (ent r v))" and op: "op_id \<noteq> 0" and g: "gid \<noteq> v" and ev: "lease_count (ent r v) = 0"
    and r': "r' = (upd_ent v (\<lambda>e. e\<lparr>in_lru := False, owner := COLD_NVME, slot_idx := -1,
                         pending_slot_idx := -1, publication := PUBLISHED,
                         slot_state := UNALLOCATED, operation := OP_NONE,
                         gpu_transfer := GT_NONE\<rparr>) r)
             \<lparr>hot_vram_lru := remove1 v (hot_vram_lru r), vram_slots := (vram_slots r)[s := -1],
              vram_slot_reservations := (vram_slot_reservations r)[s := op_id]\<rparr>"
  shows "vram_taken op_id gid s r r'"
proof -
  note I = reg_invD[OF inv]
  note sz = inv_sizesD[OF I(1)] and side = slot_side_conditions[OF I(2,3)]
  have vh: "v < total_experts r" "in_lru (ent r v)" "owner (ent r v) = HOT_VRAM"
    using v I(8) by (auto simp: inv_lru_def)
  note sh = inv_entriesD(1)[OF I(2) vh(1)] and gid = inv_entriesD(2,3)[OF I(2) vh(1)]
  have idle: "operation (ent r v) = OP_NONE" using shape_in_lru[OF sh vh(2)] by simp
  note vf = entry_shapeD(1)[OF sh idle] entry_shapeD(5-)[OF sh]
  have src: "slot_idx (ent r v) = int s" using shape_slot[OF sh] vh s by simp
  have vm: "s < vram_capacity r" "vram_slots r ! s = int v"
    using inv_vmapD(1)[OF I(3) vh(1,3)] src by auto
  have free: "vram_slot_reservations r ! s = 0"
    using inv_vresD(4)[OF I(5) vm(1)] vm idle by fastforce
  note st = r' ent_upd_ent vh sz(1)
  have "spared r r'" by (rule spared_one[of v]) (use v ev in \<open>auto simp: st\<close>)
  moreover have "reg_inv_holes (Some s) None r'"
  proof (rule reg_inv_holesI)
    show "inv_sizes r'" using I(1) by (simp add: inv_sizes_def st)
    show "inv_entries r'"
      by (rule inv_entries_one[OF I(2), of _ v]) (use vf v vh gid in \<open>auto simp: st entry_shape_def\<close>)
    show "inv_vmap r'" by (rule vmap_release[OF I(3) vm sz(2)]) (use vf vh in \<open>simp_all add: st\<close>)
    show "inv_hmap r'" by (rule hmap_frame[OF I(4)]) (simp_all add: st)
    show "inv_vres (Some s) r'"
      by (rule vres_reserve[OF I(5) vm(1) free]) (use side sz vm vf idle in \<open>simp_all add: st vres_view_def incoming_def\<close>)
    show "inv_hres None r'" by (rule hres_frame[OF I(6)]) (use vf idle in \<open>simp_all add: st hres_view_def\<close>)
    show "inv_ops r'" using I(7) by (auto simp: inv_ops_def st incoming_def)
    show "inv_lru r'" using I(8) vh by (auto simp: inv_lru_def st)
    show "inv_free r'" using I(9) sz vm op by (auto simp: inv_free_def st nth_list_update)
    show "inv_count r'" by (rule count_frame[OF I(10)]) (use vf in \<open>simp_all add: st\<close>)
    show "inv_mode r'" using I(11) vf v by (auto simp: inv_mode_def st)
  qed
  moreover have "ent r' x = ent r x" if "incoming (ent r' x)" for x
    using that by (auto simp: st incoming_def split: if_splits)
  ultimately show ?thesis using g vm sz by (simp add: vram_taken_def r' ent_upd_ent vh)
qed

lemma prefill_destination_cases:
  assumes inv: "reg_inv r" and op: "op_id \<noteq> 0" and g: "shadow_vram_slot (ent r gid) = -1"
  obtains (taken) s r' where "prefill_destination gid op_id r = ok (s, None) r'" "vram_taken op_id gid s r r'"
      "\<And>x. gpu_transfer (ent r' x) = D2H_PENDING \<Longrightarrow> gpu_transfer (ent r x) = D2H_PENDING \<and> operation_id (ent r' x) = operation_id (ent r x)"
  | (full) e where "prefill_destination gid op_id r = throw e r"
proof -
  note I = reg_invD[OF inv]
  show ?thesis
  proof (cases "find (\<lambda>g. reclaimable_shadow (ent r g)) (rev (shadow_lru r))")
    case (Some c)
    have "c \<in> set (shadow_lru r)" and free: "lease_count (ent r c) = 0"
      using find_rev_Some[OF Some] by (simp_all add: reclaimable_shadow_def)
    then have c: "c < total_experts r" "shadow_vram_slot (ent r c) \<noteq> -1" using I(8) by (auto simp: inv_lru_def)
    note sh = inv_entriesD(1)[OF I(2) c(1)] and gid = inv_entriesD(2)[OF I(2) c(1)]
    have ge: "0 \<le> shadow_vram_slot (ent r c)" using shape_shadow[OF sh c(2)] by simp
    have len: "c < length (catalog r)" using c inv_sizesD(1)[OF I(1)] by simp
    note st = shadow_evict_state[OF inv c refl op g free refl]
    have eq: "prefill_destination gid op_id r = ok (nat (shadow_vram_slot (ent r c)), None)
        ((upd_ent c (\<lambda>e. e\<lparr>shadow_vram_slot := -1\<rparr>) r)
             \<lparr>shadow_lru := removeAll c (shadow_lru r), shadow_slot_of_expert := (shadow_slot_of_expert r)[c := -1],
              vram_slots := (vram_slots r)[nat (shadow_vram_slot (ent r c)) := -1],
              vram_slot_reservations := (vram_slot_reservations r)[nat (shadow_vram_slot (ent r c)) := op_id]\<rparr>)"
      using Some ge gid by (simp add: prefill_destination_def Let_def release_shadow_residency_def upd_ent_def)
    show ?thesis by (rule taken[OF eq st]) (use len in \<open>auto simp: ent_upd_ent split: if_splits\<close>)
  next
    case no_shadow: None
    show ?thesis
    proof (cases "find (\<lambda>g. reclaimable_in_prefill gid (ent r g)) (rev (hot_vram_lru r))")
      case None
      show ?thesis by (rule full) (simp add: prefill_destination_def no_shadow None)
    next
      case (Some v)
      have v: "v \<in> set (hot_vram_lru r)" "reclaimable_in_prefill gid (ent r v)" using find_rev_Some[OF Some] by simp_all
      then have vh: "v < total_experts r" "in_lru (ent r v)" using I(8) by (auto simp: inv_lru_def)
      note sh = inv_entriesD(1)[OF I(2) vh(1)] and vg = inv_entriesD(2)[OF I(2) vh(1)]
      have it: "lru_it (ent r v) = v" using shape_in_lru[OF sh vh(2)] vg by simp
      have x: "\<not> resident_at_prefill_begin (ent r v)" "gid \<noteq> v" "lease_count (ent r v) = 0"
        using v(2) vg by (auto simp: reclaimable_in_prefill_def)
      have len: "v < length (catalog r)" using vh(1) inv_sizesD(1)[OF I(1)] by simp
      let ?s = "nat (slot_idx (ent r v))"
      have eq: "prefill_destination gid op_id r = ok (?s, None)
          ((upd_ent v (\<lambda>e. e\<lparr>in_lru := False, owner := COLD_NVME, slot_idx := -1,
                         pending_slot_idx := -1, publication := PUBLISHED,
                         slot_state := UNALLOCATED, operation := OP_NONE,
                         gpu_transfer := GT_NONE\<rparr>) r)
             \<lparr>hot_vram_lru := remove1 v (hot_vram_lru r), vram_slots := (vram_slots r)[?s := -1],
              vram_slot_reservations := (vram_slot_reservations r)[?s := op_id]\<rparr>)"
        by (simp add: prefill_destination_def Let_def remove_hot_eq[OF vh(2) it] Some no_shadow,
           rule ExpertRegistry.equality; simp add: upd_ent_def ent_def len)
      show ?thesis
        by (rule taken[OF eq hot_evict_state[OF inv v(1) x(1) refl op x(2,3) refl]])
          (use len in \<open>auto simp: ent_upd_ent split: if_splits\<close>)
    qed
  qed
qed

lemma demote_victim_ok:
  assumes inv: "reg_inv r" and nf: "\<not> warm_frozen r" and ready: "op_ready op_id r"
    and v: "v \<in> set (hot_vram_lru r)" "v \<noteq> gid" and g: "gid < total_experts r"
    and s: "s = nat (slot_idx (ent r v))" and ev: "lease_count (ent r v) = 0"
  obtains d r' where "demote_victim v s gid op_id cap
      ((upd_ent v (\<lambda>e. e\<lparr>in_lru := False\<rparr>) r)\<lparr>hot_vram_lru := remove1 v (hot_vram_lru r),
               vram_slot_reservations := (vram_slot_reservations r)[s := op_id]\<rparr>) = ok (s, d) r'"
    "vram_taken op_id gid s r r'" "demotion_of op_id s d r'"
proof -
  note I = reg_invD[OF inv]
  note sz = inv_sizesD[OF I(1)]
  have vh: "v < total_experts r" "in_lru (ent r v)" "owner (ent r v) = HOT_VRAM"
    using v I(8) by (auto simp: inv_lru_def)
  note sh = inv_entriesD(1)[OF I(2) vh(1)]
  have src: "slot_idx (ent r v) = int s" using shape_slot[OF sh] vh s by simp
  define r1 where "r1 = (upd_ent v (\<lambda>e. e\<lparr>in_lru := False, operation := DEMOTION_PENDING, operation_id := op_id,
                 publication := UNPUBLISHED, slot_state := ACTIVE, pending_slot_idx := -1\<rparr>) r)
              \<lparr>hot_vram_lru := remove1 v (hot_vram_lru r),
               vram_slot_reservations := (vram_slot_reservations r)[s := op_id]\<rparr>"
  note vs = victim_state[OF inv nf ready v(1) s r1_def]
  have e1: "ent r1 v = (ent r v)\<lparr>in_lru := False, operation := DEMOTION_PENDING, operation_id := op_id,
       publication := UNPUBLISHED, slot_state := ACTIVE, pending_slot_idx := -1\<rparr>"
    "\<And>x. x \<noteq> v \<Longrightarrow> ent r1 x = ent r x"
    using vh(1) sz(1) by (simp_all add: r1_def ent_upd_ent)
  have inc: "ent r1 x = ent r x" if "incoming (ent r1 x)" for x
    using that e1 by (cases "x = v") (auto simp: incoming_def)
  have T: "total_experts r1 = total_experts r" "warm_frozen r1 = warm_frozen r" by (simp_all add: r1_def)
  have nres: "\<not> resident_at_prefill_begin (ent r v)" using I(11) nf vh(1) by (auto simp: inv_mode_def)
  have "spared r r1" by (rule spared_one[of v]) (use e1 nres ev nf in simp_all)
  then have t: "vram_taken op_id gid s r r1"
    using vs inc e1(2)[of gid] v(2) nf sz by (simp add: vram_taken_def) (simp add: r1_def)
  show ?thesis
    by (rule demote_victim_marked[OF t _ _ vh(1) v(2) _ _ _ _ _ g ev nres, of _ cap, OF _ _ _ _ _ _ _ that])
      (use e1 nf T ready src shape_in_lru[OF sh vh(2)] vh sz in
        \<open>simp_all add: op_ready_def\<close>, simp add: r1_def upd_ent_def)
qed

lemma reserve_vram_destination_cases:
  assumes inv: "reg_inv r" and ready: "op_ready op_id r" and g: "gid < total_experts r" "shadow_vram_slot (ent r gid) = -1"
  obtains (taken) s d r' where "reserve_vram_destination gid op_id cap r = ok (s, d) r'" "vram_taken op_id gid s r r'"
      "demotion_of op_id s d r'"
  | (full) e where "reserve_vram_destination gid op_id cap r = throw e r"
proof -
  note I = reg_invD[OF inv]
  have op: "op_id \<noteq> 0" using ready by (simp add: op_ready_def)
  have none: "operation_id (ent r x) \<noteq> op_id" if "x < total_experts r" "gpu_transfer (ent r x) = D2H_PENDING" for x
    using ready shape_d2h[OF inv_entriesD(1)[OF I(2) that(1)] that(2)] that(1) by (simp add: op_ready_def)
  consider (free) "free_vram_slots r \<noteq> []"
    | (stream) "free_vram_slots r = []" "prefill_stream r \<and> prefill_alloc r = FreeListOnly"
    | (prefill) "free_vram_slots r = []" "\<not> (prefill_stream r \<and> prefill_alloc r = FreeListOnly)" "prefill_stream r \<or> warm_frozen r"
    | (decode) "free_vram_slots r = []" "\<not> (prefill_stream r \<and> prefill_alloc r = FreeListOnly)" "\<not> (prefill_stream r \<or> warm_frozen r)"
    by blast
  then show ?thesis
  proof cases
    case free
    show ?thesis
      by (rule taken[OF _ vram_free_state[OF inv free refl refl op], of None])
        (use free none in \<open>simp_all add: reserve_vram_destination_def Let_def demotion_of_def\<close>)
  next
    case stream
    show ?thesis by (rule full) (use stream in \<open>simp add: reserve_vram_destination_def\<close>)
  next
    case prefill
    then have eq: "reserve_vram_destination gid op_id cap r = prefill_destination gid op_id r"
      by (auto simp: reserve_vram_destination_def)
    show ?thesis
    proof (cases rule: prefill_destination_cases[OF inv op g(2), case_names taken full])
      case (taken s r')
      have "demotion_of op_id s None r'" using taken(2,3) none by (auto simp: demotion_of_def vram_taken_def)
      then show ?thesis using that(1)[of s None r'] eq taken by simp
    next
      case (full e)
      then show ?thesis using that(2)[of e] eq by simp
    qed
  next
    case decode
    show ?thesis
    proof (cases "find (\<lambda>g. reclaimable gid (ent r g)) (rev (hot_vram_lru r))")
      case None
      show ?thesis by (rule full) (use decode None in \<open>auto simp add: reserve_vram_destination_def\<close>)
    next
      case (Some v)
      have v: "v \<in> set (hot_vram_lru r)" "reclaimable gid (ent r v)" using find_rev_Some[OF Some] by simp_all
      then have vh: "v < total_experts r" "in_lru (ent r v)" using I(8) by (auto simp: inv_lru_def)
      note sh = inv_entriesD(1)[OF I(2) vh(1)] and vg = inv_entriesD(2)[OF I(2) vh(1)]
      have it: "lru_it (ent r v) = v" using shape_in_lru[OF sh vh(2)] vg by simp
      have ne: "v \<noteq> gid" and ev: "lease_count (ent r v) = 0" using v(2) vg by (auto simp: reclaimable_def)
      have nf: "\<not> warm_frozen r" using decode by simp
      obtain d r' where "demote_victim v (nat (slot_idx (ent r v))) gid op_id cap
            ((upd_ent v (\<lambda>e. e\<lparr>in_lru := False\<rparr>) r)\<lparr>hot_vram_lru := remove1 v (hot_vram_lru r),
               vram_slot_reservations := (vram_slot_reservations r)[nat (slot_idx (ent r v)) := op_id]\<rparr>)
             = ok (nat (slot_idx (ent r v)), d) r'"
          "vram_taken op_id gid (nat (slot_idx (ent r v))) r r'" "demotion_of op_id (nat (slot_idx (ent r v))) d r'"
        by (rule demote_victim_ok[OF inv nf ready v(1) ne g(1) refl ev])
      then show ?thesis
        using decode Some it vh by (intro taken) (auto simp: reserve_vram_destination_def Let_def remove_hot_eq)
    qed
  qed
qed
end
