(* ===== verification/Registry_Requests.thy ===== *)
theory Registry_Requests
  imports Registry_Reserve
begin

text \<open>
  Requests for an expert: a hit, a coalesced request, a promotion, a shadow copy, a cold read or a
  staged read. Every outcome leaves the registry well formed, and a granted request delivers what
  \<open>request_granted\<close> says.
\<close>

subsection \<open>Claiming the destination\<close>

lemma claim_state:
  assumes inv: "reg_inv_holes hole None r" and g: "g < total_experts r" "operation (ent r g) = OP_NONE"
      "owner (ent r g) \<noteq> HOT_VRAM" "shadow_vram_slot (ent r g) = -1"
    and p: "p = -1 \<and> hole = None \<or> (\<exists>s. p = int s \<and> hole = Some s \<and> s < vram_capacity r \<and> vram_slot_reservations r ! s = op_id)"
    and op: "op_id \<noteq> 0" "op_id < next_operation_id r"
      "\<And>x. x < total_experts r \<Longrightarrow> incoming (ent r x) \<Longrightarrow> operation_id (ent r x) \<noteq> op_id"
    and shadow: "sh \<Longrightarrow> owner (ent r g) = WARM_HOST \<and> warm_frozen r \<and> (p \<noteq> -1 \<longrightarrow> vram_slots r ! nat p = -1)"
    and f: "owner (f (ent r g)) = owner (ent r g)" "slot_idx (f (ent r g)) = slot_idx (ent r g)"
      "pending_slot_idx (f (ent r g)) = p" "gpu_transfer (f (ent r g)) = H2D_PENDING"
      "operation (f (ent r g)) = (if owner (ent r g) = WARM_HOST then PROMOTION_PENDING else IO_PENDING)"
      "publication (f (ent r g)) = UNPUBLISHED" "warm_shadow (f (ent r g)) = sh" "shadow_vram_slot (f (ent r g)) = -1"
      "resident_at_prefill_begin (f (ent r g)) = resident_at_prefill_begin (ent r g)"
      "global_expert_id (f (ent r g)) = g" "\<not> in_lru (f (ent r g))" "operation_id (f (ent r g)) = op_id"
    and r': "r' = (upd_ent g f r)
       \<lparr>host_slot_reservations := (if owner (ent r g) = WARM_HOST \<and> \<not> sh
          then (host_slot_reservations r)[nat (slot_idx (ent r g)) := op_id] else host_slot_reservations r),
        warm_host_lru := (if owner (ent r g) = WARM_HOST then remove1 g (warm_host_lru r) else warm_host_lru r)\<rparr>"
  shows "reg_inv r'"
proof -
  note I = reg_invD[OF inv]
  note sz = inv_sizesD[OF I(1)] and side = slot_side_conditions[OF I(2,3)]
  note sh1 = inv_entriesD(1)[OF I(2) g(1)] and gid = inv_entriesD(2,3)[OF I(2) g(1)]
  note gv = entry_shapeD(1)[OF sh1 g(2)] entry_shapeD(5-)[OF sh1]
  have tier: "owner (ent r g) = COLD_NVME \<or> owner (ent r g) = WARM_HOST" using g(3) by (cases "owner (ent r g)") auto
  have inc: "incoming (f (ent r g))" using f by (simp add: incoming_def)
  have ni: "operation (ent r g) \<noteq> DEMOTION_PENDING" "\<not> incoming (ent r g)" using g(2) by (simp_all add: incoming_def)
  note st = r' ent_upd_ent g sz(1) f
  show ?thesis
  proof (rule reg_inv_holesI)
    show "inv_sizes r'" using I(1) by (simp add: inv_sizes_def st)
    show "inv_entries r'"
      by (rule inv_entries_one[OF I(2), of _ g]) (use gv gid tier op p shadow in \<open>auto simp: st entry_shape_def\<close>)
    show "inv_vmap r'" by (rule vmap_frame[OF I(3)]) (use gv in \<open>simp_all add: st\<close>)
    show "inv_hmap r'" by (rule hmap_frame[OF I(4)]) (simp_all add: st)
    show "inv_vres None r'"
      using p
    proof (elim disjE exE conjE)
      assume h: "p = -1" "hole = None"
      show ?thesis
        by (rule vres_unslotted[OF I(5)[unfolded h(2)] g(1) ni(1)]) (use ni h in \<open>auto simp: st\<close>)
    next
      fix s assume h: "p = int s" "hole = Some s" "s < vram_capacity r" "vram_slot_reservations r ! s = op_id"
      show ?thesis
        by (rule vres_claim[OF I(5)[unfolded h(2)] h(3,4) g(1) ni(1)]) (use ni h inc shadow in \<open>simp_all add: st\<close>)
    qed
    show "inv_hres None r'"
    proof (cases "owner (ent r g) = WARM_HOST \<and> \<not> sh")
      case True
      have src: "slot_idx (ent r g) = int (nat (slot_idx (ent r g)))" and ge: "0 \<le> slot_idx (ent r g)"
        using True shape_slot[OF sh1] by simp_all
      show ?thesis
        by (rule hres_source[OF I(6,4) g(1) _ _ src, where op_id = op_id])
          (use True ge gv(1) sz side in \<open>simp_all add: st\<close>)
    next
      case False
      show ?thesis by (rule hres_frame[OF I(6)]) (use False tier gv(1) in \<open>auto simp: st hres_view_def\<close>)
    qed
    show "inv_ops r'" using I(7) ni op(3) by (auto simp: inv_ops_def st)
    show "inv_lru r'" using I(8) g gv by (auto simp: inv_lru_def st)
    show "inv_free r'"
      using I(9) sz inv_hmapD(1)[OF I(4) g(1)] by (auto simp: inv_free_def st nth_list_update)
    show "inv_count r'" by (rule count_frame[OF I(10)]) (use gv(1) in \<open>simp_all add: st\<close>)
    show "inv_mode r'" using I(11) shadow g by (auto simp: inv_mode_def st)
  qed
qed

text \<open>What a reservation promises its caller.\<close>

definition request_granted ::
  "nat \<Rightarrow> ExpertRegistry \<Rightarrow> ExpertRequestReservation \<Rightarrow> ExpertRegistry \<Rightarrow> bool" where
  "request_granted gid r q r' \<longleftrightarrow>
     rq_global_expert_id q = gid \<and> rq_lease_acquired q \<and>
     lease_count (ent r' gid) = Suc (lease_count (ent r gid)) \<and>
     (case rq_kind q of
        HOT_HIT \<Rightarrow> 0 \<le> rq_vram_slot q \<and> nat (rq_vram_slot q) < vram_capacity r' \<and>
          vram_slots r' ! nat (rq_vram_slot q) = int gid \<and> operation (ent r' gid) = OP_NONE
      | PENDING \<Rightarrow> operation (ent r' gid) \<noteq> OP_NONE \<and>
          operation_id (ent r' gid) = rq_operation_id q \<and> pending_slot_idx (ent r' gid) = rq_vram_slot q
      | _ \<Rightarrow> gid < total_experts r' \<and> incoming (ent r' gid) \<and> operation_id (ent r' gid) = rq_operation_id q \<and>
          pending_slot_idx (ent r' gid) = rq_vram_slot q \<and>
          (rq_kind q = WARM_PROMOTION \<longleftrightarrow> owner (ent r' gid) = WARM_HOST) \<and>
          (rq_kind q = COLD_STAGED \<longrightarrow> rq_vram_slot q = -1) \<and>
          (case rq_demotion q of
             None \<Rightarrow> \<forall>g<total_experts r'. gpu_transfer (ent r' g) = D2H_PENDING \<longrightarrow> operation_id (ent r' g) \<noteq> rq_operation_id q
           | Some d \<Rightarrow> dr_victim_gid d < total_experts r' \<and>
             gpu_transfer (ent r' (dr_victim_gid d)) = D2H_PENDING \<and>
             operation_id (ent r' (dr_victim_gid d)) = rq_operation_id q \<and>
             dr_operation_id d = rq_operation_id q \<and>
             int (dr_source_vram_slot d) = rq_vram_slot q))"

text \<open>What a request leaves alone: every other expert that is leased or marked at the start of a
  prefill, and, while Warm is frozen, the set of experts Warm owns.\<close>

definition spares :: "nat \<Rightarrow> ExpertRegistry \<Rightarrow> ExpertRegistry \<Rightarrow> bool" where
  "spares gid r r' \<longleftrightarrow> (\<forall>h<total_experts r.
     (h \<noteq> gid \<longrightarrow> lease_count (ent r h) \<noteq> 0 \<or> resident_at_prefill_begin (ent r h) \<longrightarrow> ent r' h = ent r h) \<and>
     (warm_frozen r \<longrightarrow> (owner (ent r' h) = WARM_HOST \<longleftrightarrow> owner (ent r h) = WARM_HOST)))"

lemma spares_same: "(\<And>h. h < total_experts r \<Longrightarrow> h \<noteq> gid \<Longrightarrow> ent r' h = ent r h) \<Longrightarrow>
    owner (ent r' gid) = owner (ent r gid) \<Longrightarrow> spares gid r r'"
  unfolding spares_def by metis

lemma spares_spared:
  assumes "spared r r1" and "\<And>h. h \<noteq> gid \<Longrightarrow> ent r' h = ent r1 h" and "owner (ent r' gid) = owner (ent r gid)"
  shows "spares gid r r'"
  using assms unfolding spares_def spared_def by metis

lemma spared_same: "spared r r"
  by (simp add: spared_def)

text \<open>A shadow copy evicts without a demotion.\<close>

lemma shadow_no_victim:
  assumes inv: "reg_inv r" and g: "g < total_experts r" "warm_shadow (ent r g)"
    and v: "v < total_experts r" "gpu_transfer (ent r v) = D2H_PENDING"
  shows "operation_id (ent r v) \<noteq> operation_id (ent r g)"
proof
  assume same: "operation_id (ent r v) = operation_id (ent r g)"
  note I = reg_invD[OF inv]
  have inc: "incoming (ent r g)" using slot_side_conditions(2)[OF I(2,3) g] .
  note dm = demotion_facts[OF inv v]
  have "pending_slot_idx (ent r g) = slot_idx (ent r v)" by (rule victim_slot[OF inv g(1) inc v(1) dm(1) same])
  then show False using inv_vresD(5)[OF I(5) g] dm by simp
qed

definition destination_taken ::
  "nat \<Rightarrow> nat \<Rightarrow> (nat \<times> ExpertDemotionReservation option) option \<Rightarrow> ExpertRegistry \<Rightarrow> ExpertRegistry \<Rightarrow> bool" where
  "destination_taken op_id gid d r r1 \<longleftrightarrow>
     (case d of None \<Rightarrow> r1 = r | Some (s, dem) \<Rightarrow> vram_taken op_id gid s r r1 \<and> demotion_of op_id s dem r1)"

lemma optional_destination_cases:
  assumes inv: "reg_inv r" and ready: "op_ready op_id r" and g: "gid < total_experts r" "shadow_vram_slot (ent r gid) = -1"
  obtains (granted) d r1 where "optional_destination defer gid op_id cap r = ok d r1" "destination_taken op_id gid d r r1"
      "d = None \<longleftrightarrow> defer"
  | (full) e where "optional_destination defer gid op_id cap r = throw e r"
proof (cases "defer")
  case True
  show ?thesis by (rule granted[of None r]) (simp_all add: optional_destination_def destination_taken_def True)
next
  case False
  show ?thesis
  proof (cases rule: reserve_vram_destination_cases[OF inv ready g, of cap, case_names taken no_slot])
    case (taken s d r1)
    show ?thesis
      by (rule granted[of "Some (s, d)" r1]) (use taken in \<open>simp_all add: optional_destination_def False destination_taken_def\<close>)
  next
    case (no_slot e)
    show ?thesis by (rule full[of e]) (use no_slot in \<open>simp add: optional_destination_def False\<close>)
  qed
qed

lemma fresh_operation:
  assumes inv: "reg_inv r" and r0: "r0 = r\<lparr>next_operation_id := Suc (next_operation_id r)\<rparr>"
  shows "reg_inv r0" "op_ready (next_operation_id r) r0"
    "\<And>x. x < total_experts r \<Longrightarrow> operation_id (ent r0 x) \<noteq> next_operation_id r"
proof -
  note I = reg_invD[OF inv]
  show "operation_id (ent r0 x) \<noteq> next_operation_id r" if "x < total_experts r" for x
    using inv_entriesD(3)[OF I(2) that] by (simp add: r0)
  then show "op_ready (next_operation_id r) r0" using inv_sizesD(8)[OF I(1)] by (simp add: op_ready_def r0)
  show "reg_inv r0" using reg_inv_next_op[OF inv] by (simp add: r0)
qed

text \<open>What a taken destination gives the claim.\<close>

lemma destination_takenD:
  assumes inv: "reg_inv r" and t: "destination_taken op_id gid d r r1" and g: "gid < total_experts r"
    and fresh: "\<And>x. x < total_experts r \<Longrightarrow> incoming (ent r x) \<Longrightarrow> operation_id (ent r x) \<noteq> op_id"
    and lt: "op_id < next_operation_id r"
  obtains hole where "reg_inv_holes hole None r1" "ent r1 gid = ent r gid" "total_experts r1 = total_experts r"
    "warm_frozen r1 = warm_frozen r" "op_id < next_operation_id r1"
    "destination_slot d = -1 \<and> hole = None \<or> (\<exists>s. destination_slot d = int s \<and> hole = Some s \<and> s < vram_capacity r1 \<and> vram_slot_reservations r1 ! s = op_id)"
    "\<And>x. x < total_experts r1 \<Longrightarrow> incoming (ent r1 x) \<Longrightarrow> operation_id (ent r1 x) \<noteq> op_id"
    "warm_frozen r \<Longrightarrow> destination_slot d \<noteq> -1 \<Longrightarrow> vram_slots r1 ! nat (destination_slot d) = -1"
    "spared r r1"
proof (cases d)
  case None
  then show ?thesis using that[of None] t inv fresh lt spared_same by (simp add: destination_taken_def destination_slot_def)
next
  case (Some sd)
  obtain s dem where sd: "sd = (s, dem)" by (cases sd)
  have v: "vram_taken op_id gid s r r1" using t Some sd by (simp add: destination_taken_def)
  have x: "operation_id (ent r1 x) \<noteq> op_id" if "x < total_experts r1" "incoming (ent r1 x)" for x
    using v that fresh[of x] unfolding vram_taken_def by metis
  show ?thesis
    by (rule that[of "Some s"]) (use v Some sd lt x in \<open>simp_all add: vram_taken_def destination_slot_def\<close>)
qed

subsection \<open>Requests\<close>

lemma touch_hot_ok:
  assumes inv: "reg_inv r" and g: "g < total_experts r" "operation (ent r g) = OP_NONE" "owner (ent r g) = HOT_VRAM"
  obtains r' where "touch_hot g r = ok () r'" "reg_inv r'" "ent r' = ent r" "vram_slots r' = vram_slots r"
    "vram_capacity r' = vram_capacity r" "total_experts r' = total_experts r" "length (catalog r') = length (catalog r)"
proof -
  note I = reg_invD[OF inv]
  note sh = inv_entriesD(1)[OF I(2) g(1)] and gid = inv_entriesD(2)[OF I(2) g(1)] and sz = inv_sizesD[OF I(1)]
  have l: "in_lru (ent r g)" "lru_it (ent r g) = g" using entry_shapeD(1,5)[OF sh] g gid by simp_all
  let ?r' = "r\<lparr>catalog := (catalog r)[g := (ent r g)], hot_vram_lru := g # remove1 g (hot_vram_lru r)\<rparr>"
  have same: "(catalog r ! g)\<lparr>lru_it := g, in_lru := True\<rparr> = catalog r ! g"
    using l gid by (intro ExpertCatalogEntry.equality) (simp_all add: ent_def)
  have "touch_hot g r = ok () ?r'"
    using g sz l gid
    by (simp add: touch_hot_def remove_hot_eq push_hot_eq ent_upd_ent) (simp add: upd_ent_def ent_def same)
  moreover have e: "ent ?r' = ent r" by (simp add: ent_def fun_eq_iff)
  moreover have "reg_inv ?r'"
    by (rule reg_inv_usage[OF inv])
      (use I(8) g l in \<open>auto simp: e same_slots_def inv_lru_def ent_def\<close>)
  ultimately show ?thesis using that[of ?r'] by simp
qed

lemma reserve_shadow_cases:
  assumes inv: "reg_inv r" and g: "gid < total_experts r" "operation (ent r gid) = OP_NONE" "owner (ent r gid) = WARM_HOST"
    and frozen: "warm_frozen r"
  obtains (granted) q r' where "reserve_shadow gid cap stage r = ok q r'" "reg_inv r'" "request_granted gid r q r'"
      "spares gid r r'"
  | (full) e r' where "reserve_shadow gid cap stage r = throw e r'" "reg_inv r'" "ent r' = ent r"
proof (cases "0 \<le> shadow_vram_slot (ent r gid)")
  case True
  note I = reg_invD[OF inv]
  let ?r1 = "shadow_touch gid (r\<lparr>hits_hot := Suc (hits_hot r)\<rparr>)"
  have e: "ent ?r1 = ent r" by (simp add: shadow_touch_def)
  have "gid \<in> set (shadow_lru r)" using I(8) g True by (auto simp: inv_lru_def)
  then have inv1: "reg_inv ?r1"
    by (intro reg_inv_usage[OF inv]) (use I(8) e in \<open>auto simp: same_slots_def shadow_touch_def inv_lru_def distinct_removeAll\<close>)
  have inv': "reg_inv (upd_ent gid lease ?r1)" by (rule reg_inv_upd_usage[OF inv1]) simp
  have "reserve_shadow gid cap stage r = ok \<lparr>rq_kind = HOT_HIT, rq_source_tier = HOT_VRAM,
        rq_global_expert_id = gid, rq_operation_id = 0, rq_vram_slot = shadow_vram_slot (ent r gid),
        rq_source_host_slot = -1, rq_lease_acquired = True, rq_demotion = None\<rparr> (upd_ent gid lease ?r1)"
    using True by (simp add: reserve_shadow_def)
  then show ?thesis
    by (rule granted[OF _ inv'])
      (use True g inv_vmapD(2)[OF I(3) g(1)] inv_sizesD(1)[OF I(1)] in
        \<open>simp_all add: request_granted_def ent_upd_ent shadow_touch_def lease_def spares_def\<close>)
next
  case False
  note I = reg_invD[OF inv]
  note sh = inv_entriesD(1)[OF I(2) g(1)]
  have ns: "shadow_vram_slot (ent r gid) = -1" using False entry_shapeD(10)[OF sh] by linarith
  define op_id where "op_id = next_operation_id r"
  define r0 where "r0 = r\<lparr>next_operation_id := Suc (next_operation_id r)\<rparr>"
  note f0 = fresh_operation[OF inv r0_def]
  have s0: "ent r0 = ent r" "total_experts r0 = total_experts r" "warm_frozen r0 = warm_frozen r" "op_id < next_operation_id r0"
    by (simp_all add: r0_def op_id_def)
  have g0: "gid < total_experts r0" "shadow_vram_slot (ent r0 gid) = -1" using g ns s0 by simp_all
  have unf: "reserve_shadow gid cap stage r = and_then (optional_destination stage gid op_id cap r0) (\<lambda>d r1.
          let src = slot_idx (ent r1 gid);
              r2 = r1\<lparr>hits_warm := Suc (hits_warm r1), shadow_copies := Suc (shadow_copies r1)\<rparr> in
          and_then (remove_warm gid r2) (\<lambda>_ r3.
            checked_validate
              \<lparr>rq_kind = WARM_PROMOTION, rq_source_tier = WARM_HOST, rq_global_expert_id = gid,
               rq_operation_id = op_id, rq_vram_slot = destination_slot d,
               rq_source_host_slot = src, rq_lease_acquired = True, rq_demotion = None\<rparr>
              (upd_ent gid (\<lambda>e. e\<lparr>operation := PROMOTION_PENDING, operation_id := op_id,
                 gpu_transfer := H2D_PENDING, publication := UNPUBLISHED, slot_state := ACTIVE,
                 lease_count := Suc (lease_count e), pending_slot_idx := destination_slot d,
                 warm_shadow := True\<rparr>) r3)))"
    using False by (simp add: reserve_shadow_def Let_def r0_def op_id_def)
  show ?thesis
  proof (cases rule: optional_destination_cases[OF f0(1,2)[folded op_id_def] g0, of stage cap, case_names got no_slot])
    case (got d r1)
    obtain hole where d: "reg_inv_holes hole None r1" "ent r1 gid = ent r gid" "total_experts r1 = total_experts r"
      "warm_frozen r1" "op_id < next_operation_id r1"
      "destination_slot d = -1 \<and> hole = None \<or> (\<exists>s. destination_slot d = int s \<and> hole = Some s \<and> s < vram_capacity r1 \<and> vram_slot_reservations r1 ! s = op_id)"
      "\<And>x. x < total_experts r1 \<Longrightarrow> incoming (ent r1 x) \<Longrightarrow> operation_id (ent r1 x) \<noteq> op_id"
      "destination_slot d \<noteq> -1 \<Longrightarrow> vram_slots r1 ! nat (destination_slot d) = -1" "spared r0 r1"
      using destination_takenD[OF f0(1) got(2) g0(1) _ s0(4)] f0(3) s0 frozen op_id_def by metis
    have l: "in_lru (ent r gid)" "lru_it (ent r gid) = gid"
      using entry_shapeD(1,5)[OF sh] g inv_entriesD(2)[OF I(2) g(1)] by simp_all
    let ?f = "\<lambda>e. e\<lparr>in_lru := False, operation := PROMOTION_PENDING, operation_id := op_id,
                 gpu_transfer := H2D_PENDING, publication := UNPUBLISHED, slot_state := ACTIVE,
                 lease_count := Suc (lease_count e), pending_slot_idx := destination_slot d, warm_shadow := True\<rparr>"
    define r2 where "r2 = r1\<lparr>hits_warm := Suc (hits_warm r1), shadow_copies := Suc (shadow_copies r1)\<rparr>"
    have e2: "ent r2 = ent r1" and inv2: "reg_inv_holes hole None r2" using d(1) by (simp_all add: r2_def)
    let ?r' = "(upd_ent gid ?f r2)
       \<lparr>host_slot_reservations := (if owner (ent r2 gid) = WARM_HOST \<and> \<not> True
          then (host_slot_reservations r2)[nat (slot_idx (ent r2 gid)) := op_id] else host_slot_reservations r2),
        warm_host_lru := (if owner (ent r2 gid) = WARM_HOST then remove1 gid (warm_host_lru r2) else warm_host_lru r2)\<rparr>"
    have inv': "reg_inv ?r'"
      by (rule claim_state[OF inv2 _ _ _ _ _ _ _ _ _ _ _ _ _ _ _ _ _ _ _ _ _ refl, where p = "destination_slot d"])
        (use e2 d g ns inv_entriesD(2)[OF I(2) g(1)] f0 in \<open>simp_all add: r2_def op_id_def op_ready_def\<close>)
    have sz2: "gid < length (catalog r2)" using inv_sizesD(1)[OF reg_invD(1)[OF inv2]] g(1) d(3) by (simp add: r2_def)
    have "reserve_shadow gid cap stage r = checked_validate
              \<lparr>rq_kind = WARM_PROMOTION, rq_source_tier = WARM_HOST, rq_global_expert_id = gid,
               rq_operation_id = op_id, rq_vram_slot = destination_slot d,
               rq_source_host_slot = slot_idx (ent r1 gid), rq_lease_acquired = True, rq_demotion = None\<rparr> ?r'"
      using sz2 l d(2) e2 g
      by (simp add: unf got(1) Let_def r2_def[symmetric] remove_warm_eq)
         (intro arg_cong[where f = "checked_validate _"] ExpertRegistry.equality; simp add: upd_ent_def ent_def)
    note eq = this[unfolded reg_inv_checked[OF inv']]
    have "spared r r1" using d(9) s0 by (simp add: spared_def)
    then have "spares gid r ?r'"
      by (rule spares_spared) (use sz2 e2 d(2) in \<open>simp_all add: ent_upd_ent\<close>)
    moreover have "\<forall>x<total_experts ?r'. gpu_transfer (ent ?r' x) = D2H_PENDING \<longrightarrow> operation_id (ent ?r' x) \<noteq> op_id"
      using shadow_no_victim[OF inv', of gid] g(1) d(3) sz2 by (simp add: ent_upd_ent r2_def)
    ultimately show ?thesis
      by (intro granted[OF eq inv']) (use sz2 e2 d(2,3) g in \<open>simp_all add: request_granted_def ent_upd_ent incoming_def r2_def\<close>)
  next
    case (no_slot e)
    then show ?thesis using full[of e r0] f0(1) s0(1) by (simp add: unf)
  qed
qed

lemma reserve_transfer_cases:
  assumes inv: "reg_inv r" and g: "gid < total_experts r" "operation (ent r gid) = OP_NONE" "owner (ent r gid) \<noteq> HOT_VRAM"
    and thaw: "owner (ent r gid) = WARM_HOST \<Longrightarrow> \<not> warm_frozen r"
  obtains (granted) q r' where "reserve_transfer gid cap stage r = ok q r'" "reg_inv r'" "request_granted gid r q r'"
      "spares gid r r'"
  | (full) e r' where "reserve_transfer gid cap stage r = throw e r'" "reg_inv r'" "ent r' = ent r"
proof -
  note I = reg_invD[OF inv]
  note sh = inv_entriesD(1)[OF I(2) g(1)]
  have ns: "shadow_vram_slot (ent r gid) = -1"
    using no_shadow(1)[OF inv _ g(1)] thaw entry_shapeD(8)[OF sh] by blast
  have gg: "global_expert_id (ent r gid) = gid" using inv_entriesD(2)[OF I(2) g(1)] .
  define op_id where "op_id = next_operation_id r"
  define r0 where "r0 = r\<lparr>next_operation_id := Suc (next_operation_id r)\<rparr>"
  define defer_vram where "defer_vram = (stage \<and> owner (ent r gid) = COLD_NVME)"
  note f0 = fresh_operation[OF inv r0_def]
  have s0: "ent r0 = ent r" "total_experts r0 = total_experts r" "warm_frozen r0 = warm_frozen r" "op_id < next_operation_id r0"
    by (simp_all add: r0_def op_id_def)
  have g0: "gid < total_experts r0" "shadow_vram_slot (ent r0 gid) = -1" using g ns s0 by simp_all
  show ?thesis
  proof (cases rule: optional_destination_cases[OF f0(1,2)[folded op_id_def] g0, of defer_vram cap, case_names got no_slot])
    case (got d r1)
    obtain hole where d: "reg_inv_holes hole None r1" "ent r1 gid = ent r gid" "total_experts r1 = total_experts r"
      "warm_frozen r1 = warm_frozen r" "op_id < next_operation_id r1"
      "destination_slot d = -1 \<and> hole = None \<or> (\<exists>s. destination_slot d = int s \<and> hole = Some s \<and> s < vram_capacity r1 \<and> vram_slot_reservations r1 ! s = op_id)"
      "\<And>x. x < total_experts r1 \<Longrightarrow> incoming (ent r1 x) \<Longrightarrow> operation_id (ent r1 x) \<noteq> op_id" "spared r0 r1"
      using destination_takenD[OF f0(1) got(2) g0(1) _ s0(4)] f0(3) s0 op_id_def by metis
    have l: "in_lru (ent r gid) \<longleftrightarrow> owner (ent r gid) = WARM_HOST" "in_lru (ent r gid) \<Longrightarrow> lru_it (ent r gid) = gid" "\<not> warm_shadow (ent r gid)"
      using entry_shapeD(1,5)[OF sh] g gg by (cases "owner (ent r gid)", simp_all)+
    define f :: "ExpertCatalogEntry \<Rightarrow> ExpertCatalogEntry" where "f = (\<lambda>e. (if owner e = WARM_HOST
                   then e\<lparr>in_lru := False, operation := PROMOTION_PENDING\<rparr> else e\<lparr>operation := IO_PENDING\<rparr>)
                \<lparr>operation_id := op_id, gpu_transfer := H2D_PENDING, publication := UNPUBLISHED, slot_state := ACTIVE,
                 lease_count := Suc (lease_count e), pending_slot_idx := destination_slot d\<rparr>)"
    define r2 where "r2 = (if owner (ent r gid) = WARM_HOST then r1\<lparr>hits_warm := Suc (hits_warm r1)\<rparr>
       else r1\<lparr>misses_cold := Suc (misses_cold r1)\<rparr>)"
    have e2: "ent r2 = ent r1" and inv2: "reg_inv_holes hole None r2" using d(1) by (simp_all add: r2_def)
    have sz2: "gid < length (catalog r2)" using inv_sizesD(1)[OF reg_invD(1)[OF inv2]] g(1) d(3) by (simp add: r2_def)
    define r' where "r' = (upd_ent gid f r2)
       \<lparr>host_slot_reservations := (if owner (ent r2 gid) = WARM_HOST \<and> \<not> False
          then (host_slot_reservations r2)[nat (slot_idx (ent r2 gid)) := op_id] else host_slot_reservations r2),
        warm_host_lru := (if owner (ent r2 gid) = WARM_HOST then remove1 gid (warm_host_lru r2) else warm_host_lru r2)\<rparr>"
    have inv': "reg_inv r'"
      by (rule claim_state[OF inv2 _ _ _ _ _ _ _ _ _ _ _ _ _ _ _ _ _ _ _ _ _ r'_def, where p = "destination_slot d"])
        (use e2 d g ns gg l f0 in \<open>simp_all add: r2_def f_def op_id_def op_ready_def split: if_splits\<close>)
    define q where "q = \<lparr>rq_kind = (if defer_vram then COLD_STAGED
                          else if owner (ent r gid) = WARM_HOST then WARM_PROMOTION else COLD_MISS),
               rq_source_tier = owner (ent r gid), rq_global_expert_id = gid,
               rq_operation_id = op_id, rq_vram_slot = destination_slot d,
               rq_source_host_slot = slot_idx (ent r gid), rq_lease_acquired = True,
               rq_demotion = (case d of None \<Rightarrow> None | Some (_, dem) \<Rightarrow> dem)\<rparr>"
    have tier: "owner (ent r gid) = WARM_HOST \<or> owner (ent r gid) = COLD_NVME \<and> slot_idx (ent r gid) = -1"
      using g(3) entry_shapeD(6)[OF sh] by (cases "owner (ent r gid)") simp_all
    have "reserve_transfer gid cap stage r = checked_validate q r'"
      using tier
    proof (elim disjE conjE)
      assume o: "owner (ent r gid) = WARM_HOST"
      then have "optional_destination False gid (next_operation_id r) cap (r\<lparr>next_operation_id := Suc (next_operation_id r)\<rparr>) = ok d r1"
        using got(1) by (simp add: defer_vram_def op_id_def r0_def)
      then show ?thesis
        using sz2 l d(2) e2 o
        by (simp add: reserve_transfer_def Let_def op_id_def defer_vram_def r2_def remove_warm_eq q_def)
          (intro conjI impI arg_cong[where f = "checked_validate _"] ExpertRegistry.equality;
            simp add: r'_def f_def upd_ent_def ent_def r2_def op_id_def)
    next
      assume o: "owner (ent r gid) = COLD_NVME" "slot_idx (ent r gid) = -1"
      then have "optional_destination stage gid (next_operation_id r) cap (r\<lparr>next_operation_id := Suc (next_operation_id r)\<rparr>) = ok d r1"
        using got(1) by (simp add: defer_vram_def op_id_def r0_def)
      then show ?thesis
        using sz2 l d(2) e2 o
        by (simp add: reserve_transfer_def Let_def op_id_def defer_vram_def r2_def q_def)
          (intro conjI impI arg_cong[where f = "checked_validate _"] ExpertRegistry.equality;
            simp add: r'_def f_def upd_ent_def ent_def r2_def op_id_def)
    qed
    note eq = this[unfolded reg_inv_checked[OF inv']]
    have e': "ent r' gid = f (ent r gid)" "\<And>x. x \<noteq> gid \<Longrightarrow> ent r' x = ent r1 x"
      using sz2 e2 d(2) by (simp_all add: r'_def ent_upd_ent)
    have dem: "gpu_transfer (ent r1 (dr_victim_gid x)) = D2H_PENDING \<and> operation_id (ent r1 (dr_victim_gid x)) = op_id \<and>
        dr_operation_id x = op_id \<and> int (dr_source_vram_slot x) = destination_slot d \<and> dr_victim_gid x \<noteq> gid \<and> dr_victim_gid x < total_experts r'" if "d = Some (s, Some x)" for s x
      using got(2) that d(2) entry_shapeD(1)[OF sh g(2)] by (auto simp: destination_taken_def demotion_of_def destination_slot_def r'_def r2_def)
    have nodem: "operation_id (ent r' x) \<noteq> op_id"
      if "d = None \<or> (\<exists>s. d = Some (s, None))" "x < total_experts r'" "gpu_transfer (ent r' x) = D2H_PENDING" for x
    proof -
      have x: "x \<noteq> gid" using that(3) e'(1) by (auto simp: f_def)
      moreover have "x < total_experts r1" using that(2) by (simp add: r'_def r2_def split: if_splits)
      ultimately show ?thesis
        using that got(2) e'(2)[OF x] f0(3)[of x] d(3) by (auto simp: destination_taken_def demotion_of_def op_id_def)
    qed
    have "gid < total_experts r'" using g(1) d(3) by (simp add: r'_def r2_def)
    then have "request_granted gid r q r'"
      using e' got(3) tier dem nodem defer_vram_def
      by (auto simp: request_granted_def q_def f_def incoming_def destination_slot_def split: option.splits)
    moreover have "spares gid r r'"
      by (rule spares_spared[of _ r1]) (use d(8) s0 e' in \<open>simp_all add: spared_def f_def\<close>)
    ultimately show ?thesis by (rule granted[OF eq inv'])
  next
    case (no_slot e)
    then show ?thesis using full[of e r0] f0(1) s0(1)
      by (simp add: reserve_transfer_def Let_def defer_vram_def op_id_def r0_def)
  qed
qed

lemma reserve_request_by_gid_cases:
  assumes inv: "reg_inv r" and g: "gid < total_experts r"
  obtains (granted) q r' where "reserve_request_by_gid gid step cap stage r = ok q r'" "reg_inv r'" "request_granted gid r q r'"
      "spares gid r r'"
  | (refused) e r' where "reserve_request_by_gid gid step cap stage r = throw e r'" "reg_inv r'" "spares gid r r'"
      "operation (ent r gid) = OP_NONE" "owner (ent r gid) \<noteq> HOT_VRAM"
proof -
  define r0 where "r0 = upd_ent gid (record_activation step) r"
  have inv0: "reg_inv r0" unfolding r0_def by (rule reg_inv_upd_usage[OF inv]) simp
  note I = reg_invD[OF inv0]
  have len: "gid < length (catalog r)" using inv_sizesD(1)[OF reg_invD(1)[OF inv]] g by simp
  have e0: "ent r0 gid = record_activation step (ent r gid)" using len by (simp add: r0_def ent_upd_ent)
  have g0: "gid < total_experts r0" "gid < length (catalog r0)" using g len by (simp_all add: r0_def)
  have lc: "request_granted gid r0 q r' \<longleftrightarrow> request_granted gid r q r'" for q r'
    using e0 by (simp add: request_granted_def record_activation_def)
  have lc0: "lease_count (ent r0 gid) = lease_count (ent r gid)" using e0 by (simp add: record_activation_def)
  have ow: "owner (ent r0 gid) = owner (ent r gid)" "operation (ent r0 gid) = operation (ent r gid)"
    using e0 by (simp_all add: record_activation_def)
  have e1: "ent r0 h = ent r h" if "h \<noteq> gid" for h using len that by (simp add: r0_def ent_upd_ent)
  have sp: "spares gid r0 r' \<longleftrightarrow> spares gid r r'" for r'
  proof -
    have o: "owner (ent r0 h) = owner (ent r h)" for h using e1 ow by (cases "h = gid") simp_all
    have T: "total_experts r0 = total_experts r" "warm_frozen r0 = warm_frozen r" by (simp_all add: r0_def)
    show ?thesis unfolding spares_def T o by (simp add: e1 cong: imp_cong)
  qed
  have sp0: "spares gid r r'" if "ent r' = ent r0" for r'
    by (rule spares_same) (use that e1 ow in simp_all)
  note sh = inv_entriesD(1)[OF I(2) g0(1)]
  have len': "\<not> length (catalog r) \<le> gid" using len by simp
  note unf = reserve_request_by_gid_def[of gid step cap stage r, unfolded Let_def, folded r0_def, simplified len' if_False]
  consider (pending) "operation (ent r0 gid) \<noteq> OP_NONE"
    | (hot) "operation (ent r0 gid) = OP_NONE" "owner (ent r0 gid) = HOT_VRAM"
    | (shadow) "operation (ent r0 gid) = OP_NONE" "owner (ent r0 gid) = WARM_HOST" "warm_frozen r0"
    | (transfer) "operation (ent r0 gid) = OP_NONE" "owner (ent r0 gid) \<noteq> HOT_VRAM" "owner (ent r0 gid) = WARM_HOST \<Longrightarrow> \<not> warm_frozen r0"
    by blast
  then show ?thesis
  proof cases
    case pending
    have nz: "operation_id (ent r0 gid) \<noteq> 0" using shape_op_id[OF sh pending] .
    have inv': "reg_inv (upd_ent gid lease r0)" by (rule reg_inv_upd_usage[OF inv0]) simp
    have eq: "reserve_request_by_gid gid step cap stage r = ok \<lparr>rq_kind = PENDING, rq_source_tier = owner (ent r0 gid),
                rq_global_expert_id = gid,
                rq_operation_id = operation_id (ent r0 gid), rq_vram_slot = pending_slot_idx (ent r0 gid),
                rq_source_host_slot = (if owner (ent r0 gid) = WARM_HOST then slot_idx (ent r0 gid) else -1),
                rq_lease_acquired = True, rq_demotion = None\<rparr> (upd_ent gid lease r0)"
      using pending nz by (simp add: unf)
    show ?thesis
      by (rule granted[OF eq inv']) (use pending g0 in
          \<open>simp_all add: lc0 request_granted_def spares_def ent_upd_ent lease_def e1 ow\<close>)
  next
    case hot
    obtain r1 where r1: "touch_hot gid (r0\<lparr>hits_hot := Suc (hits_hot r0)\<rparr>) = ok () r1" "reg_inv r1" "ent r1 = ent r0"
       "vram_slots r1 = vram_slots r0" "vram_capacity r1 = vram_capacity r0" "length (catalog r1) = length (catalog r0)"
      using touch_hot_ok[of "r0\<lparr>hits_hot := Suc (hits_hot r0)\<rparr>" gid] inv0 hot g0 by auto
    have inv': "reg_inv (upd_ent gid lease r1)" by (rule reg_inv_upd_usage[OF r1(2)]) simp
    have eq: "reserve_request_by_gid gid step cap stage r = ok \<lparr>rq_kind = HOT_HIT, rq_source_tier = HOT_VRAM, rq_global_expert_id = gid,
                rq_operation_id = 0, rq_vram_slot = slot_idx (ent r1 gid),
                rq_source_host_slot = -1, rq_lease_acquired = True, rq_demotion = None\<rparr> (upd_ent gid lease r1)"
      using hot r1 entry_shapeD(1)[OF sh hot(1)] by (simp add: unf)
    show ?thesis
      by (rule granted[OF eq inv'])
        (use hot g0 r1 inv_vmapD(1)[OF I(3) g0(1) hot(2)] shape_slot[OF sh] in
          \<open>simp_all add: lc0 request_granted_def spares_def ent_upd_ent lease_def e1 ow\<close>)
  next
    case shadow
    have eq: "reserve_request_by_gid gid step cap stage r = reserve_shadow gid cap stage r0"
      using shadow entry_shapeD(1)[OF sh shadow(1)] by (simp add: unf)
    show ?thesis
      by (cases rule: reserve_shadow_cases[OF inv0 g0(1) shadow, of cap stage])
        (use eq lc sp shadow ow in \<open>auto intro: granted refused sp0\<close>)
  next
    case transfer
    have eq: "reserve_request_by_gid gid step cap stage r = reserve_transfer gid cap stage r0"
      using transfer entry_shapeD(1)[OF sh transfer(1)] by (auto simp add: unf)
    show ?thesis
      by (cases rule: reserve_transfer_cases[OF inv0 g0(1) transfer(1,2), of cap stage])
        (use eq lc sp transfer ow in \<open>auto intro: granted refused sp0\<close>)
  qed
qed

lemma reserve_request_by_gid_inv: "reg_inv r \<Longrightarrow> reg_inv (snd (reserve_request_by_gid gid step cap stage r))"
proof -
  assume inv: "reg_inv r"
  show ?thesis
  proof (cases "gid < total_experts r")
    case True
    show ?thesis by (rule reserve_request_by_gid_cases[OF inv True, of step cap stage]) simp_all
  next
    case False
    then show ?thesis using inv inv_sizesD(1)[OF reg_invD(1)[OF inv]] by (simp add: reserve_request_by_gid_def)
  qed
qed

lemma reserve_request_inv: "reg_inv r \<Longrightarrow> reg_inv (snd (reserve_request l e step cap stage r))"
  by (simp add: reserve_request_def reserve_request_by_gid_inv split: sum.splits)

subsection \<open>Attaching a destination to a staged read\<close>

lemma attach_state:
  assumes inv: "reg_inv_holes (Some s) None r" and g: "g < total_experts r" "incoming (ent r g)" "pending_slot_idx (ent r g) = -1"
    and s: "s < vram_capacity r" "vram_slot_reservations r ! s = operation_id (ent r g)"
      "warm_shadow (ent r g) \<Longrightarrow> vram_slots r ! s = -1"
    and r': "r' = upd_ent g (\<lambda>e. e\<lparr>pending_slot_idx := int s\<rparr>) r"
  shows "reg_inv r'"
proof -
  note I = reg_invD[OF inv]
  note sz = inv_sizesD[OF I(1)]
  note sh = inv_entriesD(1)[OF I(2) g(1)] and gid = inv_entriesD(2,3)[OF I(2) g(1)]
  have op: "operation (ent r g) = IO_PENDING \<or> operation (ent r g) = PROMOTION_PENDING" using g by (simp add: incoming_def)
  note st = r' ent_upd_ent g sz(1)
  show ?thesis
  proof (rule reg_inv_holesI)
    show "inv_sizes r'" using I(1) by (simp add: inv_sizes_def st)
    show "inv_entries r'"
      by (rule inv_entries_one[OF I(2), of _ g]) (use sh op gid in \<open>auto simp: st entry_shape_def\<close>)
    show "inv_vmap r'" by (rule vmap_frame[OF I(3)]) (simp_all add: st)
    show "inv_hmap r'" by (rule hmap_frame[OF I(4)]) (simp_all add: st)
    show "inv_vres None r'"
      by (rule vres_claim[OF I(5) s(1,2) g(1)]) (use op g s in \<open>auto simp: st incoming_def\<close>)
    show "inv_hres None r'" by (rule hres_frame[OF I(6)]) (simp_all add: st hres_view_def)
    show "inv_ops r'" using I(7) by (auto simp: inv_ops_def st incoming_def)
    show "inv_lru r'" using I(8) by (auto simp: inv_lru_def st)
    show "inv_free r'" using I(9) by (simp add: inv_free_def st)
    show "inv_count r'" by (rule count_frame[OF I(10)]) (simp_all add: st)
    show "inv_mode r'" using I(11) by (auto simp: inv_mode_def st)
  qed
qed

lemma attach_vram_destination_cases:
  assumes inv: "reg_inv r" and fi: "find_incoming_operation op_id r = Some g"
  obtains (attached) s r' where "attach_vram_destination op_id cap r = ok (int s) r'" "reg_inv r'"
      "pending_slot_idx (ent r' g) = int s" "incoming (ent r' g)" "operation_id (ent r' g) = op_id"
  | (full) e where "attach_vram_destination op_id cap r = throw e r" "pending_slot_idx (ent r g) = -1"
proof -
  note I = reg_invD[OF inv]
  note fg = find_incoming_Some[OF inv fi]
  note sh = inv_entriesD(1)[OF I(2) fg(1)] and gid = inv_entriesD(2,3)[OF I(2) fg(1)]
  note gv = incoming_facts[OF inv fg(1,2)]
  show ?thesis
  proof (cases "0 \<le> pending_slot_idx (ent r g)")
    case True
    then show ?thesis using attached[of "nat (pending_slot_idx (ent r g))" r] inv fg
      by (simp add: attach_vram_destination_def fi)
  next
    case False
    then have p: "pending_slot_idx (ent r g) = -1" using entry_shapeD(9)[OF sh] by linarith
    have "operation_id (ent r v) \<noteq> op_id" if v: "v < total_experts r" "operation (ent r v) = DEMOTION_PENDING" for v
    proof
      assume "operation_id (ent r v) = op_id"
      then have "slot_idx (ent r v) = -1" using victim_slot[OF inv fg(1,2) v] fg(3) p by simp
      moreover have "owner (ent r v) = HOT_VRAM" using entry_shapeD(4)[OF inv_entriesD(1)[OF I(2) v(1)] v(2)] by simp
      ultimately show False using entry_shapeD(6)[OF inv_entriesD(1)[OF I(2) v(1)]] by simp
    qed
    then have ready: "op_ready op_id r" using gv(4) gid(2) fg(3) by (simp add: op_ready_def)
    show ?thesis
    proof (cases rule: reserve_vram_destination_cases[OF inv ready fg(1) gv(5), of cap, case_names taken no_slot])
      case (taken s d r1)
      have t: "reg_inv_holes (Some s) None r1" "s < vram_capacity r1" "vram_slot_reservations r1 ! s = op_id"
          "total_experts r1 = total_experts r" "ent r1 g = ent r g" "warm_frozen r \<Longrightarrow> vram_slots r1 ! s = -1"
        using taken(2) by (simp_all add: vram_taken_def)
      have shadow: "warm_shadow (ent r g) \<Longrightarrow> warm_frozen r" using I(11) fg(1) by (auto simp: inv_mode_def)
      have inv': "reg_inv (upd_ent g (\<lambda>e. e\<lparr>pending_slot_idx := int s\<rparr>) r1)"
        by (rule attach_state[of s r1 g, OF _ _ _ _ _ _ _ refl]) (use t fg p shadow in simp_all)
      have len: "g < length (catalog r1)" using t fg(1) inv_sizesD(1)[OF reg_invD(1), of "Some s" None r1] by simp
      have e1: "ent r1 g = ent r g" using t by simp
      show ?thesis
        by (rule attached[OF _ inv'])
          (use taken(1) False gid(1) len e1 fg(2,3) in \<open>simp_all add: attach_vram_destination_def fi ent_upd_ent incoming_def\<close>)
    next
      case (no_slot e)
      show ?thesis by (rule full[of e]) (use no_slot False gid p in \<open>simp_all add: attach_vram_destination_def fi\<close>)
    qed
  qed
qed

lemma attach_vram_destination_inv:
  assumes inv: "reg_inv r"
  shows "reg_inv (snd (attach_vram_destination op_id cap r))"
proof (cases "find_incoming_operation op_id r")
  case (Some g)
  show ?thesis by (rule attach_vram_destination_cases[OF inv Some, of cap]) (use inv in simp_all)
qed (simp add: attach_vram_destination_def inv)
end
