(* ===== verification/Registry_Modes.thy ===== *)
theory Registry_Modes
  imports Registry_Requests
begin

text \<open>
  The phase operations keep the invariant: prefill streaming, freezing the Warm tier, resizing it,
  dropping an unsubmitted demotion, and the construction of a registry.
\<close>

subsection \<open>Residencies given back\<close>

lemma hot_release_state:
  assumes inv: "reg_inv r" and v: "v < total_experts r" "owner (ent r v) = HOT_VRAM" "operation (ent r v) = OP_NONE"
    and s: "s = nat (slot_idx (ent r v))"
    and L: "distinct L" "set L = set (hot_vram_lru r) - {v}"
    and f: "f (ent r v) = (ent r v)\<lparr>in_lru := False, resident_at_prefill_begin := False, owner := COLD_NVME,
              slot_idx := -1, slot_state := UNALLOCATED\<rparr>"
    and r': "r' = (upd_ent v f r)\<lparr>hot_vram_lru := L, vram_slots := (vram_slots r)[s := -1],
              free_vram_slots := free_vram_slots r @ [s]\<rparr>"
  shows "reg_inv r'"
proof -
  note I = reg_invD[OF inv]
  note sz = inv_sizesD[OF I(1)] and side = slot_side_conditions[OF I(2,3)]
  note sh = inv_entriesD(1)[OF I(2) v(1)] and gid = inv_entriesD(2,3)[OF I(2) v(1)]
  note vf = entry_shapeD(1)[OF sh v(3)] entry_shapeD(5-)[OF sh]
  have src: "slot_idx (ent r v) = int s" using shape_slot[OF sh] v s by simp
  have vm: "s < vram_capacity r" "vram_slots r ! s = int v"
    using inv_vmapD(1)[OF I(3) v(1,2)] src by auto
  have free: "vram_slot_reservations r ! s = 0"
    using inv_vresD(4)[OF I(5) vm(1)] vm v(3) by fastforce
  note st = r' ent_upd_ent v sz(1) f
  show ?thesis
  proof (rule reg_inv_holesI)
    show "inv_sizes r'" using I(1) by (simp add: inv_sizes_def st)
    show "inv_entries r'"
      by (rule inv_entries_one[OF I(2), of _ v]) (use vf v gid in \<open>auto simp: st entry_shape_def\<close>)
    show "inv_vmap r'" by (rule vmap_release[OF I(3) vm sz(2)]) (use vf v in \<open>simp_all add: st\<close>)
    show "inv_hmap r'" by (rule hmap_frame[OF I(4)]) (simp_all add: st)
    show "inv_vres None r'"
      by (rule vres_frame[OF I(5)]) (use side sz v vf vm in \<open>auto simp: st vres_view_def incoming_def nth_list_update\<close>)
    show "inv_hres None r'" by (rule hres_frame[OF I(6)]) (use vf v in \<open>simp_all add: st hres_view_def\<close>)
    show "inv_ops r'" using I(7) by (auto simp: inv_ops_def st incoming_def)
    show "inv_lru r'" using I(8) v L by (auto simp: inv_lru_def st)
    show "inv_free r'" using I(9) sz vm free by (auto simp: inv_free_def st nth_list_update)
    show "inv_count r'" by (rule count_frame[OF I(10)]) (use vf in \<open>simp_all add: st\<close>)
    show "inv_mode r'" using I(11) vf v by (auto simp: inv_mode_def st)
  qed
qed

lemma shadow_release_state:
  assumes inv: "reg_inv r" and c: "c < total_experts r" "shadow_vram_slot (ent r c) \<noteq> -1"
    and s: "s = nat (shadow_vram_slot (ent r c))"
    and L: "distinct L" "set L = set (shadow_lru r) - {c}"
    and r': "r' = (upd_ent c (\<lambda>e. e\<lparr>shadow_vram_slot := -1\<rparr>) r)
             \<lparr>shadow_lru := L, shadow_slot_of_expert := (shadow_slot_of_expert r)[c := -1],
              vram_slots := (vram_slots r)[s := -1], free_vram_slots := free_vram_slots r @ [s]\<rparr>"
  shows "reg_inv r'"
proof -
  note I = reg_invD[OF inv]
  note sz = inv_sizesD[OF I(1)] and side = slot_side_conditions[OF I(2,3)]
  note sh = inv_entriesD(1)[OF I(2) c(1)] and gid = inv_entriesD(2,3)[OF I(2) c(1)]
  note cs = shape_shadow[OF sh c(2)]
  note cf = entry_shapeD(1)[OF sh] entry_shapeD(5-)[OF sh]
  have vm: "s < vram_capacity r" "vram_slots r ! s = int c"
    using inv_vmapD(2)[OF I(3) c] s by auto
  have free: "vram_slot_reservations r ! s = 0"
    using inv_vresD(4)[OF I(5) vm(1)] vm cs by fastforce
  have frozen: "warm_frozen r" using I(8,11) c by (auto simp: inv_lru_def inv_mode_def)
  note st = r' ent_upd_ent c sz(1)
  show ?thesis
  proof (rule reg_inv_holesI)
    show "inv_sizes r'" using I(1) by (simp add: inv_sizes_def st)
    show "inv_entries r'"
      by (rule inv_entries_one[OF I(2), of _ c]) (use cs cf gid in \<open>auto simp: st entry_shape_def\<close>)
    show "inv_vmap r'" by (rule vmap_release[OF I(3) vm sz(2)]) (use cs in \<open>simp_all add: st\<close>)
    show "inv_hmap r'" by (rule hmap_frame[OF I(4)]) (simp_all add: st)
    show "inv_vres None r'"
      by (rule vres_frame[OF I(5)]) (use side sz vm in \<open>auto simp: st vres_view_def incoming_def nth_list_update\<close>)
    show "inv_hres None r'" by (rule hres_frame[OF I(6)]) (simp_all add: st hres_view_def)
    show "inv_ops r'" using I(7) by (auto simp: inv_ops_def st incoming_def)
    show "inv_lru r'" using I(8) c sz L by (auto simp: inv_lru_def st nth_list_update)
    show "inv_free r'" using I(9) sz vm free by (auto simp: inv_free_def st nth_list_update)
    show "inv_count r'" by (rule count_frame[OF I(10)]) (simp_all add: st)
    show "inv_mode r'" using I(11) frozen by (auto simp: inv_mode_def st)
  qed
qed

subsection \<open>Prefill streaming\<close>

lemma drain_one_inv:
  assumes inv: "reg_inv r" and ne: "hot_vram_lru r \<noteq> []"
  shows "reg_inv (drain_one r)" "hot_vram_lru (drain_one r) = butlast (hot_vram_lru r)"
proof -
  note I = reg_invD[OF inv]
  let ?v = "last (hot_vram_lru r)"
  have v: "?v < total_experts r" "in_lru (ent r ?v)" "owner (ent r ?v) = HOT_VRAM"
    using last_in_set[OF ne] I(8) by (auto simp: inv_lru_def)
  note sh = inv_entriesD(1)[OF I(2) v(1)]
  have idle: "operation (ent r ?v) = OP_NONE" using shape_in_lru[OF sh v(2)] by simp
  have len: "?v < length (catalog r)" using inv_sizesD(1)[OF I(1)] v by simp
  have d: "distinct (hot_vram_lru r)" using I(8) by (simp add: inv_lru_def)
  let ?f = "\<lambda>e. e\<lparr>in_lru := False, resident_at_prefill_begin := False, owner := COLD_NVME,
              slot_idx := -1, slot_state := UNALLOCATED\<rparr>"
  let ?r' = "(upd_ent ?v ?f r)\<lparr>hot_vram_lru := butlast (hot_vram_lru r),
     vram_slots := (vram_slots r)[nat (slot_idx (ent r ?v)) := -1],
     free_vram_slots := free_vram_slots r @ [nat (slot_idx (ent r ?v))]\<rparr>"
  have inv': "reg_inv ?r'"
    by (rule hot_release_state[OF inv v(1,3) idle refl _ _ _ refl])
      (use d set_butlast_distinct[OF d ne] in \<open>simp_all add: distinct_butlast\<close>)
  have eq: "drain_one r = ?r'"
    using shape_slot[OF sh] v len
    by (intro ExpertRegistry.equality) (simp_all add: drain_one_def Let_def ent_def upd_ent_def)
  show "reg_inv (drain_one r)" "hot_vram_lru (drain_one r) = butlast (hot_vram_lru r)"
    using inv' by (simp_all add: eq)
qed

lemma drain_inv: "reg_inv r \<Longrightarrow> n \<le> length (hot_vram_lru r) \<Longrightarrow>
    reg_inv ((drain_one ^^ n) r) \<and> length (hot_vram_lru ((drain_one ^^ n) r)) = length (hot_vram_lru r) - n"
proof (induction n)
  case (Suc n)
  have "hot_vram_lru ((drain_one ^^ n) r) \<noteq> []" using Suc by auto
  then show ?case using Suc drain_one_inv[of "(drain_one ^^ n) r"] by simp
qed simp

lemma drain_one_flags:
  "drain_one (r\<lparr>prefill_stream := a, prefill_alloc := b, warm_frozen := c\<rparr>) =
     (drain_one r)\<lparr>prefill_stream := a, prefill_alloc := b, warm_frozen := c\<rparr>"
  by (simp add: drain_one_def Let_def ent_def upd_ent_def)

lemma drain_flags:
  "(drain_one ^^ n) (r\<lparr>prefill_stream := a, prefill_alloc := b, warm_frozen := c\<rparr>) =
     ((drain_one ^^ n) r)\<lparr>prefill_stream := a, prefill_alloc := b, warm_frozen := c\<rparr>"
  by (induction n) (simp_all add: drain_one_flags)

lemma mark_residents_inv:
  assumes inv: "reg_inv r" and idle: "\<And>g. g < total_experts r \<Longrightarrow> operation (ent r g) = OP_NONE"
    and ns: "shadow_lru r = []"
  shows "reg_inv ((mark_residents r)\<lparr>prefill_stream := True, prefill_alloc := alloc, warm_frozen := True\<rparr>)"
proof -
  define r' where "r' = (mark_residents r)\<lparr>prefill_stream := True, prefill_alloc := alloc, warm_frozen := True\<rparr>"
  note I = reg_invD[OF inv]
  note sz = inv_sizesD[OF I(1)]
  have noshadow: "shadow_vram_slot (ent r g) = -1" if "g < total_experts r" for g
    using I(8) ns that by (auto simp: inv_lru_def)
  have e: "ent r' g = (ent r g)\<lparr>resident_at_prefill_begin := (owner (ent r g) = HOT_VRAM)\<rparr>" if "g < total_experts r" for g
  proof -
    have "pending_slot_idx (ent r g) = -1" "\<not> warm_shadow (ent r g)" "shadow_vram_slot (ent r g) = -1"
      using entry_shapeD(1)[OF inv_entriesD(1)[OF I(2) that] idle[OF that]] noshadow[OF that] by simp_all
    then show ?thesis using that sz(1)
      by (intro ExpertCatalogEntry.equality) (simp_all add: r'_def mark_residents_def ent_def)
  qed
  have ni: "\<not> incoming (ent r g)" if "g < total_experts r" for g using idle[OF that] by (simp add: incoming_def)
  have vr: "map (\<lambda>_. 0) (vram_slot_reservations r) = vram_slot_reservations r"
  proof (rule nth_equalityI)
    fix s assume "s < length (map (\<lambda>_. 0::nat) (vram_slot_reservations r))"
    then show "map (\<lambda>_. 0) (vram_slot_reservations r) ! s = vram_slot_reservations r ! s"
      using inv_vresD(3)[OF I(5), of s] ni sz by auto
  qed simp
  have T: "total_experts r' = total_experts r" "vram_capacity r' = vram_capacity r" "vram_slots r' = vram_slots r"
    "vram_slot_reservations r' = vram_slot_reservations r" "host_capacity r' = host_capacity r"
    "host_capacity_usable r' = host_capacity_usable r" "host_slots r' = host_slots r"
    "host_slot_reservations r' = host_slot_reservations r" "free_vram_slots r' = free_vram_slots r"
    "free_host_slots r' = free_host_slots r" "hot_vram_lru r' = hot_vram_lru r" "warm_host_lru r' = warm_host_lru r"
    "pending_demotion_count r' = pending_demotion_count r" "next_operation_id r' = next_operation_id r"
    using vr by (simp_all add: r'_def mark_residents_def)
  have "reg_inv r'"
  proof (rule reg_inv_holesI)
    show "inv_sizes r'" using I(1) by (simp add: inv_sizes_def r'_def mark_residents_def)
    show "inv_entries r'"
      using inv_entriesD[OF I(2)] idle unfolding inv_entries_def T by (simp add: e entry_shape_def)
    show "inv_vmap r'" by (rule vmap_frame[OF I(3)]) (simp_all add: T e)
    show "inv_hmap r'" by (rule hmap_frame[OF I(4)]) (simp_all add: T e)
    show "inv_vres None r'"
      by (rule vres_frame[OF I(5)]) (use slot_side_conditions[OF I(2,3)] in \<open>simp_all add: T e vres_view_def incoming_def\<close>)
    show "inv_hres None r'" by (rule hres_frame[OF I(6)]) (simp_all add: T e hres_view_def)
    show "inv_ops r'" using I(7) unfolding inv_ops_def T by (simp add: e incoming_def)
    show "inv_lru r'" using I(8) noshadow unfolding inv_lru_def T by (auto simp: e) (auto simp: r'_def mark_residents_def ns)
    show "inv_free r'" using I(9) unfolding inv_free_def T by simp
    show "inv_count r'" by (rule count_frame[OF I(10)]) (simp_all add: T e)
    show "inv_mode r'" by (simp add: inv_mode_def r'_def)
  qed
  then show ?thesis by (simp add: r'_def)
qed

lemma begin_prefill_stream_inv:
  assumes inv: "reg_inv r" and ns: "shadow_lru r = []"
  shows "reg_inv (snd (begin_prefill_stream n alloc r))"
proof (cases "prefill_stream r")
  case False
  show ?thesis
    unfolding begin_prefill_stream_def if_not_P[OF False]
  proof (rule after_check_inv[where P = reg_inv, OF inv], goal_cases)
    case 1
    then have idle: "\<And>g. g < total_experts r \<Longrightarrow> operation (ent r g) = OP_NONE"
      using inv_sizesD(1)[OF reg_invD(1)[OF inv]] by (simp add: all_catalog)
    let ?m = "mark_residents r"
    let ?k = "min n (length (hot_vram_lru ?m))"
    have "reg_inv (((drain_one ^^ ?k) ?m)\<lparr>prefill_stream := True, prefill_alloc := alloc, warm_frozen := True\<rparr>)"
      using drain_inv[OF mark_residents_inv[OF inv idle ns, where alloc = alloc], of ?k] by (simp add: drain_flags)
    then show ?case by (simp add: Let_def)
  qed
qed (simp add: begin_prefill_stream_def inv)

lemma end_prefill_stream_inv:
  assumes inv: "reg_inv r"
  shows "reg_inv (snd (end_prefill_stream r))"
proof (cases "prefill_stream r")
  case True
  note I = reg_invD[OF inv]
  note sz = inv_sizesD[OF I(1)]
  define r' where "r' = r\<lparr>prefill_stream := False, warm_frozen := False,
               catalog := map (\<lambda>e. e\<lparr>resident_at_prefill_begin := False\<rparr>) (catalog r)\<rparr>"
  have eq: "ent r' g = (ent r g)\<lparr>resident_at_prefill_begin := False\<rparr>" if "g < total_experts r" for g
    using that sz(1) by (simp add: r'_def ent_def)
  have key: "reg_inv r'" if c: "\<And>g. g < total_experts r \<Longrightarrow> shadow_vram_slot (ent r g) < 0 \<and> operation (ent r g) = OP_NONE"
  proof -
    have noshadow: "shadow_vram_slot (ent r g) = -1" "\<not> warm_shadow (ent r g)" if "g < total_experts r" for g
      using c[OF that] entry_shapeD(1,10)[OF inv_entriesD(1)[OF I(2) that]] by auto
    have nl: "shadow_lru r = []"
    proof (rule ccontr)
      assume "shadow_lru r \<noteq> []"
      then have "hd (shadow_lru r) \<in> set (shadow_lru r)" by simp
      then show False using I(8) noshadow(1) by (auto simp: inv_lru_def)
    qed
    have T: "total_experts r' = total_experts r" "vram_capacity r' = vram_capacity r" "vram_slots r' = vram_slots r"
      "vram_slot_reservations r' = vram_slot_reservations r" "host_capacity r' = host_capacity r"
      "host_capacity_usable r' = host_capacity_usable r" "host_slots r' = host_slots r"
      "host_slot_reservations r' = host_slot_reservations r" "free_vram_slots r' = free_vram_slots r"
      "free_host_slots r' = free_host_slots r" "hot_vram_lru r' = hot_vram_lru r" "warm_host_lru r' = warm_host_lru r"
      "pending_demotion_count r' = pending_demotion_count r" "next_operation_id r' = next_operation_id r"
      "shadow_lru r' = shadow_lru r" "shadow_slot_of_expert r' = shadow_slot_of_expert r"
      by (simp_all add: r'_def)
    show "reg_inv r'"
    proof (rule reg_inv_holesI)
      show "inv_sizes r'" using I(1) by (simp add: inv_sizes_def r'_def)
      show "inv_entries r'"
        using inv_entriesD[OF I(2)] c unfolding inv_entries_def T by (simp add: eq entry_shape_def)
      show "inv_vmap r'" by (rule vmap_frame[OF I(3)]) (simp_all add: T eq)
      show "inv_hmap r'" by (rule hmap_frame[OF I(4)]) (simp_all add: T eq)
      show "inv_vres None r'"
        by (rule vres_frame[OF I(5)]) (use slot_side_conditions[OF I(2,3)] in \<open>simp_all add: T eq vres_view_def incoming_def\<close>)
      show "inv_hres None r'" by (rule hres_frame[OF I(6)]) (simp_all add: T eq hres_view_def)
      show "inv_ops r'" using I(7) unfolding inv_ops_def T by (simp add: eq incoming_def)
      show "inv_lru r'" using I(8) unfolding inv_lru_def T by (auto simp: eq)
      show "inv_free r'" using I(9) unfolding inv_free_def T by simp
      show "inv_count r'" by (rule count_frame[OF I(10)]) (simp_all add: T eq)
      show "inv_mode r'" using nl noshadow by (simp add: inv_mode_def T eq) (simp add: r'_def)
    qed
  qed
  show ?thesis
    unfolding end_prefill_stream_def using True
    by (simp, intro after_check_inv[where P = reg_inv, OF inv])
      (use key sz(1) in \<open>simp add: all_catalog r'_def\<close>)
qed (simp add: end_prefill_stream_def inv)

lemma release_hot_copy_inv:
  assumes inv: "reg_inv r" and g: "g < total_experts r" "operation (ent r g) = OP_NONE"
  obtains r' where "release_hot_copy g r = ok () r'" "reg_inv r'" "total_experts r' = total_experts r"
    "shadow_lru r' = shadow_lru r" "global_expert_id (ent r' g) = g"
proof (cases "owner (ent r g) = HOT_VRAM \<and> \<not> resident_at_prefill_begin (ent r g)")
  case True
  note I = reg_invD[OF inv]
  note sh = inv_entriesD(1)[OF I(2) g(1)] and gid = inv_entriesD(2)[OF I(2) g(1)]
  have l: "in_lru (ent r g)" "lru_it (ent r g) = g" using entry_shapeD(1,5)[OF sh] g True gid by simp_all
  have len: "g < length (catalog r)" using inv_sizesD(1)[OF I(1)] g by simp
  have slot: "0 \<le> slot_idx (ent r g)" using shape_slot[OF sh] True by simp
  let ?r' = "(upd_ent g (\<lambda>e. e\<lparr>in_lru := False, owner := COLD_NVME, slot_idx := -1,
                 slot_state := UNALLOCATED\<rparr>) r)\<lparr>hot_vram_lru := remove1 g (hot_vram_lru r),
      vram_slots := (vram_slots r)[nat (slot_idx (ent r g)) := -1],
      free_vram_slots := free_vram_slots r @ [nat (slot_idx (ent r g))]\<rparr>"
  have same: "(ent r g)\<lparr>in_lru := False, resident_at_prefill_begin := False, owner := COLD_NVME,
      slot_idx := -1, slot_state := UNALLOCATED\<rparr> = (ent r g)\<lparr>in_lru := False, owner := COLD_NVME, slot_idx := -1,
                 slot_state := UNALLOCATED\<rparr>"
    using True by (intro ExpertCatalogEntry.equality) simp_all
  have inv': "reg_inv ?r'"
    by (rule hot_release_state[OF inv g(1) _ g(2) refl _ _ _ refl])
      (use True I(8) same in \<open>auto simp: inv_lru_def\<close>)
  have "release_hot_copy g r = ok () ?r'"
    using True l gid slot len
    by (auto simp: release_hot_copy_def remove_from_lru_def Let_def ent_def upd_ent_def)
  then show ?thesis using that[of ?r'] inv' g len gid by (simp add: ent_upd_ent)
next
  case False
  then show ?thesis using that[of r] inv inv_entriesD(2)[OF reg_invD(2)[OF inv] g(1)]
    by (auto simp: release_hot_copy_def)
qed

lemma release_shadow_copy_inv:
  assumes inv: "reg_inv r" and g: "g < total_experts r"
  shows "reg_inv (release_shadow_copy g r)"
proof (cases "0 \<le> shadow_vram_slot (ent r g)")
  case True
  note I = reg_invD[OF inv]
  have gid: "global_expert_id (ent r g) = g" using inv_entriesD(2)[OF I(2) g] .
  show ?thesis
    by (rule shadow_release_state[OF inv g _ refl, where L = "removeAll g (shadow_lru r)"])
      (use True gid I(8) in \<open>auto simp: release_shadow_copy_def release_shadow_residency_def Let_def upd_ent_def inv_lru_def distinct_removeAll\<close>)
qed (simp add: release_shadow_copy_def inv)

lemma release_layer_inv:
  assumes inv: "reg_inv r"
  shows "reg_inv (snd (release_layer layer r))"
proof -
  let ?P = "\<lambda>s. reg_inv s \<and> total_experts s = total_experts r"
  have step: "?P (snd (release_layer_entry g s))" if P: "?P s" and g: "g < total_experts r" for g s
  proof (cases "lease_count (ent s g) = 0 \<and> operation (ent s g) = OP_NONE")
    case True
    obtain s' where "release_hot_copy g s = ok () s'" "reg_inv s'" "total_experts s' = total_experts s"
      using release_hot_copy_inv[of s g] P g True by auto
    then show ?thesis using True P g release_shadow_copy_inv[of s' g]
      by (simp add: release_layer_entry_def) (simp add: release_shadow_copy_def release_shadow_residency_def Let_def)
  qed (use P in \<open>auto simp: release_layer_entry_def\<close>)
  have "?P (snd (for_each (\<lambda>index. release_layer_entry (layer * experts_per_layer r + index)) [0..<experts_per_layer r] r))"
    if l: "layer < num_layers r"
  proof (rule for_each_inv)
    fix i s assume i: "i \<in> set [0..<experts_per_layer r]" and s: "?P s"
    have "layer * experts_per_layer r + i < Suc layer * experts_per_layer r" using i by simp
    also have "\<dots> \<le> num_layers r * experts_per_layer r" using l by (intro mult_le_mono1) simp
    finally show "?P (snd (release_layer_entry (layer * experts_per_layer r + i) s))"
      using step[OF s] inv_sizes_total[OF reg_invD(1)[OF inv]] by simp
  qed (use inv in simp)
  then show ?thesis using inv
    by (auto simp: release_layer_def intro!: and_then_inv[where P = reg_inv])
qed

subsection \<open>Freezing and thawing Warm\<close>

lemma release_idle_shadow_inv:
  assumes inv: "reg_inv r" and c: "c < total_experts r" "shadow_vram_slot (ent r c) \<noteq> -1" "lease_count (ent r c) = 0"
  shows "reg_inv (release_idle_shadow c r)" "shadow_lru (release_idle_shadow c r) = remove1 c (shadow_lru r)"
    "\<And>x. x \<noteq> c \<Longrightarrow> ent (release_idle_shadow c r) x = ent r x"
    "total_experts (release_idle_shadow c r) = total_experts r"
    "warm_shadow (ent (release_idle_shadow c r) c) = warm_shadow (ent r c)"
    "prefill_stream (release_idle_shadow c r) = prefill_stream r"
proof -
  note I = reg_invD[OF inv]
  note sh = inv_entriesD(1)[OF I(2) c(1)] and gid = inv_entriesD(2)[OF I(2) c(1)]
  have cs: "operation (ent r c) = OP_NONE" "0 \<le> shadow_vram_slot (ent r c)" using shape_shadow[OF sh c(2)] by simp_all
  have len: "c < length (catalog r)" using inv_sizesD(1)[OF I(1)] c by simp
  let ?r' = "(upd_ent c (\<lambda>e. e\<lparr>shadow_vram_slot := -1\<rparr>) r)
             \<lparr>shadow_lru := remove1 c (shadow_lru r), shadow_slot_of_expert := (shadow_slot_of_expert r)[c := -1],
              vram_slots := (vram_slots r)[nat (shadow_vram_slot (ent r c)) := -1],
              free_vram_slots := free_vram_slots r @ [nat (shadow_vram_slot (ent r c))]\<rparr>"
  have eq: "release_idle_shadow c r = ?r'"
    using cs c gid by (simp add: release_idle_shadow_def Let_def)
  show "reg_inv (release_idle_shadow c r)"
    unfolding eq by (rule shadow_release_state[OF inv c(1,2) refl _ _ refl]) (use I(8) in \<open>auto simp: inv_lru_def\<close>)
  show "shadow_lru (release_idle_shadow c r) = remove1 c (shadow_lru r)"
    "\<And>x. x \<noteq> c \<Longrightarrow> ent (release_idle_shadow c r) x = ent r x"
    "total_experts (release_idle_shadow c r) = total_experts r"
    "warm_shadow (ent (release_idle_shadow c r) c) = warm_shadow (ent r c)"
    "prefill_stream (release_idle_shadow c r) = prefill_stream r"
    using len by (simp_all add: eq ent_upd_ent)
qed

lemma release_idle_shadows:
  assumes "reg_inv r" and "distinct cs" and "set cs = set (shadow_lru r)"
    and "\<And>c. c \<in> set cs \<Longrightarrow> lease_count (ent r c) = 0" and "\<And>x. x < total_experts r \<Longrightarrow> \<not> warm_shadow (ent r x)"
  shows "reg_inv (fold release_idle_shadow cs r) \<and> shadow_lru (fold release_idle_shadow cs r) = [] \<and>
    total_experts (fold release_idle_shadow cs r) = total_experts r \<and>
    prefill_stream (fold release_idle_shadow cs r) = prefill_stream r \<and>
    (\<forall>x<total_experts r. \<not> warm_shadow (ent (fold release_idle_shadow cs r) x))"
  using assms
proof (induction cs arbitrary: r)
  case (Cons c cs)
  note I = reg_invD[OF Cons.prems(1)]
  have c: "c < total_experts r" "shadow_vram_slot (ent r c) \<noteq> -1" using I(8) Cons.prems(3) by (auto simp: inv_lru_def)
  have l: "lease_count (ent r c) = 0" using Cons.prems(4) by simp
  note s = release_idle_shadow_inv[OF Cons.prems(1) c l]
  have d: "distinct (shadow_lru r)" using I(8) by (simp add: inv_lru_def)
  have "set cs = set (remove1 c (shadow_lru r))" using d Cons.prems(2,3) by auto
  moreover have "\<not> warm_shadow (ent (release_idle_shadow c r) x)" if "x < total_experts r" for x
    using s(3,5) Cons.prems(5)[OF that] by metis
  moreover have "lease_count (ent (release_idle_shadow c r) x) = 0" if "x \<in> set cs" for x
    using s(3)[of x] Cons.prems(2) Cons.prems(4)[of x] that by (cases "x = c") simp_all
  ultimately show ?case using Cons.IH[OF s(1)] Cons.prems(2) s(2,4,6) by simp
qed simp

lemma reg_inv_warm_frozen:
  assumes inv: "reg_inv r" and "inv_mode (r\<lparr>warm_frozen := b\<rparr>)"
  shows "reg_inv (r\<lparr>warm_frozen := b\<rparr>)"
  by (rule reg_inv_holesI)
    (use assms(2) reg_invD[OF inv] in \<open>simp_all add: inv_sizes_def inv_entries_def inv_vmap_def inv_hmap_def
      inv_vres_def inv_hres_def inv_ops_def inv_lru_def inv_free_def inv_count_def\<close>)

lemma set_warm_frozen_inv:
  assumes inv: "reg_inv r"
    and quiet: "\<not> frozen \<Longrightarrow> (\<forall>g<total_experts r. \<not> warm_shadow (ent r g)) \<and> (\<forall>g\<in>set (shadow_lru r). lease_count (ent r g) = 0)"
  shows "reg_inv (snd (set_warm_frozen frozen r))"
proof (cases "prefill_stream r \<or> frozen = warm_frozen r")
  case False
  show ?thesis
  proof (cases frozen)
    case True
    then have "reg_inv (r\<lparr>warm_frozen := True\<rparr>)"
      using reg_invD(11)[OF inv] False by (intro reg_inv_warm_frozen[OF inv]) (auto simp: inv_mode_def)
    then show ?thesis using True False by (simp add: set_warm_frozen_def)
  next
    case thaw: False
    have d: "distinct (shadow_lru r)" using reg_invD(8)[OF inv] by (simp add: inv_lru_def)
    have commute: "release_shadow_residencies (r\<lparr>warm_frozen := False\<rparr>) = (release_shadow_residencies r)\<lparr>warm_frozen := False\<rparr>"
    proof -
      have one: "release_idle_shadow c (s\<lparr>warm_frozen := False\<rparr>) = (release_idle_shadow c s)\<lparr>warm_frozen := False\<rparr>" for c s
        by (simp add: release_idle_shadow_def Let_def upd_ent_def)
      have "fold release_idle_shadow cs (s\<lparr>warm_frozen := False\<rparr>) = (fold release_idle_shadow cs s)\<lparr>warm_frozen := False\<rparr>" for cs s
        by (induction cs arbitrary: s) (simp_all add: one)
      then show ?thesis by (simp add: release_shadow_residencies_def)
    qed
    let ?s = "release_shadow_residencies r"
    have s: "reg_inv ?s" "shadow_lru ?s = []" "prefill_stream ?s = prefill_stream r" "\<forall>x<total_experts ?s. \<not> warm_shadow (ent ?s x)"
      using release_idle_shadows[OF inv d refl] quiet[OF thaw] by (auto simp: release_shadow_residencies_def)
    have "reg_inv (?s\<lparr>warm_frozen := False\<rparr>)"
      using s False reg_invD(11)[OF s(1)] by (intro reg_inv_warm_frozen[OF s(1)]) (simp add: inv_mode_def)
    then show ?thesis using False thaw commute by (simp add: set_warm_frozen_def)
  qed
qed (use inv in \<open>auto simp: set_warm_frozen_def\<close>)

subsection \<open>Resizing the Warm tier\<close>

lemma grow_loop:
  assumes "\<And>s. s \<in> set xs \<Longrightarrow> host_slots r ! s = -1 \<and> host_slot_reservations r ! s = 0"
  shows "for_each recover_host_slot xs r = ok () (r\<lparr>free_host_slots := free_host_slots r @ xs\<rparr>)"
  using assms
proof (induction xs arbitrary: r)
  case (Cons x xs)
  have "recover_host_slot x r = ok () (r\<lparr>free_host_slots := free_host_slots r @ [x]\<rparr>)"
    using Cons.prems[of x] by (simp add: recover_host_slot_def)
  then show ?case using Cons.IH[of "r\<lparr>free_host_slots := free_host_slots r @ [x]\<rparr>"] Cons.prems by simp
qed simp

lemma beyond_usable:
  assumes inv: "reg_inv r" and s: "host_capacity_usable r \<le> s" "s < host_capacity r"
  shows "host_slots r ! s = -1" "host_slot_reservations r ! s = 0"
proof -
  note I = reg_invD[OF inv]
  show e: "host_slots r ! s = -1"
  proof (rule ccontr)
    assume "host_slots r ! s \<noteq> -1"
    note h = inv_hmapD(2)[OF I(4) s(2) this]
    then show False using inv_hmapD(1)[OF I(4), of "nat (host_slots r ! s)"] s(1) by simp
  qed
  show "host_slot_reservations r ! s = 0"
    using inv_hresD(4)[OF I(6) s(2) _ e] s(1) by fastforce
qed

lemma grow_host_capacity_ok:
  assumes inv: "reg_inv r" and u: "usable \<le> host_capacity r"
  obtains r' where "grow_host_capacity usable r = ok () r'" "reg_inv r'"
    "host_capacity_usable r' = max usable (host_capacity_usable r)"
proof (cases "usable \<le> host_capacity_usable r")
  case True
  then show ?thesis using that[of r] inv by (simp add: grow_host_capacity_def max_def)
next
  case False
  note I = reg_invD[OF inv]
  define xs where "xs = [host_capacity_usable r..<usable]"
  have xs: "\<And>s. s \<in> set xs \<Longrightarrow> host_slots r ! s = -1 \<and> host_slot_reservations r ! s = 0"
    using beyond_usable[OF inv] u by (simp add: xs_def)
  define r' where "r' = r\<lparr>free_host_slots := free_host_slots r @ xs, host_capacity_usable := usable\<rparr>"
  have "reg_inv r'"
  proof (rule reg_inv_holesI)
    show "inv_sizes r'" using I(1) u by (simp add: r'_def inv_sizes_def)
    show "inv_hmap r'" using I(4) False by (auto simp: r'_def inv_hmap_def)
    show "inv_hres None r'" using I(6) False unfolding inv_hres_def r'_def by fastforce
    show "inv_free r'" using I(9) xs False by (auto simp: inv_free_def r'_def xs_def)
  qed (use I in \<open>simp_all add: r'_def inv_entries_def inv_vmap_def inv_vres_def inv_ops_def inv_lru_def inv_count_def inv_mode_def\<close>)
  then show ?thesis using that[of r'] False u
    by (simp add: grow_host_capacity_def xs_def[symmetric] grow_loop[OF xs]) (simp add: r'_def)
qed

lemma shrink_host_capacity_inv:
  assumes inv: "reg_inv r"
  shows "reg_inv (snd (shrink_host_capacity usable r))"
proof (cases "host_capacity_usable r \<le> usable")
  case False
  note I = reg_invD[OF inv]
  note sz = inv_sizesD[OF I(1)]
  have "reg_inv (rebuild_free_host_slots (r\<lparr>host_capacity_usable := usable\<rparr>))" (is "reg_inv ?r'")
    if c: "\<And>s. usable \<le> s \<Longrightarrow> s < host_capacity_usable r \<Longrightarrow> host_slots r ! s < 0 \<and> host_slot_reservations r ! s = 0"
  proof (rule reg_inv_holesI)
    show "inv_sizes ?r'" using I(1) False by (simp add: rebuild_free_host_slots_def inv_sizes_def)
    have "nat (slot_idx (ent r g)) < usable" if "g < total_experts r" "owner (ent r g) = WARM_HOST" for g
      using inv_hmapD(1)[OF I(4) that] c[of "nat (slot_idx (ent r g))"] by (cases "usable \<le> nat (slot_idx (ent r g))") auto
    then show "inv_hmap ?r'" using I(4) by (simp add: inv_hmap_def rebuild_free_host_slots_def)
    have "s < usable" if "s < host_capacity r" "host_slot_reservations r ! s \<noteq> 0" "host_slots r ! s = -1" for s
      using inv_hresD(4)[OF I(6) that] c[of s] that by (cases "usable \<le> s") auto
    then show "inv_hres None ?r'" using I(6) by (simp add: inv_hres_def rebuild_free_host_slots_def)
    have "host_slots r ! s = -1" if "s < host_capacity r" "host_slots r ! s < 0" for s
      using inv_hmapD(2)[OF I(4) that(1)] that(2) by force
    then show "inv_free ?r'" using I(9) False sz by (auto simp: inv_free_def rebuild_free_host_slots_def)
  qed (use I in \<open>simp_all add: rebuild_free_host_slots_def inv_entries_def inv_vmap_def inv_vres_def inv_ops_def inv_lru_def inv_count_def inv_mode_def\<close>)
  note key = this
  show ?thesis
    unfolding shrink_host_capacity_def if_not_P[OF False]
  proof (rule after_check_inv[where P = reg_inv, OF inv], goal_cases)
    case 1
    then have "reg_inv (rebuild_free_host_slots (r\<lparr>host_capacity_usable := usable\<rparr>))" by (intro key) force
    then show ?case by simp
  qed
qed (simp add: shrink_host_capacity_def inv)

lemma tail_release_state:
  assumes inv: "reg_inv r" and nf: "\<not> warm_frozen r"
    and c: "c < total_experts r" "owner (ent r c) = WARM_HOST" "operation (ent r c) = OP_NONE" "slot_idx (ent r c) = int s"
    and r': "r' = (upd_ent c (\<lambda>e. e\<lparr>in_lru := False, owner := COLD_NVME, slot_idx := -1,
                 slot_state := UNALLOCATED\<rparr>) r)
              \<lparr>warm_host_lru := remove1 c (warm_host_lru r), host_slots := (host_slots r)[s := -1]\<rparr>"
  shows "reg_inv r'"
proof -
  note I = reg_invD[OF inv]
  note sz = inv_sizesD[OF I(1)] and side = slot_side_conditions[OF I(2,3)]
  note sh = inv_entriesD(1)[OF I(2) c(1)] and gid = inv_entriesD(2,3)[OF I(2) c(1)]
  note cf = entry_shapeD(1)[OF sh c(3)] entry_shapeD(5-)[OF sh] no_shadow[OF inv nf c(1)]
  have nres: "\<not> resident_at_prefill_begin (ent r c)" using entry_shapeD(11)[OF sh] c by auto
  have hm: "s < host_capacity_usable r" "host_slots r ! s = int c"
    using inv_hmapD(1)[OF I(4) c(1,2)] c(4) by auto
  then have sc: "s < host_capacity r" using sz by simp
  have hr: "host_slot_reservations r ! s = 0" using inv_hresD(2)[OF I(6) c(1,2)] c by simp
  have keep: "(host_slot_reservations r)[s := 0] = host_slot_reservations r" using hr by (metis list_update_id)
  note st = r' ent_upd_ent c sz(1)
  show ?thesis
  proof (rule reg_inv_holesI)
    show "inv_sizes r'" using I(1) by (simp add: inv_sizes_def st)
    show "inv_entries r'"
      by (rule inv_entries_one[OF I(2), of _ c]) (use cf gid nres in \<open>auto simp: st entry_shape_def\<close>)
    show "inv_vmap r'" by (rule vmap_frame[OF I(3)]) (use cf in \<open>simp_all add: st\<close>)
    show "inv_hmap r'" by (rule hmap_release[OF I(4) sc hm(2)]) (use sz in \<open>simp_all add: st\<close>)
    show "inv_vres None r'"
      by (rule vres_frame[OF I(5)]) (use side cf in \<open>simp_all add: st vres_view_def incoming_def\<close>)
    show "inv_hres None r'"
      by (rule hres_source[OF I(6,4) c(1,2) _ c(4), where op_id = 0]) (use cf sz side keep in \<open>simp_all add: st\<close>)
    show "inv_ops r'" using I(7) by (auto simp: inv_ops_def st incoming_def)
    show "inv_lru r'" using I(8) c cf by (auto simp: inv_lru_def st)
    show "inv_free r'" using I(9) sz hm sc by (auto simp: inv_free_def st nth_list_update)
    show "inv_count r'" by (rule count_frame[OF I(10)]) (use cf in \<open>simp_all add: st\<close>)
    show "inv_mode r'" using I(11) cf nf nres by (auto simp: inv_mode_def st)
  qed
qed

lemma release_host_tail_step_inv:
  assumes inv: "reg_inv r" and nf: "\<not> warm_frozen r" and s: "s < host_capacity r"
  shows "reg_inv (snd (snd (release_host_tail_step s (n, r)))) \<and>
     warm_frozen (snd (snd (release_host_tail_step s (n, r)))) = warm_frozen r \<and>
     host_capacity (snd (snd (release_host_tail_step s (n, r)))) = host_capacity r"
proof -
  note I = reg_invD[OF inv]
  let ?c = "nat (host_slots r ! s)"
  consider (empty) "host_slots r ! s < 0"
    | (busy) "0 \<le> host_slots r ! s" "lease_count (ent r ?c) \<noteq> 0 \<or> operation (ent r ?c) \<noteq> OP_NONE"
    | (idle) "0 \<le> host_slots r ! s" "lease_count (ent r ?c) = 0" "operation (ent r ?c) = OP_NONE" by force
  then show ?thesis
  proof cases
    case empty
    then show ?thesis using inv by (simp add: release_host_tail_step_def)
  next
    case busy
    then show ?thesis using inv by (auto simp: release_host_tail_step_def Let_def)
  next
    case idle
    have c: "?c < total_experts r" "owner (ent r ?c) = WARM_HOST" "slot_idx (ent r ?c) = int s"
      using inv_hmapD(2)[OF I(4) s] idle by auto
    note sh = inv_entriesD(1)[OF I(2) c(1)]
    have l: "in_lru (ent r ?c)" "lru_it (ent r ?c) = ?c"
      using entry_shapeD(1,5)[OF sh] idle c inv_entriesD(2)[OF I(2) c(1)] by simp_all
    have len: "?c < length (catalog r)" using c inv_sizesD(1)[OF I(1)] by simp
    let ?r' = "(upd_ent ?c (\<lambda>e. e\<lparr>in_lru := False, owner := COLD_NVME, slot_idx := -1,
                 slot_state := UNALLOCATED\<rparr>) r)
              \<lparr>warm_host_lru := remove1 ?c (warm_host_lru r), host_slots := (host_slots r)[s := -1]\<rparr>"
    have "release_host_tail_step s (n, r) = ok () (Suc n, ?r')"
      using idle c l len remove_warm_eq[OF l]
      by (simp add: release_host_tail_step_def Let_def ok_def)
         (rule ExpertRegistry.equality; simp add: upd_ent_def ent_def)
    then show ?thesis using tail_release_state[OF inv nf c(1,2) idle(3) c(3) refl] by simp
  qed
qed

lemma release_host_tail_inv:
  assumes inv: "reg_inv r" and nf: "\<not> warm_frozen r"
  shows "reg_inv (snd (release_host_tail keep r))"
proof (cases "host_capacity_usable r < keep")
  case False
  let ?P = "\<lambda>s :: nat \<times> ExpertRegistry. reg_inv (snd s) \<and> \<not> warm_frozen (snd s) \<and> host_capacity (snd s) = host_capacity r"
  have "?P (snd (for_each release_host_tail_step [keep..<host_capacity_usable r] (0, r)))"
  proof (rule for_each_inv)
    fix x s assume x: "x \<in> set [keep..<host_capacity_usable r]" and P: "?P s"
    have "x < host_capacity (snd s)" using x P inv_sizesD(6)[OF reg_invD(1)[OF inv]] by simp
    then show "?P (snd (release_host_tail_step x s))"
      using release_host_tail_step_inv[of "snd s" x "fst s"] P by simp
  qed (use inv nf in simp)
  then show ?thesis using False
    by (auto simp: release_host_tail_def throw_def split: prod.splits sum.splits)
qed (simp add: release_host_tail_def inv)

subsection \<open>Dropping a demotion\<close>

text \<open>The Warm slot search finds nothing for a cold read whose victim was never submitted.\<close>

lemma find_reserved_none:
  assumes inv: "reg_inv r" and op: "op_id \<noteq> 0"
    and nd: "\<And>g. g < total_experts r \<Longrightarrow> gpu_transfer (ent r g) = D2H_PENDING \<Longrightarrow> operation_id (ent r g) \<noteq> op_id"
    and np: "\<And>g. g < total_experts r \<Longrightarrow> operation (ent r g) = PROMOTION_PENDING \<Longrightarrow> operation_id (ent r g) \<noteq> op_id"
  shows "find_reserved_host_slot op_id r = -1"
proof -
  note I = reg_invD[OF inv]
  have "host_slot_reservations r ! s \<noteq> op_id" if s: "s < host_capacity r" for s
  proof
    assume h: "host_slot_reservations r ! s = op_id"
    show False
    proof (cases "host_slots r ! s = -1")
      case True
      then show False using inv_hresD(4)[OF I(6) s _ True] h op nd by auto
    next
      case False
      let ?g = "nat (host_slots r ! s)"
      have g: "?g < total_experts r" "owner (ent r ?g) = WARM_HOST" "slot_idx (ent r ?g) = int s"
        using inv_hmapD(2)[OF I(4) s False] by auto
      show False
        using shape_warm[OF inv_entriesD(1)[OF I(2) g(1)] g(2)] inv_hresD(1,2)[OF I(6) g(1)] g h op np[OF g(1)]
        by (cases "warm_shadow (ent r ?g)") auto
    qed
  qed
  then have "find (\<lambda>s. host_slot_reservations r ! s = op_id) [0..<host_capacity r] = None"
    "find (\<lambda>s. host_slot_reservations r ! s = op_id \<and> host_slots r ! s < 0) [0..<host_capacity r] = None"
    by (auto simp: find_None_iff)
  then show ?thesis by (simp add: find_reserved_host_slot_def)
qed

lemma drop_demotion_inv:
  assumes inv: "reg_inv r"
    and np: "\<And>g. g < total_experts r \<Longrightarrow> operation (ent r g) = PROMOTION_PENDING \<Longrightarrow> operation_id (ent r g) \<noteq> op_id"
  shows "reg_inv (snd (drop_demotion op_id r))"
proof (cases "find_operation_victim op_id r")
  case (Some v)
  note I = reg_invD[OF inv]
  note vf = find_victim_Some[OF inv Some]
  note sh = inv_entriesD(1)[OF I(2) vf(1)]
  show ?thesis
  proof (cases "gpu_transfer (ent r v) = D2H_PENDING")
    case False
    have gt: "gpu_transfer (ent r v) = GT_NONE"
      using False entry_shapeD(4)[OF sh vf(2)] by (cases "gpu_transfer (ent r v)") simp_all
    have "operation_id (ent r g) \<noteq> op_id" if "g < total_experts r" "gpu_transfer (ent r g) = D2H_PENDING" for g
      using I(7) that vf False shape_d2h[OF inv_entriesD(1)[OF I(2) that(1)] that(2)] unfolding inv_ops_def by metis
    then have "find_reserved_host_slot op_id r = -1"
      using shape_op_id[OF sh] vf np by (intro find_reserved_none[OF inv]) auto
    then have rd: "release_destination op_id r = r" by (simp add: release_destination_def)
    have "reg_inv (upd_ent v (\<lambda>e. e\<lparr>gpu_transfer := GT_NONE, demotion_drop_reason := DROP_NONE\<rparr>) r)"
      by (rule reg_inv_upd_usage[OF inv]) (simp add: core_def gt)
    then show ?thesis using False by (simp add: drop_demotion_def Some rd)
  qed (simp add: drop_demotion_def Some inv)
qed (simp add: drop_demotion_def inv)

subsection \<open>Construction\<close>

definition quiet :: "ExpertRegistry \<Rightarrow> bool" where
  "quiet r \<longleftrightarrow> (\<forall>g<total_experts r. operation (ent r g) = OP_NONE) \<and>
     (\<forall>s<vram_capacity r. vram_slot_reservations r ! s = 0) \<and>
     (\<forall>s<host_capacity r. host_slot_reservations r ! s = 0)"

lemma quiet_res:
  assumes "inv_sizes r" "inv_entries r" "inv_hmap r" "quiet r"
  shows "inv_vres None r" "inv_hres None r" "inv_ops r"
proof -
  note E = inv_entriesD[OF assms(2)]
  have ni: "\<not> incoming (ent r g)" "\<not> warm_shadow (ent r g)" "gpu_transfer (ent r g) = GT_NONE" "operation (ent r g) = OP_NONE"
    if "g < total_experts r" for g
    using assms(4) entry_shapeD(1)[OF E(1)[OF that]] that by (auto simp: quiet_def incoming_def)
  show "inv_vres None r" using ni assms(4) by (simp add: inv_vres_def quiet_def)
  show "inv_ops r" using ni by (simp add: inv_ops_def)
  have "nat (slot_idx (ent r g)) < host_capacity r" if "g < total_experts r" "owner (ent r g) = WARM_HOST" for g
    using inv_hmapD(1)[OF assms(3) that] inv_sizesD(6)[OF assms(1)] by simp
  then show "inv_hres None r" using ni assms(4) by (simp add: inv_hres_def quiet_def)
qed

lemma place_hot_state:
  assumes inv: "reg_inv r" and q: "quiet r" and g: "g < total_experts r" "owner (ent r g) = COLD_NVME"
    and ne: "free_vram_slots r \<noteq> []" and s: "s = last (free_vram_slots r)"
    and r': "r' = (upd_ent g (\<lambda>e. e\<lparr>owner := HOT_VRAM, slot_idx := int s, slot_state := ACTIVE,
                   lru_it := g, in_lru := True\<rparr>) r)
       \<lparr>free_vram_slots := butlast (free_vram_slots r), vram_slots := (vram_slots r)[s := int g],
        hot_vram_lru := g # hot_vram_lru r\<rparr>"
  shows "reg_inv r' \<and> quiet r'"
proof -
  note I = reg_invD[OF inv]
  note sz = inv_sizesD[OF I(1)]
  note sh = inv_entriesD(1)[OF I(2) g(1)] and gid = inv_entriesD(2,3)[OF I(2) g(1)]
  have idle: "operation (ent r g) = OP_NONE" using q g by (simp add: quiet_def)
  note gf = entry_shapeD(1)[OF sh idle] entry_shapeD(5-)[OF sh]
  have sf: "s < vram_capacity r" "vram_slots r ! s = -1" using ne s I(9) last_in_set[OF ne] by (auto simp: inv_free_def)
  note st = r' ent_upd_ent g sz(1)
  have q': "quiet r'" using q idle by (auto simp: quiet_def st)
  have sizes: "inv_sizes r'" using I(1) by (simp add: inv_sizes_def st)
  have entries: "inv_entries r'"
    by (rule inv_entries_one[OF I(2), of _ g]) (use gf gid g idle in \<open>auto simp: st entry_shape_def\<close>)
  have hmap: "inv_hmap r'" by (rule hmap_frame[OF I(4)]) (use g in \<open>simp_all add: st\<close>)
  have "reg_inv r'"
  proof (rule reg_inv_holesI)
    show "inv_vmap r'" by (rule vmap_occupy[OF I(3) sf g(1)]) (use gf g sz in \<open>simp_all add: st\<close>)
    show "inv_lru r'" using I(8) g gf by (auto simp: inv_lru_def st)
    show "inv_free r'"
      using I(9) set_butlast_distinct[of "free_vram_slots r"] ne s sz sf
      by (auto simp: inv_free_def st nth_list_update distinct_butlast)
    show "inv_count r'" by (rule count_frame[OF I(10)]) (simp_all add: st)
    show "inv_mode r'" using I(11) gf g by (auto simp: inv_mode_def st)
  qed (use sizes entries hmap quiet_res[OF sizes entries hmap q'] in auto)
  then show ?thesis using q' by simp
qed

lemma place_warm_state:
  assumes inv: "reg_inv r" and q: "quiet r" and g: "g < total_experts r" "owner (ent r g) = COLD_NVME"
    and ne: "free_host_slots r \<noteq> []" and s: "s = last (free_host_slots r)"
    and r': "r' = (upd_ent g (\<lambda>e. e\<lparr>owner := WARM_HOST, slot_idx := int s, slot_state := ACTIVE,
                   lru_it := g, in_lru := True\<rparr>) r)
       \<lparr>free_host_slots := butlast (free_host_slots r), host_slots := (host_slots r)[s := int g],
        warm_host_lru := g # warm_host_lru r\<rparr>"
  shows "reg_inv r' \<and> quiet r'"
proof -
  note I = reg_invD[OF inv]
  note sz = inv_sizesD[OF I(1)]
  note sh = inv_entriesD(1)[OF I(2) g(1)] and gid = inv_entriesD(2,3)[OF I(2) g(1)]
  have idle: "operation (ent r g) = OP_NONE" using q g by (simp add: quiet_def)
  note gf = entry_shapeD(1)[OF sh idle] entry_shapeD(5-)[OF sh]
  have sf: "s < host_capacity_usable r" "host_slots r ! s = -1" using ne s I(9) last_in_set[OF ne] by (auto simp: inv_free_def)
  note st = r' ent_upd_ent g sz(1)
  have q': "quiet r'" using q idle by (auto simp: quiet_def st)
  have sizes: "inv_sizes r'" using I(1) by (simp add: inv_sizes_def st)
  have entries: "inv_entries r'"
    by (rule inv_entries_one[OF I(2), of _ g]) (use gf gid g idle in \<open>auto simp: st entry_shape_def\<close>)
  have hmap: "inv_hmap r'" by (rule hmap_occupy[OF I(4) sf g(1)]) (use g sz in \<open>simp_all add: st\<close>)
  have "reg_inv r'"
  proof (rule reg_inv_holesI)
    show "inv_vmap r'" by (rule vmap_frame[OF I(3)]) (use gf g in \<open>simp_all add: st\<close>)
    show "inv_lru r'" using I(8) g gf by (auto simp: inv_lru_def st)
    show "inv_free r'"
      using I(9) set_butlast_distinct[of "free_host_slots r"] ne s sz sf
      by (auto simp: inv_free_def st nth_list_update distinct_butlast)
    show "inv_count r'" by (rule count_frame[OF I(10)]) (simp_all add: st)
    show "inv_mode r'" using I(11) gf g by (auto simp: inv_mode_def st)
  qed (use sizes entries hmap quiet_res[OF sizes entries hmap q'] in auto)
  then show ?thesis using q' by simp
qed

definition placed_id :: "ExpertRegistry \<Rightarrow> nat \<times> nat \<Rightarrow> nat" where
  "placed_id r p = u32 (snd p * experts_per_layer r + fst p)"

lemma populate_loop_inv:
  assumes "reg_inv r" "quiet r" "length (free_vram_slots r) = vram_capacity r - va"
    "length (free_host_slots r) = host_capacity_usable r - ha"
    "distinct (map (placed_id r) ps)"
    "\<And>p. p \<in> set ps \<Longrightarrow> placed_id r p < total_experts r \<and> owner (ent r (placed_id r p)) = COLD_NVME"
  shows "reg_inv (populate_loop preload ps va ha r) \<and>
    length (hot_vram_lru (populate_loop preload ps va ha r)) = length (hot_vram_lru r) + min (length ps) (vram_capacity r - va)"
  using assms
proof (induction preload ps va ha r rule: populate_loop.induct)
  case (1 preload va ha r)
  then show ?case by simp
next
  case (2 preload expert layer rest va ha r)
  define gid where "gid = placed_id r (expert, layer)"
  have gid: "u32 (layer * experts_per_layer r + expert) = gid" by (simp add: gid_def placed_id_def)
  have g: "gid < total_experts r" "owner (ent r gid) = COLD_NVME" using 2(9)[of "(expert, layer)"] by (simp_all add: gid_def)
  note I = reg_invD[OF 2(4)]
  note sh = inv_entriesD(1)[OF I(2) g(1)] and gg = inv_entriesD(2)[OF I(2) g(1)]
  have len: "gid < length (catalog r)" using g inv_sizesD(1)[OF I(1)] by simp
  have nl: "\<not> in_lru (ent r gid)"
    using entry_shapeD(1)[OF sh] 2(5) g by (auto simp: quiet_def)
  have rest: "placed_id r p < total_experts r" "owner (ent r (placed_id r p)) = COLD_NVME" "placed_id r p \<noteq> gid" if "p \<in> set rest" for p
    using 2(8) 2(9)[of p] that by (simp_all add: gid_def) (metis image_eqI)
  consider (hot) "va < vram_capacity r" | (warm) "\<not> va < vram_capacity r" "preload" "ha < host_capacity_usable r"
    | (stop) "\<not> va < vram_capacity r" "preload" "\<not> ha < host_capacity_usable r" | (skip) "\<not> va < vram_capacity r" "\<not> preload"
    by blast
  then show ?case
  proof cases
    case hot
    let ?s = "last (free_vram_slots r)"
    have ne: "free_vram_slots r \<noteq> []" using 2(6) hot by auto
    define r' where "r' = (upd_ent gid (\<lambda>e. e\<lparr>owner := HOT_VRAM, slot_idx := int ?s, slot_state := ACTIVE,
                   lru_it := gid, in_lru := True\<rparr>) r)
       \<lparr>free_vram_slots := butlast (free_vram_slots r), vram_slots := (vram_slots r)[?s := int gid],
        hot_vram_lru := gid # hot_vram_lru r\<rparr>"
    note p = place_hot_state[OF 2(4,5) g ne refl r'_def]
    have eq: "push_hot gid (upd_ent gid (\<lambda>e. e\<lparr>owner := HOT_VRAM, slot_idx := int ?s, slot_state := ACTIVE\<rparr>)
        (r\<lparr>free_vram_slots := butlast (free_vram_slots r), vram_slots := (vram_slots r)[?s := int gid]\<rparr>)) = r'"
      using nl len gg by (simp add: push_hot_eq ent_upd_ent r'_def) (simp add: upd_ent_def ent_def)
    have e': "placed_id r' = placed_id r" "\<And>x. x \<noteq> gid \<Longrightarrow> ent r' x = ent r x" "total_experts r' = total_experts r"
      "vram_capacity r' = vram_capacity r" "length (free_vram_slots r') = vram_capacity r - Suc va"
      "free_host_slots r' = free_host_slots r" "host_capacity_usable r' = host_capacity_usable r"
      "length (hot_vram_lru r') = Suc (length (hot_vram_lru r))"
      using len 2(6) by (simp_all add: r'_def placed_id_def fun_eq_iff ent_upd_ent)
    have "reg_inv (populate_loop preload rest (Suc va) ha r') \<and>
        length (hot_vram_lru (populate_loop preload rest (Suc va) ha r')) = length (hot_vram_lru r') + min (length rest) (vram_capacity r' - Suc va)"
      using 2(1)[OF gid[symmetric] hot refl refl, unfolded eq] p e' 2(7,8) rest by simp
    then show ?thesis using hot e' by (simp add: gid Let_def eq)
  next
    case warm
    let ?s = "last (free_host_slots r)"
    have ne: "free_host_slots r \<noteq> []" using 2(7) warm by auto
    define r' where "r' = (upd_ent gid (\<lambda>e. e\<lparr>owner := WARM_HOST, slot_idx := int ?s, slot_state := ACTIVE,
                   lru_it := gid, in_lru := True\<rparr>) r)
       \<lparr>free_host_slots := butlast (free_host_slots r), host_slots := (host_slots r)[?s := int gid],
        warm_host_lru := gid # warm_host_lru r\<rparr>"
    note p = place_warm_state[OF 2(4,5) g ne refl r'_def]
    have eq: "push_warm gid (upd_ent gid (\<lambda>e. e\<lparr>owner := WARM_HOST, slot_idx := int ?s, slot_state := ACTIVE\<rparr>)
        (r\<lparr>free_host_slots := butlast (free_host_slots r), host_slots := (host_slots r)[?s := int gid]\<rparr>)) = r'"
      using nl len gg by (simp add: push_warm_eq ent_upd_ent r'_def) (simp add: upd_ent_def ent_def)
    have e': "placed_id r' = placed_id r" "\<And>x. x \<noteq> gid \<Longrightarrow> ent r' x = ent r x" "total_experts r' = total_experts r"
      "vram_capacity r' = vram_capacity r" "length (free_host_slots r') = host_capacity_usable r - Suc ha"
      "free_vram_slots r' = free_vram_slots r" "host_capacity_usable r' = host_capacity_usable r"
      "hot_vram_lru r' = hot_vram_lru r"
      using len 2(7) by (simp_all add: r'_def placed_id_def fun_eq_iff ent_upd_ent)
    have "reg_inv (populate_loop preload rest va (Suc ha) r') \<and>
        length (hot_vram_lru (populate_loop preload rest va (Suc ha) r')) = length (hot_vram_lru r') + min (length rest) (vram_capacity r' - va)"
      using 2(2)[OF gid[symmetric] warm(1) conjI[OF warm(2,3)] refl refl, unfolded eq] p e' 2(6,8) rest by simp
    then show ?thesis using warm e' by (simp add: gid Let_def eq)
  next
    case stop
    then show ?thesis using 2(4) by (simp add: gid Let_def)
  next
    case skip
    then show ?thesis using 2(3)[OF gid[symmetric] skip(1) _ skip(2)] 2(4-9) rest by (simp add: gid Let_def)
  qed
qed

lemma blank_registry_inv:
  assumes "layers * experts < 2 ^ 32"
  shows "reg_inv (blank_registry layers experts vram host r)" "quiet (blank_registry layers experts vram host r)"
    "\<And>g. g < layers * experts \<Longrightarrow> owner (ent (blank_registry layers experts vram host r) g) = COLD_NVME"
proof -
  let ?n = "layers * experts"
  let ?b = "blank_registry layers experts vram host r"
  have n: "u32 ?n = ?n" using assms by simp
  have e: "ent ?b g = default_entry\<lparr>global_expert_id := g, layer_id := u16 (g div experts), expert_id := u16 (g mod experts)\<rparr>"
    if "g < ?n" for g
    using that n by (simp add: ent_def blank_registry_def fresh_catalog_def Let_def)
  note b = blank_registry_def n Let_def
  show q: "quiet ?b" using e by (simp add: quiet_def) (simp add: b default_entry_def)
  have sizes: "inv_sizes ?b" by (simp add: inv_sizes_def b fresh_catalog_def)
  have entries: "inv_entries ?b"
    using e unfolding inv_entries_def by (auto simp: entry_shape_def default_entry_def b)
  have hmap: "inv_hmap ?b" using e unfolding inv_hmap_def by (auto simp: default_entry_def b)
  show "owner (ent ?b g) = COLD_NVME" if "g < ?n" for g using e[OF that] by (simp add: default_entry_def)
  show "reg_inv ?b"
  proof (rule reg_inv_holesI)
    show "inv_vmap ?b" using e unfolding inv_vmap_def by (auto simp: default_entry_def b)
    show "inv_lru ?b" using e unfolding inv_lru_def by (auto simp: default_entry_def b)
    show "inv_free ?b" unfolding inv_free_def by (auto simp: b)
    show "inv_count ?b" using e unfolding inv_count_def by (auto simp: default_entry_def b)
    show "inv_mode ?b" using e unfolding inv_mode_def by (auto simp: default_entry_def b)
  qed (use sizes entries hmap quiet_res[OF sizes entries hmap q] in auto)
qed

lemma init_ok:
  assumes n: "layers * experts < 2 ^ 32" and v: "0 < vram"
  obtains r' where "init layers experts vram host preload r = ok () r'" "reg_inv r'"
    "length (hot_vram_lru r') = min (layers * experts) vram"
proof -
  let ?b = "blank_registry layers experts vram host r"
  let ?ps = "List.product [0..<experts] [0..<layers]"
  have f: "experts_per_layer ?b = experts" "num_layers ?b = layers" "total_experts ?b = layers * experts"
    "vram_capacity ?b = vram" "host_capacity_usable ?b = host" "free_vram_slots ?b = rev [0..<vram]"
    "free_host_slots ?b = rev [0..<host]" "hot_vram_lru ?b = []"
    using n by (simp_all add: blank_registry_def Let_def)
  have pos: "snd p * experts + fst p < layers * experts \<and> fst p < experts" if "p \<in> set ?ps" for p
  proof -
    have p: "fst p < experts" "snd p < layers" using that by auto
    have "snd p * experts + fst p < Suc (snd p) * experts" using p by simp
    also have "\<dots> \<le> layers * experts" using p by (intro mult_le_mono1) simp
    finally show ?thesis using p by simp
  qed
  have id: "placed_id ?b p = snd p * experts + fst p" if "p \<in> set ?ps" for p
    using pos[OF that] n by (simp add: placed_id_def f)
  have "inj_on (placed_id ?b) (set ?ps)"
  proof (rule inj_onI)
    fix p q assume pq: "p \<in> set ?ps" "q \<in> set ?ps" "placed_id ?b p = placed_id ?b q"
    then have "(snd p * experts + fst p) mod experts = (snd q * experts + fst q) mod experts"
      "(snd p * experts + fst p) div experts = (snd q * experts + fst q) div experts" using id by metis+
    then show "p = q" using pos[OF pq(1)] pos[OF pq(2)] by (simp add: prod_eq_iff)
  qed
  then have d: "distinct (map (placed_id ?b) ?ps)" by (simp add: distinct_map distinct_product)
  note bi = blank_registry_inv[OF n, where vram = vram and host = host and r = r]
  have "reg_inv (populate_round_robin preload ?b) \<and> length (hot_vram_lru (populate_round_robin preload ?b)) = min (layers * experts) vram"
    using populate_loop_inv[OF bi(1,2) _ _ d, of 0 0 preload] id pos bi(3) unfolding populate_round_robin_def
    by (simp add: f length_product mult.commute)
  then show ?thesis using that[of "populate_round_robin preload ?b"] v by (simp add: init_def)
qed
end
