(* ===== verification/Registry_System.thy ===== *)
theory Registry_System
  imports Registry_Modes
begin

text \<open>
  The registry as a whole: its public mutators as one step relation, the states they reach from
  \<open>init\<close>, the contract of the slot arrays, and the properties of the registry.
\<close>

subsection \<open>The public mutators as one step relation\<close>

datatype registry_call =
    ReserveRequest nat nat nat nat bool
  | ReserveByGid nat nat nat bool
  | AttachDestination nat nat
  | CompleteRequest nat
  | FailRequest nat
  | CompleteDemotion nat
  | FailDemotion nat
  | DropDemotion nat
  | ReleaseLease nat
  | GrowHost nat
  | ShrinkHost nat
  | ReleaseHostTail nat
  | BeginPrefill nat PrefillAlloc
  | EndPrefill
  | ReleaseLayer nat
  | SetWarmFrozen bool
  | ResetCounters
  | SetValidate bool

text \<open>The registry a call leaves behind, whether it returned or threw.\<close>

fun after_call :: "registry_call \<Rightarrow> ExpertRegistry \<Rightarrow> ExpertRegistry" where
  "after_call (ReserveRequest l e step cap stage) r = snd (reserve_request l e step cap stage r)"
| "after_call (ReserveByGid g step cap stage) r = snd (reserve_request_by_gid g step cap stage r)"
| "after_call (AttachDestination op_id cap) r = snd (attach_vram_destination op_id cap r)"
| "after_call (CompleteRequest op_id) r = snd (complete_request op_id r)"
| "after_call (FailRequest op_id) r = snd (fail_request op_id r)"
| "after_call (CompleteDemotion op_id) r = snd (complete_demotion op_id r)"
| "after_call (FailDemotion op_id) r = snd (fail_demotion op_id r)"
| "after_call (DropDemotion op_id) r = snd (drop_demotion op_id r)"
| "after_call (ReleaseLease g) r = snd (release_lease g r)"
| "after_call (GrowHost n) r = snd (grow_host_capacity n r)"
| "after_call (ShrinkHost n) r = snd (shrink_host_capacity n r)"
| "after_call (ReleaseHostTail n) r = snd (release_host_tail n r)"
| "after_call (BeginPrefill n alloc) r = snd (begin_prefill_stream n alloc r)"
| "after_call EndPrefill r = snd (end_prefill_stream r)"
| "after_call (ReleaseLayer l) r = snd (release_layer l r)"
| "after_call (SetWarmFrozen b) r = snd (set_warm_frozen b r)"
| "after_call ResetCounters r = reset_counters r"
| "after_call (SetValidate b) r = set_validate_each_request b r"

text \<open>
  What the four calls that trust their caller rely on. A demotion is dropped only for a request
  that is not a promotion; the Warm tail is surrendered while Warm is not frozen; a prefill begins
  with no shadow resident; Warm thaws when no shadow copy is in flight and no shadow is leased.
\<close>

fun call_allowed :: "registry_call \<Rightarrow> ExpertRegistry \<Rightarrow> bool" where
  "call_allowed (DropDemotion op_id) r = (\<forall>g<total_experts r.
     operation (ent r g) = PROMOTION_PENDING \<longrightarrow> operation_id (ent r g) \<noteq> op_id)"
| "call_allowed (ReleaseHostTail n) r = (\<not> warm_frozen r)"
| "call_allowed (BeginPrefill n alloc) r = (shadow_lru r = [])"
| "call_allowed (SetWarmFrozen b) r = (b \<or> (\<forall>g<total_experts r. \<not> warm_shadow (ent r g)) \<and>
     (\<forall>g\<in>set (shadow_lru r). lease_count (ent r g) = 0))"
| "call_allowed _ r = True"

inductive reachable :: "ExpertRegistry \<Rightarrow> bool" where
  start: "layers * experts < 2 ^ 32 \<Longrightarrow> init layers experts vram host preload r0 = ok () r \<Longrightarrow> reachable r"
| call: "reachable r \<Longrightarrow> call_allowed c r \<Longrightarrow> reachable (after_call c r)"

inductive_cases reachableE: "reachable r"

lemma grow_host_capacity_inv: "reg_inv r \<Longrightarrow> reg_inv (snd (grow_host_capacity n r))"
proof (cases "n \<le> host_capacity r")
  case True
  assume "reg_inv r"
  then show ?thesis using grow_host_capacity_ok[OF _ True] by (metis snd_ok_throw(1))
next
  case False
  assume inv: "reg_inv r"
  then have "\<not> n \<le> host_capacity_usable r" using False inv_sizesD(6)[OF reg_invD(1)[OF inv]] by simp
  then show ?thesis using False inv by (simp add: grow_host_capacity_def)
qed

lemmas registry_call_inv = reserve_request_inv reserve_request_by_gid_inv attach_vram_destination_inv
  complete_request_inv fail_request_inv complete_demotion_inv fail_demotion_inv drop_demotion_inv
  release_lease_inv grow_host_capacity_inv shrink_host_capacity_inv release_host_tail_inv
  begin_prefill_stream_inv end_prefill_stream_inv release_layer_inv set_warm_frozen_inv

lemma after_call_inv: "reg_inv r \<Longrightarrow> call_allowed c r \<Longrightarrow> reg_inv (after_call c r)"
  by (cases c) (auto intro: registry_call_inv simp: reset_counters_def set_validate_each_request_def)

lemma init_inv:
  assumes "layers * experts < 2 ^ 32" "init layers experts vram host preload r0 = ok () r"
  shows "reg_inv r"
proof -
  have v: "0 < vram" using assms(2) by (auto simp: init_def split: if_splits)
  show ?thesis by (rule init_ok[OF assms(1) v, where host = host and preload = preload and r = r0]) (use assms(2) in auto)
qed

lemma reachable_inv: "reachable r \<Longrightarrow> reg_inv r"
  by (induction rule: reachable.induct) (auto intro: init_inv after_call_inv)

subsection \<open>Slot maps\<close>

text \<open>
  The contract of a slot array and its back references: the array names an expert exactly where the
  expert says it is. The VRAM and the host arrays both meet it.
\<close>

locale slot_map =
  fixes wf :: "'s \<Rightarrow> bool"
    and capacity :: "'s \<Rightarrow> nat"
    and holder :: "'s \<Rightarrow> nat \<Rightarrow> nat option"
    and located :: "'s \<Rightarrow> nat \<Rightarrow> nat option"
  assumes agree: "wf s \<Longrightarrow> located s g = Some k \<longleftrightarrow> holder s k = Some g"
    and within: "wf s \<Longrightarrow> holder s k = Some g \<Longrightarrow> k < capacity s"
begin

lemma exclusive: "wf s \<Longrightarrow> located s g = Some k \<Longrightarrow> located s h = Some k \<Longrightarrow> g = h"
  by (simp add: agree)

lemma bounded: "wf s \<Longrightarrow> located s g = Some k \<Longrightarrow> k < capacity s"
  using agree within by blast

lemma residents_fit:
  assumes "wf s"
  shows "finite {g. located s g \<noteq> None}" "card {g. located s g \<noteq> None} \<le> capacity s"
proof -
  let ?G = "{g. located s g \<noteq> None}"
  have inj: "inj_on (\<lambda>g. the (located s g)) ?G"
    by (rule inj_onI) (use exclusive[OF assms] in auto)
  have sub: "(\<lambda>g. the (located s g)) ` ?G \<subseteq> {..<capacity s}" using bounded[OF assms] by auto
  then show "finite ?G" using inj by (meson finite_imageD finite_lessThan finite_subset)
  have "card ?G = card ((\<lambda>g. the (located s g)) ` ?G)" using inj by (simp add: card_image)
  also have "\<dots> \<le> card {..<capacity s}" using sub by (intro card_mono) simp_all
  finally show "card ?G \<le> capacity s" by simp
qed

end

definition vram_holder :: "ExpertRegistry \<Rightarrow> nat \<Rightarrow> nat option" where
  "vram_holder r s = (if s < vram_capacity r \<and> vram_slots r ! s \<noteq> -1 then Some (nat (vram_slots r ! s)) else None)"

definition vram_located :: "ExpertRegistry \<Rightarrow> nat \<Rightarrow> nat option" where
  "vram_located r g =
     (if total_experts r \<le> g then None
      else if owner (ent r g) = HOT_VRAM then Some (nat (slot_idx (ent r g)))
      else if shadow_vram_slot (ent r g) \<noteq> -1 then Some (nat (shadow_vram_slot (ent r g)))
      else None)"

definition host_holder :: "ExpertRegistry \<Rightarrow> nat \<Rightarrow> nat option" where
  "host_holder r s = (if s < host_capacity r \<and> host_slots r ! s \<noteq> -1 then Some (nat (host_slots r ! s)) else None)"

definition host_located :: "ExpertRegistry \<Rightarrow> nat \<Rightarrow> nat option" where
  "host_located r g =
     (if g < total_experts r \<and> owner (ent r g) = WARM_HOST then Some (nat (slot_idx (ent r g))) else None)"

lemma vram_agree:
  assumes inv: "reg_inv r"
  shows "vram_located r g = Some k \<longleftrightarrow> vram_holder r k = Some g"
proof
  note I = reg_invD[OF inv]
  assume "vram_located r g = Some k"
  then have g: "g < total_experts r" and
    "owner (ent r g) = HOT_VRAM \<and> nat (slot_idx (ent r g)) = k \<or> shadow_vram_slot (ent r g) \<noteq> -1 \<and> nat (shadow_vram_slot (ent r g)) = k"
    by (auto simp: vram_located_def split: if_splits)
  then have "k < vram_capacity r \<and> vram_slots r ! k = int g" using inv_vmapD(1,2)[OF I(3) g] by auto
  then show "vram_holder r k = Some g" by (simp add: vram_holder_def)
next
  note I = reg_invD[OF inv]
  assume "vram_holder r k = Some g"
  then have k: "k < vram_capacity r" "vram_slots r ! k \<noteq> -1" "g = nat (vram_slots r ! k)"
    by (auto simp: vram_holder_def split: if_splits)
  then show "vram_located r g = Some k" using inv_vmapD(3)[OF I(3) k(1,2)] by (auto simp: vram_located_def)
qed

lemma host_agree:
  assumes inv: "reg_inv r"
  shows "host_located r g = Some k \<longleftrightarrow> host_holder r k = Some g"
    "host_located r g = Some k \<Longrightarrow> k < host_capacity_usable r"
proof -
  note I = reg_invD[OF inv]
  have loc: "k < host_capacity_usable r \<and> host_slots r ! k = int g" if "host_located r g = Some k"
    using that inv_hmapD(1)[OF I(4), of g] by (auto simp: host_located_def split: if_splits)
  then show "host_located r g = Some k \<Longrightarrow> k < host_capacity_usable r" by simp
  show "host_located r g = Some k \<longleftrightarrow> host_holder r k = Some g"
  proof
    assume "host_located r g = Some k"
    then show "host_holder r k = Some g"
      using loc inv_sizesD(6)[OF I(1)] by (simp add: host_holder_def)
  next
    assume "host_holder r k = Some g"
    then have k: "k < host_capacity r" "host_slots r ! k \<noteq> -1" "g = nat (host_slots r ! k)"
      by (auto simp: host_holder_def split: if_splits)
    then show "host_located r g = Some k" using inv_hmapD(2)[OF I(4) k(1,2)] by (simp add: host_located_def)
  qed
qed

interpretation vram: slot_map reg_inv vram_capacity vram_holder vram_located
  by unfold_locales (auto simp: vram_agree vram_holder_def split: if_splits)

interpretation host: slot_map reg_inv host_capacity_usable host_holder host_located
  by unfold_locales (use host_agree in blast)+

subsection \<open>A small registry\<close>

text \<open>Two layers of three experts, two VRAM slots, two Warm slots, preloaded: experts 0 and 3 are Hot,
  1 and 4 are Warm, 2 and 5 are cold.\<close>

definition small_registry :: ExpertRegistry where
  "small_registry = snd (init 2 3 2 2 True default_registry)"

lemma outcome_ok: "fst m = Inr x \<Longrightarrow> m = ok x (snd m)"
  by (cases m) (simp add: ok_def)

lemma small_registry_reachable: "reachable small_registry"
proof (rule reachable.start)
  have "fst (init 2 3 2 2 True default_registry) = Inr ()" by code_simp
  then show "init 2 3 2 2 True default_registry = ok () small_registry"
    using outcome_ok by (simp add: small_registry_def)
qed simp

lemma call_reachable: "reachable r \<Longrightarrow> call_allowed c r \<Longrightarrow> after_call c r = r' \<Longrightarrow> reachable r'"
  using reachable.call by blast

lemma get_global_id_bound:
  assumes inv: "reg_inv r" and "get_global_id r l e = Inr gid"
  shows "gid < total_experts r"
proof -
  have le: "l < num_layers r" "e < experts_per_layer r" and gid: "gid = u32 (l * experts_per_layer r + e)"
    using assms(2) by (auto simp: get_global_id_def split: if_splits)
  have "l * experts_per_layer r + e < Suc l * experts_per_layer r" using le by simp
  also have "\<dots> \<le> num_layers r * experts_per_layer r" using le by (intro mult_le_mono1) simp
  finally have "l * experts_per_layer r + e < total_experts r"
    using inv_sizes_total[OF reg_invD(1)[OF inv]] by simp
  then show ?thesis using gid mod_less_eq_dividend[of "l * experts_per_layer r + e" "2 ^ 32"] by (simp add: u32_def)
qed

lemma request_spares:
  assumes inv: "reg_inv r" and g: "get_global_id r l e = Inr gid"
  shows "spares gid r (snd (reserve_request l e step cap stage r))"
  by (cases rule: reserve_request_by_gid_cases[OF inv get_global_id_bound[OF inv g], of step cap stage])
    (use g in \<open>simp_all add: reserve_request_def\<close>)

section \<open>Properties\<close>



text \<open>C2: VRAM slots are exclusive. Two experts are never in one VRAM slot, Hot or as shadows of a
  Warm expert, every occupied slot exists, and at most \<open>vram_capacity\<close> experts are resident.\<close>

theorem vram_slots_exclusive:
  assumes "reachable r"
  shows "(\<forall>g h s. vram_located r g = Some s \<and> vram_located r h = Some s \<longrightarrow> g = h \<and> s < vram_capacity r) \<and>
    card {g. vram_located r g \<noteq> None} \<le> vram_capacity r"
  using vram.exclusive[OF reachable_inv[OF assms]] vram.bounded[OF reachable_inv[OF assms]]
    vram.residents_fit(2)[OF reachable_inv[OF assms]] by blast

theorem vram_slots_exclusive_witness:
  "vram_located small_registry 0 = Some 0 \<and> vram_located small_registry 3 = Some 1 \<and>
   card {g. vram_located small_registry g \<noteq> None} \<le> vram_capacity small_registry"
proof (intro conjI)
  show "vram_located small_registry 0 = Some 0" "vram_located small_registry 3 = Some 1" by code_simp+
qed (rule vram_slots_exclusive[OF small_registry_reachable, THEN conjunct2])

text \<open>The Warm tier is exclusive and fits its partition: two Warm experts never share a host
  slot, and every Warm expert lies below the capacity the partition allows.\<close>

theorem host_slots_exclusive:
  assumes "reachable r"
  shows "(\<forall>g h s. host_located r g = Some s \<and> host_located r h = Some s \<longrightarrow> g = h \<and> s < host_capacity_usable r) \<and>
    card {g. host_located r g \<noteq> None} \<le> host_capacity_usable r"
  using host.exclusive[OF reachable_inv[OF assms]] host.bounded[OF reachable_inv[OF assms]]
    host.residents_fit(2)[OF reachable_inv[OF assms]] by blast

text \<open>C4: a request for an expert of the model. It is granted, with a lease taken and, per kind, a
  hit whose VRAM slot holds the expert, a pending operation to wait for, or a fresh transfer with
  its destination and the demotion of its victim; or it throws, and then the expert was idle and not
  Hot: a hit and a coalesced request never fail.\<close>

theorem request_outcome:
  assumes "reachable r" and "get_global_id r l e = Inr gid"
  shows "(\<exists>q r'. reserve_request l e step cap stage r = ok q r' \<and> request_granted gid r q r') \<or>
    (\<exists>err r'. reserve_request l e step cap stage r = throw err r' \<and>
       operation (ent r gid) = OP_NONE \<and> owner (ent r gid) \<noteq> HOT_VRAM)"
proof -
  note inv = reachable_inv[OF assms(1)]
  have g: "gid < total_experts r" using get_global_id_bound[OF inv assms(2)] .
  show ?thesis
    by (cases rule: reserve_request_by_gid_cases[OF inv g, of step cap stage])
      (use assms(2) in \<open>auto simp: reserve_request_def\<close>)
qed

theorem request_outcome_witness:
  "(\<exists>q r'. reserve_request 0 2 1 1 False small_registry = ok q r' \<and> request_granted 2 small_registry q r') \<or>
    (\<exists>err r'. reserve_request 0 2 1 1 False small_registry = throw err r' \<and>
       operation (ent small_registry 2) = OP_NONE \<and> owner (ent small_registry 2) \<noteq> HOT_VRAM)"
proof (rule request_outcome[OF small_registry_reachable])
  show "get_global_id small_registry 0 2 = Inr 2" by code_simp
qed

text \<open>C5: a lease pins an expert, and so does the mark of a prefill. A request for another expert,
  even one that evicts, leaves the catalog entry of a leased or marked expert exactly as it was.\<close>

theorem leased_experts_spared:
  assumes "reachable r" and "get_global_id r l e = Inr gid" and "h < total_experts r" and "h \<noteq> gid"
    and "lease_count (ent r h) \<noteq> 0 \<or> resident_at_prefill_begin (ent r h)"
  shows "ent (snd (reserve_request l e step cap stage r)) h = ent r h"
  using request_spares[OF reachable_inv[OF assms(1)] assms(2), of step cap stage] assms(3-5)
  by (auto simp: spares_def)

theorem leased_experts_spared_witness:
  "let r = after_call (ReserveByGid 0 1 1 False) small_registry in
   lease_count (ent r 0) = 1 \<and> ent (snd (reserve_request 0 2 2 1 False r)) 0 = ent r 0"
proof -
  let ?r = "after_call (ReserveByGid 0 1 1 False) small_registry"
  have r: "reachable ?r" by (intro reachable.call small_registry_reachable) simp
  have c: "get_global_id ?r 0 2 = Inr 2" "0 < total_experts ?r" "lease_count (ent ?r 0) = 1" by code_simp+
  show ?thesis using leased_experts_spared[OF r c(1,2)] c(3) by (simp add: Let_def)
qed

text \<open>C6: while Warm is frozen, requests keep the set of Warm experts: nothing is demoted into it,
  promoted out of it or evicted from it.\<close>

theorem frozen_warm_set_kept:
  assumes "reachable r" and "warm_frozen r" and "get_global_id r l e = Inr gid" and "h < total_experts r"
  shows "owner (ent (snd (reserve_request l e step cap stage r)) h) = WARM_HOST \<longleftrightarrow> owner (ent r h) = WARM_HOST"
  using request_spares[OF reachable_inv[OF assms(1)] assms(3), of step cap stage] assms(2,4)
  by (auto simp: spares_def)

theorem frozen_warm_set_kept_witness:
  "let r = after_call (SetWarmFrozen True) small_registry in
   warm_frozen r \<and> (owner (ent (snd (reserve_request 0 1 1 1 False r)) 1) = WARM_HOST \<longleftrightarrow> owner (ent r 1) = WARM_HOST)"
proof -
  let ?r = "after_call (SetWarmFrozen True) small_registry"
  have a: "call_allowed (SetWarmFrozen True) small_registry" by code_simp
  have r: "reachable ?r" by (intro reachable.call small_registry_reachable a)
  have c: "warm_frozen ?r" "get_global_id ?r 0 1 = Inr 1" "1 < total_experts ?r" by code_simp+
  show ?thesis using frozen_warm_set_kept[OF r c] c(1) by (simp add: Let_def)
qed
end
