(* ===== verification/Registry_Properties.thy ===== *)
theory Registry_Properties
  imports Registry_System
begin

text \<open>
  The life of a transfer, from the reservation to its completion or failure, on reachable registries,
  and the places where a call that its preconditions admit breaks the registry's own audit.
\<close>


subsection \<open>Running a granted transfer to its end\<close>

lemma find_upt_unique: "g < n \<Longrightarrow> P g \<Longrightarrow> (\<And>h. h < n \<Longrightarrow> P h \<Longrightarrow> h = g) \<Longrightarrow> find P [0..<n] = Some g"
proof (cases "find P [0..<n]")
  case None
  assume "g < n" "P g"
  then show ?thesis using None by (simp add: find_None_iff)
next
  case (Some h)
  assume "\<And>h. h < n \<Longrightarrow> P h \<Longrightarrow> h = g"
  then show ?thesis using Some by (metis find_upt_Some)
qed

lemma find_incoming_eq:
  assumes inv: "reg_inv r" and g: "g < total_experts r" "incoming (ent r g)"
  shows "find_incoming_operation (operation_id (ent r g)) r = Some g"
  unfolding find_incoming_operation_def
  by (rule find_upt_unique)
    (use g incoming_facts(11)[OF inv g] inv_sizesD(1)[OF reg_invD(1)[OF inv]] in \<open>auto simp: incoming_def\<close>)

lemma find_victim_eq:
  assumes inv: "reg_inv r" and v: "v < total_experts r" "operation (ent r v) = DEMOTION_PENDING"
  shows "find_operation_victim (operation_id (ent r v)) r = Some v"
  unfolding find_operation_victim_def
  by (rule find_upt_unique)
    (use v reg_invD(7)[OF inv] inv_sizesD(1)[OF reg_invD(1)[OF inv]] in \<open>auto simp: inv_ops_def\<close>)

lemma snd_checked_validate [simp]: "snd (checked_validate x r) = r"
  by (cases "validate_invariants r") (simp_all add: checked_validate_def validated_def)

lemma vram_capacity_push [simp]:
  "vram_capacity (push_hot g r) = vram_capacity r" "vram_capacity (push_warm g r) = vram_capacity r"
  by (simp_all add: push_hot_def push_warm_def split: prod.splits)

lemma complete_request_capacity [simp]: "vram_capacity (snd (complete_request op_id r)) = vram_capacity r"
  by (simp add: complete_request_def complete_shadow_def land_request_def retire_victim_def shadow_touch_def Let_def
      split: option.splits)

lemma landed:
  assumes inv: "reg_inv r" and g: "g < total_experts r" "incoming (ent r g)" "0 \<le> pending_slot_idx (ent r g)"
    and nd: "\<And>v. v < total_experts r \<Longrightarrow> gpu_transfer (ent r v) = D2H_PENDING \<Longrightarrow> operation_id (ent r v) \<noteq> operation_id (ent r g)"
  shows "\<exists>r'. complete_request (operation_id (ent r g)) r = ok () r' \<and> expert_resident_at (ent r' g) \<and>
     vram_located r' g = Some (nat (pending_slot_idx (ent r g)))"
proof -
  let ?s = "nat (pending_slot_idx (ent r g))"
  have nd': "gpu_transfer (ent r v) \<noteq> D2H_PENDING" if "find_operation_victim (operation_id (ent r g)) r = Some v" for v
    using find_victim_Some[OF inv that] nd[of v] by auto
  obtain r' where r': "complete_request (operation_id (ent r g)) r = ok () r'" "reg_inv r'" "expert_resident_at (ent r' g)"
      "vram_slots r' ! ?s = int g"
    using complete_request_ok[OF inv find_incoming_eq[OF inv g(1,2)] g(3) nd'] by metis
  have s: "?s < vram_capacity r" using inv_vresD(1)[OF reg_invD(5)[OF inv] g(1,2)] g(3) by simp
  have cap: "vram_capacity r' = vram_capacity r" using complete_request_capacity[of "operation_id (ent r g)" r] by (simp add: r'(1))
  have "vram_holder r' ?s = Some g" using r'(4) s cap by (simp add: vram_holder_def)
  then show ?thesis using r' vram_agree[OF r'(2)] by auto
qed

section \<open>Properties of the transfers\<close>

text \<open>C7: a completed host-to-device copy lands. A request in flight whose destination is attached and
  whose victim has no device-to-host copy left is completed without a throw, after which the expert is
  resident in exactly the slot that was reserved for it.\<close>

theorem complete_request_lands:
  assumes "reachable r" and "find_incoming_operation op_id r = Some g" and "0 \<le> pending_slot_idx (ent r g)"
    and "\<forall>v<total_experts r. gpu_transfer (ent r v) = D2H_PENDING \<longrightarrow> operation_id (ent r v) \<noteq> op_id"
  shows "\<exists>r'. complete_request op_id r = ok () r' \<and> expert_resident_at (ent r' g) \<and>
     vram_located r' g = Some (nat (pending_slot_idx (ent r g)))"
proof -
  note inv = reachable_inv[OF assms(1)]
  note g = find_incoming_Some[OF inv assms(2)]
  show ?thesis using landed[OF inv g(1,2) assms(3)] assms(4) g(3) by simp
qed

theorem complete_request_lands_witness:
  "let r = after_call (ReserveByGid 2 1 0 False) small_registry in
   \<exists>r'. complete_request 1 r = ok () r' \<and> expert_resident_at (ent r' 2) \<and>
     vram_located r' 2 = Some (nat (pending_slot_idx (ent r 2)))"
proof -
  let ?r = "after_call (ReserveByGid 2 1 0 False) small_registry"
  have r: "reachable ?r" by (intro reachable.call small_registry_reachable) simp
  have "find_incoming_operation 1 ?r = Some 2" "0 \<le> pending_slot_idx (ent ?r 2)"
    "\<forall>v<total_experts ?r. gpu_transfer (ent ?r v) = D2H_PENDING \<longrightarrow> operation_id (ent ?r v) \<noteq> 1"
    by code_simp+
  then show ?thesis using complete_request_lands[OF r] by (simp add: Let_def)
qed





text \<open>\<open>init\<close> succeeds for every capacity but zero, whatever the registry held before, and fills
  VRAM: the audit passes and as many experts are Hot as there are slots, or all of them.\<close>

theorem init_fills_vram:
  assumes "layers * experts < 2 ^ 32" and "0 < vram"
  shows "\<exists>r'. init layers experts vram host preload r = ok () r' \<and> validate_invariants r' = Inr () \<and>
     length (hot_vram_lru r') = min (layers * experts) vram"
  using init_ok[OF assms, where host = host and preload = preload and r = r] reg_inv_validates by metis

subsection \<open>Where the code departs from its own contract\<close>

text \<open>The calls up to a shadow of Warm expert 1, resident and released, in legacy frozen mode.\<close>

definition shadowed_registry :: ExpertRegistry where
  "shadowed_registry = fold after_call
     [SetWarmFrozen True, ReserveByGid 1 1 0 False, CompleteRequest 1, ReleaseLease 1] small_registry"

lemma shadowed_registry_reachable: "reachable shadowed_registry"
proof -
  have "call_allowed (SetWarmFrozen True) small_registry" by code_simp
  then show ?thesis
    unfolding shadowed_registry_def fold_simps
    by (intro reachable.call small_registry_reachable) (assumption | simp)+
qed

text \<open>\<open>begin_prefill_stream\<close> does not accept a resident shadow. In legacy frozen mode, with nothing
  leased and nothing in flight, which is all its two preconditions ask for, it clears the shadow fields
  of the catalog without releasing the VRAM slots and its own audit then throws.\<close>

theorem begin_prefill_rejects_shadows:
  "\<exists>r. reachable r \<and> list_all (\<lambda>e. lease_count e = 0 \<and> operation e = OP_NONE) (catalog r) \<and>
     \<not> prefill_stream r \<and> isl (fst (begin_prefill_stream 0 FreeListOnly r))"
proof (intro exI conjI)
  show "reachable shadowed_registry" by (rule shadowed_registry_reachable)
qed code_simp+

text \<open>Thawing during a shadow copy. \<open>set_warm_frozen false\<close> returns while a shadow copy is in flight;
  when the copy lands, the registry holds a shadow in normal mode, which its own audit rejects.\<close>

theorem thaw_during_shadow_copy:
  "let r = fold after_call [SetWarmFrozen True, ReserveByGid 1 1 0 False] small_registry in
   reachable r \<and> fst (set_warm_frozen False r) = Inr () \<and>
   fst (complete_request 1 (snd (set_warm_frozen False r))) = Inr () \<and>
   isl (validate_invariants (snd (complete_request 1 (snd (set_warm_frozen False r)))))"
  unfolding Let_def
proof (intro conjI)
  have "call_allowed (SetWarmFrozen True) small_registry" by code_simp
  then show "reachable (fold after_call [SetWarmFrozen True, ReserveByGid 1 1 0 False] small_registry)"
    unfolding fold_simps by (intro reachable.call small_registry_reachable) (assumption | simp)+
qed code_simp+

end
