(* ===== verification/Aeon_Errors.thy ===== *)
theory Aeon_Errors
  imports Aeon_Prelude
begin

text \<open>
  The exceptions the components outside the registry throw, with the text of their messages left to
  the fixed part of it: a message that names a runtime value keeps only its prefix.
\<close>

datatype ErrorKind = InvalidRequest | ContextOverflow | Internal

datatype exn =
    invalid_argument string
  | logic_error string
  | runtime_error string
  | out_of_range string
  | GenerationCancelled
  | ConversationError ErrorKind string

end
