(* ===== verification/Text_Generation.thy ===== *)
theory Text_Generation
  imports Aeon_Errors
begin

text \<open>
  The generation loop of \<^verbatim>\<open>src/infrastructure/text/text_generation.cpp\<close>: prefill the prompt as one
  unit, then decode token by token until the stop token, a limit or a cancellation. Token ids,
  positions and sizes are \<open>nat\<close>, with the casts to \<open>uint32_t\<close> written out.
\<close>

datatype StopReason = Eos | MaxNewTokens | ContextLimit | Cancelled | Error

fun stop_reason_name :: "StopReason \<Rightarrow> string" where
  "stop_reason_name Eos = ''eos''"
| "stop_reason_name MaxNewTokens = ''max_new_tokens''"
| "stop_reason_name ContextLimit = ''context_limit''"
| "stop_reason_name Cancelled = ''cancelled''"
| "stop_reason_name Error = ''error''"

text \<open>The callbacks act on a world \<open>'s\<close> that the loop only hands on, and may throw. An empty
  \<^verbatim>\<open>std::function\<close> is \<open>None\<close>.\<close>

type_synonym ('s, 'a) effect = "'s \<Rightarrow> (exn, 's, 'a) outcome"
type_synonym 's PromptPrefill = "nat list \<Rightarrow> ('s, nat) effect"
type_synonym 's TokenStep = "nat \<Rightarrow> nat \<Rightarrow> bool \<Rightarrow> ('s, nat) effect"

record 's GenerationOptions =
  max_new_tokens :: nat
  eos_token_id :: nat
  context_limit :: nat
  stop_on_eos :: bool
  thinking_mode :: bool
  on_token :: "(nat \<Rightarrow> ('s, unit) effect) option"
  cancelled :: "('s, bool) effect option"

record GenerationResult =
  token_ids :: "nat list"
  stop_reason :: StopReason

definition notify :: "'s GenerationOptions \<Rightarrow> nat \<Rightarrow> ('s, unit) effect" where
  "notify opts t s = (case on_token opts of None \<Rightarrow> ok () s | Some f \<Rightarrow> f t s)"

definition poll :: "'s GenerationOptions \<Rightarrow> ('s, bool) effect" where
  "poll opts s = (case cancelled opts of None \<Rightarrow> ok False s | Some f \<Rightarrow> f s)"

definition stops_on :: "'s GenerationOptions \<Rightarrow> nat \<Rightarrow> bool" where
  "stops_on opts t \<longleftrightarrow> stop_on_eos opts \<and> t = eos_token_id opts"

text \<open>The decode loop, from \<open>generated\<close> with \<open>n\<close> turns left. The position is computed in \<open>uint32_t\<close>.\<close>

fun decode_loop :: "'s GenerationOptions \<Rightarrow> 's TokenStep \<Rightarrow> nat \<Rightarrow> StopReason \<Rightarrow> nat \<Rightarrow> nat \<Rightarrow> nat \<Rightarrow> nat list \<Rightarrow>
    ('s, GenerationResult) effect" where
  "decode_loop opts decode plen limit generated 0 next ids s = ok \<lparr>token_ids = ids, stop_reason = limit\<rparr> s"
| "decode_loop opts decode plen limit generated (Suc n) next ids s =
     and_then (poll opts s) (\<lambda>c s1.
       if c then ok \<lparr>token_ids = ids, stop_reason = Cancelled\<rparr> s1
       else and_then (decode next (u32 (u32 plen + generated + (2 ^ 32 - 1))) False s1) (\<lambda>t s2.
         and_then (notify opts t s2) (\<lambda>_ s3.
           if stops_on opts t then ok \<lparr>token_ids = ids @ [t], stop_reason = Eos\<rparr> s3
           else decode_loop opts decode plen limit (Suc generated) n t (ids @ [t]) s3)))"

definition available_tokens :: "'s GenerationOptions \<Rightarrow> nat \<Rightarrow> nat" where
  "available_tokens opts plen =
     (if context_limit opts \<noteq> 0 \<and> context_limit opts - plen < max_new_tokens opts
      then u32 (context_limit opts - plen) else max_new_tokens opts)"

definition context_limited :: "'s GenerationOptions \<Rightarrow> nat \<Rightarrow> bool" where
  "context_limited opts plen \<longleftrightarrow> context_limit opts \<noteq> 0 \<and> context_limit opts - plen < max_new_tokens opts"

definition generate_token_ids ::
  "nat list \<Rightarrow> 's GenerationOptions \<Rightarrow> 's PromptPrefill option \<Rightarrow> 's TokenStep option \<Rightarrow> ('s, GenerationResult) effect" where
  "generate_token_ids prompt opts prefill decode s =
     (if prompt = [] then throw (invalid_argument ''Generation prompt must not be empty'') s
      else if max_new_tokens opts = 0 then throw (invalid_argument ''max_new_tokens must be greater than zero'') s
      else case prefill of
        None \<Rightarrow> throw (invalid_argument ''Generation prompt-prefill callback is required'') s
      | Some pf \<Rightarrow> (case decode of
          None \<Rightarrow> throw (invalid_argument ''Generation step callback is required'') s
        | Some dec \<Rightarrow>
            if context_limit opts \<noteq> 0 \<and> context_limit opts \<le> length prompt
            then throw (invalid_argument ''Prompt does not leave room for generated tokens'') s
            else and_then (pf prompt s) (\<lambda>t s1.
              and_then (notify opts t s1) (\<lambda>_ s2.
                if stops_on opts t then ok \<lparr>token_ids = [t], stop_reason = Eos\<rparr> s2
                else and_then (poll opts s2) (\<lambda>c s3.
                  if c then ok \<lparr>token_ids = [t], stop_reason = Cancelled\<rparr> s3
                  else decode_loop opts dec (length prompt)
                         (if context_limited opts (length prompt) then ContextLimit else MaxNewTokens)
                         1 (available_tokens opts (length prompt) - 1) t [t] s3)))))"

text \<open>The per-token overload: the prompt is walked through the step.\<close>

fun walk_prompt :: "'s TokenStep \<Rightarrow> nat \<Rightarrow> nat list \<Rightarrow> nat \<Rightarrow> ('s, nat) effect" where
  "walk_prompt step index [] next s = ok next s"
| "walk_prompt step index (t # ts) next s =
     and_then (step t (u32 index) True s) (\<lambda>next' s'. walk_prompt step (Suc index) ts next' s')"

definition generate_by_step ::
  "nat list \<Rightarrow> 's GenerationOptions \<Rightarrow> 's TokenStep option \<Rightarrow> ('s, GenerationResult) effect" where
  "generate_by_step prompt opts step s =
     (case step of
        None \<Rightarrow> throw (invalid_argument ''Generation step callback is required'') s
      | Some st \<Rightarrow> generate_token_ids prompt opts (Some (\<lambda>tokens. walk_prompt st 0 tokens 0)) step s)"

subsection \<open>The loop\<close>

text \<open>What the result of a run may be: the ids so far, at most \<open>n\<close> more, a reason that fits, and no
  stop token before the end.\<close>

definition loop_result :: "'s GenerationOptions \<Rightarrow> StopReason \<Rightarrow> nat list \<Rightarrow> nat \<Rightarrow> GenerationResult \<Rightarrow> bool" where
  "loop_result opts limit ids n res \<longleftrightarrow>
     (\<exists>more. token_ids res = ids @ more \<and> length more \<le> n \<and> list_all (\<lambda>t. \<not> stops_on opts t) (butlast more) \<and>
        (stop_reason res = Eos \<and> more \<noteq> [] \<and> stops_on opts (last more) \<or>
         (stop_reason res = limit \<and> length more = n \<or> stop_reason res = Cancelled) \<and>
           list_all (\<lambda>t. \<not> stops_on opts t) more))"

lemma decode_loop_result:
  "decode_loop opts decode plen limit generated n next ids s = ok res s' \<Longrightarrow> loop_result opts limit ids n res"
proof (induction n arbitrary: generated "next" ids s)
  case 0
  then show ?case by (auto simp: loop_result_def)
next
  case (Suc n)
  then obtain c s1 where c: "poll opts s = ok c s1" by (cases "poll opts s" rule: outcome_cases) auto
  show ?case
  proof (cases c)
    case True
    then show ?thesis using Suc.prems c by (auto simp: loop_result_def)
  next
    case False
    then obtain t s3 where t: "(if stops_on opts t then ok \<lparr>token_ids = ids @ [t], stop_reason = Eos\<rparr> s3
           else decode_loop opts decode plen limit (Suc generated) n t (ids @ [t]) s3) = ok res s'"
      using Suc.prems c by (auto simp: and_then_eq_ok)
    show ?thesis
    proof (cases "stops_on opts t")
      case True
      then show ?thesis using t by (auto simp: loop_result_def intro: exI[of _ "[t]"])
    next
      case False
      then have "loop_result opts limit (ids @ [t]) n res" using t Suc.IH by simp
      then obtain more where "token_ids res = ids @ t # more" "length more \<le> n" "list_all (\<lambda>t. \<not> stops_on opts t) (butlast more)"
        "stop_reason res = Eos \<and> more \<noteq> [] \<and> stops_on opts (last more) \<or>
         (stop_reason res = limit \<and> length more = n \<or> stop_reason res = Cancelled) \<and> list_all (\<lambda>t. \<not> stops_on opts t) more"
        by (auto simp: loop_result_def)
      then show ?thesis using False unfolding loop_result_def
        by (intro exI[of _ "t # more"]) (cases more, auto)
    qed
  qed
qed

text \<open>A relation between the generated ids and the world that the callbacks keep is kept by the loop,
  and so is what holds of the world wherever one of them throws.\<close>

lemma decode_loop_inv:
  assumes poll: "\<And>g ids nx s. P g ids nx s \<Longrightarrow> (\<forall>c s1. poll opts s = ok c s1 \<longrightarrow> P g ids nx s1) \<and> (\<forall>e s1. poll opts s = throw e s1 \<longrightarrow> Q e s1)"
    and step: "\<And>g ids nx s. P g ids nx s \<Longrightarrow> g < bound \<Longrightarrow> (\<forall>t s1. decode nx (u32 (u32 plen + g + (2 ^ 32 - 1))) False s = ok t s1 \<longrightarrow> P (Suc g) (ids @ [t]) t s1) \<and>
        (\<forall>e s1. decode nx (u32 (u32 plen + g + (2 ^ 32 - 1))) False s = throw e s1 \<longrightarrow> Q e s1)"
    and tell: "\<And>g ids nx s t. P g ids nx s \<Longrightarrow> (\<forall>u s1. notify opts t s = ok u s1 \<longrightarrow> P g ids nx s1) \<and> (\<forall>e s1. notify opts t s = throw e s1 \<longrightarrow> Q e s1)"
  shows "P g ids nx s \<Longrightarrow> g + n \<le> bound \<Longrightarrow>
    (\<forall>res s'. decode_loop opts decode plen limit g n nx ids s = ok res s' \<longrightarrow> (\<exists>h nx'. P h (token_ids res) nx' s')) \<and>
    (\<forall>e s'. decode_loop opts decode plen limit g n nx ids s = throw e s' \<longrightarrow> Q e s')"
proof (induction n arbitrary: g nx ids s)
  case 0
  then show ?case by auto
next
  case (Suc n)
  show ?case
  proof (cases "poll opts s" rule: outcome_cases)
    case (throw e s1)
    then show ?thesis using poll[OF Suc.prems(1)] by simp
  next
    case (ok c s1)
    then have p1: "P g ids nx s1" using poll[OF Suc.prems(1)] by simp
    note st = step[OF p1] and gb = Suc.prems(2)
    show ?thesis
    proof (cases "decode nx (u32 (u32 plen + g + (2 ^ 32 - 1))) False s1" rule: outcome_cases)
      case (throw e s2)
      then show ?thesis using ok st gb p1 by auto
    next
      case dec: (ok t s2)
      then have p2: "P (Suc g) (ids @ [t]) t s2" using st gb by simp
      show ?thesis
      proof (cases "notify opts t s2" rule: outcome_cases)
        case (throw e s3)
        then show ?thesis using ok dec tell[OF p2, of t] p1 by auto
      next
        case tell': (ok u s3)
        then have p3: "P (Suc g) (ids @ [t]) t s3" using tell[OF p2, of t] by simp
        show ?thesis using ok dec tell' p1 p3 Suc.IH[OF p3] gb by auto
      qed
    qed
  qed
qed

section \<open>Properties of the generation loop\<close>

text \<open>C16: the reply's length and its stop reason. A run that returns has generated at least one token
  and no more than were asked for or than the context leaves room for; no token before the last stops
  it; and the reason tells the truth: \<open>Eos\<close> exactly when the last token is the stop token, a limit only when it
  was reached, and the context limit only when it is the smaller one.\<close>

theorem generation_stops_right:
  assumes "generate_token_ids prompt opts prefill decode s = ok res s'" and "context_limit opts < 2 ^ 32"
  shows "1 \<le> length (token_ids res) \<and> length (token_ids res) \<le> max_new_tokens opts \<and>
    (context_limit opts \<noteq> 0 \<longrightarrow> length prompt + length (token_ids res) \<le> context_limit opts) \<and>
    list_all (\<lambda>t. \<not> stops_on opts t) (butlast (token_ids res)) \<and>
    (stop_reason res = Eos \<longleftrightarrow> stops_on opts (last (token_ids res))) \<and>
    (stop_reason res = MaxNewTokens \<longrightarrow> length (token_ids res) = max_new_tokens opts) \<and>
    (stop_reason res = ContextLimit \<longrightarrow> length prompt + length (token_ids res) = context_limit opts \<and>
       length (token_ids res) < max_new_tokens opts) \<and>
    stop_reason res \<noteq> Error"
proof -
  define n where "n = available_tokens opts (length prompt)"
  define limit where "limit = (if context_limited opts (length prompt) then ContextLimit else MaxNewTokens)"
  obtain pf dec where g: "prompt \<noteq> []" "max_new_tokens opts \<noteq> 0" "prefill = Some pf" "decode = Some dec"
    "\<not> (context_limit opts \<noteq> 0 \<and> context_limit opts \<le> length prompt)"
    using assms(1) by (auto simp: generate_token_ids_def split: if_splits option.splits)
  have n: "1 \<le> n" "n \<le> max_new_tokens opts" "context_limit opts \<noteq> 0 \<longrightarrow> length prompt + n \<le> context_limit opts"
    "context_limited opts (length prompt) \<longrightarrow> length prompt + n = context_limit opts \<and> n < max_new_tokens opts"
    "\<not> context_limited opts (length prompt) \<longrightarrow> n = max_new_tokens opts"
    using g assms(2) by (auto simp: n_def available_tokens_def context_limited_def u32_def)
  define K where "K = (\<lambda>t s2. if stops_on opts t then ok \<lparr>token_ids = [t], stop_reason = Eos\<rparr> s2
                else and_then (poll opts s2) (\<lambda>c s3.
                  if c then ok \<lparr>token_ids = [t], stop_reason = Cancelled\<rparr> s3
                  else decode_loop opts dec (length prompt) limit 1 (n - 1) t [t] s3))"
  have "generate_token_ids prompt opts prefill decode s =
      and_then (pf prompt s) (\<lambda>t s1. and_then (notify opts t s1) (\<lambda>_. K t))"
    using g(1-4) unfolding generate_token_ids_def K_def n_def limit_def if_not_P[OF g(5)] by simp
  then have "and_then (pf prompt s) (\<lambda>t s1. and_then (notify opts t s1) (\<lambda>_. K t)) = ok res s'" using assms(1) by simp
  then obtain t s2 where t: "K t s2 = ok res s'" by (auto simp: and_then_eq_ok)
  have "\<exists>more. token_ids res = t # more \<and> length more \<le> n - 1 \<and> list_all (\<lambda>t. \<not> stops_on opts t) (butlast (t # more)) \<and>
     (stop_reason res = Eos \<and> stops_on opts (last (t # more)) \<or>
      (stop_reason res = limit \<and> length more = n - 1 \<or> stop_reason res = Cancelled) \<and> \<not> stops_on opts (last (t # more)))"
  proof (cases "stops_on opts t")
    case True
    then show ?thesis using t by (auto simp: K_def)
  next
    case False
    then obtain c s3 where c: "(if c then ok \<lparr>token_ids = [t], stop_reason = Cancelled\<rparr> s3
                  else decode_loop opts dec (length prompt) limit 1 (n - 1) t [t] s3) = ok res s'"
      using t unfolding K_def by (simp only: if_False and_then_eq_ok) blast
    show ?thesis
    proof (cases c)
      case True
      then have "token_ids res = [t]" "stop_reason res = Cancelled" using c by auto
      then show ?thesis using False by simp
    next
      case go: False
      then have "loop_result opts limit [t] (n - 1) res" using c decode_loop_result by simp
      then obtain more where m: "token_ids res = t # more" "length more \<le> n - 1" "list_all (\<lambda>t. \<not> stops_on opts t) (butlast more)"
        "stop_reason res = Eos \<and> more \<noteq> [] \<and> stops_on opts (last more) \<or>
         (stop_reason res = limit \<and> length more = n - 1 \<or> stop_reason res = Cancelled) \<and> list_all (\<lambda>t. \<not> stops_on opts t) more"
        unfolding loop_result_def by auto
      have "list_all (\<lambda>t. \<not> stops_on opts t) more \<Longrightarrow> \<not> stops_on opts (last (t # more))"
        using False by (simp add: list_all_iff)
      then show ?thesis using m False by (intro exI[of _ more]) auto
    qed
  qed
  then obtain more where m: "token_ids res = t # more" "length more \<le> n - 1" "list_all (\<lambda>t. \<not> stops_on opts t) (butlast (t # more))"
     "stop_reason res = Eos \<and> stops_on opts (last (t # more)) \<or>
      (stop_reason res = limit \<and> length more = n - 1 \<or> stop_reason res = Cancelled) \<and> \<not> stops_on opts (last (t # more))"
    by blast
  show ?thesis
    using m n by (auto simp: limit_def split: if_splits)
qed


text \<open>A run that counts up from the prefill's token and stops at token 8.\<close>

definition counting_options :: "unit GenerationOptions" where
  "counting_options = \<lparr>max_new_tokens = 10, eos_token_id = 8, context_limit = 16, stop_on_eos = True,
     thinking_mode = False, on_token = None, cancelled = None\<rparr>"

theorem generation_stops_right_witness:
  "\<exists>res. generate_token_ids [3, 4] counting_options (Some (\<lambda>_. ok 5)) (Some (\<lambda>t _ _. ok (Suc t))) () = ok res () \<and>
     token_ids res = [5, 6, 7, 8] \<and> stop_reason res = Eos \<and> length [3, 4 :: nat] + length (token_ids res) \<le> 16"
proof -
  let ?r = "\<lparr>token_ids = [5, 6, 7, 8], stop_reason = Eos\<rparr>"
  have e: "generate_token_ids [3, 4] counting_options (Some (\<lambda>_. ok 5)) (Some (\<lambda>t _ _. ok (Suc t))) () = ok ?r ()"
    by (simp add: generate_token_ids_def counting_options_def notify_def poll_def stops_on_def
        available_tokens_def context_limited_def numeral_eq_Suc)
  show ?thesis
    using generation_stops_right[OF e] e by (simp add: counting_options_def)
qed

end
