(* ===== verification/Session.thy ===== *)
theory Session
  imports Text_Generation
begin

text \<open>
  One conversation's state across turns: the record of the tokens the device state covers
  (\<^verbatim>\<open>src/infrastructure/session/prefix_record.hpp\<close>) and the engine that keeps it next to the device state
  (\<^verbatim>\<open>src/architecture/deepseek_v4/runtime/v4_engine.hpp\<close>, \<open>generate\<close> and what it calls), with the guard of a
  conversation turn (\<^verbatim>\<open>v4_conversation.hpp\<close>).

  The graph's forward passes, the sampler, the tokenizer and the host's sizes are a parameter, the record
  \<open>backend\<close> of functions on a device state of any type. Timing, profiling, telemetry and the dump of logits
  are left out. Offsets of the prefill loop are not wrapped: they stay below twice the context capacity.
\<close>

lemma case_outcome [simp]: "case_prod f (ok x s) = f (Inr x) s" "case_prod f (throw e s) = f (Inl e) s"
  by (simp_all add: ok_def throw_def)

subsection \<open>The resident-state record\<close>

datatype ReuseVerdict = Cold | Reused | KeyChanged | Diverged | NoTail | StaleState | Disabled

record ReuseDecision =
  verdict :: ReuseVerdict
  start :: nat
  diverged_at :: nat

record PrefixRecord =
  ids :: "nat list"
  key :: string

definition clear :: "PrefixRecord \<Rightarrow> PrefixRecord" where
  "clear p = p\<lparr>ids := [], key := []\<rparr>"

definition begin_record :: "string \<Rightarrow> PrefixRecord \<Rightarrow> PrefixRecord" where
  "begin_record computation_key p = (clear p)\<lparr>key := computation_key\<rparr>"

definition feed :: "nat \<Rightarrow> nat \<Rightarrow> (PrefixRecord, unit) effect" where
  "feed position token_id p =
     (if position \<noteq> length (ids p) then throw (logic_error ''PrefixRecord::feed: position is not the next expected position'') p
      else ok () (p\<lparr>ids := ids p @ [token_id]\<rparr>))"

fun first_difference :: "nat \<Rightarrow> nat list \<Rightarrow> nat list \<Rightarrow> nat option" where
  "first_difference index (a # as) (b # bs) = (if a \<noteq> b then Some index else first_difference (Suc index) as bs)"
| "first_difference index _ _ = None"

definition plan :: "nat list \<Rightarrow> string \<Rightarrow> PrefixRecord \<Rightarrow> ReuseDecision" where
  "plan prompt computation_key p =
     (if ids p = [] then \<lparr>verdict = Cold, start = 0, diverged_at = 0\<rparr>
      else if key p \<noteq> computation_key then \<lparr>verdict = KeyChanged, start = 0, diverged_at = 0\<rparr>
      else if length prompt \<le> length (ids p) then \<lparr>verdict = NoTail, start = 0, diverged_at = 0\<rparr>
      else case first_difference 0 (ids p) prompt of
             Some index \<Rightarrow> \<lparr>verdict = Diverged, start = 0, diverged_at = u32 index\<rparr>
           | None \<Rightarrow> \<lparr>verdict = Reused, start = u32 (length (ids p)), diverged_at = 0\<rparr>)"

fun verdict_name :: "ReuseVerdict \<Rightarrow> string" where
  "verdict_name Cold = ''cold''"
| "verdict_name Reused = ''reused''"
| "verdict_name KeyChanged = ''key_changed''"
| "verdict_name Diverged = ''diverged''"
| "verdict_name NoTail = ''no_tail''"
| "verdict_name StaleState = ''stale_state''"
| "verdict_name Disabled = ''disabled''"

subsection \<open>The engine\<close>

text \<open>What the engine drives and the host-side model does not look into: the graph's forward passes, the
  sampler, the host's state epoch and sizes, and the tokenizer.\<close>

record ('d, 'l, 'c) backend =
  forward_token :: "nat \<Rightarrow> nat \<Rightarrow> ('d, 'l) effect"
  forward_window :: "nat list \<Rightarrow> nat \<Rightarrow> nat \<Rightarrow> ('d, 'l) effect"
  select :: "'l \<Rightarrow> ('d, nat) effect"
  set_config :: "'c \<Rightarrow> ('d, unit) effect"
  reset_generation_state :: "'d \<Rightarrow> 'd"
  state_epoch :: "'d \<Rightarrow> nat"
  context_capacity :: nat
  prefill_window_tokens :: nat
  prefill_chunk_tokens :: nat
  tokenizer_eos :: nat
  tokenizer_decode :: "nat list \<Rightarrow> string"

record ('d, 'w) V4Engine =
  ready :: bool
  session :: PrefixRecord
  session_epoch :: nat
  device :: 'd
  world :: 'w

record V4Reply =
  reply_text :: string
  reply_token_ids :: "nat list"
  reply_stop_reason :: StopReason
  prompt_tokens :: nat
  reused_tokens :: nat
  prefilled_tokens :: nat
  reuse_verdict :: ReuseVerdict

text \<open>Running an effect of the device, of the caller's callbacks or of the record inside the engine.\<close>

definition on_device :: "('d, 'a) effect \<Rightarrow> (('d, 'w) V4Engine, 'a) effect" where
  "on_device m e = map_prod id (\<lambda>d. e\<lparr>device := d\<rparr>) (m (device e))"

definition on_world :: "('w, 'a) effect \<Rightarrow> (('d, 'w) V4Engine, 'a) effect" where
  "on_world m e = map_prod id (\<lambda>w. e\<lparr>world := w\<rparr>) (m (world e))"

definition on_session :: "(PrefixRecord, 'a) effect \<Rightarrow> (('d, 'w) V4Engine, 'a) effect" where
  "on_session m e = map_prod id (\<lambda>p. e\<lparr>session := p\<rparr>) (m (session e))"

definition end_session :: "('d, 'w) V4Engine \<Rightarrow> ('d, 'w) V4Engine" where
  "end_session e = e\<lparr>session := clear (session e)\<rparr>"

definition advance :: "('d, 'l, 'c) backend \<Rightarrow> nat \<Rightarrow> nat \<Rightarrow> (('d, 'w) V4Engine, nat) effect" where
  "advance B token_id position e =
     and_then (on_device (forward_token B token_id position) e) (\<lambda>logits e1.
       and_then (on_session (feed position token_id) e1) (\<lambda>_. on_device (select B logits)))"

definition prefill_chunk_for :: "('d, 'l, 'c) backend \<Rightarrow> nat \<Rightarrow> nat" where
  "prefill_chunk_for B tokens = max 1 (min (prefill_chunk_tokens B) tokens)"

definition prefill_window_for :: "('d, 'l, 'c) backend \<Rightarrow> nat \<Rightarrow> nat" where
  "prefill_window_for B tokens = max 1 (min (prefill_window_tokens B) tokens)"

text \<open>The windows of the prefill, from \<open>offset\<close>. \<open>logits\<close> is \<open>None\<close> while the source's pointer is null; the
  window is at least one, which \<open>prefill_window_for\<close> ensures.\<close>

function prefill_windows :: "('d, 'l, 'c) backend \<Rightarrow> 'w GenerationOptions \<Rightarrow> nat \<Rightarrow> nat \<Rightarrow> nat list \<Rightarrow> nat \<Rightarrow> 'l option \<Rightarrow>
    (('d, 'w) V4Engine, 'l option) effect" where
  "prefill_windows B opts window chunk tokens offset logits e =
     (if offset < length tokens \<and> 0 < window then
        and_then (on_world (poll opts) e) (\<lambda>c e1.
          if c then throw GenerationCancelled e1
          else let span = min window (length tokens - offset) in
            and_then (on_device (forward_window B (take span (drop offset tokens)) offset (min chunk span)) e1) (\<lambda>l e2.
              and_then (for_each (\<lambda>k. on_session (feed (offset + k) (tokens ! (offset + k)))) [0..<span] e2) (\<lambda>_ e3.
                prefill_windows B opts window chunk tokens (offset + window) (Some l) e3)))
      else ok logits e)"
  by pat_completeness auto
termination by (relation "measure (\<lambda>(B, opts, window, chunk, tokens, offset, l, e). length tokens - offset)") auto

text \<open>The prefill step: a cancellation keeps the record, every other throw clears it. A prompt that is
  covered already leaves no logits to sample from; the source would hand the sampler a null pointer.\<close>

definition prefill_step :: "('d, 'l, 'c) backend \<Rightarrow> 'w GenerationOptions \<Rightarrow> nat \<Rightarrow> nat \<Rightarrow> nat \<Rightarrow> nat list \<Rightarrow> (('d, 'w) V4Engine, nat) effect" where
  "prefill_step B opts first window chunk tokens e =
     (case prefill_windows B opts window chunk tokens first None e of
        (Inl GenerationCancelled, e1) \<Rightarrow> throw GenerationCancelled e1
      | (Inl err, e1) \<Rightarrow> throw err (end_session e1)
      | (Inr None, e1) \<Rightarrow> throw (logic_error ''no logits'') e1
      | (Inr (Some l), e1) \<Rightarrow> on_device (select B l) e1)"

text \<open>The caller's options with the engine's stop token and context limit, acting on the engine.\<close>

definition loop_options :: "('d, 'l, 'c) backend \<Rightarrow> 'w GenerationOptions \<Rightarrow> ('d, 'w) V4Engine GenerationOptions" where
  "loop_options B opts =
     \<lparr>max_new_tokens = max_new_tokens opts, eos_token_id = tokenizer_eos B, context_limit = context_capacity B,
      stop_on_eos = stop_on_eos opts, thinking_mode = thinking_mode opts,
      on_token = map_option (\<lambda>f t. on_world (f t)) (on_token opts),
      cancelled = map_option on_world (cancelled opts)\<rparr>"

definition reuse_decision :: "('d, 'l, 'c) backend \<Rightarrow> nat list \<Rightarrow> bool \<Rightarrow> string \<Rightarrow> ('d, 'w) V4Engine \<Rightarrow> ReuseDecision" where
  "reuse_decision B prompt reuse_prefix computation_key e =
     (if reuse_prefix then
        let decision = plan prompt computation_key (session e) in
        if verdict decision = Reused \<and> session_epoch e \<noteq> state_epoch B (device e)
        then decision\<lparr>verdict := StaleState, start := 0\<rparr> else decision
      else \<lparr>verdict = Cold, start = 0, diverged_at = 0\<rparr>)"

definition cold_start :: "('d, 'l, 'c) backend \<Rightarrow> string \<Rightarrow> ('d, 'w) V4Engine \<Rightarrow> ('d, 'w) V4Engine" where
  "cold_start B computation_key e =
     (let d = reset_generation_state B (device e) in
      e\<lparr>device := d, session := begin_record computation_key (session e), session_epoch := state_epoch B d\<rparr>)"

definition visible_text :: "('d, 'l, 'c) backend \<Rightarrow> nat list \<Rightarrow> string" where
  "visible_text B generated =
     tokenizer_decode B (if generated \<noteq> [] \<and> last generated = tokenizer_eos B then butlast generated else generated)"

definition generate :: "('d, 'l, 'c) backend \<Rightarrow> nat list \<Rightarrow> 'w GenerationOptions \<Rightarrow> 'c \<Rightarrow> bool \<Rightarrow> string \<Rightarrow> (('d, 'w) V4Engine, V4Reply) effect" where
  "generate B prompt opts sampling reuse_prefix computation_key e =
     (if \<not> ready e then throw (logic_error ''V4Engine::generate: the engine was not initialized'') e
      else if prompt = [] then throw (runtime_error ''V4Engine::generate: the prompt has no tokens'') e
      else if context_capacity B \<le> length prompt
      then throw (runtime_error ''V4Engine::generate: the prompt leaves no room to generate'') e
      else
        let decision = reuse_decision B prompt reuse_prefix computation_key e;
            first = start decision;
            e1 = (if first = 0 then cold_start B computation_key e else e);
            tail = u32 (length prompt) - first;
            reply = \<lparr>reply_text = [], reply_token_ids = [], reply_stop_reason = Error,
                     prompt_tokens = u32 (length prompt), reused_tokens = first, prefilled_tokens = tail,
                     reuse_verdict = verdict decision\<rparr>
        in and_then (on_device (set_config B sampling) e1) (\<lambda>_ e2.
          case generate_token_ids prompt (loop_options B opts)
                 (Some (prefill_step B opts first (prefill_window_for B tail) (prefill_chunk_for B tail)))
                 (Some (\<lambda>t position _. advance B t position)) e2 of
            (Inl GenerationCancelled, e3) \<Rightarrow> ok (reply\<lparr>reply_stop_reason := Cancelled\<rparr>) e3
          | (Inl err, e3) \<Rightarrow> throw err e3
          | (Inr generated, e3) \<Rightarrow>
              ok (reply\<lparr>reply_token_ids := token_ids generated, reply_stop_reason := stop_reason generated,
                        reply_text := visible_text B (token_ids generated)\<rparr>) e3))"


text \<open>The guard of a conversation turn around \<open>generate\<close> in \<^verbatim>\<open>V4Conversation::run\<close>.\<close>

definition run_generate :: "('d, 'l, 'c) backend \<Rightarrow> nat list \<Rightarrow> 'w GenerationOptions \<Rightarrow> 'c \<Rightarrow> string \<Rightarrow> (('d, 'w) V4Engine, V4Reply) effect" where
  "run_generate B prompt opts sampling computation_key e =
     (case generate B prompt opts sampling True computation_key e of
        (Inl (ConversationError k m), e1) \<Rightarrow> throw (ConversationError k m) e1
      | (Inl err, e1) \<Rightarrow> throw (ConversationError Internal ''generation failed'') (end_session e1)
      | (Inr reply, e1) \<Rightarrow> ok reply e1)"

subsection \<open>The record and the device state\<close>

text \<open>What the engine relies on of the code it drives. \<open>contents\<close> reads off a device state the tokens
  its layers have been advanced by. A forward pass that returns appends the tokens it was given and keeps
  the epoch; sampling and its configuration change neither; a reset empties the state; and a forward pass
  that throws does not throw the two exceptions that mean something else to the engine.\<close>

definition plain_failure :: "exn \<Rightarrow> bool" where
  "plain_failure e \<longleftrightarrow> e \<noteq> GenerationCancelled \<and> (\<forall>k m. e \<noteq> ConversationError k m)"

definition sound_backend :: "('d, 'l, 'c) backend \<Rightarrow> ('d \<Rightarrow> nat list) \<Rightarrow> bool" where
  "sound_backend B contents \<longleftrightarrow>
     (\<forall>t p d l d'. forward_token B t p d = ok l d' \<longrightarrow> contents d' = contents d @ [t] \<and> state_epoch B d' = state_epoch B d) \<and>
     (\<forall>ts p c d l d'. forward_window B ts p c d = ok l d' \<longrightarrow> contents d' = contents d @ ts \<and> state_epoch B d' = state_epoch B d) \<and>
     (\<forall>t p d e d'. forward_token B t p d = throw e d' \<longrightarrow> plain_failure e) \<and>
     (\<forall>ts p c d e d'. forward_window B ts p c d = throw e d' \<longrightarrow> plain_failure e) \<and>
     (\<forall>l d. contents (snd (select B l d)) = contents d \<and> state_epoch B (snd (select B l d)) = state_epoch B d) \<and>
     (\<forall>c d. contents (snd (set_config B c d)) = contents d \<and> state_epoch B (snd (set_config B c d)) = state_epoch B d) \<and>
     (\<forall>d. contents (reset_generation_state B d) = [])"

lemma sound_backendD:
  assumes "sound_backend B contents"
  shows "forward_token B t p d = ok l d' \<Longrightarrow> contents d' = contents d @ [t] \<and> state_epoch B d' = state_epoch B d"
    "forward_window B ts p c d = ok l d' \<Longrightarrow> contents d' = contents d @ ts \<and> state_epoch B d' = state_epoch B d"
    "forward_token B t p d = throw e d' \<Longrightarrow> plain_failure e"
    "forward_window B ts p c d = throw e d' \<Longrightarrow> plain_failure e"
    "contents (snd (select B l d)) = contents d" "state_epoch B (snd (select B l d)) = state_epoch B d"
    "contents (snd (set_config B s d)) = contents d" "state_epoch B (snd (set_config B s d)) = state_epoch B d"
    "contents (reset_generation_state B d) = []"
  using assms unfolding sound_backend_def by (elim conjE; metis)+

text \<open>The record and the device agree; the weaker form is what holds between turns.\<close>

definition synced :: "('d, 'l, 'c) backend \<Rightarrow> ('d \<Rightarrow> nat list) \<Rightarrow> ('d, 'w) V4Engine \<Rightarrow> nat list \<Rightarrow> bool" where
  "synced B contents e ts \<longleftrightarrow> session_epoch e = state_epoch B (device e) \<and> ids (session e) = ts \<and> contents (device e) = ts"

definition in_step :: "('d, 'l, 'c) backend \<Rightarrow> ('d \<Rightarrow> nat list) \<Rightarrow> ('d, 'w) V4Engine \<Rightarrow> bool" where
  "in_step B contents e \<longleftrightarrow>
     (ids (session e) \<noteq> [] \<and> session_epoch e = state_epoch B (device e) \<longrightarrow> ids (session e) = contents (device e))"

lemma synced_in_step: "synced B contents e ts \<Longrightarrow> in_step B contents e"
  by (simp add: synced_def in_step_def)

lemma end_session_in_step [simp]: "in_step B contents (end_session e)"
  by (simp add: in_step_def end_session_def clear_def)

lemma on_device_eq:
  "on_device m e = ok x e' \<longleftrightarrow> (\<exists>d. m (device e) = ok x d \<and> e' = e\<lparr>device := d\<rparr>)"
  "on_device m e = throw err e' \<longleftrightarrow> (\<exists>d. m (device e) = throw err d \<and> e' = e\<lparr>device := d\<rparr>)"
  by (cases "m (device e)" rule: outcome_cases; auto simp: on_device_def ok_def throw_def)+

lemma on_world_eq:
  "on_world m e = ok x e' \<longleftrightarrow> (\<exists>w. m (world e) = ok x w \<and> e' = e\<lparr>world := w\<rparr>)"
  "on_world m e = throw err e' \<longleftrightarrow> (\<exists>w. m (world e) = throw err w \<and> e' = e\<lparr>world := w\<rparr>)"
  by (cases "m (world e)" rule: outcome_cases; auto simp: on_world_def ok_def throw_def)+

lemma synced_world [simp]: "synced B contents (e\<lparr>world := w\<rparr>) ts = synced B contents e ts"
  by (simp add: synced_def)

lemma feed_next: "length (ids (session e)) = p \<Longrightarrow>
    on_session (feed p t) e = ok () (e\<lparr>session := (session e)\<lparr>ids := ids (session e) @ [t]\<rparr>\<rparr>)"
  by (simp add: on_session_def feed_def ok_def)

lemma feed_span:
  assumes "length (ids (session e)) = offset" and "offset + m \<le> length tokens"
  shows "for_each (\<lambda>k. on_session (feed (offset + k) (tokens ! (offset + k)))) [0..<m] e =
     ok () (e\<lparr>session := (session e)\<lparr>ids := ids (session e) @ take m (drop offset tokens)\<rparr>\<rparr>)"
  using assms
proof (induction m)
  case 0
  then show ?case by simp
next
  case (Suc n)
  have "take (Suc n) (drop offset tokens) = take n (drop offset tokens) @ [tokens ! (offset + n)]"
    using Suc.prems by (simp add: take_Suc_conv_app_nth)
  moreover have "for_each (\<lambda>k. on_session (feed (offset + k) (tokens ! (offset + k)))) [0..<n] e =
     ok () (e\<lparr>session := (session e)\<lparr>ids := ids (session e) @ take n (drop offset tokens)\<rparr>\<rparr>)"
    using Suc by simp
  ultimately show ?case
    using Suc.prems by (simp add: for_each_append feed_next)
qed

lemma advance_synced:
  assumes B: "sound_backend B contents" and s: "synced B contents e ts" and p: "p = length ts"
  shows "(\<forall>t' e'. advance B t p e = ok t' e' \<longrightarrow> synced B contents e' (ts @ [t])) \<and>
    (\<forall>err e'. advance B t p e = throw err e' \<longrightarrow> plain_failure err \<or> synced B contents e' (ts @ [t]))"
proof (cases "forward_token B t p (device e)" rule: outcome_cases)
  case (throw err d)
  then have "on_device (forward_token B t p) e = throw err (e\<lparr>device := d\<rparr>)" by (simp add: on_device_eq)
  then show ?thesis using sound_backendD(3)[OF B throw] by (simp add: advance_def)
next
  case (ok l d)
  then have o: "on_device (forward_token B t p) e = ok l (e\<lparr>device := d\<rparr>)" by (simp add: on_device_eq)
  let ?e = "e\<lparr>device := d, session := (session e)\<lparr>ids := ids (session e) @ [t]\<rparr>\<rparr>"
  have f: "on_session (feed p t) (e\<lparr>device := d\<rparr>) = ok () ?e"
    using s p by (subst feed_next) (simp_all add: synced_def)
  have sy: "synced B contents ?e (ts @ [t])" using sound_backendD(1)[OF B ok] s by (simp add: synced_def)
  have "synced B contents (?e\<lparr>device := snd (select B l d)\<rparr>) (ts @ [t])"
    using sound_backendD[OF B] sy by (simp add: synced_def)
  then show ?thesis
    by (cases "select B l d" rule: outcome_cases) (auto simp: advance_def o f on_device_eq)
qed

lemma prefill_windows_synced:
  fixes B :: "('d, 'l, 'c) backend" and e :: "('d, 'w) V4Engine"
  assumes B: "sound_backend B contents" and w: "0 < window"
  shows "synced B contents e (take offset tokens) \<Longrightarrow> offset < length tokens \<or> logits \<noteq> None \<Longrightarrow>
    (\<forall>l e'. prefill_windows B opts window chunk tokens offset logits e = ok l e' \<longrightarrow> synced B contents e' tokens \<and> l \<noteq> None) \<and>
    (\<forall>err e'. prefill_windows B opts window chunk tokens offset logits e = throw err e' \<longrightarrow>
       plain_failure err \<or> (\<exists>n. synced B contents e' (take n tokens)))"
proof (induction "length tokens - offset" arbitrary: offset logits e rule: less_induct)
  case less
  note sy = less.prems(1)
  show ?case
  proof (cases "offset < length tokens")
    case False
    then show ?thesis using less.prems by (subst (1 2) prefill_windows.simps) auto
  next
    case True
    let ?n = "min window (length tokens - offset)"
    let ?ts = "take ?n (drop offset tokens)"
    show ?thesis
    proof (cases "poll opts (world e)" rule: outcome_cases)
      case (throw err w)
      then have "on_world (poll opts) e = throw err (e\<lparr>world := w\<rparr>)" by (simp add: on_world_eq)
      then show ?thesis using True assms(2) sy by (subst (1 2) prefill_windows.simps) auto
    next
      case (ok c w)
      then have p: "on_world (poll opts) e = ok c (e\<lparr>world := w\<rparr>)" by (simp add: on_world_eq)
      show ?thesis
      proof (cases c)
        case c: True
        then show ?thesis using True assms(2) sy p by (subst (1 2) prefill_windows.simps) auto
      next
        case c: False
        show ?thesis
        proof (cases "forward_window B ?ts offset (min chunk ?n) (device e)" rule: outcome_cases)
          case (throw err d)
          then have "on_device (forward_window B ?ts offset (min chunk ?n)) (e\<lparr>world := w\<rparr>) = throw err (e\<lparr>world := w, device := d\<rparr>)"
            by (simp add: on_device_eq)
          moreover have "plain_failure err" using sound_backendD(4)[OF B throw] .
          ultimately show ?thesis using True assms(2) p c by (subst (1 2) prefill_windows.simps) (auto simp: Let_def)
        next
          case fw: (ok l d)
          then have f: "on_device (forward_window B ?ts offset (min chunk ?n)) (e\<lparr>world := w\<rparr>) = ok l (e\<lparr>world := w, device := d\<rparr>)"
            by (simp add: on_device_eq)
          let ?e = "(e\<lparr>world := w, device := d\<rparr>)\<lparr>session := (session e)\<lparr>ids := ids (session e) @ ?ts\<rparr>\<rparr>"
          have g: "for_each (\<lambda>k. on_session (feed (offset + k) (tokens ! (offset + k)))) [0..<?n] (e\<lparr>world := w, device := d\<rparr>) = ok () ?e"
            using sy True by (subst feed_span) (auto simp: synced_def)
          have t: "take offset tokens @ ?ts = take (offset + window) tokens"
            by (simp add: take_add min_def)
          have sy': "synced B contents ?e (take (offset + window) tokens)"
            using sound_backendD(2)[OF B fw] sy unfolding t[symmetric] by (simp add: synced_def)
          have eq: "prefill_windows B opts window chunk tokens offset logits e =
              prefill_windows B opts window chunk tokens (offset + window) (Some l) ?e"
            using True assms(2) p c f g by (subst prefill_windows.simps) (simp add: Let_def)
          show ?thesis unfolding eq by (rule less.hyps[OF _ sy']) (use True assms(2) in auto)
        qed
      qed
    qed
  qed
qed


lemma notify_loop: "notify (loop_options B opts) t = on_world (notify opts t)"
  by (cases "on_token opts") (auto simp: notify_def[abs_def] loop_options_def on_world_def ok_def)

lemma poll_loop: "poll (loop_options B opts) = on_world (poll opts)"
  by (cases "cancelled opts") (auto simp: poll_def[abs_def] loop_options_def on_world_def ok_def)

lemma on_world_synced:
  assumes "synced B contents e ts"
  shows "(\<forall>x e'. on_world m e = ok x e' \<longrightarrow> synced B contents e' ts) \<and> (\<forall>err e'. on_world m e = throw err e' \<longrightarrow> synced B contents e' ts)"
  using assms by (auto simp: on_world_eq)

text \<open>A throw either is a failure of the device or leaves a record that agrees with the device.\<close>

definition thrown_synced :: "('d, 'l, 'c) backend \<Rightarrow> ('d \<Rightarrow> nat list) \<Rightarrow> exn \<Rightarrow> ('d, 'w) V4Engine \<Rightarrow> bool" where
  "thrown_synced B contents err e \<longleftrightarrow> plain_failure err \<or> in_step B contents e"

lemma prefill_step_synced:
  assumes B: "sound_backend B contents" and w: "0 < window" and s: "synced B contents e (take first tokens)" and f: "first < length tokens"
  shows "(\<forall>t e'. prefill_step B opts first window chunk tokens e = ok t e' \<longrightarrow> synced B contents e' tokens) \<and>
    (\<forall>err e'. prefill_step B opts first window chunk tokens e = throw err e' \<longrightarrow> thrown_synced B contents err e')"
proof (cases "prefill_windows B opts window chunk tokens first None e" rule: outcome_cases)
  case (ok l e1)
  then obtain l' where l: "l = Some l'" "synced B contents e1 tokens"
    using prefill_windows_synced[OF B w s, of None opts chunk] f by blast
  have "synced B contents (e1\<lparr>device := snd (select B l' (device e1))\<rparr>) tokens"
    using sound_backendD[OF B] l(2) by (simp add: synced_def)
  then show ?thesis
    using ok l by (cases "select B l' (device e1)" rule: outcome_cases)
      (auto simp: prefill_step_def on_device_eq thrown_synced_def intro: synced_in_step)
next
  case (throw err e1)
  then have t: "plain_failure err \<or> (\<exists>n. synced B contents e1 (take n tokens))"
    using prefill_windows_synced[OF B w s, of None opts chunk] f by blast
  have "prefill_step B opts first window chunk tokens e =
      (if err = GenerationCancelled then throw err e1 else throw err (end_session e1))"
    using throw by (cases err) (simp_all add: prefill_step_def)
  then show ?thesis using t by (auto simp: thrown_synced_def plain_failure_def intro: synced_in_step)
qed


lemma decode_position:
  assumes "1 \<le> g" "plen + g < 2 ^ 32"
  shows "u32 (u32 plen + g + (2 ^ 32 - 1)) = plen + g - 1"
proof -
  obtain k where k: "plen + g = Suc k" using assms(1) by (cases "plen + g") auto
  have "u32 plen + g + (2 ^ 32 - 1) = k + 2 ^ 32" using k assms(2) by simp
  then show ?thesis using k assms(2) by (simp only: u32_def mod_add_self2) simp
qed

text \<open>What holds between two turns of the decode loop: the last token sampled is not fed yet.\<close>

definition turn_inv :: "('d, 'l, 'c) backend \<Rightarrow> ('d \<Rightarrow> nat list) \<Rightarrow> nat list \<Rightarrow> nat \<Rightarrow> nat list \<Rightarrow> nat \<Rightarrow> ('d, 'w) V4Engine \<Rightarrow> bool" where
  "turn_inv B contents prompt g js nx s \<longleftrightarrow>
     synced B contents s (prompt @ butlast js) \<and> js \<noteq> [] \<and> nx = last js \<and> length js = g"

lemma turn_inv_world:
  assumes "turn_inv B contents prompt g js nx s"
  shows "(\<forall>x e'. on_world m s = ok x e' \<longrightarrow> turn_inv B contents prompt g js nx e') \<and>
    (\<forall>err e'. on_world m s = throw err e' \<longrightarrow> thrown_synced B contents err e')"
proof -
  have s: "synced B contents s (prompt @ butlast js)" using assms by (simp add: turn_inv_def)
  show ?thesis
    using on_world_synced[OF s, of m] assms unfolding turn_inv_def thrown_synced_def by (blast intro: synced_in_step)
qed

lemma turn_inv_advance:
  assumes B: "sound_backend B contents" and p: "turn_inv B contents prompt g js nx s" and b: "length prompt + g < 2 ^ 32"
  shows "(\<forall>t e'. advance B nx (u32 (u32 (length prompt) + g + (2 ^ 32 - 1))) s = ok t e' \<longrightarrow> turn_inv B contents prompt (Suc g) (js @ [t]) t e') \<and>
    (\<forall>err e'. advance B nx (u32 (u32 (length prompt) + g + (2 ^ 32 - 1))) s = throw err e' \<longrightarrow> thrown_synced B contents err e')"
proof -
  have g: "1 \<le> g" using p by (cases js) (auto simp: turn_inv_def)
  have pos: "u32 (u32 (length prompt) + g + (2 ^ 32 - 1)) = length (prompt @ butlast js)"
    unfolding decode_position[OF g b] using p g by (simp add: turn_inv_def)
  have s: "synced B contents s (prompt @ butlast js)" using p by (simp add: turn_inv_def)
  have "(prompt @ butlast js) @ [nx] = prompt @ js" using p by (simp add: turn_inv_def)
  then show ?thesis
    using advance_synced[OF B s pos, of nx] p unfolding turn_inv_def thrown_synced_def
    by (auto intro: synced_in_step)
qed

lemma engine_loop:
  fixes B :: "('d, 'l, 'c) backend" and e :: "('d, 'w) V4Engine"
  assumes B: "sound_backend B contents" and w: "0 < window" and f: "first < length prompt"
    and cap: "length prompt < context_capacity B" "context_capacity B < 2 ^ 32"
    and s: "synced B contents e (take first prompt)"
  shows "(\<forall>res e'. generate_token_ids prompt (loop_options B opts) (Some (prefill_step B opts first window chunk))
        (Some (\<lambda>t position _. advance B t position)) e = ok res e' \<longrightarrow>
        token_ids res \<noteq> [] \<and> synced B contents e' (prompt @ butlast (token_ids res))) \<and>
     (\<forall>err e'. generate_token_ids prompt (loop_options B opts) (Some (prefill_step B opts first window chunk))
        (Some (\<lambda>t position _. advance B t position)) e = throw err e' \<longrightarrow> thrown_synced B contents err e')"
    (is "(\<forall>res e'. ?G = ok res e' \<longrightarrow> ?S res e') \<and> (\<forall>err e'. ?G = throw err e' \<longrightarrow> ?T err e')")
proof (cases "max_new_tokens opts = 0")
  case True
  then have "?G = throw (invalid_argument ''max_new_tokens must be greater than zero'') e"
    using f by (auto simp: generate_token_ids_def loop_options_def)
  then show ?thesis by (simp add: thrown_synced_def plain_failure_def)
next
  case False
  let ?o = "loop_options B opts" and ?dec = "\<lambda>t position (_ :: bool). advance B t position :: (('d, 'w) V4Engine, nat) effect"
  let ?P = "turn_inv B contents prompt"
  define n where "n = available_tokens ?o (length prompt)"
  have n: "1 \<le> n" "length prompt + n < 2 ^ 32"
    using cap False by (auto simp: n_def available_tokens_def loop_options_def u32_def)
  define limit where "limit = (if context_limited ?o (length prompt) then ContextLimit else MaxNewTokens)"
  have loop: "(\<forall>res s'. decode_loop ?o ?dec (length prompt) limit 1 (n - 1) t [t] s3 = ok res s' \<longrightarrow> (\<exists>h nx'. ?P h (token_ids res) nx' s')) \<and>
      (\<forall>e s'. decode_loop ?o ?dec (length prompt) limit 1 (n - 1) t [t] s3 = throw e s' \<longrightarrow> thrown_synced B contents e s')"
    if "?P 1 [t] t s3" for t s3
  proof (rule decode_loop_inv[where P = ?P and bound = n])
    fix g ids nx and s :: "('d, 'w) V4Engine" assume p: "?P g ids nx s"
    show "(\<forall>c s1. poll ?o s = ok c s1 \<longrightarrow> ?P g ids nx s1) \<and> (\<forall>e s1. poll ?o s = throw e s1 \<longrightarrow> thrown_synced B contents e s1)"
      unfolding poll_loop by (rule turn_inv_world[OF p])
    show "(\<forall>u s1. notify ?o t s = ok u s1 \<longrightarrow> ?P g ids nx s1) \<and> (\<forall>e s1. notify ?o t s = throw e s1 \<longrightarrow> thrown_synced B contents e s1)" for t
      unfolding notify_loop by (rule turn_inv_world[OF p])
    assume "g < n"
    then have b: "length prompt + g < 2 ^ 32" using n by linarith
    show "(\<forall>t s1. ?dec nx (u32 (u32 (length prompt) + g + (2 ^ 32 - 1))) False s = ok t s1 \<longrightarrow> ?P (Suc g) (ids @ [t]) t s1) \<and>
      (\<forall>e s1. ?dec nx (u32 (u32 (length prompt) + g + (2 ^ 32 - 1))) False s = throw e s1 \<longrightarrow> thrown_synced B contents e s1)"
      by (rule turn_inv_advance[OF B p b])
  qed (use that n in simp_all)
  define K where "K = (\<lambda>t s2. if stops_on ?o t then ok \<lparr>token_ids = [t], stop_reason = Eos\<rparr> s2
                else and_then (on_world (poll opts) s2) (\<lambda>c s3.
                  if c then ok \<lparr>token_ids = [t], stop_reason = Cancelled\<rparr> s3
                  else decode_loop ?o ?dec (length prompt) limit 1 (n - 1) t [t] s3))"
  have K: "(\<forall>res e'. K t s2 = ok res e' \<longrightarrow> ?S res e') \<and> (\<forall>err e'. K t s2 = throw err e' \<longrightarrow> ?T err e')"
    if p: "?P 1 [t] t s2" for t s2
  proof (cases "stops_on ?o t")
    case True
    then show ?thesis using p by (simp add: K_def turn_inv_def)
  next
    case go: False
    show ?thesis
    proof (cases "on_world (poll opts) s2" rule: outcome_cases)
      case (throw err s3)
      then show ?thesis using go turn_inv_world[OF p, of "poll opts"] by (simp add: K_def)
    next
      case (ok c s3)
      then have p3: "?P 1 [t] t s3" using turn_inv_world[OF p, of "poll opts"] by blast
      show ?thesis using loop[OF p3] go ok p3 by (cases c) (auto simp: K_def turn_inv_def)
    qed
  qed
  have eq: "?G = and_then (prefill_step B opts first window chunk prompt e) (\<lambda>t s1.
              and_then (on_world (notify opts t) s1) (\<lambda>_. K t))"
  proof -
    have o: "prompt \<noteq> []" "max_new_tokens ?o \<noteq> 0" "\<not> (context_limit ?o \<noteq> 0 \<and> context_limit ?o \<le> length prompt)"
      using f False cap(1) by (auto simp: loop_options_def)
    show ?thesis
      unfolding generate_token_ids_def if_not_P[OF o(1)] if_not_P[OF o(2)] if_not_P[OF o(3)] option.case
        poll_loop notify_loop K_def n_def limit_def ..
  qed
  note pre = prefill_step_synced[OF B w s f, of opts chunk]
  show ?thesis
  proof (cases "prefill_step B opts first window chunk prompt e" rule: outcome_cases)
    case (throw err s1)
    then show ?thesis using pre by (simp add: eq)
  next
    case (ok t s1)
    then have p: "?P 1 [t] t s1" using pre by (simp add: turn_inv_def)
    show ?thesis
    proof (cases "on_world (notify opts t) s1" rule: outcome_cases)
      case (throw err s2)
      then show ?thesis using ok turn_inv_world[OF p, of "notify opts t"] by (simp add: eq)
    next
      case tell: (ok u s2)
      then have "?P 1 [t] t s2" using turn_inv_world[OF p, of "notify opts t"] by blast
      then show ?thesis using ok tell K by (simp add: eq)
    qed
  qed
qed


lemma first_difference_None: "length xs \<le> length ys \<Longrightarrow> first_difference i xs ys = None \<longleftrightarrow> xs = take (length xs) ys"
  by (induction i xs ys rule: first_difference.induct) auto

lemma plan_reused:
  assumes "verdict (plan prompt k p) = Reused"
  shows "ids p \<noteq> []" "key p = k" "length (ids p) < length prompt" "ids p = take (length (ids p)) prompt"
    "start (plan prompt k p) = u32 (length (ids p))"
  using assms first_difference_None[of "ids p" prompt 0]
  by (auto simp: plan_def split: if_splits option.splits)

lemma plan_start: "verdict (plan prompt k p) \<noteq> Reused \<Longrightarrow> start (plan prompt k p) = 0"
  by (auto simp: plan_def split: if_splits option.splits)

text \<open>Where a turn starts: the first tokens of the prompt are in the record and in the device.\<close>

lemma turn_start:
  fixes e :: "('d, 'w) V4Engine"
  assumes B: "sound_backend B contents" and i: "in_step B contents e" and p: "prompt \<noteq> []" "length prompt < 2 ^ 32"
    and d: "first = start (reuse_decision B prompt reuse k e)" "e1 = (if first = 0 then cold_start B k e else e)"
  shows "first < length prompt" "synced B contents e1 (take first prompt)"
proof -
  show "first < length prompt"
  proof (cases "first = 0")
    case False
    then have v: "verdict (plan prompt k (session e)) = Reused" "first = start (plan prompt k (session e))"
      using d(1) plan_start[of prompt k "session e"] by (auto simp: reuse_decision_def Let_def split: if_splits)
    then show ?thesis using plan_reused[OF v(1)] p(2) by simp
  qed (use p in simp)
  show "synced B contents e1 (take first prompt)"
  proof (cases "first = 0")
    case True
    then show ?thesis using d(2) sound_backendD(9)[OF B] by (simp add: synced_def cold_start_def Let_def begin_record_def clear_def)
  next
    case False
    then have v: "verdict (plan prompt k (session e)) = Reused" "first = start (plan prompt k (session e))" "session_epoch e = state_epoch B (device e)"
      using d(1) plan_start[of prompt k "session e"] by (auto simp: reuse_decision_def Let_def split: if_splits)
    note r = plan_reused[OF v(1)]
    have f: "first = length (ids (session e))" using r v(2) p(2) by simp
    have "ids (session e) = contents (device e)" using i r(1) v(3) by (simp add: in_step_def)
    then show ?thesis using d(2) False v(3) r(4) f by (simp add: synced_def)
  qed
qed

lemma generate_synced:
  fixes e :: "('d, 'w) V4Engine"
  assumes B: "sound_backend B contents" and cap: "context_capacity B < 2 ^ 32" and i: "in_step B contents e"
  shows "(\<forall>reply e'. generate B prompt opts sampling reuse k e = ok reply e' \<longrightarrow> in_step B contents e' \<and>
       (reply_token_ids reply \<noteq> [] \<longrightarrow> synced B contents e' (prompt @ butlast (reply_token_ids reply)))) \<and>
     (\<forall>err e'. generate B prompt opts sampling reuse k e = throw err e' \<longrightarrow> thrown_synced B contents err e')"
proof (cases "ready e \<and> prompt \<noteq> [] \<and> length prompt < context_capacity B")
  case False
  then show ?thesis using i by (auto simp: generate_def thrown_synced_def)
next
  case True
  define first where "first = start (reuse_decision B prompt reuse k e)"
  define e1 where "e1 = (if first = 0 then cold_start B k e else e)"
  define e2 where "e2 = e1\<lparr>device := snd (set_config B sampling (device e1))\<rparr>"
  have t: "first < length prompt" "synced B contents e1 (take first prompt)"
    using turn_start[OF B i _ _ first_def e1_def] True cap by auto
  then have s2: "synced B contents e2 (take first prompt)"
    using sound_backendD(7,8)[OF B] by (simp add: synced_def e2_def)
  let ?tail = "u32 (length prompt) - first"
  let ?G = "generate_token_ids prompt (loop_options B opts)
                 (Some (prefill_step B opts first (prefill_window_for B ?tail) (prefill_chunk_for B ?tail)))
                 (Some (\<lambda>t position _. advance B t position)) e2"
  have w: "0 < prefill_window_for B ?tail" by (simp add: prefill_window_for_def)
  have G: "(\<forall>res e'. ?G = ok res e' \<longrightarrow> token_ids res \<noteq> [] \<and> synced B contents e' (prompt @ butlast (token_ids res))) \<and>
     (\<forall>err e'. ?G = throw err e' \<longrightarrow> thrown_synced B contents err e')"
    by (rule engine_loop[OF B w t(1) _ cap s2]) (use True in simp)
  show ?thesis
  proof (cases "set_config B sampling (device e1)" rule: outcome_cases)
    case (throw err d)
    then have "on_device (set_config B sampling) e1 = throw err e2" by (simp add: on_device_eq e2_def)
    then show ?thesis using True s2
      by (auto simp: generate_def Let_def first_def[symmetric] e1_def[symmetric] thrown_synced_def intro: synced_in_step)
  next
    case (ok u d)
    then have c: "on_device (set_config B sampling) e1 = ok u e2" by (simp add: on_device_eq e2_def)
    show ?thesis
    proof (cases ?G rule: outcome_cases)
      case g: (ok res e3)
      then have sy: "synced B contents e3 (prompt @ butlast (token_ids res))" using G by blast
      show ?thesis using g sy synced_in_step[OF sy] True c
        by (auto simp: generate_def Let_def first_def[symmetric] e1_def[symmetric])
    next
      case g: (throw err e3)
      then have "thrown_synced B contents err e3" using G by blast
      then show ?thesis using g True c
        by (cases err) (auto simp: generate_def Let_def first_def[symmetric] e1_def[symmetric] thrown_synced_def plain_failure_def)
    qed
  qed
qed


section \<open>Properties of a conversation turn\<close>




subsection \<open>A device that echoes\<close>

text \<open>A device whose layers are the list of tokens they were advanced by and whose sampler counts up
  from the last of them. Token 99 makes the decode's forward pass fail after it has advanced the state.\<close>

definition echo_backend :: "(nat list \<times> nat, nat, unit) backend" where
  "echo_backend = \<lparr>
     forward_token = (\<lambda>t p (ts, n). if t = 99 then throw (runtime_error ''device'') (ts @ [t], n) else ok t (ts @ [t], n)),
     forward_window = (\<lambda>us p c (ts, n). ok (last us) (ts @ us, n)),
     select = (\<lambda>l. ok (Suc l)), set_config = (\<lambda>_. ok ()),
     reset_generation_state = (\<lambda>(ts, n). ([], Suc n)), state_epoch = snd,
     context_capacity = 32, prefill_window_tokens = 2, prefill_chunk_tokens = 2,
     tokenizer_eos = 7, tokenizer_decode = (\<lambda>_. [])\<rparr>"

definition echo_engine :: "(nat list \<times> nat, unit) V4Engine" where
  "echo_engine = \<lparr>ready = True, session = \<lparr>ids = [], key = []\<rparr>, session_epoch = 0, device = ([], 0), world = ()\<rparr>"

lemma echo_sound: "sound_backend echo_backend fst"
  unfolding sound_backend_def plain_failure_def by (auto simp: echo_backend_def split: if_splits)

lemma echo_capacity: "context_capacity echo_backend < 2 ^ 32"
  by (simp add: echo_backend_def)

lemma echo_in_step: "in_step echo_backend fst echo_engine"
  by (simp add: in_step_def echo_engine_def)

lemma outcome_Inr: "fst m = Inr x \<Longrightarrow> m = ok x (snd m)"
  by (cases m) (simp add: ok_def)





end
