(* ===== verification/Utf8_Text.thy ===== *)
theory Utf8_Text
  imports "HOL-Library.Word" Aeon_Errors
begin

text \<open>
  The streaming UTF-8 chunker of \<^verbatim>\<open>src/infrastructure/text/utf8_chunker.hpp\<close> and what well-formed
  UTF-8 is, stated independently of it as the encodings of Unicode scalar values.

  A byte is an \<open>8 word\<close>. The loop of \<open>push\<close> walks an index over \<^verbatim>\<open>buffer_\<close>; \<open>scan\<close> takes the bytes
  from the index on. \<^verbatim>\<open>buffer_\<close> itself is empty between calls, since both operations end by
  clearing it, so the state is the held tail alone.
\<close>

type_synonym byte = "8 word"

subsection \<open>The chunker\<close>

definition sequence_length :: "byte \<Rightarrow> nat" where
  "sequence_length lead =
     (if 0xC2 \<le> lead \<and> lead \<le> 0xDF then 2
      else if 0xE0 \<le> lead \<and> lead \<le> 0xEF then 3
      else if 0xF0 \<le> lead \<and> lead \<le> 0xF4 then 4
      else 0)"

definition continuation_ok :: "byte \<Rightarrow> nat \<Rightarrow> byte \<Rightarrow> bool" where
  "continuation_ok lead k b =
     (if 1 < k then 0x80 \<le> b \<and> b \<le> 0xBF
      else if lead = 0xE0 then 0xA0 \<le> b \<and> b \<le> 0xBF
      else if lead = 0xED then 0x80 \<le> b \<and> b \<le> 0x9F
      else if lead = 0xF0 then 0x90 \<le> b \<and> b \<le> 0xBF
      else if lead = 0xF4 then 0x80 \<le> b \<and> b \<le> 0x8F
      else 0x80 \<le> b \<and> b \<le> 0xBF)"

definition replacement :: "byte list" where
  "replacement = [0xEF, 0xBF, 0xBD]"

datatype sequence_check = Complete | Incomplete | Invalid

fun check_tail :: "byte \<Rightarrow> nat \<Rightarrow> nat \<Rightarrow> byte list \<Rightarrow> sequence_check" where
  "check_tail lead k n [] = (if k < n then Incomplete else Complete)"
| "check_tail lead k n (b # bs) =
     (if k < n then if continuation_ok lead k b then check_tail lead (Suc k) n bs else Invalid
      else Complete)"

function scan :: "byte list \<Rightarrow> byte list \<times> byte list" where
  "scan [] = ([], [])"
| "scan (lead # rest) =
     (if lead < 0x80 then apfst ((@) [lead]) (scan rest)
      else if sequence_length lead = 0 then apfst ((@) replacement) (scan rest)
      else case check_tail lead 1 (sequence_length lead) rest of
             Invalid \<Rightarrow> apfst ((@) replacement) (scan rest)
           | Incomplete \<Rightarrow> ([], lead # rest)
           | Complete \<Rightarrow> apfst ((@) (lead # take (sequence_length lead - 1) rest))
                           (scan (drop (sequence_length lead - 1) rest)))"
  by pat_completeness auto
termination by (relation "measure length") auto

record Utf8Chunker =
  held :: "byte list"

definition push :: "byte list \<Rightarrow> Utf8Chunker \<Rightarrow> byte list \<times> Utf8Chunker" where
  "push bytes c = (case scan (held c @ bytes) of (out, rest) \<Rightarrow> (out, \<lparr>held = rest\<rparr>))"

definition flush :: "Utf8Chunker \<Rightarrow> byte list \<times> Utf8Chunker" where
  "flush c = (if held c \<noteq> [] then replacement else [], \<lparr>held = []\<rparr>)"

subsection \<open>Well-formed UTF-8\<close>

definition scalar :: "nat \<Rightarrow> bool" where
  "scalar c \<longleftrightarrow> c < 0xD800 \<or> 0xE000 \<le> c \<and> c \<le> 0x10FFFF"

definition utf8_encode :: "nat \<Rightarrow> byte list" where
  "utf8_encode c = map word_of_nat
     (if c < 0x80 then [c]
      else if c < 0x800 then [0xC0 + c div 64, 0x80 + c mod 64]
      else if c < 0x10000 then [0xE0 + c div 4096, 0x80 + c div 64 mod 64, 0x80 + c mod 64]
      else [0xF0 + c div 262144, 0x80 + c div 4096 mod 64, 0x80 + c div 64 mod 64, 0x80 + c mod 64])"

definition utf8_text :: "nat list \<Rightarrow> byte list" where
  "utf8_text cs = concat (map utf8_encode cs)"

definition valid_utf8 :: "byte list \<Rightarrow> bool" where
  "valid_utf8 bs \<longleftrightarrow> (\<exists>cs. list_all scalar cs \<and> bs = utf8_text cs)"

lemma valid_utf8_append: "valid_utf8 a \<Longrightarrow> valid_utf8 b \<Longrightarrow> valid_utf8 (a @ b)"
  unfolding valid_utf8_def utf8_text_def by (metis concat_append list_all_append map_append)

lemma valid_utf8_Nil [simp]: "valid_utf8 []"
  unfolding valid_utf8_def utf8_text_def by (rule exI[of _ "[]"]) simp

lemma valid_utf8_encode: "scalar c \<Longrightarrow> valid_utf8 (utf8_encode c)"
  unfolding valid_utf8_def utf8_text_def by (rule exI[of _ "[c]"]) simp

lemma replacement_encodes: "utf8_encode 0xFFFD = replacement"
  by (simp add: utf8_encode_def replacement_def)

lemma of_nat_unat: "unat b = n \<Longrightarrow> word_of_nat n = (b :: byte)"
  by auto

lemma check_tail_append:
  "check_tail lead k n xs = Invalid \<Longrightarrow> check_tail lead k n (xs @ ys) = Invalid"
  "check_tail lead k n xs = Complete \<Longrightarrow> check_tail lead k n (xs @ ys) = Complete"
  by (induction lead k n xs rule: check_tail.induct) (auto split: if_splits, cases ys, auto)

lemma check_tail_length: "check_tail lead k n xs = Complete \<Longrightarrow> n - k \<le> length xs"
  "check_tail lead k n xs = Incomplete \<Longrightarrow> length xs < n - k"
  by (induction lead k n xs rule: check_tail.induct) (auto split: if_splits)

lemma check_tail_done [simp]: "n \<le> k \<Longrightarrow> check_tail lead k n xs = Complete"
  by (cases xs) simp_all

lemma sequence_length_le: "sequence_length lead \<le> 4"
  by (simp add: sequence_length_def)

text \<open>The bytes of a complete sequence and the code point they encode.\<close>

lemma base64 [simp]: "v < 64 \<Longrightarrow> (u * 64 + v) mod 64 = v" "v < 64 \<Longrightarrow> (u * 64 + v) div 64 = (u :: nat)"
  by simp_all

lemma div64: "n div 4096 = n div 64 div (64 :: nat)" "n div 262144 = n div 64 div 64 div (64 :: nat)"
  by (simp_all add: div_mult2_eq[symmetric])

lemma digits64:
  fixes u v w x :: nat
  assumes "v < 64" "w < 64" "x < 64"
  shows "((u * 64 + v) * 64 + w) div 4096 = u" "(((u * 64 + v) * 64 + w) * 64 + x) div 4096 = u * 64 + v"
    "(((u * 64 + v) * 64 + w) * 64 + x) div 262144 = u"
  by (simp_all only: div64 base64 assms)

lemma offset_byte:
  assumes "l \<le> unat (b :: byte)" "unat b \<le> l + n"
  obtains v where "v \<le> n" "b = word_of_nat (l + v)" "unat b = l + v"
  using assms that[of "unat b - l"] by simp

lemma continuation_byte:
  assumes "continuation_ok a k b"
  obtains v where "v < 64" "b = word_of_nat (0x80 + v)" "unat b = 0x80 + v"
proof -
  have "0x80 \<le> unat b" "unat b \<le> 0x80 + 63"
    using assms by (auto simp: continuation_ok_def word_le_nat_alt split: if_splits)
  then obtain v where "v \<le> 63" "b = word_of_nat (0x80 + v)" "unat b = 0x80 + v" by (rule offset_byte)
  then show ?thesis using that[of v] by simp
qed

lemma two_bytes:
  assumes "sequence_length a = 2" "continuation_ok a 1 b"
  shows "\<exists>c. scalar c \<and> utf8_encode c = [a, b]"
proof -
  have "0xC0 \<le> unat a" "unat a \<le> 0xC0 + 31" and a2: "0xC2 \<le> unat a"
    using assms by (auto simp: sequence_length_def word_le_nat_alt split: if_splits)
  then obtain u where u: "u \<le> 31" "a = word_of_nat (0xC0 + u)" "unat a = 0xC0 + u" by (metis offset_byte)
  obtain v where v: "v < 64" "b = word_of_nat (0x80 + v)" using continuation_byte[OF assms(2)] by metis
  have "\<not> u * 64 + v < 0x80" "u * 64 + v < 0x800" using u v a2 by linarith+
  then show ?thesis
    using u(2) v base64[OF v(1), of u] by (intro exI[of _ "u * 64 + v"]) (simp add: utf8_encode_def scalar_def)
qed

lemma three_bytes:
  assumes "sequence_length a = 3" "continuation_ok a 1 b" "continuation_ok a 2 d"
  shows "\<exists>c. scalar c \<and> utf8_encode c = [a, b, d]"
proof -
  have "0xE0 \<le> unat a" "unat a \<le> 0xE0 + 15"
    using assms by (auto simp: sequence_length_def word_le_nat_alt split: if_splits)
  then obtain u where u: "u \<le> 15" "a = word_of_nat (0xE0 + u)" "unat a = 0xE0 + u" by (metis offset_byte)
  obtain v where v: "v < 64" "b = word_of_nat (0x80 + v)" "unat b = 0x80 + v" using continuation_byte[OF assms(2)] by metis
  obtain w where w: "w < 64" "d = word_of_nat (0x80 + w)" using continuation_byte[OF assms(3)] by metis
  have "32 \<le> v" if "u = 0" using assms(2) u(2) v(3) that by (simp add: continuation_ok_def word_le_nat_alt)
  moreover have "v < 32" if "u = 13" using assms(2) u(2) v(3) that by (simp add: continuation_ok_def word_le_nat_alt)
  ultimately have k: "1 \<le> u \<or> 32 \<le> v" "u \<le> 12 \<or> u = 13 \<and> v < 32 \<or> 14 \<le> u" by linarith+
  have c: "(u * 64 + v) * 64 + w = 4096 * u + 64 * v + w" by simp
  have "(u * 64 + v) * 64 + w < 0x10000" unfolding c using u(1) v(1) w(1) by linarith
  moreover have "\<not> (u * 64 + v) * 64 + w < 0x800" unfolding c by (rule disjE[OF k(1)]) linarith+
  moreover have "scalar ((u * 64 + v) * 64 + w)"
    unfolding scalar_def c
    by (rule disjE[OF k(2)]; (elim disjE)?) (use u(1) v(1) w(1) in linarith)+
  ultimately show ?thesis
    using u(2) v(1,2) w digits64(1)[of v w 0 u] base64[OF w(1), of "u * 64 + v"] base64[OF v(1), of u]
    by (intro exI[of _ "(u * 64 + v) * 64 + w"]) (simp add: utf8_encode_def)
qed

lemma four_bytes:
  assumes "sequence_length a = 4" "continuation_ok a 1 b" "continuation_ok a 2 d" "continuation_ok a 3 e"
  shows "\<exists>c. scalar c \<and> utf8_encode c = [a, b, d, e]"
proof -
  have "0xF0 \<le> unat a" "unat a \<le> 0xF0 + 4"
    using assms by (auto simp: sequence_length_def word_le_nat_alt split: if_splits)
  then obtain u where u: "u \<le> 4" "a = word_of_nat (0xF0 + u)" "unat a = 0xF0 + u" by (metis offset_byte)
  obtain v where v: "v < 64" "b = word_of_nat (0x80 + v)" "unat b = 0x80 + v" using continuation_byte[OF assms(2)] by metis
  obtain w where w: "w < 64" "d = word_of_nat (0x80 + w)" using continuation_byte[OF assms(3)] by metis
  obtain x where x: "x < 64" "e = word_of_nat (0x80 + x)" using continuation_byte[OF assms(4)] by metis
  let ?c = "((u * 64 + v) * 64 + w) * 64 + x"
  have "16 \<le> v" if "u = 0" using assms(2) u(2) v(3) that by (simp add: continuation_ok_def word_le_nat_alt)
  moreover have "v < 16" if "u = 4" using assms(2) u(2) v(3) that by (simp add: continuation_ok_def word_le_nat_alt)
  ultimately have k: "1 \<le> u \<or> 16 \<le> v" "u \<le> 3 \<or> u = 4 \<and> v < 16" using u(1) by linarith+
  have c: "?c = 262144 * u + 4096 * v + 64 * w + x" by simp
  have "\<not> ?c < 0x10000" unfolding c by (rule disjE[OF k(1)]) linarith+
  moreover have "?c \<le> 0x10FFFF" unfolding c by (rule disjE[OF k(2)]) (use u(1) v(1) w(1) x(1) in linarith)+
  moreover have "?c div 64 mod 64 = w" "?c mod 64 = x" "?c div 4096 mod 64 = v" "?c div 262144 = u"
    by (simp_all only: div64 base64 v(1) w(1) x(1))
  ultimately show ?thesis
    using u(2) v(1,2) w x by (intro exI[of _ ?c]) (simp add: utf8_encode_def scalar_def)
qed

lemma complete_sequence:
  assumes "sequence_length a \<noteq> 0" "check_tail a 1 (sequence_length a) xs = Complete"
  shows "\<exists>c. scalar c \<and> utf8_encode c = a # take (sequence_length a - 1) xs"
proof -
  consider "sequence_length a = 2" | "sequence_length a = 3" | "sequence_length a = 4"
    using assms(1) by (auto simp: sequence_length_def split: if_splits)
  then show ?thesis
  proof cases
    case 1
    then show ?thesis using assms two_bytes[of a] by (cases xs) (auto split: if_splits)
  next
    case 2
    obtain b d ys where "xs = b # d # ys"
      using check_tail_length(1)[OF assms(2)] 2 by (cases xs; cases "tl xs") auto
    then show ?thesis using 2 assms three_bytes[of a b d] by (auto split: if_splits simp: numeral_2_eq_2)
  next
    case 3
    obtain b d e ys where "xs = b # d # e # ys"
      using check_tail_length(1)[OF assms(2)] 3 by (cases xs; cases "tl xs"; cases "tl (tl xs)") auto
    then show ?thesis using 3 assms four_bytes[of a b d e] by (auto split: if_splits simp: numeral_eq_Suc)
  qed
qed

lemma ascii_encodes: "a < 0x80 \<Longrightarrow> utf8_encode (unat a) = [a :: byte]" "a < 0x80 \<Longrightarrow> scalar (unat (a :: byte))"
  by (simp_all add: utf8_encode_def word_less_nat_alt scalar_def)

lemma scan_valid: "valid_utf8 (fst (scan bs))"
proof (induction bs rule: scan.induct)
  case (2 a bs)
  have r: "valid_utf8 replacement" using valid_utf8_encode[of "0xFFFD"] by (simp add: replacement_encodes scalar_def)
  consider "a < 0x80" | "\<not> a < 0x80" "sequence_length a = 0"
    | "\<not> a < 0x80" "sequence_length a \<noteq> 0" "check_tail a 1 (sequence_length a) bs = Invalid"
    | "\<not> a < 0x80" "sequence_length a \<noteq> 0" "check_tail a 1 (sequence_length a) bs = Incomplete"
    | "\<not> a < 0x80" "sequence_length a \<noteq> 0" "check_tail a 1 (sequence_length a) bs = Complete"
    by (cases "check_tail a 1 (sequence_length a) bs") blast+
  then show ?case
  proof cases
    case 1
    then show ?thesis using 2(1) valid_utf8_append[OF valid_utf8_encode[OF ascii_encodes(2)[OF 1]] 2(1)[OF 1]] by (simp add: ascii_encodes)
  next
    case 5
    obtain c where "scalar c" "utf8_encode c = a # take (sequence_length a - 1) bs" using complete_sequence[OF 5(2,3)] by blast
    then show ?thesis using 5 2(3)[OF 5] valid_utf8_append[OF valid_utf8_encode[of c]] by simp
  qed (use 2 r in \<open>simp_all add: valid_utf8_append\<close>)
qed simp

lemma scan_append: "scan (xs @ ys) = apfst ((@) (fst (scan xs))) (scan (snd (scan xs) @ ys))"
proof (induction xs rule: scan.induct)
  case (2 a bs)
  have c: "(@) (xs @ ys) = (@) xs \<circ> (@) ys" for xs ys :: "byte list" by auto
  show ?case
  proof (cases "check_tail a 1 (sequence_length a) bs")
    case Complete
    then show ?thesis
      using 2 check_tail_append(2)[OF Complete, of ys] check_tail_length(1)[OF Complete] by (simp add: c apfst_compose)
  next
    case Invalid
    then show ?thesis using 2 check_tail_append(1)[OF Invalid, of ys] by (simp add: c apfst_compose)
  next
    case Incomplete
    then show ?thesis using 2 by (simp add: c apfst_compose apfst_def map_prod_def split: prod.splits)
  qed
qed (simp add: apfst_def map_prod_def split: prod.splits)

lemma scan_stable: "scan (snd (scan xs)) = ([], snd (scan xs))"
proof -
  have "scan xs = apfst ((@) (fst (scan xs))) (scan (snd (scan xs)))" using scan_append[of xs "[]"] by simp
  from arg_cong[OF this, of fst] arg_cong[OF this, of snd] show ?thesis by (simp add: prod_eq_iff)
qed

lemma scan_held: "length (snd (scan bs)) \<le> 3"
proof (induction bs rule: scan.induct)
  case (2 a bs)
  show ?case using 2 check_tail_length(2)[of a 1 "sequence_length a" bs] sequence_length_le[of a]
    by (auto split: sequence_check.splits)
qed simp


text \<open>Conversely, the encoding of a scalar value is accepted as it is.\<close>

lemma unat_byte [simp]: "n < 256 \<Longrightarrow> unat (word_of_nat n :: byte) = n"
  by (simp add: unat_of_nat)

lemma byte_eq: "n < 256 \<Longrightarrow> m < 256 \<Longrightarrow> (word_of_nat n :: byte) = word_of_nat m \<longleftrightarrow> n = m"
  by (metis unat_byte)

lemma encode_two:
  assumes "0x80 \<le> c" "c < 0x800"
  shows "scan (utf8_encode c @ ys) = apfst ((@) (utf8_encode c)) (scan ys)"
proof -
  have a: "2 \<le> c div 64" "c div 64 \<le> 31" "c mod 64 < 64" using assms by (simp_all add: div_le_mono less_mult_imp_div_less flip: less_Suc_eq_le)
  let ?a = "word_of_nat (0xC0 + c div 64) :: byte" and ?b = "word_of_nat (0x80 + c mod 64) :: byte"
  have u: "unat ?a = 0xC0 + c div 64" "unat ?b = 0x80 + c mod 64"
    by (subst unat_byte; use a in linarith)+
  have e: "utf8_encode c = [?a, ?b]" using assms by (simp add: utf8_encode_def)
  have l: "\<not> ?a < 0x80" "sequence_length ?a = 2"
    unfolding sequence_length_def word_less_nat_alt word_le_nat_alt u using a by simp_all
  have t: "continuation_ok ?a 1 ?b"
    unfolding continuation_ok_def word_le_nat_alt word_unat_eq_iff u using a by simp
  show ?thesis unfolding e using l t by simp
qed

lemma encode_three:
  assumes "0x800 \<le> c" "c < 0x10000" "scalar c"
  shows "scan (utf8_encode c @ ys) = apfst ((@) (utf8_encode c)) (scan ys)"
proof -
  define u v w where "u = c div 4096" and "v = c div 64 mod 64" and "w = c mod 64"
  have c: "c = 4096 * u + 64 * v + w" 
    using div_mult_mod_eq[of c 64] div_mult_mod_eq[of "c div 64" 64] unfolding u_def v_def w_def div64 by linarith
  have a: "u \<le> 15" "v < 64" "w < 64"
    using assms(2) by (simp_all add: u_def v_def w_def less_mult_imp_div_less flip: less_Suc_eq_le)
  have f: "u = 0 \<Longrightarrow> 32 \<le> v" "u = 13 \<Longrightarrow> v \<le> 31" using assms(1,3) c a unfolding scalar_def by linarith+
  let ?a = "word_of_nat (0xE0 + u) :: byte" and ?b = "word_of_nat (0x80 + v) :: byte" and ?d = "word_of_nat (0x80 + w) :: byte"
  have u: "unat ?a = 0xE0 + u" "unat ?b = 0x80 + v" "unat ?d = 0x80 + w"
    by (subst unat_byte; use a in linarith)+
  have e: "utf8_encode c = [?a, ?b, ?d]" using assms by (simp add: utf8_encode_def u_def v_def w_def)
  have l: "\<not> ?a < 0x80" "sequence_length ?a = 3"
    unfolding sequence_length_def word_less_nat_alt word_le_nat_alt u using a by simp_all
  have t: "continuation_ok ?a 1 ?b" "continuation_ok ?a (Suc 1) ?d"
    unfolding continuation_ok_def word_le_nat_alt word_unat_eq_iff u using a f by simp_all
  show ?thesis unfolding e using l t by (simp add: numeral_3_eq_3)
qed

lemma encode_four:
  assumes "0x10000 \<le> c" "c \<le> 0x10FFFF"
  shows "scan (utf8_encode c @ ys) = apfst ((@) (utf8_encode c)) (scan ys)"
proof -
  define u v w x where "u = c div 262144" and "v = c div 4096 mod 64" and "w = c div 64 mod 64" and "x = c mod 64"
  have c: "c = 262144 * u + 4096 * v + 64 * w + x" 
    using div_mult_mod_eq[of c 64] div_mult_mod_eq[of "c div 64" 64] div_mult_mod_eq[of "c div 64 div 64" 64]
    unfolding u_def v_def w_def x_def div64 by linarith
  have a: "u \<le> 4" "v < 64" "w < 64" "x < 64"
    using assms(2) by (simp_all add: u_def v_def w_def x_def less_mult_imp_div_less flip: less_Suc_eq_le)
  have f: "u = 0 \<Longrightarrow> 16 \<le> v" "u = 4 \<Longrightarrow> v \<le> 15" using assms c a by linarith+
  let ?a = "word_of_nat (0xF0 + u) :: byte" and ?b = "word_of_nat (0x80 + v) :: byte"
  let ?d = "word_of_nat (0x80 + w) :: byte" and ?e = "word_of_nat (0x80 + x) :: byte"
  have u: "unat ?a = 0xF0 + u" "unat ?b = 0x80 + v" "unat ?d = 0x80 + w" "unat ?e = 0x80 + x"
    by (subst unat_byte; use a in linarith)+
  have e: "utf8_encode c = [?a, ?b, ?d, ?e]" using assms by (simp add: utf8_encode_def u_def v_def w_def x_def)
  have l: "\<not> ?a < 0x80" "sequence_length ?a = 4"
    unfolding sequence_length_def word_less_nat_alt word_le_nat_alt u using a by simp_all
  have t: "continuation_ok ?a 1 ?b" "continuation_ok ?a (Suc 1) ?d" "continuation_ok ?a (Suc (Suc 1)) ?e"
    unfolding continuation_ok_def word_le_nat_alt word_unat_eq_iff u using a f by simp_all
  show ?thesis unfolding e using l t by (simp add: numeral_eq_Suc)
qed

lemma encode_scan: "scalar c \<Longrightarrow> scan (utf8_encode c @ ys) = apfst ((@) (utf8_encode c)) (scan ys)"
proof -
  assume s: "scalar c"
  consider "c < 0x80" | "0x80 \<le> c" "c < 0x800" | "0x800 \<le> c" "c < 0x10000" | "0x10000 \<le> c" "c \<le> 0x10FFFF"
    using s unfolding scalar_def by linarith
  then show ?thesis
  proof cases
    case 1
    then show ?thesis by (simp add: utf8_encode_def word_less_nat_alt)
  qed (use s encode_two encode_three encode_four in blast)+
qed

lemma scan_text: "list_all scalar cs \<Longrightarrow> scan (utf8_text cs) = (utf8_text cs, [])"
  by (induction cs) (simp_all add: utf8_text_def encode_scan)

subsection \<open>Streams of chunks\<close>

text \<open>A whole reply: the chunks pushed one after another into a fresh chunker.\<close>

definition fresh_chunker :: Utf8Chunker where
  "fresh_chunker = \<lparr>held = []\<rparr>"

fun push_all :: "byte list list \<Rightarrow> Utf8Chunker \<Rightarrow> byte list \<times> Utf8Chunker" where
  "push_all [] c = ([], c)"
| "push_all (b # bs) c = (let (out, c1) = push b c; (outs, c2) = push_all bs c1 in (out @ outs, c2))"

lemma push_append: "push (xs @ ys) c = apfst ((@) (fst (push xs c))) (push ys (snd (push xs c)))"
  using scan_append[of "held c @ xs" ys] by (simp add: push_def split: prod.splits)

lemma held_push: "held (snd (push b c)) = snd (scan (held c @ b))"
  by (simp add: push_def split: prod.splits)

lemma fst_push: "fst (push b c) = fst (scan (held c @ b))"
  by (simp add: push_def split: prod.splits)

lemma push_all_eq: "scan (held c) = ([], held c) \<Longrightarrow> push_all bs c = push (concat bs) c"
proof (induction bs arbitrary: c)
  case Nil
  then show ?case by (cases c) (simp add: push_def)
next
  case (Cons b bs)
  have "push_all bs (snd (push b c)) = push (concat bs) (snd (push b c))"
    by (rule Cons.IH) (simp add: held_push scan_stable)
  then show ?case by (simp add: push_append case_prod_beta Let_def apfst_def map_prod_def)
qed

lemma flush_valid: "valid_utf8 (fst (flush c))"
  using valid_utf8_encode[of "0xFFFD"] by (simp add: flush_def replacement_encodes scalar_def)

section \<open>Properties of the chunker\<close>

text \<open>C13: everything a chunker emits is well-formed UTF-8, the concatenation of the encodings of
  Unicode scalar values, whatever bytes arrive and wherever the chunks were cut, and it never holds
  back more than three bytes.\<close>

theorem chunker_emits_valid_utf8:
  "valid_utf8 (fst (push bytes c)) \<and> valid_utf8 (fst (flush c)) \<and> length (held (snd (push bytes c))) \<le> 3"
  using scan_valid[of "held c @ bytes"] scan_held[of "held c @ bytes"] flush_valid[of c]
  by (simp add: held_push fst_push)

text \<open>C14: the cuts are invisible. Pushing the chunks of a reply one by one emits exactly the bytes, and
  holds back exactly the tail, that pushing the whole reply at once does.\<close>

theorem chunking_invisible: "push_all chunks fresh_chunker = push (concat chunks) fresh_chunker"
  by (rule push_all_eq) (simp add: fresh_chunker_def)

text \<open>Well-formed text goes through untouched. However the encoding of a sequence of scalar values
  is cut into chunks, the chunker emits it byte for byte and holds nothing back at the end.\<close>

theorem valid_text_unchanged:
  assumes "list_all scalar cs" and "concat chunks = utf8_text cs"
  shows "push_all chunks fresh_chunker = (utf8_text cs, fresh_chunker)"
  using push_all_eq[of fresh_chunker chunks] scan_text[OF assms(1)]
  by (simp add: fresh_chunker_def assms(2) push_def)

end
