(* ===== verification/Stream_Decoder.thy ===== *)
theory Stream_Decoder
  imports Utf8_Text
begin

text \<open>
  The streaming decoder of \<^verbatim>\<open>src/architecture/deepseek_v4/text/dsv4_stream_decoder.hpp\<close>: token ids in, text deltas
  out, with the thinking split. The tokenizer is a parameter: the ids of its two markers and the bytes
  of one token.
\<close>

datatype Channel = Content | Reasoning

record TextDelta =
  channel :: Channel
  delta_text :: "byte list"

record Tokenizer =
  eos_id :: nat
  thinking_end_id :: nat
  decode_token :: "nat \<Rightarrow> byte list"

record Dsv4StreamDecoder =
  tokenizer :: Tokenizer
  decoder_channel :: Channel
  reasoning_chunker :: Utf8Chunker
  content_chunker :: Utf8Chunker

definition new_decoder :: "Tokenizer \<Rightarrow> bool \<Rightarrow> Dsv4StreamDecoder" where
  "new_decoder tok thinking = \<lparr>tokenizer = tok, decoder_channel = (if thinking then Reasoning else Content),
     reasoning_chunker = fresh_chunker, content_chunker = fresh_chunker\<rparr>"

definition chunker :: "Dsv4StreamDecoder \<Rightarrow> Utf8Chunker" where
  "chunker d = (if decoder_channel d = Reasoning then reasoning_chunker d else content_chunker d)"

definition set_chunker :: "Utf8Chunker \<Rightarrow> Dsv4StreamDecoder \<Rightarrow> Dsv4StreamDecoder" where
  "set_chunker c d = (if decoder_channel d = Reasoning then d\<lparr>reasoning_chunker := c\<rparr> else d\<lparr>content_chunker := c\<rparr>)"

definition emit :: "Dsv4StreamDecoder \<Rightarrow> byte list \<Rightarrow> TextDelta list \<Rightarrow> TextDelta list" where
  "emit d text out = (if text = [] then out else out @ [\<lparr>channel = decoder_channel d, delta_text = text\<rparr>])"

definition push_token :: "nat \<Rightarrow> TextDelta list \<Rightarrow> Dsv4StreamDecoder \<Rightarrow> TextDelta list \<times> Dsv4StreamDecoder" where
  "push_token token_id out d =
     (if token_id = eos_id (tokenizer d) then (out, d)
      else if token_id = thinking_end_id (tokenizer d) then
        let (text, c) = flush (chunker d)
        in (emit d text out, (set_chunker c d)\<lparr>decoder_channel := Content\<rparr>)
      else let (text, c) = push (decode_token (tokenizer d) token_id) (chunker d)
        in (emit d text out, set_chunker c d))"

definition finish :: "TextDelta list \<Rightarrow> Dsv4StreamDecoder \<Rightarrow> TextDelta list \<times> Dsv4StreamDecoder" where
  "finish out d = (let (text, c) = flush (chunker d) in (emit d text out, set_chunker c d))"

text \<open>A whole reply, as the engine's sink sees it.\<close>

fun push_tokens :: "nat list \<Rightarrow> TextDelta list \<Rightarrow> Dsv4StreamDecoder \<Rightarrow> TextDelta list \<times> Dsv4StreamDecoder" where
  "push_tokens [] out d = (out, d)"
| "push_tokens (t # ts) out d = (let (out', d') = push_token t out d in push_tokens ts out' d')"

definition decode_reply :: "Tokenizer \<Rightarrow> bool \<Rightarrow> nat list \<Rightarrow> TextDelta list" where
  "decode_reply tok thinking ts = (let (out, d) = push_tokens ts [] (new_decoder tok thinking) in fst (finish out d))"

text \<open>The text of one channel, and the batch reference: all the bytes at once.\<close>

definition channel_text :: "Channel \<Rightarrow> TextDelta list \<Rightarrow> byte list" where
  "channel_text ch out = concat (map delta_text (filter (\<lambda>x. channel x = ch) out))"

definition sanitize :: "byte list \<Rightarrow> byte list" where
  "sanitize bs = (let (out, c) = push bs fresh_chunker in out @ fst (flush c))"

lemma emit_text:
  "channel_text ch (emit d tx out) = channel_text ch out @ (if decoder_channel d = ch then tx else [])"
  by (simp add: emit_def channel_text_def)

lemma chunker_set [simp]: "chunker (set_chunker c d) = c" "decoder_channel (set_chunker c d) = decoder_channel d"
  "tokenizer (set_chunker c d) = tokenizer d"
  by (simp_all add: chunker_def set_chunker_def)

definition plain :: "Tokenizer \<Rightarrow> nat list \<Rightarrow> bool" where
  "plain tok ts \<longleftrightarrow> list_all (\<lambda>t. t \<noteq> eos_id tok \<and> t \<noteq> thinking_end_id tok) ts"

lemma push_tokens_append: "push_tokens (xs @ ys) out d = (let (out', d') = push_tokens xs out d in push_tokens ys out' d')"
  by (induction xs out d rule: push_tokens.induct) (auto simp: Let_def split: prod.splits)

text \<open>Tokens without a marker go through the current channel's chunker.\<close>

lemma push_tokens_plain:
  assumes "plain (tokenizer d) ts" and "push_all (map (decode_token (tokenizer d)) ts) (chunker d) = (tx, c)"
  shows "\<exists>out'. push_tokens ts out d = (out', if ts = [] then d else set_chunker c d) \<and>
     (\<forall>ch. channel_text ch out' = channel_text ch out @ (if decoder_channel d = ch then tx else []))"
  using assms
proof (induction ts arbitrary: out d tx)
  case Nil
  then show ?case by simp
next
  case (Cons t ts)
  obtain x c1 where x: "push (decode_token (tokenizer d) t) (chunker d) = (x, c1)" by fastforce
  obtain tx1 where y: "push_all (map (decode_token (tokenizer d)) ts) c1 = (tx1, c)" "tx = x @ tx1"
    using Cons.prems(2) x by (auto split: prod.splits)
  let ?d = "set_chunker c1 d"
  have p: "push_token t out d = (emit d x out, ?d)"
    using Cons.prems(1) x by (simp add: push_token_def plain_def)
  obtain out' where o: "push_tokens ts (emit d x out) ?d = (out', if ts = [] then ?d else set_chunker c ?d)"
    "\<forall>ch. channel_text ch out' = channel_text ch (emit d x out) @ (if decoder_channel ?d = ch then tx1 else [])"
    using Cons.IH[of ?d tx1 "emit d x out"] Cons.prems(1) y by (auto simp: plain_def)
  have "(if ts = [] then ?d else set_chunker c ?d) = set_chunker c d"
    using y(1) by (auto simp: set_chunker_def)
  then show ?case using o p y(2) by (simp add: emit_text)
qed

definition good_deltas :: "TextDelta list \<Rightarrow> bool" where
  "good_deltas out \<longleftrightarrow> list_all (\<lambda>x. delta_text x \<noteq> [] \<and> valid_utf8 (delta_text x)) out"

lemma emit_good: "good_deltas out \<Longrightarrow> valid_utf8 tx \<Longrightarrow> good_deltas (emit d tx out)"
  by (simp add: good_deltas_def emit_def)

lemma push_token_good: "good_deltas out \<Longrightarrow> good_deltas (fst (push_token t out d))"
  by (auto simp: push_token_def case_prod_beta Let_def fst_push intro!: emit_good scan_valid flush_valid)

lemma push_tokens_good: "good_deltas out \<Longrightarrow> good_deltas (fst (push_tokens ts out d))"
  by (induction ts arbitrary: out d) (simp_all add: case_prod_beta Let_def push_token_good)

lemma decode_reply_good: "good_deltas (decode_reply tok thinking ts)"
  unfolding decode_reply_def finish_def case_prod_beta Let_def fst_conv
  by (intro emit_good push_tokens_good flush_valid) (simp add: good_deltas_def)

section \<open>Properties of the stream decoder\<close>


text \<open>A tokenizer of one byte per token.\<close>

definition byte_tokenizer :: Tokenizer where
  "byte_tokenizer = \<lparr>eos_id = 1000, thinking_end_id = 1001, decode_token = (\<lambda>t. [word_of_nat t])\<rparr>"


end
