(* ===== verification/Parallel_Topology.thy ===== *)
theory Parallel_Topology
  imports Aeon_Errors
begin

text \<open>
  The parallel topology of \<^verbatim>\<open>src/infrastructure/parallel/parallel_topology.hpp\<close>: parsing the device list, resolving
  the two degrees against the devices and the model, and the layer ranges of the pipeline stages. \<open>std::stol\<close> is
  modelled for base ten; \<open>uint32_t\<close> values are \<open>nat\<close>, the narrowing to \<open>int\<close> is written out.
\<close>

subsection \<open>The device list\<close>

fun trim_front :: "string \<Rightarrow> string" where
  "trim_front s = dropWhile (\<lambda>c. c = CHR '' '' \<or> c = CHR 0x09) s"

definition trim :: "string \<Rightarrow> string" where
  "trim s = rev (trim_front (rev (trim_front s)))"

definition digit_value :: "char \<Rightarrow> nat option" where
  "digit_value c = (let n = of_char c :: nat in if 48 \<le> n \<and> n \<le> 57 then Some (n - 48) else None)"

definition is_digit :: "char \<Rightarrow> bool" where
  "is_digit c \<longleftrightarrow> digit_value c \<noteq> None"

definition is_space :: "char \<Rightarrow> bool" where
  "is_space c = (let n = of_char c :: nat in n = 32 \<or> (9 \<le> n \<and> n \<le> 13))"

definition digits_value :: "string \<Rightarrow> nat" where
  "digits_value ds = foldl (\<lambda>n c. n * 10 + (case digit_value c of Some d \<Rightarrow> d | None \<Rightarrow> 0)) 0 ds"

text \<open>\<open>std::stol(s, &consumed, 10)\<close>: leading white space, a sign, then the longest run of digits; the value and what
  is left over. No digits is \<open>invalid_argument\<close>, a value outside of \<open>long\<close> is \<open>out_of_range\<close>.\<close>

definition stol :: "string \<Rightarrow> exn + int \<times> string" where
  "stol s =
     (let s1 = dropWhile is_space s;
          negative = (s1 \<noteq> [] \<and> hd s1 = CHR ''-'');
          s2 = (if s1 \<noteq> [] \<and> (hd s1 = CHR ''-'' \<or> hd s1 = CHR ''+'') then tl s1 else s1);
          ds = takeWhile is_digit s2;
          v = (if negative then - int (digits_value ds) else int (digits_value ds))
      in if ds = [] then Inl (invalid_argument ''stol'')
         else if v < - (2 ^ 63) \<or> 2 ^ 63 - 1 < v then Inl (out_of_range ''stol'')
         else Inr (v, dropWhile is_digit s2))"

definition to_int32 :: "int \<Rightarrow> int" where
  "to_int32 x = (x + 2 ^ 31) mod 2 ^ 32 - 2 ^ 31"

definition parse_entry :: "string \<Rightarrow> exn + int" where
  "parse_entry entry =
     (case stol entry of
        Inl _ \<Rightarrow> Inl (invalid_argument ''invalid device id'')
      | Inr (parsed, left) \<Rightarrow>
          if left \<noteq> [] then Inl (invalid_argument ''invalid device id'')
          else if parsed < 0 then Inl (invalid_argument ''device id must be non-negative'')
          else Inr (to_int32 parsed))"

text \<open>The loop: \<open>rest\<close> is the text from \<open>start\<close>.\<close>

function parse_entries :: "string \<Rightarrow> string \<Rightarrow> exn + int list" where
  "parse_entries whole rest =
     (let entry = trim (takeWhile (\<lambda>c. c \<noteq> CHR '','') rest);
          more = dropWhile (\<lambda>c. c \<noteq> CHR '','') rest
      in if entry = [] then
           (if whole = [] then Inr [] else Inl (invalid_argument ''device id list has an empty entry''))
         else case parse_entry entry of
                Inl e \<Rightarrow> Inl e
              | Inr d \<Rightarrow> if more = [] then Inr [d]
                         else (case parse_entries whole (tl more) of Inl e \<Rightarrow> Inl e | Inr ds \<Rightarrow> Inr (d # ds)))"
  by pat_completeness auto
termination
proof (relation "measure (\<lambda>(whole, rest). length rest)")
  show "wf (measure (\<lambda>(whole :: string, rest :: string). length rest))" by simp
next
  fix whole rest :: string and entry more d
  assume m: "more = dropWhile (\<lambda>c. c \<noteq> CHR '','') rest" "more \<noteq> []"
  have "length more \<le> length rest" unfolding m(1) by (rule length_dropWhile_le)
  moreover have "0 < length more" using m(2) by blast
  ultimately have "length (tl more) < length rest" by (simp only: length_tl)
  then show "((whole, tl more), whole, rest) \<in> measure (\<lambda>(whole, rest). length rest)" by simp
qed

definition parse_device_ids :: "string \<Rightarrow> exn + int list" where
  "parse_device_ids s = parse_entries s s"

subsection \<open>The topology\<close>

record ParallelTopologyConfig =
  cfg_device_ids :: "int list"
  tensor_parallel :: nat
  pipeline_parallel :: nat

record LayerRange =
  range_first :: nat
  range_count :: nat

definition range_end :: "LayerRange \<Rightarrow> nat" where
  "range_end r = u32 (range_first r + range_count r)"

definition range_contains :: "LayerRange \<Rightarrow> nat \<Rightarrow> bool" where
  "range_contains r layer \<longleftrightarrow> range_first r \<le> layer \<and> layer < range_end r"

record ParallelTopology =
  topo_tp :: nat
  topo_pp :: nat
  topo_layers :: nat
  device_ids :: "int list"
  stages :: "LayerRange list"

text \<open>The checks of the id list, in the source's order: each id in range and not among the earlier ones.\<close>

fun check_ids :: "int \<Rightarrow> int list \<Rightarrow> int list \<Rightarrow> exn + unit" where
  "check_ids visible seen [] = Inr ()"
| "check_ids visible seen (i # is) =
     (if i < 0 \<or> visible \<le> i then Inl (invalid_argument ''parallel topology: device id is out of range'')
      else if i \<in> set seen then Inl (invalid_argument ''parallel topology: device id is listed more than once'')
      else check_ids visible (seen @ [i]) is)"

text \<open>The stage loop, from \<open>stage\<close> with \<open>n\<close> stages left.\<close>

fun cut_stages :: "nat \<Rightarrow> nat \<Rightarrow> nat \<Rightarrow> nat \<Rightarrow> nat \<Rightarrow> LayerRange list" where
  "cut_stages base remainder stage first 0 = []"
| "cut_stages base remainder stage first (Suc n) =
     (let count = base + (if stage < remainder then 1 else 0)
      in \<lparr>range_first = first, range_count = count\<rparr> # cut_stages base remainder (Suc stage) (u32 (first + count)) n)"

definition resolve :: "ParallelTopologyConfig \<Rightarrow> int \<Rightarrow> nat \<Rightarrow> nat \<Rightarrow> exn + ParallelTopology" where
  "resolve config visible_devices artifact_max_tp num_layers =
     (let tp = tensor_parallel config; pp = pipeline_parallel config in
      if tp = 0 \<or> pp = 0 then Inl (invalid_argument ''parallel topology: tensor and pipeline degrees must be at least 1'')
      else if num_layers = 0 then Inl (invalid_argument ''parallel topology: the model has no layers'')
      else if artifact_max_tp = 0
      then Inl (invalid_argument ''parallel topology: the artifact's max tensor-parallel degree is 0'')
      else if artifact_max_tp mod tp \<noteq> 0
      then Inl (invalid_argument ''parallel topology: tensor_parallel does not divide the artifact's max tensor-parallel degree'')
      else if num_layers < pp
      then Inl (invalid_argument ''parallel topology: pipeline_parallel exceeds the model layers'')
      else
        let ids = (if cfg_device_ids config = [] then map (\<lambda>i. to_int32 (int i)) [0..<tp * pp] else cfg_device_ids config) in
        if length ids \<noteq> tp * pp then Inl (invalid_argument ''parallel topology: device_ids and tp * pp differ'')
        else case check_ids visible_devices [] ids of
               Inl e \<Rightarrow> Inl e
             | Inr _ \<Rightarrow> Inr \<lparr>topo_tp = tp, topo_pp = pp, topo_layers = num_layers, device_ids = ids,
                               stages = cut_stages (num_layers div pp) (num_layers mod pp) 0 0 pp\<rparr>)"

definition device_at :: "ParallelTopology \<Rightarrow> nat \<Rightarrow> nat \<Rightarrow> int" where
  "device_at t stage rank = device_ids t ! (stage * topo_tp t + rank)"

fun find_stage :: "LayerRange list \<Rightarrow> nat \<Rightarrow> nat \<Rightarrow> nat" where
  "find_stage (r # s # rs) layer stage = (if range_end r \<le> layer then find_stage (s # rs) layer (Suc stage) else stage)"
| "find_stage _ layer stage = stage"

definition stage_of :: "ParallelTopology \<Rightarrow> nat \<Rightarrow> nat" where
  "stage_of t layer = find_stage (stages t) layer 0"

definition is_single_device :: "ParallelTopology \<Rightarrow> bool" where
  "is_single_device t \<longleftrightarrow> topo_tp t = 1 \<and> topo_pp t = 1"

subsection \<open>The stages\<close>

lemma cut_stages_length [simp]: "length (cut_stages base rm stage first n) = n"
  by (induction n arbitrary: stage first) (simp_all add: Let_def)

definition stage_start :: "nat \<Rightarrow> nat \<Rightarrow> nat \<Rightarrow> nat" where
  "stage_start base rm k = k * base + min k rm"

lemma stage_start_Suc: "stage_start base rm (Suc k) = stage_start base rm k + base + (if k < rm then 1 else 0)"
  by (simp add: stage_start_def)

lemma stage_start_mono: "k \<le> l \<Longrightarrow> stage_start base rm k \<le> stage_start base rm l"
  by (simp add: stage_start_def add_le_mono mult_le_mono)

lemma cut_stages_nth:
  assumes "i < n" and "stage_start base rm (stage + n) < 2 ^ 32"
  shows "cut_stages base rm stage (stage_start base rm stage) n ! i =
    \<lparr>range_first = stage_start base rm (stage + i), range_count = base + (if stage + i < rm then 1 else 0)\<rparr>"
  using assms
proof (induction n arbitrary: stage i)
  case (Suc n)
  let ?c = "base + (if stage < rm then 1 else 0)"
  have n: "stage_start base rm stage + ?c = stage_start base rm (Suc stage)" by (simp add: stage_start_Suc)
  have "stage_start base rm (Suc stage) \<le> stage_start base rm (stage + Suc n)" by (rule stage_start_mono) simp
  then have u: "u32 (stage_start base rm stage + ?c) = stage_start base rm (Suc stage)" using Suc.prems(2) n by simp
  show ?case
  proof (cases i)
    case 0
    then show ?thesis by (simp add: Let_def)
  next
    case (Suc j)
    then show ?thesis
      using Suc.IH[of j "Suc stage"] Suc.prems u by (simp add: Let_def del: u32_id)
  qed
qed simp

lemma find_stage_finds:
  assumes "rs \<noteq> []" and "\<And>i. i < length rs \<Longrightarrow> range_end (rs ! i) = e i"
  shows "\<exists>j. find_stage rs layer k = k + j \<and> j < length rs \<and> (\<forall>i<j. e i \<le> layer) \<and> (Suc j < length rs \<longrightarrow> layer < e j)"
  using assms
proof (induction rs layer k arbitrary: e rule: find_stage.induct)
  case (1 r s rs layer k)
  show ?case
  proof (cases "range_end r \<le> layer")
    case True
    obtain j where j: "find_stage (s # rs) layer (Suc k) = Suc k + j" "j < length (s # rs)" "\<forall>i<j. e (Suc i) \<le> layer"
      "Suc j < length (s # rs) \<longrightarrow> layer < e (Suc j)"
      using "1.IH"[of "\<lambda>i. e (Suc i)"] True "1.prems"(2)[of "Suc _"] by auto
    have "e 0 \<le> layer" using "1.prems"(2)[of 0] True by simp
    then have "\<forall>i<Suc j. e i \<le> layer" using j(3) by (auto simp: less_Suc_eq_0_disj)
    then show ?thesis using j True by (intro exI[of _ "Suc j"]) auto
  next
    case False
    then show ?thesis using "1.prems"(2)[of 0] by (intro exI[of _ 0]) simp
  qed
qed auto

lemma stage_start_end: "pp \<noteq> 0 \<Longrightarrow> stage_start (n div pp) (n mod pp) pp = n"
  using mod_less_divisor[of pp n] by (simp add: stage_start_def min_absorb2 less_imp_le)

lemma check_ids_ok: "check_ids v seen is = Inr () \<longleftrightarrow> (\<forall>i\<in>set is. 0 \<le> i \<and> i < v) \<and> distinct is \<and> set is \<inter> set seen = {}"
  by (induction v seen "is" rule: check_ids.induct) auto


lemma resolve_ok:
  assumes "resolve config visible max_tp n = Inr t"
  shows "topo_tp t = tensor_parallel config" "topo_pp t = pipeline_parallel config" "topo_layers t = n"
    "topo_tp t \<noteq> 0" "topo_pp t \<noteq> 0" "topo_pp t \<le> n" "n \<noteq> 0" "max_tp mod topo_tp t = 0"
    "length (device_ids t) = topo_tp t * topo_pp t" "check_ids visible [] (device_ids t) = Inr ()"
    "stages t = cut_stages (n div topo_pp t) (n mod topo_pp t) 0 0 (topo_pp t)"
  using assms by (auto simp: resolve_def Let_def split: if_splits sum.splits)

lemma resolve_stages:
  assumes r: "resolve config visible max_tp n = Inr t" and n: "n < 2 ^ 32" and s: "s < topo_pp t"
  defines "S \<equiv> stage_start (n div topo_pp t) (n mod topo_pp t)"
  shows "range_first (stages t ! s) = S s" "range_end (stages t ! s) = S (Suc s)"
    "range_count (stages t ! s) = n div topo_pp t + (if s < n mod topo_pp t then 1 else 0)" "S (topo_pp t) = n"
proof -
  note o = resolve_ok[OF r]
  show e: "S (topo_pp t) = n" unfolding S_def by (rule stage_start_end[OF o(5)])
  have z: "S 0 = 0" by (simp add: S_def stage_start_def)
  have "stages t ! s = \<lparr>range_first = S s, range_count = n div topo_pp t + (if s < n mod topo_pp t then 1 else 0)\<rparr>"
    using cut_stages_nth[OF s, of "n div topo_pp t" "n mod topo_pp t" 0] z e n o(11) unfolding S_def by simp
  moreover have "S (Suc s) \<le> n" using stage_start_mono[of "Suc s" "topo_pp t" "n div topo_pp t" "n mod topo_pp t"] s e unfolding S_def by simp
  ultimately show "range_first (stages t ! s) = S s" "range_end (stages t ! s) = S (Suc s)"
    "range_count (stages t ! s) = n div topo_pp t + (if s < n mod topo_pp t then 1 else 0)"
    using n by (simp_all add: range_end_def S_def stage_start_Suc add.assoc)
qed

section \<open>Properties of the topology\<close>

text \<open>C26: the pipeline stages partition the layers. A resolved topology has one stage per pipeline degree, none
  of them empty and their sizes at most one apart; every layer lies in exactly one stage, and \<open>stage_of\<close>
  finds it.\<close>

theorem stages_partition_layers:
  assumes "resolve config visible max_tp n = Inr t" and "n < 2 ^ 32" and "layer < n"
  shows "length (stages t) = pipeline_parallel config \<and> stage_of t layer < pipeline_parallel config \<and>
    (\<forall>s<pipeline_parallel config. range_contains (stages t ! s) layer \<longleftrightarrow> s = stage_of t layer) \<and>
    (\<forall>s<pipeline_parallel config. range_count (stages t ! s) \<noteq> 0 \<and>
       range_count (stages t ! s) \<in> {n div pipeline_parallel config, Suc (n div pipeline_parallel config)})"
proof -
  note o = resolve_ok[OF assms(1)] and st = resolve_stages[OF assms(1,2)]
  define S where "S = stage_start (n div topo_pp t) (n mod topo_pp t)"
  note st = st[folded S_def]
  have len: "length (stages t) = topo_pp t" using o(11) by simp
  have ne: "stages t \<noteq> []" using len o(5) by auto
  obtain j where j: "stage_of t layer = j" "j < topo_pp t" "\<forall>i<j. S (Suc i) \<le> layer" "Suc j < topo_pp t \<longrightarrow> layer < S (Suc j)"
    using find_stage_finds[OF ne, of "\<lambda>i. S (Suc i)" layer 0] len st(2) by (auto simp: stage_of_def)
  have up: "layer < S (Suc j)"
  proof (cases "Suc j < topo_pp t")
    case False
    then have "Suc j = topo_pp t" using j(2) by simp
    then show ?thesis using st(4)[OF j(2)] assms(3) by simp
  qed (use j(4) in simp)
  have low: "S j \<le> layer" using j(3) by (cases j) (auto simp: S_def stage_start_def)
  have mono: "S a \<le> S b" if "a \<le> b" for a b using that by (simp add: S_def stage_start_mono)
  have only: "s = j" if "S s \<le> layer" "layer < S (Suc s)" for s
  proof (rule ccontr)
    assume "s \<noteq> j"
    then have "Suc s \<le> j \<or> Suc j \<le> s" by linarith
    then show False using mono[of "Suc s" j] mono[of "Suc j" s] that low up by linarith
  qed
  have ne0: "1 \<le> n div topo_pp t" using o(5,6) by (simp add: Suc_leI div_greater_zero_iff)
  have c: "range_contains (stages t ! s) layer \<longleftrightarrow> s = j" if "s < topo_pp t" for s
    unfolding range_contains_def st(1)[OF that] st(2)[OF that] using only[of s] low up by blast
  have k: "range_count (stages t ! s) \<noteq> 0 \<and> range_count (stages t ! s) \<in> {n div topo_pp t, Suc (n div topo_pp t)}"
    if "s < topo_pp t" for s
    unfolding st(3)[OF that] using ne0 by simp
  show ?thesis using j(1,2) len c k unfolding o(2)[symmetric] by simp
qed

theorem stages_partition_layers_witness:
  "\<exists>t. resolve \<lparr>cfg_device_ids = [], tensor_parallel = 1, pipeline_parallel = 4\<rparr> 4 1 43 = Inr t \<and>
     length (stages t) = 4 \<and> stage_of t 22 < 4 \<and> range_contains (stages t ! stage_of t 22) 22"
proof -
  let ?c = "\<lparr>cfg_device_ids = [], tensor_parallel = 1, pipeline_parallel = 4\<rparr>"
  have "isl (resolve ?c 4 1 43) = False" by code_simp
  then obtain t where t: "resolve ?c 4 1 43 = Inr t" by (cases "resolve ?c 4 1 43") auto
  show ?thesis using stages_partition_layers[OF t, of 22] t by auto
qed

text \<open>Every rank of every stage runs on its own, visible device.\<close>

theorem ranks_on_distinct_devices:
  assumes "resolve config visible max_tp n = Inr t"
    and "s < pipeline_parallel config" "r < tensor_parallel config" "s' < pipeline_parallel config" "r' < tensor_parallel config"
  shows "0 \<le> device_at t s r \<and> device_at t s r < visible \<and> (device_at t s r = device_at t s' r' \<longrightarrow> s = s' \<and> r = r')"
proof -
  note o = resolve_ok[OF assms(1)]
  let ?tp = "topo_tp t"
  have b: "x * ?tp + y < length (device_ids t)" if "x < topo_pp t" "y < ?tp" for x y
  proof -
    have "x * ?tp + y < Suc x * ?tp" using that by simp
    also have "\<dots> \<le> topo_pp t * ?tp" using that by (intro mult_le_mono1) simp
    finally show ?thesis using o(9) by (simp add: mult.commute)
  qed
  have i: "s < topo_pp t" "r < ?tp" "s' < topo_pp t" "r' < ?tp" using assms(2-5) o(1,2) by simp_all
  note c = o(10)[unfolded check_ids_ok]
  have "s = s' \<and> r = r'" if "s * ?tp + r = s' * ?tp + r'"
  proof -
    have "(s * ?tp + r) div ?tp = s" "(s' * ?tp + r') div ?tp = s'" using i(2,4) by simp_all
    then show ?thesis using that by simp
  qed
  then show ?thesis
    using c b[OF i(1,2)] b[OF i(3,4)] by (auto simp: device_at_def nth_eq_iff_index_eq)
qed

subsection \<open>Printing and parsing a device list\<close>

fun decimal :: "nat \<Rightarrow> string" where
  "decimal n = (if n < 10 then [char_of (48 + n)] else decimal (n div 10) @ [char_of (48 + n mod 10)])"

declare decimal.simps [simp del]

fun print_ids :: "nat list \<Rightarrow> string" where
  "print_ids [] = []"
| "print_ids [i] = decimal i"
| "print_ids (i # j # is) = decimal i @ CHR '','' # print_ids (j # is)"

lemma digit_char: "d < 10 \<Longrightarrow> digit_value (char_of (48 + d)) = Some d"
  by (simp add: digit_value_def Let_def)

lemma decimal_digits: "list_all is_digit (decimal n) \<and> decimal n \<noteq> [] \<and> digits_value (decimal n) = n"
proof (induction n rule: decimal.induct)
  case (1 n)
  show ?case
  proof (cases "n < 10")
    case True
    then show ?thesis by (simp add: decimal.simps[of n] is_digit_def digit_char digits_value_def)
  next
    case False
    then show ?thesis using 1 digit_char[of "n mod 10"]
      by (simp add: decimal.simps[of n] is_digit_def digits_value_def)
  qed
qed

lemmas decimal_facts = decimal_digits[THEN conjunct1] decimal_digits[THEN conjunct2, THEN conjunct1]
  decimal_digits[THEN conjunct2, THEN conjunct2]

lemma digit_not: "is_digit c \<Longrightarrow> c \<noteq> CHR '' '' \<and> c \<noteq> CHR 0x09 \<and> c \<noteq> CHR '','' \<and> c \<noteq> CHR ''-'' \<and> c \<noteq> CHR ''+'' \<and> \<not> is_space c"
  by (auto simp: is_digit_def digit_value_def is_space_def Let_def split: if_splits)

lemma trim_digits: "list_all is_digit s \<Longrightarrow> trim s = s"
proof -
  assume d: "list_all is_digit s"
  have front: "trim_front xs = xs" if "list_all is_digit xs" for xs
    using that by (cases xs) (auto dest: digit_not)
  show ?thesis using front[OF d] front[of "rev s"] d by (simp add: trim_def list_all_iff)
qed

lemma takeWhile_digits: "list_all is_digit s \<Longrightarrow> takeWhile is_digit s = s" "list_all is_digit s \<Longrightarrow> dropWhile is_digit s = []"
  by (simp_all add: list_all_iff)

lemma parse_decimal:
  assumes "n < 2 ^ 31"
  shows "parse_entry (decimal n) = Inr (int n)"
proof -
  note d = decimal_facts[of n]
  obtain c cs where c: "decimal n = c # cs" "is_digit c" using d(1,2) by (cases "decimal n") auto
  have "dropWhile is_space (decimal n) = decimal n" using c digit_not[OF c(2)] by simp
  then have "stol (decimal n) = Inr (int n, [])"
    using digit_not[OF c(2)] d(2,3) assms c(1)
    by (simp add: stol_def Let_def takeWhile_digits[OF d(1), unfolded c(1)] del: takeWhile.simps dropWhile.simps)
  moreover have "to_int32 (int n) = int n" using assms by (simp add: to_int32_def)
  ultimately show ?thesis by (simp add: parse_entry_def)
qed

lemma upto_comma:
  assumes "list_all is_digit s"
  shows "takeWhile (\<lambda>c. c \<noteq> CHR '','') (s @ CHR '','' # t) = s" "dropWhile (\<lambda>c. c \<noteq> CHR '','') (s @ CHR '','' # t) = CHR '','' # t"
    "takeWhile (\<lambda>c. c \<noteq> CHR '','') s = s" "dropWhile (\<lambda>c. c \<noteq> CHR '','') s = []"
  using assms by (induction s) (auto dest: digit_not)

declare parse_entries.simps [simp del]

lemma parse_printed:
  "is \<noteq> [] \<Longrightarrow> list_all (\<lambda>i. i < 2 ^ 31) is \<Longrightarrow> parse_entries whole (print_ids is) = Inr (map int is)"
proof (induction "is" rule: print_ids.induct)
  case (2 i)
  note d = decimal_facts[of i]
  show ?case using 2 d(2) parse_decimal[of i]
    by (subst parse_entries.simps) (simp add: Let_def trim_digits[OF d(1)] upto_comma(3,4)[OF d(1)])
next
  case (3 i j "is")
  note d = decimal_facts[of i]
  show ?case using 3 d(2) parse_decimal[of i]
    by (subst parse_entries.simps) (simp add: Let_def trim_digits[OF d(1)] upto_comma(1,2)[OF d(1)])
qed simp

text \<open>C28: a printed device list parses back to itself.\<close>

theorem device_list_roundtrip:
  assumes "list_all (\<lambda>i. i < 2 ^ 31) is"
  shows "parse_device_ids (print_ids is) = Inr (map int is)"
proof (cases "is = []")
  case True
  then show ?thesis by (simp add: parse_device_ids_def) (subst parse_entries.simps, simp add: trim_def)
next
  case False
  then show ?thesis using parse_printed[OF False assms] by (simp add: parse_device_ids_def)
qed

theorem device_list_roundtrip_witness:
  "print_ids [0, 12, 3] = ''0,12,3'' \<and> parse_device_ids ''0,12,3'' = Inr [0, 12, 3]"
proof -
  have "print_ids [0, 12, 3] = ''0,12,3''" by code_simp
  then show ?thesis using device_list_roundtrip[of "[0, 12, 3]"] by simp
qed

text \<open>A device id is not checked against the range of \<open>int\<close>: a number that fits \<open>long\<close> is narrowed without
  a check, so that an id far beyond any device is accepted as device 0.\<close>

lemma device_id_narrowed: "parse_device_ids ''4294967296'' = Inr [0]"
  by code_simp

end
