(* ===== verification/Memory_Budget.thy ===== *)
theory Memory_Budget
  imports Parallel_Topology
begin

text \<open>
  The memory budget: \<^verbatim>\<open>src/infrastructure/memory/runtime_config.hpp\<close> (the knobs the budget reads and the corridor's
  slot counts), \<^verbatim>\<open>expert_format.hpp\<close>, \<^verbatim>\<open>memory_budget_report.hpp\<close> and \<^verbatim>\<open>memory_budget_engine.hpp\<close>.

  Byte counts are \<open>nat\<close>: they are \<open>size_t\<close> in the source and far below \<open>2 ^ 64\<close>. Slot counts are \<open>uint32_t\<close>
  and their casts and their one subtraction that can wrap are written out. The utilisation fraction is an
  exact rational where the source has a \<open>double\<close>. The device query is an argument, as in the source; so is the
  answer of \<open>sysinfo\<close>. Rejection texts keep their fixed part.
\<close>

unbundle bit_operations_syntax

subsection \<open>Formats and knobs\<close>

datatype ExpertFormatKind = UNKNOWN | SWIZZLED_W4A16

record ExpertFormatDescriptor =
  format_kind :: ExpertFormatKind
  artifact_version :: nat
  sector_size :: nat
  format_layers :: nat
  format_experts_per_layer :: nat
  payload_bytes :: nat

definition catalog_experts :: "ExpertFormatDescriptor \<Rightarrow> nat" where
  "catalog_experts f = format_layers f * format_experts_per_layer f"

definition validate_payload :: "ExpertFormatDescriptor \<Rightarrow> exn + unit" where
  "validate_payload f =
     (if sector_size f = 0 \<or> sector_size f AND (sector_size f - 1) \<noteq> 0 \<or> payload_bytes f = 0 \<or> payload_bytes f mod sector_size f \<noteq> 0
      then Inl (invalid_argument ''ExpertFormatDescriptor: payload must be a non-zero multiple of sector_size'')
      else Inr ())"

definition validate_catalog :: "ExpertFormatDescriptor \<Rightarrow> exn + unit" where
  "validate_catalog f = check_then (validate_payload f)
     (if format_layers f = 0 \<or> format_experts_per_layer f = 0 \<or> (2 ^ 64 - 1) div 16 < catalog_experts f
      then Inl (invalid_argument ''ExpertFormatDescriptor: layer and expert counts must describe a valid catalog'')
      else Inr ())"

definition make_current_swizzled_expert_format :: "nat \<Rightarrow> nat \<Rightarrow> ExpertFormatDescriptor" where
  "make_current_swizzled_expert_format layers experts =
     \<lparr>format_kind = SWIZZLED_W4A16, artifact_version = 2, sector_size = 4096, format_layers = layers,
      format_experts_per_layer = experts, payload_bytes = 14155776\<rparr>"

record AeonRuntimeConfig =
  context_size :: nat
  cfg_warm_host_bytes :: nat
  preload_warm_host :: bool
  release_dense_pages_after_upload :: bool
  enable_warm_refill :: bool
  supply_telemetry_path :: string
  run_id :: string
  max_hot_vram_slots :: nat
  demotion_queue_capacity :: nat
  profile_routing_reuse :: bool
  validate_registry_each_request :: bool
  prefill_chunk :: nat
  prefill_window :: nat
  freeze_warm_during_prefill :: bool
  prefill_sweep :: bool
  prefill_sweep_min_tokens :: nat
  prefill_sweep_staging_blocks :: nat
  parallel :: ParallelTopologyConfig
  cfg_gpu_memory_utilization :: rat

definition default_runtime_config :: AeonRuntimeConfig where
  "default_runtime_config = \<lparr>context_size = 4096, cfg_warm_host_bytes = 0, preload_warm_host = True,
     release_dense_pages_after_upload = True, enable_warm_refill = True, supply_telemetry_path = [],
     run_id = ''unnamed'', max_hot_vram_slots = 0, demotion_queue_capacity = 0, profile_routing_reuse = False,
     validate_registry_each_request = False, prefill_chunk = 64, prefill_window = 4096,
     freeze_warm_during_prefill = True, prefill_sweep = True, prefill_sweep_min_tokens = 0,
     prefill_sweep_staging_blocks = 2,
     parallel = \<lparr>cfg_device_ids = [], tensor_parallel = 1, pipeline_parallel = 1\<rparr>,
     cfg_gpu_memory_utilization = 95 / 100\<rparr>"

definition HOST_RAM_RESERVED_BYTES :: nat where
  "HOST_RAM_RESERVED_BYTES = 10 * 1024 * 1024 * 1024"

definition batch_scratch_allowance_bytes :: "nat \<Rightarrow> nat" where
  "batch_scratch_allowance_bytes chunk_tokens = chunk_tokens * (1024 * 1024)"

definition decode_scratch_allowance_bytes :: nat where
  "decode_scratch_allowance_bytes = 16 * 1024 * 1024"

record StagingSlotCounts =
  decode_slots :: nat
  batch_slots :: nat
  prefill_slots :: nat
  peak_slots :: nat

definition decode_slot_count :: "nat \<Rightarrow> nat" where
  "decode_slot_count experts_per_token = u32 (2 * experts_per_token)"

definition staging_slot_counts :: "AeonRuntimeConfig \<Rightarrow> nat \<Rightarrow> nat \<Rightarrow> StagingSlotCounts" where
  "staging_slot_counts cfg experts_per_layer experts_per_token =
     (let decode = decode_slot_count experts_per_token;
          chunk_ceiling = min (u32 (experts_per_token * max 1 (prefill_chunk cfg))) experts_per_layer;
          batch = max decode chunk_ceiling;
          blocks = (if prefill_sweep cfg then max 1 (prefill_sweep_staging_blocks cfg) else 1);
          prefill = (if prefill_sweep cfg then max batch (u32 (blocks * experts_per_layer)) else batch)
      in \<lparr>decode_slots = decode, batch_slots = batch, prefill_slots = prefill,
          peak_slots = max decode (max batch prefill)\<rparr>)"

subsection \<open>The shared host region\<close>

text \<open>The cumulative floors: \<open>before\<close> layers lie ahead of the stages that remain.\<close>

fun split_shares :: "nat \<Rightarrow> nat \<Rightarrow> nat \<Rightarrow> nat list \<Rightarrow> nat list" where
  "split_shares budget layers before [] = []"
| "split_shares budget layers before (c # cs) =
     (budget * (before + c) div layers - budget * before div layers) # split_shares budget layers (before + c) cs"

definition split_host_budget :: "nat \<Rightarrow> nat list \<Rightarrow> nat list" where
  "split_host_budget budget stage_layer_counts =
     (if sum_list stage_layer_counts = 0 then replicate (length stage_layer_counts) 0
      else split_shares budget (sum_list stage_layer_counts) 0 stage_layer_counts)"

record SharedHostRegion =
  region_slots :: nat
  lane_base_slots :: nat
  lane_slots :: nat

fun place_lanes :: "nat \<Rightarrow> nat \<Rightarrow> nat list \<Rightarrow> SharedHostRegion list" where
  "place_lanes region base [] = []"
| "place_lanes region base (n # ns) =
     \<lparr>region_slots = region, lane_base_slots = base, lane_slots = u32 n\<rparr> # place_lanes region (u32 (base + u32 n)) ns"

definition plan_shared_host_region ::
  "AeonRuntimeConfig \<Rightarrow> ExpertFormatDescriptor \<Rightarrow> nat \<Rightarrow> nat list \<Rightarrow> SharedHostRegion list" where
  "plan_shared_host_region cfg fmt experts_per_token stage_layer_counts =
     (let staging = staging_slot_counts cfg (format_experts_per_layer fmt) experts_per_token;
          slots = u32 (cfg_warm_host_bytes cfg div payload_bytes fmt);
          warm_enabled = 0 < slots;
          region = (if \<not> warm_enabled \<and> 1 < length stage_layer_counts then peak_slots staging else slots);
          lane_total = (if warm_enabled \<and> decode_slots staging < region then region - decode_slots staging else 0)
      in place_lanes region 0 (split_host_budget lane_total stage_layer_counts))"

subsection \<open>The report\<close>

record AttentionStateMemory =
  local_kv_bytes :: nat
  compressed_kv_bytes :: nat
  compressor_state_bytes :: nat
  indexer_state_bytes :: nat
  metadata_bytes :: nat
  layer_state_bytes :: nat
  rope_bytes :: nat

definition total_bytes :: "AttentionStateMemory \<Rightarrow> nat" where
  "total_bytes m = layer_state_bytes m + rope_bytes m"

record ModelMemoryGeometry =
  num_hidden_layers :: int
  routed_experts :: int
  experts_per_tok :: int
  max_position_embeddings :: int
  prefill_carry_bytes_per_token :: nat
  attention_state_memory :: "nat \<Rightarrow> exn + AttentionStateMemory"

record DeviceMemoryInfo =
  device_id :: int
  free_bytes :: nat
  device_total_bytes :: nat

record MemoryBudgetReport =
  is_feasible :: bool
  rejection_reason :: string
  device_index :: int
  gpu_memory_utilization :: rat
  total_vram_bytes :: nat
  free_vram_bytes :: nat
  usable_vram_bytes :: nat
  total_host_ram_bytes :: nat
  max_allowed_host_ram_bytes :: nat
  vram_dense_bytes :: nat
  vram_kv_bytes :: nat
  vram_local_kv_bytes :: nat
  vram_compressed_kv_bytes :: nat
  vram_compressor_state_bytes :: nat
  vram_indexer_state_bytes :: nat
  vram_attention_metadata_bytes :: nat
  vram_attention_state_bytes :: nat
  vram_rope_bytes :: nat
  vram_scratch_bytes :: nat
  vram_decode_scratch_bytes :: nat
  vram_batch_scratch_bytes :: nat
  vram_prefill_carry_bytes :: nat
  vram_min_active_bytes :: nat
  vram_available_for_experts :: nat
  hot_vram_slots :: nat
  hot_vram_bytes :: nat
  warm_host_slots :: nat
  warm_host_bytes :: nat
  warm_host_slots_routed :: nat
  warm_host_slots_min :: nat
  host_region_slots :: nat
  host_lane_base_slots :: nat
  host_region_bytes :: nat
  expert_payload_bytes :: nat
  configured_host_budget_bytes :: nat
  persistent_warm_host_budget_bytes :: nat
  transient_staging_bytes :: nat
  staging_decode_bytes :: nat
  staging_batch_bytes :: nat
  cold_nvme_slots :: nat
  max_viable_context_size :: nat

definition empty_report :: MemoryBudgetReport where
  "empty_report = \<lparr>is_feasible = False, rejection_reason = [], device_index = -1, gpu_memory_utilization = 0,
     total_vram_bytes = 0, free_vram_bytes = 0, usable_vram_bytes = 0, total_host_ram_bytes = 0,
     max_allowed_host_ram_bytes = 0, vram_dense_bytes = 0, vram_kv_bytes = 0, vram_local_kv_bytes = 0,
     vram_compressed_kv_bytes = 0, vram_compressor_state_bytes = 0, vram_indexer_state_bytes = 0,
     vram_attention_metadata_bytes = 0, vram_attention_state_bytes = 0, vram_rope_bytes = 0,
     vram_scratch_bytes = 0, vram_decode_scratch_bytes = 0, vram_batch_scratch_bytes = 0,
     vram_prefill_carry_bytes = 0, vram_min_active_bytes = 0, vram_available_for_experts = 0,
     hot_vram_slots = 0, hot_vram_bytes = 0, warm_host_slots = 0, warm_host_bytes = 0,
     warm_host_slots_routed = 0, warm_host_slots_min = 0, host_region_slots = 0, host_lane_base_slots = 0,
     host_region_bytes = 0, expert_payload_bytes = 0, configured_host_budget_bytes = 0,
     persistent_warm_host_budget_bytes = 0, transient_staging_bytes = 0, staging_decode_bytes = 0,
     staging_batch_bytes = 0, cold_nvme_slots = 0, max_viable_context_size = 0\<rparr>"

definition prefill_carry_bytes :: "AeonRuntimeConfig \<Rightarrow> ModelMemoryGeometry \<Rightarrow> nat" where
  "prefill_carry_bytes cfg geo =
     (let window = (if prefill_window cfg = 0 then context_size cfg else min (prefill_window cfg) (context_size cfg))
      in window * prefill_carry_bytes_per_token geo)"

subsection \<open>The evaluation\<close>

definition rejected :: "string \<Rightarrow> MemoryBudgetReport \<Rightarrow> exn + MemoryBudgetReport" where
  "rejected reason r = Inr (r\<lparr>is_feasible := False, rejection_reason := reason\<rparr>)"

fun what :: "exn \<Rightarrow> string" where
  "what (invalid_argument m) = m"
| "what (logic_error m) = m"
| "what (runtime_error m) = m"
| "what (out_of_range m) = m"
| "what (ConversationError _ m) = m"
| "what GenerationCancelled = []"

text \<open>\<open>static_cast<uint32_t>\<close> of an \<open>int64_t\<close>.\<close>

definition cast32 :: "int \<Rightarrow> nat" where
  "cast32 x = nat (x mod 2 ^ 32)"

text \<open>The binary search for the largest context. The geometry is called outside of a \<open>try\<close>, so what it
  throws leaves the evaluation.\<close>

function search_context :: "(nat \<Rightarrow> exn + AttentionStateMemory) \<Rightarrow> nat \<Rightarrow> nat \<Rightarrow> nat \<Rightarrow> nat \<Rightarrow> exn + nat" where
  "search_context attention needed usable low high =
     (if low < high then
        let midpoint = low + (high - low + 1) div 2 in
        case attention (u32 midpoint) of
          Inl e \<Rightarrow> Inl e
        | Inr m \<Rightarrow> if needed + total_bytes m \<le> usable
                   then search_context attention needed usable midpoint high
                   else search_context attention needed usable low (midpoint - 1)
      else Inr low)"
  by pat_completeness auto
termination by (relation "measure (\<lambda>(attention, needed, usable, low, high). high - low)") auto

text \<open>The device's share, the host's share and the tiers, in the order of \<open>evaluate\<close>.\<close>

definition vram_terms :: "AeonRuntimeConfig \<Rightarrow> ModelMemoryGeometry \<Rightarrow> nat \<Rightarrow> ExpertFormatDescriptor \<Rightarrow>
    AttentionStateMemory \<Rightarrow> MemoryBudgetReport \<Rightarrow> MemoryBudgetReport" where
  "vram_terms cfg geo dense fmt m r =
     (let carry = (if prefill_sweep cfg then prefill_carry_bytes cfg geo else 0);
          batch = (if prefill_sweep cfg then batch_scratch_allowance_bytes (max 1 (prefill_chunk cfg)) else 0)
      in r\<lparr>vram_dense_bytes := dense, vram_local_kv_bytes := local_kv_bytes m,
           vram_compressed_kv_bytes := compressed_kv_bytes m, vram_compressor_state_bytes := compressor_state_bytes m,
           vram_indexer_state_bytes := indexer_state_bytes m, vram_attention_metadata_bytes := metadata_bytes m,
           vram_attention_state_bytes := layer_state_bytes m, vram_rope_bytes := rope_bytes m,
           vram_kv_bytes := total_bytes m, vram_prefill_carry_bytes := carry, vram_batch_scratch_bytes := batch,
           vram_decode_scratch_bytes := decode_scratch_allowance_bytes,
           vram_scratch_bytes := decode_scratch_allowance_bytes + batch + carry,
           vram_min_active_bytes := cast32 (2 * experts_per_tok geo) * payload_bytes fmt\<rparr>)"

definition hot_slots_for :: "AeonRuntimeConfig \<Rightarrow> nat \<Rightarrow> ExpertFormatDescriptor \<Rightarrow> nat" where
  "hot_slots_for cfg remaining fmt =
     (let slots = u32 (remaining div payload_bytes fmt) in
      if 0 < max_hot_vram_slots cfg then min slots (max (max_hot_vram_slots cfg) 6) else slots)"

definition lane_for :: "SharedHostRegion \<Rightarrow> nat \<Rightarrow> nat" where
  "lane_for region staging_slots =
     (let room = (if staging_slots < region_slots region then region_slots region - staging_slots else 0);
          usable = (if lane_base_slots region < room then room - lane_base_slots region else 0)
      in min usable (lane_slots region))"

definition fill_tiers :: "ExpertFormatDescriptor \<Rightarrow> StagingSlotCounts \<Rightarrow> SharedHostRegion \<Rightarrow> MemoryBudgetReport \<Rightarrow> MemoryBudgetReport" where
  "fill_tiers fmt staging region r =
     (let payload = payload_bytes fmt;
          total = u32 (catalog_experts fmt);
          hot = hot_vram_slots r;
          warm = min (if hot < total then total - hot else 0) (lane_slots region)
      in r\<lparr>host_region_slots := region_slots region, host_region_bytes := region_slots region * payload,
           host_lane_base_slots := lane_base_slots region,
           warm_host_slots_routed := lane_for region (batch_slots staging),
           warm_host_slots_min := lane_for region (prefill_slots staging),
           warm_host_slots := warm, warm_host_bytes := warm * payload,
           persistent_warm_host_budget_bytes := warm * payload,
           cold_nvme_slots := u32 (total + 2 ^ 32 - u32 (hot + warm)),
           is_feasible := True\<rparr>)"

definition host_and_tiers :: "AeonRuntimeConfig \<Rightarrow> ModelMemoryGeometry \<Rightarrow> ExpertFormatDescriptor \<Rightarrow>
    SharedHostRegion option \<Rightarrow> MemoryBudgetReport \<Rightarrow> exn + MemoryBudgetReport" where
  "host_and_tiers cfg geo fmt shared r =
     (let ept = cast32 (experts_per_tok geo);
          payload = payload_bytes fmt;
          staging = staging_slot_counts cfg (format_experts_per_layer fmt) ept;
          region = (case shared of Some s \<Rightarrow> s | None \<Rightarrow> hd (plan_shared_host_region cfg fmt ept [1]));
          r1 = r\<lparr>transient_staging_bytes := peak_slots staging * payload,
                 staging_decode_bytes := decode_slots staging * payload,
                 staging_batch_bytes := batch_slots staging * payload,
                 configured_host_budget_bytes := cfg_warm_host_bytes cfg\<rparr>
      in if max_allowed_host_ram_bytes r1 < region_slots region * payload
         then rejected ''Host budget exceeds the RAM allowed'' r1
         else if cfg_warm_host_bytes cfg \<noteq> 0 \<and> region_slots region < peak_slots staging
         then rejected ''Host budget cannot hold the corridor at its largest'' r1
         else Inr (fill_tiers fmt staging region r1))"

text \<open>The largest context the device could serve with everything else in place.\<close>

definition viable_context :: "ModelMemoryGeometry \<Rightarrow> MemoryBudgetReport \<Rightarrow> exn + nat" where
  "viable_context geo r =
     (let needed = vram_dense_bytes r + vram_scratch_bytes r + vram_min_active_bytes r in
      if needed < usable_vram_bytes r
      then map_sum id u32 (search_context (attention_state_memory geo) needed (usable_vram_bytes r)
             0 (nat (max_position_embeddings geo)))
      else Inr (max_viable_context_size r))"

definition vram_used :: "MemoryBudgetReport \<Rightarrow> nat" where
  "vram_used r = vram_dense_bytes r + vram_kv_bytes r + vram_scratch_bytes r"

definition fill_hot :: "AeonRuntimeConfig \<Rightarrow> ExpertFormatDescriptor \<Rightarrow> MemoryBudgetReport \<Rightarrow> MemoryBudgetReport" where
  "fill_hot cfg fmt r =
     (let remaining = usable_vram_bytes r - vram_used r;
          hot = hot_slots_for cfg remaining fmt
      in r\<lparr>vram_available_for_experts := remaining, hot_vram_slots := hot, hot_vram_bytes := hot * payload_bytes fmt\<rparr>)"

definition device_and_pools :: "AeonRuntimeConfig \<Rightarrow> ModelMemoryGeometry \<Rightarrow> ExpertFormatDescriptor \<Rightarrow>
    SharedHostRegion option \<Rightarrow> MemoryBudgetReport \<Rightarrow> exn + MemoryBudgetReport" where
  "device_and_pools cfg geo fmt shared r =
     (case viable_context geo r of
        Inl e \<Rightarrow> Inl e
      | Inr best \<Rightarrow>
          let r1 = r\<lparr>max_viable_context_size := best\<rparr> in
          if usable_vram_bytes r1 < vram_used r1 + vram_min_active_bytes r1
          then rejected ''VRAM capacity exceeded'' r1
          else host_and_tiers cfg geo fmt shared (fill_hot cfg fmt r1))"

definition evaluate :: "AeonRuntimeConfig \<Rightarrow> ModelMemoryGeometry \<Rightarrow> nat \<Rightarrow> ExpertFormatDescriptor \<Rightarrow>
    DeviceMemoryInfo \<Rightarrow> nat option \<Rightarrow> SharedHostRegion option \<Rightarrow> exn + MemoryBudgetReport" where
  "evaluate cfg geo dense fmt memory host_ram shared =
     (case validate_catalog fmt of
        Inl e \<Rightarrow> Inr (empty_report\<lparr>rejection_reason := what e\<rparr>)
      | Inr _ \<Rightarrow>
        if num_hidden_layers geo < 0 \<or> routed_experts geo < 0 \<or>
           format_layers fmt \<noteq> cast32 (num_hidden_layers geo) \<or>
           format_experts_per_layer fmt \<noteq> cast32 (routed_experts geo)
        then rejected ''Expert format catalog does not match the model configuration'' empty_report
        else if 2 ^ 32 - 1 < catalog_experts fmt
        then rejected ''Expert format catalog exceeds the runtime ID range'' empty_report
        else
          let usable = nat \<lfloor>cfg_gpu_memory_utilization cfg * of_nat (device_total_bytes memory)\<rfloor>;
              r = empty_report\<lparr>expert_payload_bytes := payload_bytes fmt, device_index := device_id memory,
                    gpu_memory_utilization := cfg_gpu_memory_utilization cfg,
                    total_vram_bytes := device_total_bytes memory, free_vram_bytes := free_bytes memory,
                    usable_vram_bytes := usable\<rparr>
          in if free_bytes memory < usable
             then rejected ''the device has less free than the allowance'' r
             else case host_ram of
               None \<Rightarrow> rejected ''Failed to query system host memory via sysinfo()'' r
             | Some ram \<Rightarrow>
                 let r1 = r\<lparr>total_host_ram_bytes := ram,
                       max_allowed_host_ram_bytes := (if HOST_RAM_RESERVED_BYTES < ram then ram - HOST_RAM_RESERVED_BYTES else 0)\<rparr>
                 in if context_size cfg = 0 then rejected ''Context size cannot be 0'' r1
                    else if cast32 (max_position_embeddings geo) < context_size cfg
                    then rejected ''Requested context size exceeds model max_position_embeddings'' r1
                    else case attention_state_memory geo (context_size cfg) of
                      Inl e \<Rightarrow> Inr (r1\<lparr>rejection_reason := what e\<rparr>)
                    | Inr m \<Rightarrow> device_and_pools cfg geo fmt shared (vram_terms cfg geo dense fmt m r1))"


subsection \<open>The split\<close>

lemma split_shares_length [simp]: "length (split_shares t n b cs) = length cs"
  by (induction t n b cs rule: split_shares.induct) simp_all

text \<open>The floors telescope.\<close>

lemma split_shares_sum: "sum_list (split_shares t n b cs) + t * b div n = t * (b + sum_list cs) div n"
proof (induction t n b cs rule: split_shares.induct)
  case (2 t n b c cs)
  have "t * b div n \<le> t * (b + c) div n" by (intro div_le_mono mult_le_mono) simp_all
  then show ?case using 2 by (simp add: add.assoc)
qed simp

lemma split_host_budget_sum:
  assumes "sum_list cs \<noteq> 0"
  shows "sum_list (split_host_budget t cs) = t"
  using assms split_shares_sum[of t "sum_list cs" 0 cs] by (auto simp: split_host_budget_def)

lemma split_host_budget_length [simp]: "length (split_host_budget t cs) = length cs"
  by (simp add: split_host_budget_def)

lemma split_host_budget_le: "sum_list (split_host_budget t cs) \<le> t"
proof (cases "sum_list cs = 0")
  case True
  then show ?thesis by (simp add: split_host_budget_def sum_list_replicate)
qed (simp add: split_host_budget_sum)

text \<open>The lanes of a region, laid out from its head.\<close>

lemma place_lanes_nth:
  assumes "i < length ns" and "base + sum_list ns < 2 ^ 32"
  shows "place_lanes region base ns ! i =
    \<lparr>region_slots = region, lane_base_slots = base + sum_list (take i ns), lane_slots = ns ! i\<rparr>"
  using assms
proof (induction region base ns arbitrary: i rule: place_lanes.induct)
  case (2 region base n ns)
  have "n < 2 ^ 32" "base + n < 2 ^ 32" using 2(3) by simp_all
  then show ?case using 2 by (cases i) (simp_all add: add.assoc)
qed simp

lemma place_lanes_length [simp]: "length (place_lanes region base ns) = length ns"
  by (induction region base ns rule: place_lanes.induct) simp_all

lemma sum_list_take_mono: "sum_list (take i ns) + ns ! i \<le> sum_list (ns :: nat list)" if "i < length ns"
proof -
  have "sum_list (take (Suc i) ns) \<le> sum_list ns"
    using append_take_drop_id[of "Suc i" ns] by (metis le_add1 sum_list_append)
  then show ?thesis using that by (simp add: take_Suc_conv_app_nth)
qed

declare search_context.simps [simp del]

lemma search_context_ok:
  assumes total: "\<And>c. \<exists>m. attention c = Inr m"
    and mono: "\<And>a b. a \<le> b \<Longrightarrow> total_bytes (projr (attention a)) \<le> total_bytes (projr (attention b))"
  shows "low \<le> high \<Longrightarrow> high < 2 ^ 32 \<Longrightarrow> low = 0 \<or> needed + total_bytes (projr (attention low)) \<le> usable \<Longrightarrow>
    \<exists>best. search_context attention needed usable low high = Inr best \<and> low \<le> best \<and> best \<le> high \<and>
      (best = 0 \<or> needed + total_bytes (projr (attention best)) \<le> usable) \<and>
      (\<forall>c\<le>high. needed + total_bytes (projr (attention c)) \<le> usable \<longrightarrow> c \<le> best)"
proof (induction "high - low" arbitrary: low high rule: less_induct)
  case less
  show ?case
  proof (cases "low < high")
    case False
    then show ?thesis using less.prems by (subst search_context.simps) auto
  next
    case True
    define mid where "mid = low + (high - low + 1) div 2"
    have mid: "low < mid" "mid \<le> high" "u32 mid = mid" using True less.prems(2) by (auto simp: mid_def)
    have dec: "high - mid < high - low" "mid - 1 - low < high - low" "low \<le> mid - 1" "mid - 1 < 2 ^ 32"
      using mid True less.prems(2) by linarith+
    obtain m where m: "attention mid = Inr m" using total by blast
    show ?thesis
    proof (cases "needed + total_bytes m \<le> usable")
      case fits: True
      have eq: "search_context attention needed usable low high = search_context attention needed usable mid high"
        using True mid m fits by (subst search_context.simps, unfold Let_def mid_def[symmetric]) simp
      obtain best where "search_context attention needed usable mid high = Inr best" "mid \<le> best" "best \<le> high"
        "best = 0 \<or> needed + total_bytes (projr (attention best)) \<le> usable"
        "\<forall>c\<le>high. needed + total_bytes (projr (attention c)) \<le> usable \<longrightarrow> c \<le> best"
        using less.hyps[OF dec(1) mid(2) less.prems(2)] m fits by auto
      then show ?thesis using eq mid by (intro exI[of _ best]) auto
    next
      case nofit: False
      have eq: "search_context attention needed usable low high = search_context attention needed usable low (mid - 1)"
        using True mid m nofit by (subst search_context.simps, unfold Let_def mid_def[symmetric]) simp
      obtain best where b: "search_context attention needed usable low (mid - 1) = Inr best" "low \<le> best" "best \<le> mid - 1"
        "best = 0 \<or> needed + total_bytes (projr (attention best)) \<le> usable"
        "\<forall>c\<le>mid - 1. needed + total_bytes (projr (attention c)) \<le> usable \<longrightarrow> c \<le> best"
        using less.hyps[OF dec(2-4) less.prems(3)] by blast
      have "c \<le> mid - 1" if "needed + total_bytes (projr (attention c)) \<le> usable" for c
        using mono[of mid c] m nofit that by (cases "mid \<le> c") auto
      then show ?thesis using b eq mid by (intro exI[of _ best]) auto
    qed
  qed
qed

section \<open>Properties of the budget\<close>



text \<open>C23: the lanes of a pipeline tile one region. Every stage sees the same region, the lanes follow one
  another from its head without a gap or an overlap, and together with the decode corridor at the tail they
  fit, so that no slot of the pinned region has two owners.\<close>

theorem lanes_tile_region:
  assumes "cfg_warm_host_bytes cfg div payload_bytes fmt < 2 ^ 32"
    and "plan = plan_shared_host_region cfg fmt ept counts" and "i < length counts"
    and "decode_slots (staging_slot_counts cfg (format_experts_per_layer fmt) ept) \<le> region_slots (plan ! i)"
  shows "region_slots (plan ! i) = region_slots (plan ! 0) \<and>
    lane_base_slots (plan ! 0) = 0 \<and>
    (Suc i < length counts \<longrightarrow> lane_base_slots (plan ! Suc i) = lane_base_slots (plan ! i) + lane_slots (plan ! i)) \<and>
    lane_base_slots (plan ! i) + lane_slots (plan ! i) +
      decode_slots (staging_slot_counts cfg (format_experts_per_layer fmt) ept) \<le> region_slots (plan ! i)"
proof -
  let ?d = "decode_slots (staging_slot_counts cfg (format_experts_per_layer fmt) ept)"
  define slots where "slots = u32 (cfg_warm_host_bytes cfg div payload_bytes fmt)"
  define region where "region = (if \<not> 0 < slots \<and> 1 < length counts
     then peak_slots (staging_slot_counts cfg (format_experts_per_layer fmt) ept) else slots)"
  define lane where "lane = (if 0 < slots \<and> ?d < region then region - ?d else 0)"
  define ns where "ns = split_host_budget lane counts"
  have p: "plan = place_lanes region 0 ns"
    using assms(2) by (simp add: plan_shared_host_region_def Let_def ns_def lane_def region_def slots_def)
  have lane: "lane < 2 ^ 32" by (auto simp: lane_def region_def slots_def u32_def less_imp_diff_less)
  then have s: "0 + sum_list ns < 2 ^ 32" using split_host_budget_le[of lane counts] by (simp add: ns_def)
  have len: "length ns = length counts" by (simp add: ns_def)
  note nth = place_lanes_nth[OF _ s, of _ region]
  have i: "i < length ns" "0 < length ns" using assms(3) len by auto
  have d: "?d \<le> region" using assms(4) nth[OF i(1)] p by simp
  have "sum_list (take i ns) + ns ! i \<le> lane"
    using sum_list_take_mono[OF i(1)] split_host_budget_le[of lane counts] by (simp add: ns_def)
  moreover have "lane + ?d \<le> region" using d by (auto simp: lane_def)
  ultimately show ?thesis
    using nth[OF i(1)] nth[OF i(2)] nth[of "Suc i"] i len p by (auto simp: take_Suc_conv_app_nth)
qed


definition pipeline_config :: AeonRuntimeConfig where
  "pipeline_config = default_runtime_config\<lparr>cfg_warm_host_bytes := 40 * 14155776\<rparr>"

theorem lanes_tile_region_witness:
  "let plan = plan_shared_host_region pipeline_config (make_current_swizzled_expert_format 2 8) 2 [1, 1] in
   lane_base_slots (plan ! 1) = 18 \<and> lane_base_slots (plan ! 1) + lane_slots (plan ! 1) + 4 \<le> 40"
proof -
  let ?fmt = "make_current_swizzled_expert_format 2 8"
  let ?plan = "plan_shared_host_region pipeline_config ?fmt 2 [1, 1]"
  have c: "cfg_warm_host_bytes pipeline_config div payload_bytes ?fmt < 2 ^ 32" "1 < length [1 :: nat, 1]"
    "decode_slots (staging_slot_counts pipeline_config (format_experts_per_layer ?fmt) 2) \<le> region_slots (?plan ! 1)"
    "decode_slots (staging_slot_counts pipeline_config (format_experts_per_layer ?fmt) 2) = 4"
    "region_slots (?plan ! 1) = 40" "lane_base_slots (?plan ! 1) = 18"
    by code_simp+
  show ?thesis using lanes_tile_region[OF c(1) refl c(2,3)] c(4-6) by (simp add: Let_def)
qed

lemma fill_tiers_fields [simp]:
  "usable_vram_bytes (fill_tiers fmt staging region r) = usable_vram_bytes r"
  "vram_dense_bytes (fill_tiers fmt staging region r) = vram_dense_bytes r"
  "vram_kv_bytes (fill_tiers fmt staging region r) = vram_kv_bytes r"
  "vram_scratch_bytes (fill_tiers fmt staging region r) = vram_scratch_bytes r"
  "vram_min_active_bytes (fill_tiers fmt staging region r) = vram_min_active_bytes r"
  "hot_vram_slots (fill_tiers fmt staging region r) = hot_vram_slots r"
  "max_allowed_host_ram_bytes (fill_tiers fmt staging region r) = max_allowed_host_ram_bytes r"
  "max_viable_context_size (fill_tiers fmt staging region r) = max_viable_context_size r"
  "host_region_bytes (fill_tiers fmt staging region r) = region_slots region * payload_bytes fmt"
  by (simp_all add: fill_tiers_def Let_def)

lemma fill_tiers_warm: "warm_host_slots (fill_tiers fmt staging region r) \<le> u32 (catalog_experts fmt) - hot_vram_slots r"
  by (simp add: fill_tiers_def Let_def)

lemma not_rejected: "(if c then rejected m x else y) = Inr r \<Longrightarrow> is_feasible r \<Longrightarrow> \<not> c \<and> y = Inr r"
  by (auto simp: rejected_def split: if_splits)

lemma host_and_tiers_feasible:
  assumes "host_and_tiers cfg geo fmt shared r = Inr r'" and "is_feasible r'"
  obtains staging region r1 where "r' = fill_tiers fmt staging region r1"
    "region_slots region * payload_bytes fmt \<le> max_allowed_host_ram_bytes r1"
    "r1 = r\<lparr>transient_staging_bytes := peak_slots staging * payload_bytes fmt,
            staging_decode_bytes := decode_slots staging * payload_bytes fmt,
            staging_batch_bytes := batch_slots staging * payload_bytes fmt,
            configured_host_budget_bytes := cfg_warm_host_bytes cfg\<rparr>"
proof -
  let ?st = "staging_slot_counts cfg (format_experts_per_layer fmt) (cast32 (experts_per_tok geo))"
  let ?re = "case shared of Some s \<Rightarrow> s | None \<Rightarrow> hd (plan_shared_host_region cfg fmt (cast32 (experts_per_tok geo)) [1])"
  let ?r1 = "r\<lparr>transient_staging_bytes := peak_slots ?st * payload_bytes fmt,
            staging_decode_bytes := decode_slots ?st * payload_bytes fmt,
            staging_batch_bytes := batch_slots ?st * payload_bytes fmt,
            configured_host_budget_bytes := cfg_warm_host_bytes cfg\<rparr>"
  note h = assms(1)[unfolded host_and_tiers_def Let_def]
  note n = not_rejected[OF h assms(2)]
  note k = not_rejected[OF conjunct2[OF n] assms(2)]
  have "r' = fill_tiers fmt ?st ?re ?r1" using k by blast
  moreover have "region_slots ?re * payload_bytes fmt \<le> max_allowed_host_ram_bytes ?r1" using n by linarith
  ultimately show ?thesis using that by blast
qed

lemma hot_slots_fit: "hot_slots_for cfg remaining fmt * payload_bytes fmt \<le> remaining"
proof -
  have "hot_slots_for cfg remaining fmt \<le> remaining div payload_bytes fmt"
    by (auto simp: hot_slots_for_def Let_def u32_def intro: min.coboundedI1)
  then have "hot_slots_for cfg remaining fmt * payload_bytes fmt \<le> remaining div payload_bytes fmt * payload_bytes fmt"
    by (rule mult_le_mono1)
  then show ?thesis using div_times_less_eq_dividend order_trans by blast
qed

lemma vram_terms_keep [simp]: "usable_vram_bytes (vram_terms cfg geo dense fmt m r) = usable_vram_bytes r"
  "free_vram_bytes (vram_terms cfg geo dense fmt m r) = free_vram_bytes r"
  "vram_dense_bytes (vram_terms cfg geo dense fmt m r) = dense"
  by (simp_all add: vram_terms_def Let_def)

lemma device_and_pools_feasible:
  assumes "device_and_pools cfg geo fmt shared r = Inr r'" and "is_feasible r'"
  shows "vram_dense_bytes r + vram_kv_bytes r' + vram_scratch_bytes r' + hot_vram_slots r' * payload_bytes fmt \<le> usable_vram_bytes r'"
    "usable_vram_bytes r' = usable_vram_bytes r" "host_region_bytes r' \<le> max_allowed_host_ram_bytes r'"
    "warm_host_slots r' \<le> u32 (catalog_experts fmt) - hot_vram_slots r'"
    "viable_context geo r = Inr (max_viable_context_size r')"
    "vram_scratch_bytes r' = vram_scratch_bytes r" "vram_min_active_bytes r' = vram_min_active_bytes r"
proof -
  obtain best where v: "viable_context geo r = Inr best" using assms by (auto simp: device_and_pools_def split: sum.splits)
  define r1 where "r1 = r\<lparr>max_viable_context_size := best\<rparr>"
  have r1: "usable_vram_bytes r1 = usable_vram_bytes r" "vram_used r1 = vram_used r" by (simp_all add: r1_def vram_used_def)
  have b: "vram_used r1 + vram_min_active_bytes r1 \<le> usable_vram_bytes r1" and h: "host_and_tiers cfg geo fmt shared (fill_hot cfg fmt r1) = Inr r'"
    using assms v unfolding device_and_pools_def r1_def Let_def rejected_def by (auto split: if_splits)
  obtain staging region r2 where t: "r' = fill_tiers fmt staging region r2"
    "region_slots region * payload_bytes fmt \<le> max_allowed_host_ram_bytes r2"
    "r2 = (fill_hot cfg fmt r1)\<lparr>transient_staging_bytes := peak_slots staging * payload_bytes fmt,
            staging_decode_bytes := decode_slots staging * payload_bytes fmt,
            staging_batch_bytes := batch_slots staging * payload_bytes fmt,
            configured_host_budget_bytes := cfg_warm_host_bytes cfg\<rparr>"
    by (rule host_and_tiers_feasible[OF h assms(2)])
  have f: "hot_vram_slots r2 = hot_slots_for cfg (usable_vram_bytes r1 - vram_used r1) fmt" "usable_vram_bytes r2 = usable_vram_bytes r1"
    "vram_dense_bytes r2 = vram_dense_bytes r" "vram_kv_bytes r2 = vram_kv_bytes r" "vram_scratch_bytes r2 = vram_scratch_bytes r"
    "max_viable_context_size r2 = best" "vram_min_active_bytes r2 = vram_min_active_bytes r"
    by (simp_all add: t(3) fill_hot_def Let_def r1_def)
  show "vram_dense_bytes r + vram_kv_bytes r' + vram_scratch_bytes r' + hot_vram_slots r' * payload_bytes fmt \<le> usable_vram_bytes r'"
    using hot_slots_fit[of cfg "usable_vram_bytes r1 - vram_used r1" fmt] b f by (simp add: t(1) r1_def vram_used_def)
  show "usable_vram_bytes r' = usable_vram_bytes r" "host_region_bytes r' \<le> max_allowed_host_ram_bytes r'"
    "warm_host_slots r' \<le> u32 (catalog_experts fmt) - hot_vram_slots r'" "viable_context geo r = Inr (max_viable_context_size r')"
    "vram_scratch_bytes r' = vram_scratch_bytes r" "vram_min_active_bytes r' = vram_min_active_bytes r"
    using t(2) f r1 v fill_tiers_warm[of fmt staging region r2] by (simp_all add: t(1))
qed

lemma evaluate_feasible:
  assumes "evaluate cfg geo dense fmt memory host_ram shared = Inr r" and "is_feasible r"
  obtains r1 m where "device_and_pools cfg geo fmt shared (vram_terms cfg geo dense fmt m r1) = Inr r"
    "usable_vram_bytes r1 \<le> free_bytes memory" "catalog_experts fmt \<le> 2 ^ 32 - 1"
    "attention_state_memory geo (context_size cfg) = Inr m" "context_size cfg \<le> cast32 (max_position_embeddings geo)"
  using assms unfolding evaluate_def Let_def
  by (auto simp: rejected_def empty_report_def split: if_splits sum.splits option.splits)



text \<open>A model of two layers of eight experts with a linear attention state, on a 24 GiB card.\<close>

definition small_geometry :: ModelMemoryGeometry where
  "small_geometry = \<lparr>num_hidden_layers = 2, routed_experts = 8, experts_per_tok = 2, max_position_embeddings = 65536,
     prefill_carry_bytes_per_token = 1024,
     attention_state_memory = (\<lambda>c. Inr \<lparr>local_kv_bytes = 0, compressed_kv_bytes = 0, compressor_state_bytes = 0,
        indexer_state_bytes = 0, metadata_bytes = 0, layer_state_bytes = c * 1024, rope_bytes = 4096\<rparr>)\<rparr>"

definition small_card :: DeviceMemoryInfo where
  "small_card = \<lparr>device_id = 2, free_bytes = 24 * 2 ^ 30, device_total_bytes = 24 * 2 ^ 30\<rparr>"

definition small_budget :: "exn + MemoryBudgetReport" where
  "small_budget = evaluate default_runtime_config small_geometry (2 ^ 30) (make_current_swizzled_expert_format 2 8)
     small_card (Some (64 * 2 ^ 30)) None"

text \<open>Its evaluation, stage by stage.\<close>

lemma small_allowance: "nat \<lfloor>cfg_gpu_memory_utilization default_runtime_config * of_nat (device_total_bytes small_card)\<rfloor> = 24481313587"
  by code_simp

lemma small_catalog: "validate_catalog (make_current_swizzled_expert_format 2 8) = Inr ()"
  by code_simp

definition small_terms :: MemoryBudgetReport where
  "small_terms = vram_terms default_runtime_config small_geometry (2 ^ 30) (make_current_swizzled_expert_format 2 8)
     (projr (attention_state_memory small_geometry 4096))
     (empty_report\<lparr>expert_payload_bytes := 14155776, device_index := 2, gpu_memory_utilization := 95 / 100,
        total_vram_bytes := 24 * 2 ^ 30, free_vram_bytes := 24 * 2 ^ 30, usable_vram_bytes := 24481313587,
        total_host_ram_bytes := 64 * 2 ^ 30, max_allowed_host_ram_bytes := 54 * 2 ^ 30\<rparr>)"

lemma small_geometry_fields: "prefill_carry_bytes_per_token small_geometry = 1024" "experts_per_tok small_geometry = 2"
    "max_position_embeddings small_geometry = 65536"
  by (simp_all add: small_geometry_def)

lemma small_search: "search_context (attention_state_memory small_geometry) 1218445312 24481313587 0 65536 = Inr 65536"
proof -
  obtain best where b: "search_context (attention_state_memory small_geometry) 1218445312 24481313587 0 65536 = Inr best"
    "best \<le> 65536" "\<forall>c\<le>65536. 1218445312 + total_bytes (projr (attention_state_memory small_geometry c)) \<le> 24481313587 \<longrightarrow> c \<le> best"
    using search_context_ok[where attention = "attention_state_memory small_geometry" and low = 0 and high = 65536 and
        needed = 1218445312 and usable = 24481313587]
    by (auto simp: small_geometry_def total_bytes_def)
  have "1218445312 + total_bytes (projr (attention_state_memory small_geometry 65536)) \<le> 24481313587"
    by (simp add: small_geometry_def total_bytes_def)
  then have "65536 \<le> best" using b(3) by simp
  then show ?thesis using b(1,2) by simp
qed

lemma small_evaluate: "small_budget = device_and_pools default_runtime_config small_geometry
     (make_current_swizzled_expert_format 2 8) None small_terms"
  unfolding small_budget_def evaluate_def small_catalog small_allowance Let_def
  by (simp add: small_terms_def small_geometry_def small_card_def default_runtime_config_def cast32_def
      make_current_swizzled_expert_format_def catalog_experts_def HOST_RAM_RESERVED_BYTES_def)

lemma small_viable: "viable_context small_geometry small_terms = Inr 65536"
  using small_search
  by (simp add: viable_context_def small_geometry_fields small_terms_def vram_terms_def Let_def default_runtime_config_def cast32_def
      make_current_swizzled_expert_format_def empty_report_def prefill_carry_bytes_def batch_scratch_allowance_bytes_def
      decode_scratch_allowance_bytes_def u32_def)

definition small_report :: MemoryBudgetReport where
  "small_report = \<lparr>is_feasible = True, rejection_reason = [], device_index = 2,
     gpu_memory_utilization = 95 / 100, total_vram_bytes = 25769803776, free_vram_bytes = 25769803776,
     usable_vram_bytes = 24481313587, total_host_ram_bytes = 68719476736, max_allowed_host_ram_bytes = 57982058496,
     vram_dense_bytes = 1073741824, vram_kv_bytes = 4198400, vram_local_kv_bytes = 0, vram_compressed_kv_bytes = 0,
     vram_compressor_state_bytes = 0, vram_indexer_state_bytes = 0, vram_attention_metadata_bytes = 0,
     vram_attention_state_bytes = 4194304, vram_rope_bytes = 4096, vram_scratch_bytes = 88080384,
     vram_decode_scratch_bytes = 16777216, vram_batch_scratch_bytes = 67108864, vram_prefill_carry_bytes = 4194304,
     vram_min_active_bytes = 56623104, vram_available_for_experts = 23315292979, hot_vram_slots = 1647,
     hot_vram_bytes = 23314563072, warm_host_slots = 0, warm_host_bytes = 0, warm_host_slots_routed = 0,
     warm_host_slots_min = 0, host_region_slots = 0, host_lane_base_slots = 0, host_region_bytes = 0,
     expert_payload_bytes = 14155776, configured_host_budget_bytes = 0, persistent_warm_host_budget_bytes = 0,
     transient_staging_bytes = 226492416, staging_decode_bytes = 56623104, staging_batch_bytes = 113246208,
     cold_nvme_slots = 4294965665, max_viable_context_size = 65536\<rparr>"

lemma small_hot: "fill_hot default_runtime_config (make_current_swizzled_expert_format 2 8) (small_terms\<lparr>max_viable_context_size := 65536\<rparr>) =
   small_report\<lparr>is_feasible := False, transient_staging_bytes := 0, staging_decode_bytes := 0,
     staging_batch_bytes := 0, cold_nvme_slots := 0\<rparr>"
  by (simp add: small_report_def small_geometry_def vram_used_def fill_hot_def hot_slots_for_def total_bytes_def
      small_terms_def vram_terms_def Let_def default_runtime_config_def cast32_def
      make_current_swizzled_expert_format_def empty_report_def prefill_carry_bytes_def batch_scratch_allowance_bytes_def
      decode_scratch_allowance_bytes_def u32_def)

lemma small_region: "plan_shared_host_region default_runtime_config (make_current_swizzled_expert_format 2 8) 2 [1] =
    [\<lparr>region_slots = 0, lane_base_slots = 0, lane_slots = 0\<rparr>]"
  "staging_slot_counts default_runtime_config 8 2 = \<lparr>decode_slots = 4, batch_slots = 8, prefill_slots = 16, peak_slots = 16\<rparr>"
  "cast32 (experts_per_tok small_geometry) = 2"
  by (simp_all add: plan_shared_host_region_def split_host_budget_def staging_slot_counts_def decode_slot_count_def u32_def Let_def
      default_runtime_config_def make_current_swizzled_expert_format_def small_geometry_def cast32_def)

lemma small_format: "payload_bytes (make_current_swizzled_expert_format 2 8) = 14155776"
  "format_experts_per_layer (make_current_swizzled_expert_format 2 8) = 8"
  "catalog_experts (make_current_swizzled_expert_format 2 8) = 16" "cfg_warm_host_bytes default_runtime_config = 0"
  by (simp_all add: make_current_swizzled_expert_format_def catalog_experts_def default_runtime_config_def)

lemma small_guard: "usable_vram_bytes (small_terms\<lparr>max_viable_context_size := 65536\<rparr>) = 24481313587"
  "vram_used (small_terms\<lparr>max_viable_context_size := 65536\<rparr>) = 1166020608"
  "vram_min_active_bytes (small_terms\<lparr>max_viable_context_size := 65536\<rparr>) = 56623104"
  by (simp_all add: small_geometry_def vram_used_def total_bytes_def
      small_terms_def vram_terms_def Let_def default_runtime_config_def cast32_def
      make_current_swizzled_expert_format_def empty_report_def prefill_carry_bytes_def batch_scratch_allowance_bytes_def
      decode_scratch_allowance_bytes_def u32_def)

lemma small_budget_eq: "small_budget = Inr small_report"
  unfolding small_evaluate device_and_pools_def small_viable sum.case Let_def small_guard small_hot
  by (simp add: host_and_tiers_def Let_def small_region small_format fill_tiers_def lane_for_def u32_def
      small_report_def del: One_nat_def)

lemma small_budget_fields:
  "is_feasible (projr small_budget)" "isl small_budget = False" "hot_vram_slots (projr small_budget) = 1647"
  "cold_nvme_slots (projr small_budget) = 4294965665" "max_viable_context_size (projr small_budget) = 65536"
  "vram_scratch_bytes (projr small_budget) = 88080384" "vram_min_active_bytes (projr small_budget) = 56623104"
  "usable_vram_bytes (projr small_budget) = 24481313587"
  by (simp_all add: small_budget_eq small_report_def)

lemma small_budget_ok: "evaluate default_runtime_config small_geometry (2 ^ 30) (make_current_swizzled_expert_format 2 8)
     small_card (Some (64 * 2 ^ 30)) None = Inr (projr small_budget)"
  unfolding small_budget_def[symmetric] using small_budget_fields(2) by (cases small_budget) simp_all




text \<open>The Cold count wraps around: the Hot pool is never capped at the number of experts, so on a card
  with more slots than the model has experts an accepted report counts more than four billion Cold experts.\<close>

lemma cold_slots_wrap_around:
  "small_budget = evaluate default_runtime_config small_geometry (2 ^ 30) (make_current_swizzled_expert_format 2 8)
     small_card (Some (64 * 2 ^ 30)) None \<and>
   is_feasible (projr small_budget) \<and> hot_vram_slots (projr small_budget) = 1647 \<and>
   cold_nvme_slots (projr small_budget) = 2 ^ 32 + 16 - 1647"
  using small_budget_fields(1,3,4) unfolding small_budget_def by simp

end
