(* ===== verification/Host_Storage.thy ===== *)
theory Host_Storage
  imports Memory_Budget "HOL-Library.Multiset"
begin

text \<open>
  Host memory for expert payloads: \<^verbatim>\<open>src/infrastructure/expert/storage/expert_host_region.hpp\<close> (the one pinned
  region) and \<^verbatim>\<open>host_expert_pool.hpp\<close> (the segmented pool, owning or a view).

  Addresses are \<open>nat\<close> and a null pointer is \<open>None\<close>. The allocator is outside the source: an allocation takes
  the answer of the calls it makes as an argument of type \<open>alloc_answer\<close>, and the live blocks, each with the
  call that must give it back, are the \<open>host_heap\<close>. Giving back a block that is not live, or with the wrong
  call, is undefined behaviour in C++ and a throw of \<open>runtime_error ''heap''\<close> here.
\<close>

subsection \<open>The host heap\<close>

datatype block_kind = HipMalloc | PosixRegistered | PosixPlain

datatype alloc_answer = Block block_kind nat | NoMemory

type_synonym host_heap = "(block_kind \<times> nat) list"

definition give_back :: "block_kind \<Rightarrow> nat \<Rightarrow> host_heap \<Rightarrow> (exn, host_heap, unit) outcome" where
  "give_back k a h = (if (k, a) \<in> set h then ok () (remove1 (k, a) h) else throw (runtime_error ''heap'') h)"

definition block_of :: "bool \<Rightarrow> bool \<Rightarrow> block_kind" where
  "block_of hip registered = (if hip then HipMalloc else if registered then PosixRegistered else PosixPlain)"

lemma give_back_fresh [simp]: "give_back k a ((k, a) # h) = ok () h"
  by (simp add: give_back_def)

lemma block_of_kind [simp]: "block_of (k = HipMalloc) (k = PosixRegistered) = k"
  by (cases k) (simp_all add: block_of_def)

subsection \<open>The region\<close>

record ExpertHostRegion =
  region_base :: "nat option"
  region_slot_count :: nat
  region_hip_malloc :: bool
  region_hip_register :: bool
  region_format :: ExpertFormatDescriptor

definition empty_region :: ExpertHostRegion where
  "empty_region = \<lparr>region_base = None, region_slot_count = 0, region_hip_malloc = False,
     region_hip_register = False, region_format = make_current_swizzled_expert_format 0 0\<rparr>"

definition region_free :: "ExpertHostRegion \<times> host_heap \<Rightarrow> (exn, ExpertHostRegion \<times> host_heap, unit) outcome" where
  "region_free s = (case s of (g, h) \<Rightarrow>
     (case region_base g of
        None \<Rightarrow> ok () (g\<lparr>region_slot_count := 0\<rparr>, h)
      | Some a \<Rightarrow>
          (case give_back (block_of (region_hip_malloc g) (region_hip_register g)) a h of
             (Inl e, h') \<Rightarrow> throw e (g, h')
           | (Inr _, h') \<Rightarrow> ok () (g\<lparr>region_base := None, region_slot_count := 0, region_hip_malloc := False,
               region_hip_register := False\<rparr>, h'))))"

definition region_allocate ::
  "nat \<Rightarrow> ExpertFormatDescriptor \<Rightarrow> alloc_answer \<Rightarrow> ExpertHostRegion \<times> host_heap \<Rightarrow>
     (exn, ExpertHostRegion \<times> host_heap, unit) outcome" where
  "region_allocate slots fmt answer s =
     and_then (region_free s) (\<lambda>_ s1. after_check (validate_payload fmt) s1 (\<lambda>(g, h).
       let g1 = g\<lparr>region_format := fmt\<rparr> in
       if slots = 0 then ok () (g1, h)
       else case answer of
           NoMemory \<Rightarrow> throw (runtime_error ''ExpertHostRegion: failed to allocate'')
               (g1\<lparr>region_base := None, region_slot_count := 0\<rparr>, h)
         | Block k a \<Rightarrow> ok () (g1\<lparr>region_slot_count := slots, region_base := Some a,
               region_hip_malloc := (k = HipMalloc),
               region_hip_register := (if k = HipMalloc then region_hip_register g1 else k = PosixRegistered)\<rparr>,
             (k, a) # h)))"

definition region_pinned :: "ExpertHostRegion \<Rightarrow> bool" where
  "region_pinned g \<longleftrightarrow> region_hip_malloc g \<or> region_hip_register g"

definition slot_ptr :: "ExpertHostRegion \<Rightarrow> nat \<Rightarrow> exn + nat" where
  "slot_ptr g first_slot =
     (case region_base g of
        None \<Rightarrow> Inl (runtime_error ''ExpertHostRegion: slot view is out of range'')
      | Some a \<Rightarrow> if region_slot_count g < first_slot
          then Inl (runtime_error ''ExpertHostRegion: slot view is out of range'')
          else Inr (a + first_slot * payload_bytes (region_format g)))"

subsection \<open>The pool\<close>

definition SEGMENT_SLOTS :: nat where
  "SEGMENT_SLOTS = 64"

record Segment =
  seg_base :: nat
  seg_slot_count :: nat
  seg_hip_malloc :: bool
  seg_hip_register :: bool

record HostExpertPool =
  num_slots :: nat
  segments :: "Segment list"
  pool_format :: ExpertFormatDescriptor
  pool_owns_memory :: bool

definition empty_pool :: HostExpertPool where
  "empty_pool = \<lparr>num_slots = 0, segments = [], pool_format = make_current_swizzled_expert_format 0 0,
     pool_owns_memory = True\<rparr>"

definition segment_count :: "nat \<Rightarrow> nat" where
  "segment_count slots = (slots + SEGMENT_SLOTS - 1) div SEGMENT_SLOTS"

definition segment_size :: "nat \<Rightarrow> nat \<Rightarrow> nat" where
  "segment_size slots index = min SEGMENT_SLOTS (slots - index * SEGMENT_SLOTS)"

fun free_segments :: "Segment list \<Rightarrow> host_heap \<Rightarrow> (exn, host_heap, unit) outcome" where
  "free_segments [] h = ok () h"
| "free_segments (g # gs) h =
     and_then (give_back (block_of (seg_hip_malloc g) (seg_hip_register g)) (seg_base g) h) (\<lambda>_ h'. free_segments gs h')"

definition pool_free :: "HostExpertPool \<times> host_heap \<Rightarrow> (exn, HostExpertPool \<times> host_heap, unit) outcome" where
  "pool_free s = (case s of (p, h) \<Rightarrow>
     if \<not> pool_owns_memory p then ok () (p\<lparr>segments := [], num_slots := 0\<rparr>, h)
     else case free_segments (segments p) h of
         (Inl e, h') \<Rightarrow> throw e (p, h')
       | (Inr _, h') \<Rightarrow> ok () (p\<lparr>segments := [], num_slots := 0\<rparr>, h'))"

text \<open>The allocation loop; a failed segment gives back what the loop has so far and rethrows.\<close>

fun allocate_segments ::
  "(nat \<Rightarrow> alloc_answer) \<Rightarrow> nat list \<Rightarrow> HostExpertPool \<times> host_heap \<Rightarrow>
     (exn, HostExpertPool \<times> host_heap, unit) outcome" where
  "allocate_segments answer [] s = ok () s"
| "allocate_segments answer (i # ix) (p, h) =
     (case answer i of
        NoMemory \<Rightarrow> and_then (pool_free (p, h))
          (\<lambda>_ s. throw (runtime_error ''HostExpertPool: Failed to allocate'') s)
      | Block k a \<Rightarrow> allocate_segments answer ix
          (p\<lparr>segments := segments p @ [\<lparr>seg_base = a, seg_slot_count = segment_size (num_slots p) i,
               seg_hip_malloc = (k = HipMalloc), seg_hip_register = (k = PosixRegistered)\<rparr>]\<rparr>, (k, a) # h))"

definition pool_allocate ::
  "nat \<Rightarrow> ExpertFormatDescriptor \<Rightarrow> (nat \<Rightarrow> alloc_answer) \<Rightarrow> HostExpertPool \<times> host_heap \<Rightarrow>
     (exn, HostExpertPool \<times> host_heap, unit) outcome" where
  "pool_allocate slots fmt answer s =
     and_then (pool_free s) (\<lambda>_ s1. after_check (validate_payload fmt) s1 (\<lambda>(p, h).
       let p1 = p\<lparr>pool_format := fmt\<rparr> in
       if slots = 0 then ok () (p1, h)
       else allocate_segments answer [0..<segment_count slots] (p1\<lparr>num_slots := slots\<rparr>, h)))"

definition view_segment :: "nat \<Rightarrow> nat \<Rightarrow> nat \<Rightarrow> bool \<Rightarrow> nat \<Rightarrow> Segment" where
  "view_segment base slots payload pinned index =
     \<lparr>seg_base = base + index * SEGMENT_SLOTS * payload, seg_slot_count = segment_size slots index,
      seg_hip_malloc = pinned, seg_hip_register = False\<rparr>"

definition pool_bind ::
  "nat \<Rightarrow> nat \<Rightarrow> ExpertFormatDescriptor \<Rightarrow> bool \<Rightarrow> HostExpertPool \<times> host_heap \<Rightarrow>
     (exn, HostExpertPool \<times> host_heap, unit) outcome" where
  "pool_bind base slots fmt pinned s =
     and_then (pool_free s) (\<lambda>_ s1. after_check (validate_payload fmt) s1 (\<lambda>(p, h).
       let p1 = p\<lparr>pool_format := fmt, pool_owns_memory := False\<rparr> in
       if slots = 0 then ok () (p1, h)
       else ok () (p1\<lparr>num_slots := slots,
           segments := map (view_segment base slots (payload_bytes fmt) pinned) [0..<segment_count slots]\<rparr>, h)))"

definition get_expert_slot_ptr :: "HostExpertPool \<Rightarrow> nat \<Rightarrow> exn + nat" where
  "get_expert_slot_ptr p slot =
     (let i = slot div SEGMENT_SLOTS; k = slot mod SEGMENT_SLOTS in
      if num_slots p \<le> slot \<or> length (segments p) \<le> i \<or> seg_slot_count (segments p ! i) \<le> k
      then Inl (runtime_error ''HostExpertPool: Invalid slot index'')
      else Inr (seg_base (segments p ! i) + k * payload_bytes (pool_format p)))"

definition is_slot_pinned :: "HostExpertPool \<Rightarrow> nat \<Rightarrow> bool" where
  "is_slot_pinned p slot =
     (let i = slot div SEGMENT_SLOTS in
      \<not> (num_slots p \<le> slot \<or> length (segments p) \<le> i) \<and>
      (seg_hip_malloc (segments p ! i) \<or> seg_hip_register (segments p ! i)))"

definition pinned_slot_count :: "HostExpertPool \<Rightarrow> nat" where
  "pinned_slot_count p =
     sum_list (map seg_slot_count (filter (\<lambda>g. seg_hip_malloc g \<or> seg_hip_register g) (segments p)))"

definition unpinned_slot_count :: "HostExpertPool \<Rightarrow> nat" where
  "unpinned_slot_count p = num_slots p - pinned_slot_count p"

definition pool_move :: "HostExpertPool \<Rightarrow> HostExpertPool \<times> HostExpertPool" where
  "pool_move other = (other, empty_pool)"

subsection \<open>Segment arithmetic\<close>

lemma segment_of_slot:
  assumes "slot < slots"
  shows "slot div SEGMENT_SLOTS < segment_count slots"
    and "slot mod SEGMENT_SLOTS < segment_size slots (slot div SEGMENT_SLOTS)"
proof -
  have "(slot + 64) div 64 \<le> (slots + 64 - 1) div 64" using assms by (intro div_le_mono) simp
  then show "slot div SEGMENT_SLOTS < segment_count slots" unfolding segment_count_def SEGMENT_SLOTS_def by simp
  have "slot = slot div 64 * 64 + slot mod 64" by simp
  then have "slot mod 64 < slots - slot div 64 * 64" using assms by linarith
  then show "slot mod SEGMENT_SLOTS < segment_size slots (slot div SEGMENT_SLOTS)"
    unfolding segment_size_def SEGMENT_SLOTS_def by simp
qed

lemma segment_address: "slot div SEGMENT_SLOTS * SEGMENT_SLOTS * p + slot mod SEGMENT_SLOTS * p = slot * (p :: nat)"
  by (metis add_mult_distrib div_mult_mod_eq)

lemma segment_count_0 [simp]: "segment_count 0 = 0"
  by (simp add: segment_count_def SEGMENT_SLOTS_def)

subsection \<open>Views\<close>

text \<open>What a returning \<open>pool_bind\<close> leaves behind, and that a view never touches the heap.\<close>

lemma pool_free_ok:
  assumes "pool_free (p, h) = ok () (p', h')"
  shows "p' = p\<lparr>segments := [], num_slots := 0\<rparr>"
  using assms by (auto simp: pool_free_def throw_def ok_def split: if_splits sum.splits prod.splits)

lemma pool_bind_view:
  assumes "pool_bind base slots fmt pinned (p, h) = ok () (p', h')"
  shows "p' = p\<lparr>segments := map (view_segment base slots (payload_bytes fmt) pinned) [0..<segment_count slots],
    num_slots := slots, pool_format := fmt, pool_owns_memory := False\<rparr>"
proof -
  obtain p1 h1 where "pool_free (p, h) = ok () (p1, h1)"
    and p': "p' = (let p1 = p1\<lparr>pool_format := fmt, pool_owns_memory := False\<rparr> in if slots = 0 then p1
      else p1\<lparr>num_slots := slots, segments := map (view_segment base slots (payload_bytes fmt) pinned) [0..<segment_count slots]\<rparr>)"
    using assms by (auto simp: pool_bind_def and_then_eq_ok after_check_eq_ok Let_def split: if_splits)
  from pool_free_ok[OF this(1)] p' show ?thesis by (simp add: Let_def)
qed

lemma pool_bind_slot_ptr:
  assumes "pool_bind base slots fmt pinned (p, h) = ok () (p', h')"
  shows "get_expert_slot_ptr p' slot =
    (if slot < slots then Inr (base + slot * payload_bytes fmt)
     else Inl (runtime_error ''HostExpertPool: Invalid slot index''))"
    "is_slot_pinned p' slot \<longleftrightarrow> slot < slots \<and> pinned"
  using segment_of_slot[of slot slots] segment_address[of slot "payload_bytes fmt"] pool_bind_view[OF assms]
  by (auto simp: get_expert_slot_ptr_def is_slot_pinned_def Let_def view_segment_def)

lemma view_free_keeps_heap: "\<not> pool_owns_memory p \<Longrightarrow> pool_free (p, h) = ok () (p\<lparr>segments := [], num_slots := 0\<rparr>, h)"
  by (simp add: pool_free_def)

subsection \<open>Ownership\<close>

definition seg_block :: "Segment \<Rightarrow> block_kind \<times> nat" where
  "seg_block g = (block_of (seg_hip_malloc g) (seg_hip_register g), seg_base g)"

definition owned_blocks :: "HostExpertPool \<Rightarrow> (block_kind \<times> nat) multiset" where
  "owned_blocks p = (if pool_owns_memory p then mset (map seg_block (segments p)) else {#})"

lemma free_segments_ok:
  assumes "mset (map seg_block gs) \<subseteq># mset h"
  shows "\<exists>h'. free_segments gs h = ok () h' \<and> mset h' = mset h - mset (map seg_block gs)"
  using assms
proof (induction gs arbitrary: h)
  case Nil
  then show ?case by simp
next
  case (Cons g gs)
  have "seg_block g \<in># mset h" using Cons.prems by (metis list.set_intros(1) list.simps(9) mset_subset_eqD set_mset_mset)
  then have "give_back (block_of (seg_hip_malloc g) (seg_hip_register g)) (seg_base g) h = ok () (remove1 (seg_block g) h)"
    by (simp add: give_back_def seg_block_def)
  moreover have "mset (map seg_block gs) \<subseteq># mset (remove1 (seg_block g) h)"
    using Cons.prems by (simp add: insert_subset_eq_iff)
  ultimately show ?case using Cons.IH[of "remove1 (seg_block g) h"] by simp
qed

lemma pool_free_balanced:
  assumes "owned_blocks p \<subseteq># mset h"
  obtains p' h' where "pool_free (p, h) = ok () (p', h')" "p' = p\<lparr>segments := [], num_slots := 0\<rparr>"
    "mset h' = mset h - owned_blocks p"
  using assms free_segments_ok[of "segments p" h] unfolding owned_blocks_def
  by (cases "pool_owns_memory p") (auto simp: pool_free_def ok_def)

text \<open>The allocation loop keeps the rest of the heap: what it adds is what the pool owns, on both exits.\<close>

lemma allocate_segments_balanced:
  assumes "pool_owns_memory p" and "mset h = rest + owned_blocks p"
  shows "case allocate_segments answer ix (p, h) of
      (_, (p', h')) \<Rightarrow> pool_owns_memory p' \<and> mset h' = rest + owned_blocks p'"
  using assms
proof (induction answer ix "(p, h)" arbitrary: p h rule: allocate_segments.induct)
  case (1 answer)
  then show ?case by (simp add: ok_def)
next
  case (2 answer i ix p h)
  show ?case
  proof (cases "answer i")
    case (Block k a)
    show ?thesis using 2(1)[OF Block] 2(2,3) by (simp add: Block owned_blocks_def seg_block_def)
  next
    case NoMemory
    have sub: "owned_blocks p \<subseteq># mset h" using 2(3) by simp
    obtain p' h' where "pool_free (p, h) = ok () (p', h')" "p' = p\<lparr>segments := [], num_slots := 0\<rparr>"
      "mset h' = mset h - owned_blocks p" by (rule pool_free_balanced[OF sub])
    then show ?thesis using 2(2,3) by (simp add: NoMemory throw_def owned_blocks_def)
  qed
qed

lemma pool_allocate_balanced:
  assumes "pool_owns_memory p" and "owned_blocks p \<subseteq># mset h"
    and "pool_allocate slots fmt answer (p, h) = (res, (p', h'))"
  shows "pool_owns_memory p' \<and> mset h' = (mset h - owned_blocks p) + owned_blocks p'"
proof -
  obtain p1 h1 where f: "pool_free (p, h) = ok () (p1, h1)" "p1 = p\<lparr>segments := [], num_slots := 0\<rparr>"
    "mset h1 = mset h - owned_blocks p" by (rule pool_free_balanced[OF assms(2)])
  have e: "owned_blocks (p1\<lparr>pool_format := fmt, num_slots := n\<rparr>) = {#}" "owned_blocks (p1\<lparr>pool_format := fmt\<rparr>) = {#}"
    "owned_blocks p1 = {#}" for n
    using f(2) by (simp_all add: owned_blocks_def)
  show ?thesis
    using assms(1,3) allocate_segments_balanced[of "p1\<lparr>pool_format := fmt, num_slots := slots\<rparr>" h1 "mset h1" answer "[0..<segment_count slots]"] e f
    by (cases "validate_payload fmt") (auto simp: pool_allocate_def Let_def throw_def ok_def split: if_splits)
qed

subsection \<open>Sequences of calls\<close>

datatype pool_call = PoolAllocate nat ExpertFormatDescriptor "nat \<Rightarrow> alloc_answer" | PoolFree

fun pool_step :: "pool_call \<Rightarrow> HostExpertPool \<times> host_heap \<Rightarrow> HostExpertPool \<times> host_heap" where
  "pool_step (PoolAllocate slots fmt answer) s = snd (pool_allocate slots fmt answer s)"
| "pool_step PoolFree s = snd (pool_free s)"

lemma pool_step_balanced:
  assumes "pool_owns_memory p" and "mset h = rest + owned_blocks p" and "pool_step c (p, h) = (p', h')"
  shows "pool_owns_memory p' \<and> mset h' = rest + owned_blocks p'"
proof (cases c)
  case (PoolAllocate slots fmt answer)
  then show ?thesis
    using pool_allocate_balanced[of p h slots fmt answer "fst (pool_allocate slots fmt answer (p, h))" p' h'] assms
    by (cases "pool_allocate slots fmt answer (p, h)") auto
next
  case PoolFree
  have "owned_blocks p \<subseteq># mset h" using assms(2) by simp
  then obtain p2 h2 where "pool_free (p, h) = ok () (p2, h2)" "p2 = p\<lparr>segments := [], num_slots := 0\<rparr>"
    "mset h2 = mset h - owned_blocks p" by (rule pool_free_balanced)
  then show ?thesis using assms PoolFree by (auto simp: owned_blocks_def)
qed

lemma pool_run_balanced:
  assumes "pool_owns_memory p" and "mset h = rest + owned_blocks p" and "fold pool_step calls (p, h) = (p', h')"
  shows "pool_owns_memory p' \<and> mset h' = rest + owned_blocks p'"
  using assms
proof (induction calls arbitrary: p h)
  case Nil
  then show ?case by simp
next
  case (Cons c cs)
  obtain p1 h1 where c: "pool_step c (p, h) = (p1, h1)" by (cases "pool_step c (p, h)") auto
  show ?case using Cons.IH[of p1 h1] pool_step_balanced[OF Cons.prems(1,2) c] Cons.prems(3) c by simp
qed


text \<open>A pool that was a view does not become an owner again: its next \<open>allocate\<close> leaks its blocks.\<close>

lemma allocate_after_bind_leaks:
  "\<exists>p1 p2 p3. pool_bind 0 2 (make_current_swizzled_expert_format 2 2) True (empty_pool, []) = ok () (p1, []) \<and>
     pool_allocate 2 (make_current_swizzled_expert_format 2 2) (\<lambda>_. Block HipMalloc 4096) (p1, []) = ok () (p2, [(HipMalloc, 4096)]) \<and>
     pool_free (p2, [(HipMalloc, 4096)]) = ok () (p3, [(HipMalloc, 4096)])"
proof -
  have v: "validate_payload (make_current_swizzled_expert_format 2 2) = Inr ()"
    by (simp add: validate_payload_def make_current_swizzled_expert_format_def)
  show ?thesis
    by (simp add: pool_bind_def pool_allocate_def pool_free_def v empty_pool_def Let_def segment_count_def SEGMENT_SLOTS_def ok_def)
qed

end
