(* ===== verification/Staging_Arena.thy ===== *)
theory Staging_Arena
  imports Host_Storage "HOL-Library.Disjoint_Sets"
begin

text \<open>
  The staging corridor of \<^verbatim>\<open>src/infrastructure/expert/transport/prefetch_staging.hpp\<close>: a run of payload slots,
  owned or a view over the host region, each in one of four transfer states. The time stamps of
  \<open>available_since_\<close> only feed telemetry and are left out; the event array is there or not (\<open>slot_events\<close>).
  \<open>stage_payload\<close> copies bytes, so it also takes the host memory, a function from addresses to bytes.
\<close>

datatype SlotState = AVAILABLE | IO_PENDING | IO_COMPLETE | GPU_TRANSFER_PENDING

record PrefetchStagingArena =
  pinned_base :: "nat option"
  is_allocated :: bool
  slot_events :: bool
  slot_states :: "SlotState list"
  slot_count :: nat
  arena_hip_malloc :: bool
  arena_hip_register :: bool
  owns_memory :: bool
  arena_format :: ExpertFormatDescriptor

definition unsized_arena :: PrefetchStagingArena where
  "unsized_arena = \<lparr>pinned_base = None, is_allocated = False, slot_events = False, slot_states = [],
     slot_count = 0, arena_hip_malloc = False, arena_hip_register = False, owns_memory = True,
     arena_format = make_current_swizzled_expert_format 0 0\<rparr>"

subsection \<open>Memory\<close>

definition create_slot_events :: "PrefetchStagingArena \<Rightarrow> PrefetchStagingArena" where
  "create_slot_events a = a\<lparr>slot_events := True, slot_states := replicate (slot_count a) AVAILABLE\<rparr>"

definition destroy_slot_events :: "PrefetchStagingArena \<Rightarrow> PrefetchStagingArena" where
  "destroy_slot_events a = a\<lparr>slot_events := False\<rparr>"

definition arena_allocate ::
  "alloc_answer \<Rightarrow> PrefetchStagingArena \<times> host_heap \<Rightarrow> (exn, PrefetchStagingArena \<times> host_heap, unit) outcome" where
  "arena_allocate answer s = (case s of (a, h) \<Rightarrow>
     if is_allocated a then ok () (a, h)
     else if slot_count a = 0 then
       throw (invalid_argument ''PrefetchStagingArena: cannot allocate without a slot count'') (a, h)
     else after_check (validate_payload (arena_format a)) (a, h) (\<lambda>(a, h).
       let a1 = a\<lparr>arena_hip_malloc := False, owns_memory := True\<rparr> in
       case answer of
         NoMemory \<Rightarrow> throw (runtime_error ''PrefetchStagingArena: Failed to allocate'') (a1, h)
       | Block k b \<Rightarrow>
           let a2 = (if k = HipMalloc then a1\<lparr>pinned_base := Some b, arena_hip_malloc := True\<rparr>
             else a1\<lparr>pinned_base := Some b, arena_hip_register := (k = PosixRegistered)\<rparr>)
           in ok () ((create_slot_events a2)\<lparr>is_allocated := True\<rparr>, (k, b) # h)))"

definition arena_bind :: "nat \<Rightarrow> nat \<Rightarrow> ExpertFormatDescriptor \<Rightarrow> PrefetchStagingArena \<Rightarrow> (exn, PrefetchStagingArena, unit) outcome" where
  "arena_bind base slots fmt a =
     (if slots = 0 then throw (invalid_argument ''PrefetchStagingArena: cannot bind zero slots'') a
      else after_check (validate_payload fmt) a (\<lambda>a.
        ok () ((create_slot_events ((destroy_slot_events a)\<lparr>arena_format := fmt, pinned_base := Some base,
          slot_count := slots, owns_memory := False, arena_hip_malloc := False, arena_hip_register := False\<rparr>))
          \<lparr>is_allocated := True\<rparr>)))"

definition arena_free :: "PrefetchStagingArena \<times> host_heap \<Rightarrow> (exn, PrefetchStagingArena \<times> host_heap, unit) outcome" where
  "arena_free s = (case s of (a, h) \<Rightarrow>
     if \<not> is_allocated a then ok () (a, h)
     else let a1 = destroy_slot_events a;
       blank = a1\<lparr>pinned_base := None, arena_hip_malloc := False, arena_hip_register := False, owns_memory := True,
         slot_states := replicate (slot_count a) AVAILABLE, is_allocated := False\<rparr> in
       case (if owns_memory a then pinned_base a else None) of
         None \<Rightarrow> ok () (blank, h)
       | Some b \<Rightarrow>
           (case give_back (block_of (arena_hip_malloc a) (arena_hip_register a)) b h of
              (Inl e, h') \<Rightarrow> throw e (a1, h')
            | (Inr _, h') \<Rightarrow> ok () (blank, h')))"

definition arena_resize ::
  "nat \<Rightarrow> alloc_answer \<Rightarrow> PrefetchStagingArena \<times> host_heap \<Rightarrow> (exn, PrefetchStagingArena \<times> host_heap, unit) outcome" where
  "arena_resize slots answer s =
     (if slots = 0 then throw (invalid_argument ''PrefetchStagingArena: cannot resize to zero slots'') s
      else if slots = slot_count (fst s) \<and> is_allocated (fst s) then ok () s
      else and_then (arena_free s) (\<lambda>_ (a, h). arena_allocate answer (a\<lparr>slot_count := slots\<rparr>, h)))"

text \<open>The move leaves the source empty; \<open>owns_memory_\<close> is not among the fields it moves.\<close>

definition arena_move :: "PrefetchStagingArena \<Rightarrow> PrefetchStagingArena \<Rightarrow> PrefetchStagingArena \<times> PrefetchStagingArena" where
  "arena_move this other =
     (this\<lparr>pinned_base := pinned_base other, is_allocated := is_allocated other,
        arena_hip_malloc := arena_hip_malloc other, arena_hip_register := arena_hip_register other,
        arena_format := arena_format other, slot_count := slot_count other, slot_events := slot_events other,
        slot_states := slot_states other\<rparr>,
      other\<lparr>slot_events := False, pinned_base := None, arena_hip_malloc := False, arena_hip_register := False,
        arena_format := make_current_swizzled_expert_format 0 0, is_allocated := False, slot_count := 0,
        slot_states := []\<rparr>)"

definition arena_pinned :: "PrefetchStagingArena \<Rightarrow> bool" where
  "arena_pinned a \<longleftrightarrow> arena_hip_malloc a \<or> arena_hip_register a"

subsection \<open>Slots\<close>

definition validate_slot :: "PrefetchStagingArena \<Rightarrow> nat \<Rightarrow> exn + unit" where
  "validate_slot a i = (if slot_count a \<le> i then Inl (runtime_error ''PrefetchStagingArena: Slot index out of bounds'') else Inr ())"

definition slot_state :: "PrefetchStagingArena \<Rightarrow> nat \<Rightarrow> exn + SlotState" where
  "slot_state a i = (case validate_slot a i of Inl e \<Rightarrow> Inl e | Inr _ \<Rightarrow> Inr (slot_states a ! i))"

definition in_use_slots :: "PrefetchStagingArena \<Rightarrow> nat" where
  "in_use_slots a = length (filter (\<lambda>i. slot_states a ! i \<noteq> AVAILABLE) [0..<slot_count a])"

record StateCounts =
  count_free :: nat
  count_reading :: nat
  count_copying :: nat

fun count_state :: "SlotState \<Rightarrow> StateCounts \<Rightarrow> StateCounts" where
  "count_state AVAILABLE c = c\<lparr>count_free := Suc (count_free c)\<rparr>"
| "count_state IO_PENDING c = c\<lparr>count_reading := Suc (count_reading c)\<rparr>"
| "count_state IO_COMPLETE c = c\<lparr>count_reading := Suc (count_reading c)\<rparr>"
| "count_state GPU_TRANSFER_PENDING c = c\<lparr>count_copying := Suc (count_copying c)\<rparr>"

definition state_counts :: "PrefetchStagingArena \<Rightarrow> StateCounts" where
  "state_counts a = fold (\<lambda>i. count_state (slot_states a ! i)) [0..<slot_count a]
     \<lparr>count_free = 0, count_reading = 0, count_copying = 0\<rparr>"

definition counts_in_use :: "StateCounts \<Rightarrow> nat" where
  "counts_in_use c = count_reading c + count_copying c"

definition set_state :: "nat \<Rightarrow> SlotState \<Rightarrow> PrefetchStagingArena \<Rightarrow> PrefetchStagingArena" where
  "set_state i st a = a\<lparr>slot_states := (slot_states a)[i := st]\<rparr>"

definition transition :: "nat \<Rightarrow> SlotState \<Rightarrow> SlotState \<Rightarrow> PrefetchStagingArena \<Rightarrow> (exn, PrefetchStagingArena, unit) outcome" where
  "transition i expected new a = after_check (validate_slot a i) a (\<lambda>a.
     if slot_states a ! i \<noteq> expected
     then throw (runtime_error ''PrefetchStagingArena: invalid slot state transition for slot'') a
     else ok () (set_state i new a))"

definition begin_io :: "nat \<Rightarrow> PrefetchStagingArena \<Rightarrow> (exn, PrefetchStagingArena, unit) outcome" where
  "begin_io i = transition i AVAILABLE IO_PENDING"

definition mark_ready :: "nat \<Rightarrow> PrefetchStagingArena \<Rightarrow> (exn, PrefetchStagingArena, unit) outcome" where
  "mark_ready i = transition i AVAILABLE IO_COMPLETE"

definition complete_io :: "nat \<Rightarrow> PrefetchStagingArena \<Rightarrow> (exn, PrefetchStagingArena, unit) outcome" where
  "complete_io i = transition i IO_PENDING IO_COMPLETE"

definition begin_direct_transfer :: "nat \<Rightarrow> PrefetchStagingArena \<Rightarrow> (exn, PrefetchStagingArena, unit) outcome" where
  "begin_direct_transfer i = transition i AVAILABLE GPU_TRANSFER_PENDING"

definition begin_gpu_transfer :: "nat \<Rightarrow> PrefetchStagingArena \<Rightarrow> (exn, PrefetchStagingArena, unit) outcome" where
  "begin_gpu_transfer i = transition i IO_COMPLETE GPU_TRANSFER_PENDING"

definition release_after_gpu_transfer :: "nat \<Rightarrow> PrefetchStagingArena \<Rightarrow> (exn, PrefetchStagingArena, unit) outcome" where
  "release_after_gpu_transfer i = transition i GPU_TRANSFER_PENDING AVAILABLE"

text \<open>The search for a free slot; the answer is the slot claimed, if any.\<close>

definition try_begin_direct_transfer :: "PrefetchStagingArena \<Rightarrow> (exn, PrefetchStagingArena, nat option) outcome" where
  "try_begin_direct_transfer a =
     (if \<not> arena_pinned a then ok None a
      else case find (\<lambda>i. slot_states a ! i = AVAILABLE) [0..<slot_count a] of
          None \<Rightarrow> ok None a
        | Some i \<Rightarrow> and_then (begin_direct_transfer i a) (\<lambda>_ a'. ok (Some i) a'))"

definition release_if_copying :: "nat \<Rightarrow> PrefetchStagingArena \<Rightarrow> (exn, PrefetchStagingArena, bool) outcome" where
  "release_if_copying i a = after_check (validate_slot a i) a (\<lambda>a.
     if slot_states a ! i \<noteq> GPU_TRANSFER_PENDING then ok False a else ok True (set_state i AVAILABLE a))"

definition release_after_failure :: "nat \<Rightarrow> PrefetchStagingArena \<Rightarrow> (exn, PrefetchStagingArena, unit) outcome" where
  "release_after_failure i a = after_check (validate_slot a i) a (\<lambda>a. ok () (set_state i AVAILABLE a))"

definition get_slot_ptr :: "PrefetchStagingArena \<Rightarrow> nat \<Rightarrow> exn + nat" where
  "get_slot_ptr a i = (case validate_slot a i of Inl e \<Rightarrow> Inl e
     | Inr _ \<Rightarrow> (case pinned_base a of
         None \<Rightarrow> Inl (runtime_error ''null'') | Some b \<Rightarrow> Inr (b + i * payload_bytes (arena_format a))))"

type_synonym host_memory = "nat \<Rightarrow> nat"

definition memcpy :: "nat \<Rightarrow> nat \<Rightarrow> nat \<Rightarrow> host_memory \<Rightarrow> host_memory" where
  "memcpy dst src n m = (\<lambda>x. if dst \<le> x \<and> x < dst + n then m (src + (x - dst)) else m x)"

definition stage_payload ::
  "nat \<Rightarrow> nat \<Rightarrow> PrefetchStagingArena \<times> host_memory \<Rightarrow> (exn, PrefetchStagingArena \<times> host_memory, unit) outcome" where
  "stage_payload i src s = after_check (validate_slot (fst s) i) s (\<lambda>(a, m).
     if slot_states a ! i \<noteq> AVAILABLE then throw (runtime_error ''PrefetchStagingArena: staging slot is still in use'') (a, m)
     else case get_slot_ptr a i of
         Inl e \<Rightarrow> throw e (a, m)
       | Inr dst \<Rightarrow> ok () (set_state i IO_COMPLETE a, memcpy dst src (payload_bytes (arena_format a)) m))"

subsection \<open>Ownership of the slots\<close>

text \<open>The abstract view: every slot of the arena is in exactly one of four sets, and a call moves at most one
  slot from one set to another. \<open>hand_over\<close> is such a move; a call whose guard fails leaves the sets alone.\<close>

type_synonym slot_owners = "SlotState \<Rightarrow> nat set"

definition owners :: "PrefetchStagingArena \<Rightarrow> slot_owners" where
  "owners a st = {i. i < slot_count a \<and> slot_states a ! i = st}"

definition hand_over :: "nat \<Rightarrow> SlotState \<Rightarrow> SlotState \<Rightarrow> slot_owners \<Rightarrow> slot_owners" where
  "hand_over i old new w = (if i \<in> w old then (w(old := w old - {i}))(new := insert i (w new - {i})) else w)"

datatype arena_call =
    BeginIo nat | MarkReady nat | CompleteIo nat | BeginDirect nat | TryBeginDirect | BeginGpu nat
  | ReleaseAfterGpu nat | ReleaseIfCopying nat | ReleaseAfterFailure nat | StagePayload nat nat

text \<open>What each call does to the arena, returned or thrown, and what the owner sets are meant to do.\<close>

fun arena_do :: "arena_call \<Rightarrow> PrefetchStagingArena \<Rightarrow> PrefetchStagingArena" where
  "arena_do (BeginIo i) a = snd (begin_io i a)"
| "arena_do (MarkReady i) a = snd (mark_ready i a)"
| "arena_do (CompleteIo i) a = snd (complete_io i a)"
| "arena_do (BeginDirect i) a = snd (begin_direct_transfer i a)"
| "arena_do TryBeginDirect a = snd (try_begin_direct_transfer a)"
| "arena_do (BeginGpu i) a = snd (begin_gpu_transfer i a)"
| "arena_do (ReleaseAfterGpu i) a = snd (release_after_gpu_transfer i a)"
| "arena_do (ReleaseIfCopying i) a = snd (release_if_copying i a)"
| "arena_do (ReleaseAfterFailure i) a = snd (release_after_failure i a)"
| "arena_do (StagePayload i src) a = fst (snd (stage_payload i src (a, \<lambda>_. 0)))"

fun owners_do :: "bool \<Rightarrow> arena_call \<Rightarrow> slot_owners \<Rightarrow> slot_owners" where
  "owners_do pinned (BeginIo i) w = hand_over i AVAILABLE IO_PENDING w"
| "owners_do pinned (MarkReady i) w = hand_over i AVAILABLE IO_COMPLETE w"
| "owners_do pinned (CompleteIo i) w = hand_over i IO_PENDING IO_COMPLETE w"
| "owners_do pinned (BeginDirect i) w = hand_over i AVAILABLE GPU_TRANSFER_PENDING w"
| "owners_do pinned TryBeginDirect w =
     (if pinned \<and> w AVAILABLE \<noteq> {} then hand_over (Min (w AVAILABLE)) AVAILABLE GPU_TRANSFER_PENDING w else w)"
| "owners_do pinned (BeginGpu i) w = hand_over i IO_COMPLETE GPU_TRANSFER_PENDING w"
| "owners_do pinned (ReleaseAfterGpu i) w = hand_over i GPU_TRANSFER_PENDING AVAILABLE w"
| "owners_do pinned (ReleaseIfCopying i) w = hand_over i GPU_TRANSFER_PENDING AVAILABLE w"
| "owners_do pinned (ReleaseAfterFailure i) w =
     hand_over i IO_PENDING AVAILABLE (hand_over i IO_COMPLETE AVAILABLE (hand_over i GPU_TRANSFER_PENDING AVAILABLE w))"
| "owners_do pinned (StagePayload i src) w = hand_over i AVAILABLE IO_COMPLETE w"

definition arena_wf :: "PrefetchStagingArena \<Rightarrow> bool" where
  "arena_wf a \<longleftrightarrow> length (slot_states a) = slot_count a \<and> (\<exists>b. pinned_base a = Some b)"

lemmas slot_ops = begin_io_def mark_ready_def complete_io_def begin_direct_transfer_def begin_gpu_transfer_def
  release_after_gpu_transfer_def

lemma set_state_fields [simp]:
  "slot_count (set_state i st a) = slot_count a" "pinned_base (set_state i st a) = pinned_base a"
  "arena_pinned (set_state i st a) = arena_pinned a" "length (slot_states (set_state i st a)) = length (slot_states a)"
  "arena_format (set_state i st a) = arena_format a" "is_allocated (set_state i st a) = is_allocated a"
  by (simp_all add: set_state_def arena_pinned_def)

lemma owners_set_state:
  assumes "length (slot_states a) = slot_count a" and "i < slot_count a" and "slot_states a ! i = old"
  shows "owners (set_state i new a) = hand_over i old new (owners a)"
  using assms by (auto simp: owners_def hand_over_def set_state_def fun_eq_iff nth_list_update)

lemma owners_stay: "\<not> (i < slot_count a \<and> slot_states a ! i = old) \<Longrightarrow> hand_over i old new (owners a) = owners a"
  by (auto simp: hand_over_def owners_def)

lemma transition_owners:
  assumes "length (slot_states a) = slot_count a"
  shows "owners (snd (transition i old new a)) = hand_over i old new (owners a)"
  using owners_set_state[OF assms, of i old new] owners_stay[of i a old new]
  by (auto simp: transition_def validate_slot_def)

lemma transition_fields [simp]:
  "slot_count (snd (transition i old new a)) = slot_count a" "pinned_base (snd (transition i old new a)) = pinned_base a"
  "arena_pinned (snd (transition i old new a)) = arena_pinned a"
  "length (slot_states (snd (transition i old new a))) = length (slot_states a)"
  by (simp_all add: transition_def validate_slot_def)

lemma find_first_free:
  "find (\<lambda>i. slot_states a ! i = AVAILABLE) [0..<slot_count a] =
     (if owners a AVAILABLE = {} then None else Some (Min (owners a AVAILABLE)))"
proof (cases "find (\<lambda>i. slot_states a ! i = AVAILABLE) [0..<slot_count a]")
  case None
  then show ?thesis by (auto simp: find_None_iff owners_def)
next
  case (Some i)
  then have i: "i < slot_count a" "slot_states a ! i = AVAILABLE" "\<And>j. j < i \<Longrightarrow> slot_states a ! j \<noteq> AVAILABLE"
    by (auto simp: find_Some_iff)
  have "Min (owners a AVAILABLE) = i"
    using i by (intro Min_eqI) (auto simp: owners_def intro: leI)
  then show ?thesis using Some i by (auto simp: owners_def)
qed

lemma release_after_failure_owners:
  assumes "length (slot_states a) = slot_count a"
  shows "owners (snd (release_after_failure i a)) = owners_do pinned (ReleaseAfterFailure i) (owners a)"
proof (cases "i < slot_count a")
  case True
  then show ?thesis
    using owners_set_state[OF assms True refl, of AVAILABLE] assms
    by (cases "slot_states a ! i")
      (auto simp: release_after_failure_def validate_slot_def hand_over_def owners_def fun_eq_iff set_state_def nth_list_update)
next
  case False
  then show ?thesis by (simp add: release_after_failure_def validate_slot_def owners_stay)
qed

lemma arena_do_refines:
  assumes "arena_wf a"
  shows "owners (arena_do c a) = owners_do (arena_pinned a) c (owners a)" "arena_wf (arena_do c a)"
    "arena_pinned (arena_do c a) = arena_pinned a" "slot_count (arena_do c a) = slot_count a"
proof -
  have len: "length (slot_states a) = slot_count a" using assms by (simp add: arena_wf_def)
  obtain b where b: "pinned_base a = Some b" using assms by (auto simp: arena_wf_def)
  note t = transition_owners[OF len]
  have rel: "snd (release_if_copying i a) = snd (transition i GPU_TRANSFER_PENDING AVAILABLE a)" for i
    by (simp add: release_if_copying_def transition_def validate_slot_def)
  have stage: "fst (snd (stage_payload i src (a, m))) = snd (transition i AVAILABLE IO_COMPLETE a)" for i src m
    by (simp add: stage_payload_def transition_def validate_slot_def get_slot_ptr_def b)
  have tb: "snd (try_begin_direct_transfer a) =
      (if arena_pinned a \<and> owners a AVAILABLE \<noteq> {} then snd (transition (Min (owners a AVAILABLE)) AVAILABLE GPU_TRANSFER_PENDING a) else a)"
    by (cases "transition (Min (owners a AVAILABLE)) AVAILABLE GPU_TRANSFER_PENDING a" rule: outcome_cases)
      (simp_all add: try_begin_direct_transfer_def find_first_free begin_direct_transfer_def)
  show "owners (arena_do c a) = owners_do (arena_pinned a) c (owners a)"
    using release_after_failure_owners[OF len]
    by (cases c) (simp_all add: slot_ops t rel stage tb del: owners_do.simps(9))
  show "arena_wf (arena_do c a)" "arena_pinned (arena_do c a) = arena_pinned a" "slot_count (arena_do c a) = slot_count a"
    using len b by (cases c; simp add: slot_ops rel stage tb arena_wf_def release_after_failure_def validate_slot_def)+
qed

lemma arena_run_refines:
  assumes "arena_wf a"
  shows "owners (fold arena_do calls a) = fold (owners_do (arena_pinned a)) calls (owners a) \<and>
    arena_wf (fold arena_do calls a) \<and> slot_count (fold arena_do calls a) = slot_count a"
  using assms
proof (induction calls arbitrary: a)
  case (Cons c cs)
  show ?case using Cons.IH[of "arena_do c a"] arena_do_refines[OF Cons.prems, of c] by simp
qed simp

lemma owners_partition:
  "(\<Union>st. owners a st) = {..<slot_count a}" "st \<noteq> st' \<Longrightarrow> owners a st \<inter> owners a st' = {}"
  by (auto simp: owners_def)

text \<open>The two ways the source counts occupancy are the sizes of the owner sets.\<close>

lemma card_filter_upt: "length (filter P [0..<n]) = card {i. i < n \<and> P i}"
proof -
  have "length (filter P [0..<n]) = card (set (filter P [0..<n]))" by (intro distinct_card[symmetric]) simp
  then show ?thesis by simp
qed

lemma state_counts_fold:
  "fold (\<lambda>i. count_state (f i)) xs c = \<lparr>count_free = count_free c + length (filter (\<lambda>i. f i = AVAILABLE) xs),
     count_reading = count_reading c + length (filter (\<lambda>i. f i = IO_PENDING) xs) + length (filter (\<lambda>i. f i = IO_COMPLETE) xs),
     count_copying = count_copying c + length (filter (\<lambda>i. f i = GPU_TRANSFER_PENDING) xs)\<rparr>"
proof (induction xs arbitrary: c)
  case (Cons x xs)
  then show ?case by (cases "f x") simp_all
qed simp

lemma state_counts_owners:
  "state_counts a = \<lparr>count_free = card (owners a AVAILABLE),
     count_reading = card (owners a IO_PENDING) + card (owners a IO_COMPLETE), count_copying = card (owners a GPU_TRANSFER_PENDING)\<rparr>"
  by (simp add: state_counts_def state_counts_fold owners_def card_filter_upt)

lemma in_use_slots_owners: "in_use_slots a = counts_in_use (state_counts a)"
proof -
  have "{i. i < slot_count a \<and> slot_states a ! i \<noteq> AVAILABLE} =
      owners a IO_PENDING \<union> owners a IO_COMPLETE \<union> owners a GPU_TRANSFER_PENDING"
    by (auto simp: owners_def) (metis SlotState.exhaust)
  moreover have "finite (owners a st)" for st by (simp add: owners_def)
  ultimately show ?thesis
    by (simp add: in_use_slots_def card_filter_upt counts_in_use_def state_counts_owners card_Un_disjoint owners_partition(2) Int_Un_distrib2)
qed

lemma arena_bind_ok:
  assumes "arena_bind base slots fmt a = ok () a'"
  shows "slot_count a' = slots" "slot_states a' = replicate slots AVAILABLE" "pinned_base a' = Some base"
    "arena_format a' = fmt" "is_allocated a'" "\<not> arena_pinned a'" "\<not> owns_memory a'" "0 < slots" "validate_payload fmt = Inr ()"
  using assms by (auto simp: arena_bind_def after_check_eq_ok create_slot_events_def destroy_slot_events_def arena_pinned_def split: if_splits)

lemma arena_bind_succeeds:
  assumes "0 < slots" and "validate_payload fmt = Inr ()"
  obtains a' where "arena_bind base slots fmt a = ok () a'"
  using assms by (simp add: arena_bind_def)

text \<open>C30: the corridor refines an ownership discipline. After a bind, whatever calls follow and whichever of
  them throw, each slot is in exactly one of the four states, the states evolve as the abstract owner sets
  do (one slot moves along one edge, or nothing moves), and the counters report the sizes of those sets.\<close>

theorem arena_refines_ownership:
  assumes "arena_bind base slots fmt a0 = ok () a" and "a' = fold arena_do calls a"
  shows "owners a' = fold (owners_do False) calls (\<lambda>st. if st = AVAILABLE then {..<slots} else {}) \<and>
    (\<Union>st. owners a' st) = {..<slots} \<and> disjoint_family (owners a') \<and>
    state_counts a' = \<lparr>count_free = card (owners a' AVAILABLE),
       count_reading = card (owners a' IO_PENDING \<union> owners a' IO_COMPLETE), count_copying = card (owners a' GPU_TRANSFER_PENDING)\<rparr> \<and>
    in_use_slots a' = slots - card (owners a' AVAILABLE)"
proof -
  note b = arena_bind_ok[OF assms(1)]
  have wf: "arena_wf a" using b by (simp add: arena_wf_def)
  have o: "owners a = (\<lambda>st. if st = AVAILABLE then {..<slots} else {})"
    using b by (auto simp: owners_def fun_eq_iff)
  note r = arena_run_refines[OF wf, of calls, folded assms(2)]
  have run: "owners a' = fold (owners_do False) calls (\<lambda>st. if st = AVAILABLE then {..<slots} else {})"
    using r b(6) o by simp
  have u: "(\<Union>st. owners a' st) = {..<slots}" using owners_partition(1)[of a'] r b(1) by simp
  have d: "disjoint_family (owners a')" using owners_partition(2) by (auto simp: disjoint_family_on_def)
  have fin: "finite (owners a' st)" for st by (simp add: owners_def)
  have c: "state_counts a' = \<lparr>count_free = card (owners a' AVAILABLE),
       count_reading = card (owners a' IO_PENDING \<union> owners a' IO_COMPLETE), count_copying = card (owners a' GPU_TRANSFER_PENDING)\<rparr>"
    using fin by (simp add: state_counts_owners card_Un_disjoint owners_partition(2))
  have "{..<slots} = owners a' AVAILABLE \<union> (owners a' IO_PENDING \<union> owners a' IO_COMPLETE \<union> owners a' GPU_TRANSFER_PENDING)"
    unfolding u[symmetric] by (auto simp: UNION_singleton_eq_range) (metis SlotState.exhaust)
  then have "slots = card (owners a' AVAILABLE) + card (owners a' IO_PENDING \<union> owners a' IO_COMPLETE \<union> owners a' GPU_TRANSFER_PENDING)"
    using fin by (metis (no_types, lifting) card_Un_disjoint card_lessThan finite_Un owners_partition(2) Int_Un_distrib SlotState.distinct Un_empty)
  then have "in_use_slots a' = slots - card (owners a' AVAILABLE)"
    using c fin unfolding in_use_slots_owners counts_in_use_def
    by (simp add: card_Un_disjoint owners_partition(2) Int_Un_distrib2)
  with run u d c show ?thesis by blast
qed

definition current_format :: ExpertFormatDescriptor where
  "current_format = make_current_swizzled_expert_format 2 8"

lemma current_format_valid [simp]: "validate_payload current_format = Inr ()"
  by (simp add: validate_payload_def current_format_def make_current_swizzled_expert_format_def)

definition corridor_calls :: "arena_call list" where
  "corridor_calls = [BeginIo 1, CompleteIo 1, BeginGpu 1, BeginIo 0, BeginIo 7, BeginGpu 0]"

theorem arena_refines_ownership_witness:
  "\<exists>a. arena_bind 0 3 current_format unsized_arena = ok () a \<and>
     owners (fold arena_do corridor_calls a) = fold (owners_do False) corridor_calls (\<lambda>st. if st = AVAILABLE then {..<3} else {}) \<and>
     fold (owners_do False) corridor_calls (\<lambda>st. if st = AVAILABLE then {..<3} else {}) AVAILABLE = {2} \<and>
     fold (owners_do False) corridor_calls (\<lambda>st. if st = AVAILABLE then {..<3} else {}) IO_PENDING = {0} \<and>
     fold (owners_do False) corridor_calls (\<lambda>st. if st = AVAILABLE then {..<3} else {}) GPU_TRANSFER_PENDING = {1}"
proof -
  obtain a where b: "arena_bind 0 3 current_format unsized_arena = ok () a"
    by (rule arena_bind_succeeds[of 3 current_format]) simp_all
  show ?thesis
    using b arena_refines_ownership[OF b refl, of corridor_calls] by (auto simp: corridor_calls_def hand_over_def)
qed

subsection \<open>Staged bytes\<close>

definition slot_bytes :: "PrefetchStagingArena \<Rightarrow> nat \<Rightarrow> nat set" where
  "slot_bytes a i = (case pinned_base a of None \<Rightarrow> {} | Some b \<Rightarrow>
     {b + i * payload_bytes (arena_format a) ..< b + Suc i * payload_bytes (arena_format a)})"

lemma slot_bytes_disjoint: "i \<noteq> j \<Longrightarrow> slot_bytes a i \<inter> slot_bytes a j = {}"
proof (induction i j rule: linorder_wlog)
  case (le i j)
  then have "Suc i * payload_bytes (arena_format a) \<le> j * payload_bytes (arena_format a)" by (intro mult_le_mono1) simp
  then show ?case by (auto simp: slot_bytes_def split: option.splits)
next
  case (sym i j)
  then show ?case by blast
qed

text \<open>C31: staging a payload fills its slot and nothing else. A \<open>stage_payload\<close> that returns found the slot
  free, copied the payload byte for byte, left every byte outside the slot as it was (so no other slot's payload
  is touched), and marked the slot ready and only that one.\<close>

theorem stage_payload_isolated:
  assumes "stage_payload i src (a, m) = ok () (a', m')"
  shows "i < slot_count a \<and> slot_states a ! i = AVAILABLE \<and>
    (\<exists>dst. get_slot_ptr a i = Inr dst \<and> (\<forall>k < payload_bytes (arena_format a). m' (dst + k) = m (src + k))) \<and>
    (\<forall>x. x \<notin> slot_bytes a i \<longrightarrow> m' x = m x) \<and>
    (\<forall>j x. j \<noteq> i \<and> x \<in> slot_bytes a j \<longrightarrow> m' x = m x) \<and>
    slot_states a' = (slot_states a)[i := IO_COMPLETE]"
proof -
  obtain b where b: "i < slot_count a" "slot_states a ! i = AVAILABLE" "pinned_base a = Some b" "a' = set_state i IO_COMPLETE a"
    "m' = memcpy (b + i * payload_bytes (arena_format a)) src (payload_bytes (arena_format a)) m"
    using assms
    by (auto simp: stage_payload_def after_check_eq_ok validate_slot_def get_slot_ptr_def split: if_splits option.splits)
  have out: "m' x = m x" if "x \<notin> slot_bytes a i" for x
    using that b(3,5) by (auto simp: memcpy_def slot_bytes_def)
  have other: "m' x = m x" if "j \<noteq> i" "x \<in> slot_bytes a j" for j x
    using slot_bytes_disjoint[OF that(1), of a] that(2) by (intro out) blast
  have "get_slot_ptr a i = Inr (b + i * payload_bytes (arena_format a))" "slot_states a' = (slot_states a)[i := IO_COMPLETE]"
    "m' (b + i * payload_bytes (arena_format a) + k) = m (src + k)" if "k < payload_bytes (arena_format a)" for k
    using b that by (simp_all add: get_slot_ptr_def validate_slot_def memcpy_def set_state_def)
  with out other b show ?thesis by (auto simp: get_slot_ptr_def validate_slot_def set_state_def)
qed

theorem stage_payload_isolated_witness:
  "\<exists>a m'. arena_bind 0 2 current_format unsized_arena = ok () a \<and> m' 14155776 = 5 \<and> m' 0 = 7 \<and>
     stage_payload 1 100000000 (a, (\<lambda>x. if x = 100000000 then 5 else 7)) = ok () (set_state 1 IO_COMPLETE a, m')"
proof -
  obtain a where b: "arena_bind 0 2 current_format unsized_arena = ok () a"
    by (rule arena_bind_succeeds[of 2 current_format]) simp_all
  note f = arena_bind_ok[OF b]
  let ?m = "\<lambda>x::nat. if x = 100000000 then 5 else 7"
  obtain m' where s: "stage_payload 1 100000000 (a, ?m) = ok () (set_state 1 IO_COMPLETE a, m')"
    using f by (simp add: stage_payload_def validate_slot_def get_slot_ptr_def)
  have p: "payload_bytes (arena_format a) = 14155776" using f(4) by (simp add: current_format_def make_current_swizzled_expert_format_def)
  note w = stage_payload_isolated[OF s]
  obtain dst where d: "get_slot_ptr a 1 = Inr dst" "\<forall>k < payload_bytes (arena_format a). m' (dst + k) = ?m (100000000 + k)" using w by blast
  have "dst = 14155776" using d(1) f(1,3) p by (simp add: get_slot_ptr_def validate_slot_def)
  then have "m' 14155776 = 5" using d(2)[rule_format, of 0] p by simp
  moreover have "m' 0 = 7" using w f(3) p by (simp add: slot_bytes_def)
  ultimately show ?thesis using b s by blast
qed

text \<open>A bind over an arena that owns memory forgets it: the later \<open>free\<close> gives nothing back.\<close>

lemma bind_forgets_owned_memory:
  "\<exists>a b a'. arena_allocate (Block HipMalloc 4096) (unsized_arena\<lparr>slot_count := 2\<rparr>, []) = ok () (a, [(HipMalloc, 4096)]) \<and>
     arena_bind 8192 2 current_format a = ok () b \<and> arena_free (b, [(HipMalloc, 4096)]) = ok () (a', [(HipMalloc, 4096)])"
  by (simp add: arena_allocate_def unsized_arena_def validate_payload_def make_current_swizzled_expert_format_def Let_def
      arena_bind_def arena_free_def create_slot_events_def destroy_slot_events_def current_format_def)

text \<open>A move does not move the ownership flag: moving a view into a fresh arena makes an owner of it, whose
  \<open>free\<close> gives back a block that was never its own.\<close>

lemma moved_view_frees_foreign_memory:
  "\<exists>b h. arena_bind 8192 2 current_format unsized_arena = ok () b \<and>
     arena_free (fst (arena_move unsized_arena b), h) = throw (runtime_error ''heap'') (destroy_slot_events (fst (arena_move unsized_arena b)), h)"
  by (rule exI, rule exI[of _ "[]"])
    (auto simp: arena_bind_def arena_free_def arena_move_def unsized_arena_def validate_payload_def make_current_swizzled_expert_format_def
      current_format_def create_slot_events_def destroy_slot_events_def give_back_def Let_def throw_def)

end
