(* ===== verification/Direct_Io.thy ===== *)
theory Direct_Io
  imports Aeon_Errors "HOL-Library.Word"
begin

text \<open>
  The direct NVMe reader of \<^verbatim>\<open>src/infrastructure/io/direct_io_reader.hpp\<close>: the submission and completion rings it
  shares with the kernel. Ring indices are 32-bit words that wrap around, as in the source; the rings' arrays
  are functions from index to entry. The kernel's side is an argument: it takes entries from the submission
  ring by advancing its head and publishes completions by advancing the completion tail.
\<close>

unbundle bit_operations_syntax

definition SECTOR_SIZE :: nat where
  "SECTOR_SIZE = 4096"

definition DEFAULT_CHUNK_BYTES :: nat where
  "DEFAULT_CHUNK_BYTES = 4 * 1024 * 1024"

record sqe =
  sqe_async :: bool
  sqe_fd :: int
  sqe_addr :: nat
  sqe_len :: nat
  sqe_off :: nat
  sqe_user_data :: nat

record DirectIOCompletion =
  user_data :: nat
  result :: int

record DirectIOReader =
  force_async :: bool
  reader_sector_size :: nat
  sq_entries :: "32 word"
  sring_head :: "32 word"
  sring_tail :: "32 word"
  sring_mask :: "32 word"
  sring_array :: "32 word \<Rightarrow> 32 word"
  sqes :: "32 word \<Rightarrow> sqe"
  cring_head :: "32 word"
  cring_tail :: "32 word"
  cring_mask :: "32 word"
  cqes :: "32 word \<Rightarrow> DirectIOCompletion"

definition validate_request :: "int \<Rightarrow> nat \<Rightarrow> nat \<Rightarrow> nat \<Rightarrow> nat \<Rightarrow> exn + unit" where
  "validate_request fd buf bytes file_offset sector =
     (if fd < 0 then Inl (invalid_argument ''DirectIOReader: file descriptor must be valid'')
      else if buf = 0 \<or> buf mod sector \<noteq> 0 then Inl (invalid_argument ''DirectIOReader: destination buffer is not sector aligned'')
      else if bytes = 0 \<or> 2 ^ 32 - 1 < bytes \<or> bytes mod sector \<noteq> 0 then
        Inl (invalid_argument ''DirectIOReader: read length must be a non-zero sector multiple'')
      else if file_offset mod sector \<noteq> 0 then Inl (invalid_argument ''DirectIOReader: file offset is not sector aligned'')
      else Inr ())"

definition submit_read ::
  "int \<Rightarrow> nat \<Rightarrow> nat \<Rightarrow> nat \<Rightarrow> nat \<Rightarrow> DirectIOReader \<Rightarrow> (exn, DirectIOReader, unit) outcome" where
  "submit_read fd buf bytes file_offset uid r =
     after_check (validate_request fd buf bytes file_offset (reader_sector_size r)) r (\<lambda>r.
       if sq_entries r \<le> sring_tail r - sring_head r then
         throw (runtime_error ''DirectIOReader: submission queue is full; submit pending reads first'') r
       else
         let index = sring_tail r AND sring_mask r;
             e = \<lparr>sqe_async = force_async r, sqe_fd = fd, sqe_addr = buf, sqe_len = bytes,
                  sqe_off = file_offset, sqe_user_data = uid\<rparr>
         in ok () (r\<lparr>sqes := (sqes r)(index := e), sring_array := (sring_array r)(index := index),
              sring_tail := sring_tail r + 1\<rparr>))"

text \<open>The chunk loop: \<open>offset\<close> bytes and \<open>count\<close> requests are behind it.\<close>

function submit_chunks_from ::
  "int \<Rightarrow> nat \<Rightarrow> nat \<Rightarrow> nat \<Rightarrow> nat \<Rightarrow> nat \<Rightarrow> nat \<Rightarrow> nat \<Rightarrow> DirectIOReader \<Rightarrow> (exn, DirectIOReader, nat) outcome" where
  "submit_chunks_from fd buf bytes file_offset first chunk offset count r =
     (if offset < bytes \<and> 0 < chunk then
        let n = min chunk (bytes - offset) in
        and_then (submit_read fd (buf + offset) n (file_offset + offset) (first + count) r) (\<lambda>_ r'.
          submit_chunks_from fd buf bytes file_offset first chunk (offset + n) (Suc count) r')
      else ok count r)"
  by pat_completeness auto
termination
  by (relation "measure (\<lambda>(fd, buf, bytes, file_offset, first, chunk, offset, count, r). bytes - offset)") auto

declare submit_chunks_from.simps [simp del]

definition submit_read_chunks ::
  "int \<Rightarrow> nat \<Rightarrow> nat \<Rightarrow> nat \<Rightarrow> nat \<Rightarrow> nat \<Rightarrow> DirectIOReader \<Rightarrow> (exn, DirectIOReader, nat) outcome" where
  "submit_read_chunks fd buf bytes file_offset first chunk r =
     (if chunk = 0 \<or> chunk mod reader_sector_size r \<noteq> 0 then
        throw (invalid_argument ''DirectIOReader: chunk length must be a non-zero sector multiple'') r
      else submit_chunks_from fd buf bytes file_offset first chunk 0 0 r)"

text \<open>What the kernel answers to \<open>io_uring_enter\<close> is the list argument; the kernel takes as many entries as it
  says. A list that runs out before the ring is empty is \<open>None\<close>.\<close>

fun submit_pending_from :: "int list \<Rightarrow> 32 word \<Rightarrow> nat \<Rightarrow> DirectIOReader \<Rightarrow> (exn, DirectIOReader, nat) outcome option" where
  "submit_pending_from answers pending submitted r =
     (if pending = 0 then Some (ok submitted r)
      else case answers of [] \<Rightarrow> None
        | ret # rest \<Rightarrow>
            if ret < 0 then Some (throw (runtime_error ''DirectIOReader: io_uring_enter submit failed'') r)
            else if ret = 0 then Some (throw (runtime_error ''DirectIOReader: io_uring_enter submitted zero requests'') r)
            else submit_pending_from rest (pending - of_int ret) (submitted + nat ret) (r\<lparr>sring_head := sring_head r + of_int ret\<rparr>))"

declare submit_pending_from.simps [simp del]

definition submit_pending_reads :: "int list \<Rightarrow> DirectIOReader \<Rightarrow> (exn, DirectIOReader, nat) outcome option" where
  "submit_pending_reads answers r = submit_pending_from answers (sring_tail r - sring_head r) 0 r"

definition try_completion :: "DirectIOReader \<Rightarrow> DirectIOCompletion option \<times> DirectIOReader" where
  "try_completion r =
     (if cring_head r = cring_tail r then (None, r)
      else (Some (cqes r (cring_head r AND cring_mask r)), r\<lparr>cring_head := cring_head r + 1\<rparr>))"

subsection \<open>The submission ring is a bounded queue\<close>

text \<open>What the kernel reads: the entries from head to tail, through the index array.\<close>

definition sq_length :: "DirectIOReader \<Rightarrow> nat" where
  "sq_length r = unat (sring_tail r - sring_head r)"

definition sq_entry :: "DirectIOReader \<Rightarrow> nat \<Rightarrow> sqe" where
  "sq_entry r k = sqes r (sring_array r ((sring_head r + of_nat k) AND sring_mask r))"

definition sq_queue :: "DirectIOReader \<Rightarrow> sqe list" where
  "sq_queue r = map (sq_entry r) [0..<sq_length r]"

definition sq_wf :: "nat \<Rightarrow> DirectIOReader \<Rightarrow> bool" where
  "sq_wf n r \<longleftrightarrow> n < 32 \<and> sq_entries r = 2 ^ n \<and> sring_mask r = mask n \<and> sq_length r \<le> 2 ^ n \<and>
     (\<forall>k < sq_length r. sring_array r ((sring_head r + of_nat k) AND sring_mask r) = (sring_head r + of_nat k) AND sring_mask r)"

lemma ring_index: "n < 32 \<Longrightarrow> unat ((h + of_nat k) AND mask n :: 32 word) = (unat h + k) mod 2 ^ n"
proof -
  assume n: "n < 32"
  have "unat ((h + of_nat k) AND mask n) = take_bit n (unat (h + of_nat k))"
    by (simp add: take_bit_eq_mask[symmetric] unsigned_take_bit_eq)
  also have "unat (h + of_nat k) = (unat h + k) mod 2 ^ 32"
    by (simp add: unat_word_ariths unat_of_nat mod_add_right_eq)
  also have "take_bit n ((unat h + k) mod 2 ^ 32) = (unat h + k) mod 2 ^ n"
    unfolding take_bit_eq_mod using n by (intro mod_mod_cancel le_imp_power_dvd) simp
  finally show ?thesis .
qed

lemma ring_index_inj:
  assumes n: "n < 32" and k: "k < m" "m < 2 ^ n"
  shows "(h + of_nat k) AND mask n \<noteq> ((h + of_nat m) AND mask n :: 32 word)"
proof
  assume "(h + of_nat k) AND mask n = (h + of_nat m) AND mask n"
  then have "(unat h + k) mod 2 ^ n = (unat h + m) mod 2 ^ n" by (metis ring_index[OF n])
  then have "(2 ^ n) dvd (m - k)" using k by (metis add_le_cancel_left diff_add_inverse le_add_diff_inverse less_imp_le_nat mod_eq_dvd_iff_nat add_diff_cancel_left)
  then show False using k by (auto dest: dvd_imp_le)
qed

lemma submit_read_ok:
  assumes wf: "sq_wf n r" and s: "submit_read fd buf bytes off uid r = ok () r'"
  shows "sq_wf n r'" "sq_queue r' = sq_queue r @ [\<lparr>sqe_async = force_async r, sqe_fd = fd, sqe_addr = buf, sqe_len = bytes,
      sqe_off = off, sqe_user_data = uid\<rparr>]" "sq_length r < 2 ^ n" "reader_sector_size r' = reader_sector_size r"
      "force_async r' = force_async r" "validate_request fd buf bytes off (reader_sector_size r) = Inr ()"
proof -
  let ?e = "\<lparr>sqe_async = force_async r, sqe_fd = fd, sqe_addr = buf, sqe_len = bytes, sqe_off = off, sqe_user_data = uid\<rparr>"
  let ?i = "sring_tail r AND sring_mask r"
  have n: "n < 32" and ent: "sq_entries r = 2 ^ n" and m: "sring_mask r = mask n"
    and arr: "\<And>k. k < sq_length r \<Longrightarrow> sring_array r ((sring_head r + of_nat k) AND mask n) = (sring_head r + of_nat k) AND mask n"
    using wf by (auto simp: sq_wf_def)
  have r': "r' = r\<lparr>sqes := (sqes r)(?i := ?e), sring_array := (sring_array r)(?i := ?i), sring_tail := sring_tail r + 1\<rparr>"
    and nf: "\<not> sq_entries r \<le> sring_tail r - sring_head r"
    and v: "validate_request fd buf bytes off (reader_sector_size r) = Inr ()"
    using s by (auto simp: submit_read_def after_check_eq_ok Let_def split: if_splits)
  have p32: "(2 :: nat) ^ n \<le> 2 ^ 31" using n by (intro power_increasing) simp_all
  have "unat (of_nat (2 ^ n) :: 32 word) = 2 ^ n" using p32 by (subst unat_of_nat) simp
  then have "unat (2 ^ n :: 32 word) = 2 ^ n" by simp
  then show len: "sq_length r < 2 ^ n" using nf ent unfolding sq_length_def by (simp add: word_le_nat_alt)
  then have lt: "sq_length r < 2 ^ 32 - 1" using p32 by simp
  show "validate_request fd buf bytes off (reader_sector_size r) = Inr ()" by (rule v)
  show "reader_sector_size r' = reader_sector_size r" "force_async r' = force_async r" by (simp_all add: r')
  have tail: "sring_tail r = sring_head r + of_nat (sq_length r)" by (simp add: sq_length_def)
  have len': "sq_length r' = Suc (sq_length r)"
  proof -
    have "unat ((sring_tail r - sring_head r) + 1) = Suc (unat (sring_tail r - sring_head r))"
      using lt unfolding sq_length_def by (subst unat_word_ariths(1)) simp
    moreover have "sring_tail r + 1 - sring_head r = (sring_tail r - sring_head r) + 1" by simp
    moreover have "sq_length r' = unat (sring_tail r + 1 - sring_head r)" by (simp add: sq_length_def r')
    ultimately show ?thesis by (simp only: sq_length_def)
  qed
  have old: "(sring_head r + of_nat k) AND mask n \<noteq> ?i" if "k < sq_length r" for k
    using ring_index_inj[OF n that len, of "sring_head r"] unfolding m tail by simp
  have ent: "sq_entry r' k = sq_entry r k" if "k < sq_length r" for k
    using old[OF that] arr[OF that] unfolding sq_entry_def r' by (simp add: m)
  moreover have "sq_entry r' (sq_length r) = ?e" unfolding sq_entry_def r' by (simp add: m tail[symmetric])
  ultimately show "sq_queue r' = sq_queue r @ [?e]" by (simp add: sq_queue_def len')
  have "sring_array r' ((sring_head r' + of_nat k) AND mask n) = (sring_head r' + of_nat k) AND mask n"
    if "k < Suc (sq_length r)" for k
  proof (cases "k = sq_length r")
    case True
    then show ?thesis unfolding r' by (simp add: m tail[symmetric])
  next
    case False
    then have k: "k < sq_length r" using that by simp
    show ?thesis using old[OF k] arr[OF k] unfolding r' by (simp add: m)
  qed
  then show "sq_wf n r'" using wf len unfolding sq_wf_def len' by (simp add: r')
qed

text \<open>The tiling a payload is read in: consecutive chunks of the buffer and the file, ids counted from the first.\<close>

fun chunk_reads :: "bool \<Rightarrow> int \<Rightarrow> nat \<Rightarrow> nat \<Rightarrow> nat \<Rightarrow> nat list \<Rightarrow> sqe list" where
  "chunk_reads async fd buf off uid [] = []"
| "chunk_reads async fd buf off uid (n # ns) =
     \<lparr>sqe_async = async, sqe_fd = fd, sqe_addr = buf, sqe_len = n, sqe_off = off, sqe_user_data = uid\<rparr> #
     chunk_reads async fd (buf + n) (off + n) (Suc uid) ns"

lemma chunk_reads_length [simp]: "length (chunk_reads async fd buf off uid ns) = length ns"
  by (induction ns arbitrary: buf off uid) simp_all

function chunk_sizes :: "nat \<Rightarrow> nat \<Rightarrow> nat list" where
  "chunk_sizes chunk n = (if n = 0 \<or> chunk = 0 then [] else min chunk n # chunk_sizes chunk (n - chunk))"
  by pat_completeness auto
termination by (relation "measure snd") auto

declare chunk_sizes.simps [simp del]

lemma chunk_sizes_sum: "0 < chunk \<Longrightarrow> sum_list (chunk_sizes chunk n) = n"
  by (induction chunk n rule: chunk_sizes.induct) (subst chunk_sizes.simps, auto simp: min_def)

lemma chunk_sizes_length: "0 < chunk \<Longrightarrow> length (chunk_sizes chunk n) = (n + chunk - 1) div chunk"
proof (induction chunk n rule: chunk_sizes.induct)
  case (1 chunk n)
  show ?case
  proof (cases "n = 0")
    case True
    then show ?thesis using 1(2) by (simp add: chunk_sizes.simps)
  next
    case False
    have "(n + chunk - 1) div chunk = Suc ((n - chunk + chunk - 1) div chunk)"
      using False 1(2) by (cases "chunk \<le> n") (auto simp: le_div_geq div_eq_0_iff)
    then show ?thesis using 1 False by (simp add: chunk_sizes.simps[of chunk n])
  qed
qed

lemma submit_chunks_from_ok:
  assumes "sq_wf n r" and "submit_chunks_from fd buf bytes off first chunk offset count r = ok c r'"
    and "offset \<le> bytes" and "0 < chunk"
  shows "sq_queue r' = sq_queue r @ chunk_reads (force_async r) fd (buf + offset) (off + offset) (first + count) (chunk_sizes chunk (bytes - offset)) \<and>
    c = count + length (chunk_sizes chunk (bytes - offset)) \<and> sq_wf n r'"
  using assms
proof (induction fd buf bytes off first chunk offset count r rule: submit_chunks_from.induct)
  case (1 fd buf bytes off first chunk offset count r)
  show ?case
  proof (cases "offset < bytes")
    case False
    then show ?thesis using 1(2-4) by (simp add: submit_chunks_from.simps chunk_sizes.simps)
  next
    case True
    let ?n = "min chunk (bytes - offset)"
    obtain r1 where s: "submit_read fd (buf + offset) ?n (off + offset) (first + count) r = ok () r1"
      and rest: "submit_chunks_from fd buf bytes off first chunk (offset + ?n) (Suc count) r1 = ok c r'"
      using 1(3) True 1(5) by (subst (asm) submit_chunks_from.simps) (auto simp: Let_def and_then_eq_ok)
    note q = submit_read_ok[OF 1(2) s]
    have "bytes - (offset + ?n) = bytes - offset - chunk" by auto
    moreover have "chunk_sizes chunk (bytes - offset) = ?n # chunk_sizes chunk (bytes - offset - chunk)"
      using True 1(5) by (subst chunk_sizes.simps) simp
    ultimately show ?thesis
      using 1(1)[OF _ refl q(1) rest] True 1(5) q(2,5) by (auto simp: add.assoc)
  qed
qed

text \<open>C32: the submission ring is a FIFO, across the wrap-around of its 32-bit indices. Reading a payload in
  chunks appends, in order, reads that tile the buffer and the file exactly (the lengths sum to the payload and
  each starts where the one before ended), with consecutive ids from the first, and never touches a read
  already queued.\<close>

theorem chunked_read_tiles_payload:
  assumes "sq_wf n r" and "submit_read_chunks fd buf bytes off first chunk r = ok c r'"
  shows "sq_wf n r' \<and>
    sq_queue r' = sq_queue r @ chunk_reads (force_async r) fd buf off first (chunk_sizes chunk bytes) \<and>
    sum_list (chunk_sizes chunk bytes) = bytes \<and>
    c = (bytes + chunk - 1) div chunk \<and>
    map sqe_user_data (sq_queue r') = map sqe_user_data (sq_queue r) @ [first..<first + c]"
proof -
  have c0: "0 < chunk" and s: "submit_chunks_from fd buf bytes off first chunk 0 0 r = ok c r'"
    using assms(2) by (auto simp: submit_read_chunks_def split: if_splits)
  have ids: "map sqe_user_data (chunk_reads a f b u i ns) = [i..<i + length ns]" for a f b u i ns
  proof (induction ns arbitrary: b u i)
    case (Cons k ns)
    show ?case using Cons[of "b + k" "u + k" "Suc i"] by (simp add: upt_conv_Cons del: upt_Suc)
  qed simp
  show ?thesis using submit_chunks_from_ok[OF assms(1) s _ c0] chunk_sizes_sum[OF c0] chunk_sizes_length[OF c0] ids by simp
qed

definition wrapped_reader :: DirectIOReader where
  "wrapped_reader = \<lparr>force_async = True, reader_sector_size = 4096, sq_entries = 8, sring_head = 0xFFFFFFFF,
     sring_tail = 0xFFFFFFFF, sring_mask = 7, sring_array = (\<lambda>_. 0),
     sqes = (\<lambda>_. \<lparr>sqe_async = False, sqe_fd = 0, sqe_addr = 0, sqe_len = 0, sqe_off = 0, sqe_user_data = 0\<rparr>),
     cring_head = 0, cring_tail = 0, cring_mask = 15, cqes = (\<lambda>_. \<lparr>user_data = 0, result = 0\<rparr>)\<rparr>"

lemma wrapped_reader_wf: "sq_wf 3 wrapped_reader"
  by (simp add: sq_wf_def wrapped_reader_def sq_length_def mask_eq_exp_minus_1)

lemma ring_numerals: "\<not> (8 :: 32 word) \<le> 1" "\<not> (8 :: 32 word) \<le> 0" "(4294967296 :: 32 word) = 0" "(4294967297 :: 32 word) = 1" "(1 :: 32 word) \<le> - 4294967295"
  by code_simp+

theorem chunked_read_tiles_payload_witness:
  "\<exists>r'. submit_read_chunks 3 8192 12288 4096 40 8192 wrapped_reader = ok 2 r' \<and>
     map sqe_user_data (sq_queue r') = [40, 41] \<and> map sqe_len (sq_queue r') = [8192, 4096] \<and> sring_tail r' = 1"
proof -
  obtain r' where s: "submit_read_chunks 3 8192 12288 4096 40 8192 wrapped_reader = ok 2 r'" and t: "sring_tail r' = 1"
    by (simp add: submit_read_chunks_def submit_chunks_from.simps submit_read_def validate_request_def wrapped_reader_def Let_def ring_numerals)
  have q: "sq_queue wrapped_reader = []" by (simp add: sq_queue_def sq_length_def wrapped_reader_def)
  show ?thesis using chunked_read_tiles_payload[OF wrapped_reader_wf s] s t
    by (simp add: q chunk_sizes.simps upt_rec)
qed

text \<open>A read that meets a full ring throws with its first chunks still queued: the caller gives the staging
  slot back and reuses the ids, while the kernel will still be handed the orphaned reads.\<close>

lemma full_ring_keeps_partial_read:
  "\<exists>r'. submit_read_chunks 3 8192 12288 4096 40 8192 (wrapped_reader\<lparr>sq_entries := 1, sring_mask := 0\<rparr>) =
     throw (runtime_error ''DirectIOReader: submission queue is full; submit pending reads first'') r' \<and>
   map sqe_user_data (sq_queue r') = [40]"
  by (simp add: submit_read_chunks_def submit_chunks_from.simps submit_read_def validate_request_def wrapped_reader_def Let_def
      ring_numerals sq_queue_def sq_entry_def sq_length_def)

subsection \<open>Submission\<close>

text \<open>What the kernel may answer while \<open>n\<close> entries are queued: it takes at least one and no more than there are.\<close>

fun accepts :: "int list \<Rightarrow> nat \<Rightarrow> bool" where
  "accepts answers 0 = True"
| "accepts [] (Suc n) = False"
| "accepts (a # answers) (Suc n) = (0 < a \<and> a \<le> int (Suc n) \<and> accepts answers (Suc n - nat a))"

lemma accepts_pos: "0 < n \<Longrightarrow> accepts as n \<longleftrightarrow> (\<exists>a rest. as = a # rest \<and> 0 < a \<and> a \<le> int n \<and> accepts rest (n - nat a))"
  by (cases n; cases as) auto

lemma submit_pending_from_returns:
  "accepts answers (unat pending) \<Longrightarrow>
     submit_pending_from answers pending done r = Some (ok (done + unat pending) (r\<lparr>sring_head := sring_head r + pending\<rparr>))"
proof (induction answers arbitrary: pending "done" r)
  case Nil
  then have "pending = 0" by (cases "unat pending") (simp_all add: unat_eq_0)
  then show ?case by (simp add: submit_pending_from.simps)
next
  case (Cons a as)
  show ?case
  proof (cases "pending = 0")
    case True
    then show ?thesis by (simp add: submit_pending_from.simps)
  next
    case False
    then have pos: "0 < unat pending" by (simp add: unat_gt_0)
    then have a: "0 < a" "a \<le> int (unat pending)" "accepts as (unat pending - nat a)"
      using Cons.prems accepts_pos by auto
    have w: "unat (of_int a :: 32 word) = nat a"
    proof -
      have "a < 2 ^ 32" using a(2) unsigned_less[of pending, where ?'a = int] by simp
      then have "take_bit 32 a = a" using a(1) by (simp add: take_bit_int_eq_self)
      then show ?thesis using a(1) by (simp add: unsigned_of_int nat_take_bit_eq)
    qed
    have "nat a \<le> unat pending" using a(2) by (simp only: nat_le_iff)
    then have le: "(of_int a :: 32 word) \<le> pending" using w by (simp add: word_le_nat_alt)
    have sub: "unat (pending - of_int a) = unat pending - nat a" using unat_sub[OF le] w by simp
    show ?thesis
      using Cons.IH[of "pending - of_int a" "done + nat a"] a sub False by (subst submit_pending_from.simps) (auto simp: add.commute)
  qed
qed

text \<open>C39: a batch of queued reads reaches the drive. As long as the kernel takes at least one entry per call and never
  more than are queued, the submission loop ends, reports every entry as submitted, and leaves the ring empty,
  also when the 32-bit indices have wrapped.\<close>

theorem submission_drains_ring:
  assumes "accepts answers (sq_length r)"
  shows "\<exists>r'. submit_pending_reads answers r = Some (ok (sq_length r) r') \<and> sring_head r' = sring_tail r' \<and> sring_tail r' = sring_tail r \<and> sqes r' = sqes r"
  using submit_pending_from_returns[of answers "sring_tail r - sring_head r" 0 r] assms
  by (simp add: submit_pending_reads_def sq_length_def)

theorem submission_drains_ring_witness:
  "\<exists>r r'. submit_read_chunks 3 8192 12288 4096 40 8192 wrapped_reader = ok 2 r \<and>
     submit_pending_reads [1, 1] r = Some (ok 2 r') \<and> sring_head r' = sring_tail r'"
proof -
  obtain r where r: "submit_read_chunks 3 8192 12288 4096 40 8192 wrapped_reader = ok 2 r" "sq_length r = 2"
    by (simp add: submit_read_chunks_def submit_chunks_from.simps submit_read_def validate_request_def wrapped_reader_def Let_def ring_numerals sq_length_def)
  have "accepts [1, 1] (sq_length r)" by (simp add: r(2) numeral_2_eq_2)
  from submission_drains_ring[OF this] r show ?thesis by auto
qed

end
