(* ===== verification/Expert_Supply.thy ===== *)
theory Expert_Supply
  imports Staging_Arena Direct_Io Registry_Properties
begin

text \<open>
  Moving experts: \<^verbatim>\<open>src/infrastructure/expert/transport/tiered_expert_supply_types.hpp\<close>,
  \<^verbatim>\<open>pending_transfer_registry.hpp\<close>, \<^verbatim>\<open>expert_transfer_pipeline.hpp\<close> and \<^verbatim>\<open>tiered_expert_supply.hpp\<close>. The supply
  works on the registry, the staging arena, the Warm pool and the table of transfers in flight, which are
  one state here; its services are all bound, as the host binds them.

  The GPU and the drive are outside. What is sent to them is the log of commands in the state, in issue order;
  what they answer is an argument: the status of an event (\<open>event_status\<close>), whether a HIP call of an operation
  succeeds (\<open>hip_ok\<close>), where an expert lies in the file or in mapped memory. Completions of reads are two queues,
  those that have landed and those that will. Timestamps and telemetry records are left out.
\<close>

subsection \<open>State\<close>

datatype hip_status = hipSuccess | hipErrorNotReady | hipFailure

datatype stream = Compute | Sdma | SdmaCold | Demotion

datatype gpu_command =
    WaitEvent stream nat
  | Upload stream nat nat
  | Download stream nat nat
  | RecordEvent stream nat
  | RecordSlot stream nat

record PayloadRequest =
  pr_global_expert_id :: nat
  pr_staging_idx :: nat

record PayloadTransfer =
  tr_global_expert_id :: nat
  tr_operation_id :: nat
  tr_vram_slot :: int
  tr_is_prefetched :: bool
  tr_staging_idx :: nat
  tr_io_pending :: bool
  tr_io_complete :: bool
  tr_io_user_data :: nat
  tr_io_request_count :: nat
  tr_staging_ready :: bool
  tr_warm_host_slot :: int
  tr_source_tier :: ExpertTier

definition default_transfer :: PayloadTransfer where
  "default_transfer = \<lparr>tr_global_expert_id = 0, tr_operation_id = 0, tr_vram_slot = -1, tr_is_prefetched = False,
     tr_staging_idx = 0, tr_io_pending = False, tr_io_complete = False, tr_io_user_data = 0, tr_io_request_count = 0,
     tr_staging_ready = False, tr_warm_host_slot = -1, tr_source_tier = COLD_NVME\<rparr>"

record PendingTransfer =
  pt_operation_id :: nat
  pt_global_expert_id :: nat
  pt_demoted_expert_id :: nat
  pt_source_tier :: ExpertTier
  pt_demotion_event :: "nat option"
  pt_h2d_event :: "nat option"
  pt_staging_idx :: nat
  pt_has_staging :: bool
  pt_h2d_submitted :: bool
  pt_demotion_source_slot :: int
  pt_demotion_destination_slot :: int
  pt_demotion_staging_idx :: int
  pt_demotion_uses_staging :: bool
  pt_demotion_submitted :: bool
  pt_h2d_source_slot :: int
  pt_h2d_destination_slot :: int
  pt_request_failed :: bool
  pt_failure_reason :: string

definition new_transfer :: "nat \<Rightarrow> nat \<Rightarrow> ExpertTier \<Rightarrow> PendingTransfer" where
  "new_transfer op_id gid tier = \<lparr>pt_operation_id = op_id, pt_global_expert_id = gid, pt_demoted_expert_id = 0,
     pt_source_tier = tier, pt_demotion_event = None, pt_h2d_event = None, pt_staging_idx = 0, pt_has_staging = False,
     pt_h2d_submitted = False, pt_demotion_source_slot = -1, pt_demotion_destination_slot = -1,
     pt_demotion_staging_idx = -1, pt_demotion_uses_staging = False, pt_demotion_submitted = False,
     pt_h2d_source_slot = -1, pt_h2d_destination_slot = -1, pt_request_failed = False, pt_failure_reason = []\<rparr>"

record supply_env =
  event_status :: "nat \<Rightarrow> hip_status"
  hip_ok :: "string \<Rightarrow> nat \<Rightarrow> bool"

record supply_config =
  expert_bytes :: nat
  demotion_capacity :: nat
  vram_pool_slots :: nat
  direct_reader :: bool
  source_fd :: int
  locate :: "nat \<Rightarrow> nat \<times> nat"
  host_payload :: "nat \<Rightarrow> nat option"

record ExpertSupply =
  registry :: ExpertRegistry
  staging :: PrefetchStagingArena
  host_pool :: HostExpertPool
  host_mem :: host_memory
  transfers :: "PendingTransfer list"
  completions :: "nat \<rightharpoonup> int"
  landed :: "DirectIOCompletion list"
  outstanding :: "DirectIOCompletion list"
  reader :: DirectIOReader
  next_direct_io_id :: nat
  next_event :: nat
  gpu_log :: "gpu_command list"

type_synonym 'a supply_outcome = "(exn, ExpertSupply, 'a) outcome"

fun of_reg :: "reg_error \<Rightarrow> exn" where
  "of_reg (LogicError m) = logic_error m"
| "of_reg (OutOfRange m) = out_of_range m"
| "of_reg (RuntimeError m) = runtime_error m"
| "of_reg (InvalidArgument m) = invalid_argument m"

definition on_registry :: "(ExpertRegistry \<Rightarrow> 'a reg_outcome) \<Rightarrow> ExpertSupply \<Rightarrow> 'a supply_outcome" where
  "on_registry f s = (case f (registry s) of
     (Inl e, r) \<Rightarrow> throw (of_reg e) (s\<lparr>registry := r\<rparr>) | (Inr x, r) \<Rightarrow> ok x (s\<lparr>registry := r\<rparr>))"

definition on_staging :: "(PrefetchStagingArena \<Rightarrow> (exn, PrefetchStagingArena, 'a) outcome) \<Rightarrow> ExpertSupply \<Rightarrow> 'a supply_outcome" where
  "on_staging f s = (case f (staging s) of (x, a) \<Rightarrow> (x, s\<lparr>staging := a\<rparr>))"

definition on_reader :: "(DirectIOReader \<Rightarrow> (exn, DirectIOReader, 'a) outcome) \<Rightarrow> ExpertSupply \<Rightarrow> 'a supply_outcome" where
  "on_reader f s = (case f (reader s) of (x, a) \<Rightarrow> (x, s\<lparr>reader := a\<rparr>))"

definition issue :: "gpu_command \<Rightarrow> ExpertSupply \<Rightarrow> ExpertSupply" where
  "issue c s = s\<lparr>gpu_log := gpu_log s @ [c]\<rparr>"

text \<open>A HIP call of operation \<open>op_id\<close>: it succeeds and its command is issued, or it throws.\<close>

definition check_hip :: "supply_env \<Rightarrow> string \<Rightarrow> nat \<Rightarrow> gpu_command option \<Rightarrow> ExpertSupply \<Rightarrow> unit supply_outcome" where
  "check_hip env call op_id c s =
     (if hip_ok env call op_id then ok () (case c of None \<Rightarrow> s | Some c \<Rightarrow> issue c s)
      else throw (runtime_error call) s)"

subsection \<open>The table of transfers\<close>

definition find_transfer :: "nat \<Rightarrow> PendingTransfer list \<Rightarrow> PendingTransfer option" where
  "find_transfer op_id ts = find (\<lambda>t. pt_operation_id t = op_id) ts"

definition ensure :: "nat \<Rightarrow> nat \<Rightarrow> ExpertTier \<Rightarrow> PendingTransfer list \<Rightarrow> PendingTransfer list" where
  "ensure op_id gid tier ts = (if find_transfer op_id ts = None then ts @ [new_transfer op_id gid tier] else ts)"

definition erase_at :: "nat \<Rightarrow> PendingTransfer list \<Rightarrow> PendingTransfer list" where
  "erase_at i ts = take i ts @ drop (Suc i) ts"

text \<open>An assignment through the reference or pointer the table hands out.\<close>

fun upd_transfer :: "nat \<Rightarrow> (PendingTransfer \<Rightarrow> PendingTransfer) \<Rightarrow> PendingTransfer list \<Rightarrow> PendingTransfer list" where
  "upd_transfer op_id f [] = []"
| "upd_transfer op_id f (t # ts) = (if pt_operation_id t = op_id then f t # ts else t # upd_transfer op_id f ts)"

definition set_transfer :: "nat \<Rightarrow> (PendingTransfer \<Rightarrow> PendingTransfer) \<Rightarrow> ExpertSupply \<Rightarrow> ExpertSupply" where
  "set_transfer op_id f s = s\<lparr>transfers := upd_transfer op_id f (transfers s)\<rparr>"

definition ensure_registry_transfer :: "nat \<Rightarrow> nat \<Rightarrow> ExpertSupply \<Rightarrow> ExpertSupply" where
  "ensure_registry_transfer op_id gid s = s\<lparr>transfers := ensure op_id gid (owner (ent (registry s) gid)) (transfers s)\<rparr>"

subsection \<open>The pipeline\<close>

definition bind_staging :: "nat \<Rightarrow> nat \<Rightarrow> ExpertSupply \<Rightarrow> unit supply_outcome" where
  "bind_staging op_id idx s =
     (case find_transfer op_id (transfers s) of
        None \<Rightarrow> throw (logic_error ''TieredExpertSupply: staging binding has no registry transfer'') s
      | Some _ \<Rightarrow>
          let s1 = set_transfer op_id (\<lambda>t. t\<lparr>pt_staging_idx := idx, pt_has_staging := True\<rparr>) s
          in after_check (validate_slot (staging s1) idx) s1 (ok ()))"

definition mark_request_failed :: "nat \<Rightarrow> string \<Rightarrow> ExpertSupply \<Rightarrow> unit supply_outcome" where
  "mark_request_failed op_id reason s =
     (case find_transfer op_id (transfers s) of
        None \<Rightarrow> ok () s
      | Some t \<Rightarrow>
          let s1 = set_transfer op_id (\<lambda>t. t\<lparr>pt_request_failed := True, pt_failure_reason := reason\<rparr>) s in
          if pt_has_staging t \<and> \<not> pt_h2d_submitted t
          then on_staging (release_after_failure (pt_staging_idx t)) s1 else ok () s1)"

definition wait_for_demotion_dependency :: "supply_env \<Rightarrow> nat \<Rightarrow> stream \<Rightarrow> ExpertSupply \<Rightarrow> unit supply_outcome" where
  "wait_for_demotion_dependency env op_id st s =
     (case find_transfer op_id (transfers s) of
        None \<Rightarrow> ok () s
      | Some t \<Rightarrow> (case pt_demotion_event t of None \<Rightarrow> ok () s
          | Some e \<Rightarrow> check_hip env ''hipStreamWaitEvent(demotion)'' op_id (Some (WaitEvent st e)) s))"

definition upload_from_host_expert :: "supply_env \<Rightarrow> supply_config \<Rightarrow> nat \<Rightarrow> int \<Rightarrow> nat \<Rightarrow> stream \<Rightarrow> ExpertSupply \<Rightarrow> unit supply_outcome" where
  "upload_from_host_expert env cfg op_id slot ptr st s =
     (if slot < 0 \<or> vram_pool_slots cfg \<le> nat slot then
        throw (runtime_error ''ExpertPayloadPool: Invalid upload source or slot index'') s
      else check_hip env ''hipMemcpyAsync(H2D)'' op_id (Some (Upload st (nat slot) ptr)) s)"

definition download_to_host_expert :: "supply_env \<Rightarrow> supply_config \<Rightarrow> nat \<Rightarrow> nat \<Rightarrow> nat \<Rightarrow> stream \<Rightarrow> ExpertSupply \<Rightarrow> unit supply_outcome" where
  "download_to_host_expert env cfg op_id slot ptr st s =
     (if vram_pool_slots cfg \<le> slot then throw (runtime_error ''ExpertPayloadPool: Invalid download destination'') s
      else check_hip env ''hipMemcpyAsync(D2H)'' op_id (Some (Download st slot ptr)) s)"

definition record_h2d_event :: "supply_env \<Rightarrow> nat \<Rightarrow> stream \<Rightarrow> nat \<Rightarrow> bool \<Rightarrow> int \<Rightarrow> int \<Rightarrow> ExpertSupply \<Rightarrow> unit supply_outcome" where
  "record_h2d_event env op_id st idx has src dst s =
     (case find_transfer op_id (transfers s) of
        None \<Rightarrow> throw (logic_error ''TieredExpertSupply: H2D completion has no registry transfer'') s
      | Some t \<Rightarrow>
          if pt_h2d_event t \<noteq> None then
            throw (logic_error ''TieredExpertSupply: duplicate H2D submission for one expert operation'') s
          else and_then (check_hip env ''hipEventCreateWithFlags(H2D)'' op_id None s) (\<lambda>_ s1.
            let e = next_event s1;
                s2 = set_transfer op_id (\<lambda>t. t\<lparr>pt_h2d_event := Some e\<rparr>) (s1\<lparr>next_event := Suc e\<rparr>) in
            and_then (check_hip env ''hipEventRecord(H2D)'' op_id (Some (RecordEvent st e)) s2) (\<lambda>_ s3.
              ok () (set_transfer op_id (\<lambda>t. t\<lparr>pt_staging_idx := idx, pt_has_staging := has, pt_h2d_source_slot := src,
                pt_h2d_destination_slot := dst, pt_h2d_submitted := True\<rparr>) s3))))"

text \<open>The upload shared by all paths: wait for the demotion of the slot, copy, record the slot's event, record
  the transfer.\<close>

definition submit_copy ::
  "supply_env \<Rightarrow> supply_config \<Rightarrow> nat \<Rightarrow> stream \<Rightarrow> nat \<Rightarrow> nat \<Rightarrow> int \<Rightarrow> int \<Rightarrow> ExpertSupply \<Rightarrow> unit supply_outcome" where
  "submit_copy env cfg op_id st idx ptr src dst s =
     and_then (wait_for_demotion_dependency env op_id st s) (\<lambda>_ s1.
     and_then (upload_from_host_expert env cfg op_id dst ptr st s1) (\<lambda>_ s2.
     and_then (check_hip env ''hipEventRecord(slot)'' op_id (Some (RecordSlot st idx)) s2) (\<lambda>_ s3.
       record_h2d_event env op_id st idx True src dst s3)))"

definition slot_source :: "ExpertSupply \<Rightarrow> int \<Rightarrow> nat \<Rightarrow> exn + nat" where
  "slot_source s warm idx = (if 0 \<le> warm then get_expert_slot_ptr (host_pool s) (nat warm) else get_slot_ptr (staging s) idx)"

definition enqueue_expert_copy ::
  "supply_env \<Rightarrow> supply_config \<Rightarrow> PayloadTransfer \<Rightarrow> ExpertSupply \<Rightarrow> (exn, PayloadTransfer \<times> ExpertSupply, bool) outcome" where
  "enqueue_expert_copy env cfg x s =
     (if tr_vram_slot x < 0 \<and> free_vram_slot_count (registry s) = 0 then ok False (x, s)
      else
        case (if tr_vram_slot x < 0 then on_registry (attach_vram_destination (tr_operation_id x) (demotion_capacity cfg)) s
              else ok (tr_vram_slot x) s) of
          (Inl e, s1) \<Rightarrow> throw e (x, s1)
        | (Inr slot, s1) \<Rightarrow>
            let x1 = x\<lparr>tr_vram_slot := slot\<rparr>; idx = tr_staging_idx x; op_id = tr_operation_id x in
            (case and_then (if tr_staging_ready x then ok () s1 else on_staging (complete_io idx) s1) (\<lambda>_ s2.
                  and_then (on_staging (begin_gpu_transfer idx) s2) (\<lambda>_ s3.
                  case slot_source s3 (tr_warm_host_slot x) idx of
                    Inl e \<Rightarrow> and_then (wait_for_demotion_dependency env op_id SdmaCold s3) (\<lambda>_ s4. throw e s4)
                  | Inr ptr \<Rightarrow> submit_copy env cfg op_id SdmaCold idx ptr
                      (if 0 \<le> tr_warm_host_slot x then tr_warm_host_slot x else int idx) slot s3)) of
               (Inl e, s') \<Rightarrow> throw e (x1, s')
             | (Inr _, s') \<Rightarrow> ok True (x1\<lparr>tr_is_prefetched := True, tr_io_pending := False, tr_io_complete := False,
                 tr_staging_ready := False, tr_warm_host_slot := -1\<rparr>, s')))"

text \<open>A loop over a vector whose elements the body updates in place.\<close>

fun for_each_ref :: "('a \<Rightarrow> 's \<Rightarrow> ('e, 'a \<times> 's, unit) outcome) \<Rightarrow> 'a list \<Rightarrow> 's \<Rightarrow> ('e, 'a list \<times> 's, unit) outcome" where
  "for_each_ref f [] s = ok () ([], s)"
| "for_each_ref f (x # xs) s =
     (case f x s of
        (Inl e, (x', s')) \<Rightarrow> throw e (x' # xs, s')
      | (Inr _, (x', s')) \<Rightarrow> (case for_each_ref f xs s' of (res, (xs', s'')) \<Rightarrow> (res, (x' # xs', s''))))"

text \<open>The next completion of the reader goes into the store; an id already there is not overwritten.\<close>

definition store_completion :: "DirectIOCompletion \<Rightarrow> (nat \<rightharpoonup> int) \<Rightarrow> (nat \<rightharpoonup> int)" where
  "store_completion c m = (if m (user_data c) = None then m(user_data c \<mapsto> result c) else m)"

definition take_next :: "DirectIOCompletion \<Rightarrow> ExpertSupply \<Rightarrow> ExpertSupply" where
  "take_next c s = (let s1 = (if landed s \<noteq> [] then s\<lparr>landed := tl (landed s)\<rparr> else s\<lparr>outstanding := tl (outstanding s)\<rparr>)
     in s1\<lparr>completions := store_completion c (completions s1)\<rparr>)"

text \<open>The blocking wait for one read; \<open>q\<close> is what the reader still has to deliver, and waiting beyond it fails.\<close>

fun await_from :: "nat \<Rightarrow> nat \<Rightarrow> DirectIOCompletion list \<Rightarrow> ExpertSupply \<Rightarrow> int supply_outcome" where
  "await_from op_id uid [] s =
     (case completions s uid of
        Some res \<Rightarrow> ok res (s\<lparr>completions := (completions s)(uid := None)\<rparr>)
      | None \<Rightarrow> and_then (mark_request_failed op_id ''nvme_completion_wait_failure'' s)
          (\<lambda>_ s1. throw (runtime_error ''DirectIOReader: io_uring_enter wait failed'') s1))"
| "await_from op_id uid (c # cs) s =
     (case completions s uid of
        Some res \<Rightarrow> ok res (s\<lparr>completions := (completions s)(uid := None)\<rparr>)
      | None \<Rightarrow> await_from op_id uid cs (take_next c s))"

definition fail_read :: "nat \<Rightarrow> string \<Rightarrow> string \<Rightarrow> ExpertSupply \<Rightarrow> unit supply_outcome" where
  "fail_read op_id reason msg s = and_then (mark_request_failed op_id reason s) (\<lambda>_ s1. throw (runtime_error msg) s1)"

definition chunk_bytes :: "supply_config \<Rightarrow> nat \<Rightarrow> nat" where
  "chunk_bytes cfg chunk = min DEFAULT_CHUNK_BYTES (expert_bytes cfg - chunk * DEFAULT_CHUNK_BYTES)"

definition check_chunk :: "supply_config \<Rightarrow> nat \<Rightarrow> nat \<Rightarrow> int \<Rightarrow> ExpertSupply \<Rightarrow> unit supply_outcome" where
  "check_chunk cfg op_id chunk res s =
     (if res < 0 then fail_read op_id ''nvme_read_failure'' ''TieredExpertSupply: direct expert read failed'' s
      else if expert_bytes cfg \<le> chunk * DEFAULT_CHUNK_BYTES then
        fail_read op_id ''nvme_invalid_chunk'' ''TieredExpertSupply: direct expert read returned an invalid chunk index'' s
      else if res \<noteq> int (chunk_bytes cfg chunk) then
        fail_read op_id ''nvme_short_read'' ''TieredExpertSupply: direct expert read returned a short payload'' s
      else ok () s)"

definition await_chunk :: "supply_config \<Rightarrow> PayloadTransfer \<Rightarrow> nat \<Rightarrow> ExpertSupply \<Rightarrow> unit supply_outcome" where
  "await_chunk cfg x chunk s =
     and_then (await_from (tr_operation_id x) (tr_io_user_data x + chunk) (landed s @ outstanding s) s)
       (\<lambda>res s1. check_chunk cfg (tr_operation_id x) chunk res s1)"

definition copy_or_refuse ::
  "supply_env \<Rightarrow> supply_config \<Rightarrow> PayloadTransfer \<Rightarrow> ExpertSupply \<Rightarrow> (exn, PayloadTransfer \<times> ExpertSupply, unit) outcome" where
  "copy_or_refuse env cfg x s = and_then (enqueue_expert_copy env cfg x s) (\<lambda>enqueued (x', s').
     if enqueued then ok () (x', s')
     else throw (runtime_error ''TieredExpertSupply: materialize found no VRAM slot for a staged-only expert'') (x', s'))"

definition settle_copy ::
  "supply_env \<Rightarrow> supply_config \<Rightarrow> PayloadTransfer \<Rightarrow> ExpertSupply \<Rightarrow> (exn, PayloadTransfer \<times> ExpertSupply, unit) outcome" where
  "settle_copy env cfg x s = (if tr_io_complete x then copy_or_refuse env cfg x s else ok () (x, s))"

definition settle_read ::
  "supply_env \<Rightarrow> supply_config \<Rightarrow> PayloadTransfer \<Rightarrow> ExpertSupply \<Rightarrow> (exn, PayloadTransfer \<times> ExpertSupply, unit) outcome" where
  "settle_read env cfg x s =
     (if \<not> tr_io_pending x then ok () (x, s)
      else case for_each (await_chunk cfg x) [0..<tr_io_request_count x] s of
          (Inl e, s') \<Rightarrow> throw e (x, s')
        | (Inr _, s') \<Rightarrow> copy_or_refuse env cfg x s')"

definition materialize ::
  "supply_env \<Rightarrow> supply_config \<Rightarrow> PayloadTransfer list \<Rightarrow> ExpertSupply \<Rightarrow> (exn, PayloadTransfer list \<times> ExpertSupply, unit) outcome" where
  "materialize env cfg batch s =
     and_then (for_each_ref (settle_copy env cfg) batch s) (\<lambda>_ (batch', s'). for_each_ref (settle_read env cfg) batch' s')"

text \<open>The non-blocking form: everything the ring holds goes into the store, then one pass over the batch.\<close>

definition drain_landed :: "ExpertSupply \<Rightarrow> ExpertSupply" where
  "drain_landed s = s\<lparr>completions := fold store_completion (landed s) (completions s), landed := []\<rparr>"

definition collect_chunk :: "supply_config \<Rightarrow> PayloadTransfer \<Rightarrow> nat \<Rightarrow> ExpertSupply \<Rightarrow> unit supply_outcome" where
  "collect_chunk cfg x chunk s =
     (case completions s (tr_io_user_data x + chunk) of
        None \<Rightarrow> ok () s
      | Some res \<Rightarrow>
          let s1 = s\<lparr>completions := (completions s)(tr_io_user_data x + chunk := None)\<rparr> in
          if res < 0 then fail_read (tr_operation_id x) ''nvme_read_failure'' ''TieredExpertSupply: direct expert read failed'' s1
          else if res \<noteq> int (chunk_bytes cfg chunk) then
            fail_read (tr_operation_id x) ''nvme_short_read'' ''TieredExpertSupply: direct expert read returned a short payload'' s1
          else ok () s1)"

definition pump_copy ::
  "supply_env \<Rightarrow> supply_config \<Rightarrow> PayloadTransfer \<Rightarrow> nat \<times> ExpertSupply \<Rightarrow> (exn, PayloadTransfer \<times> nat \<times> ExpertSupply, unit) outcome" where
  "pump_copy env cfg x ns =
     (if \<not> tr_io_complete x then ok () (x, ns)
      else case enqueue_expert_copy env cfg x (snd ns) of
          (Inl e, (x', s')) \<Rightarrow> throw e (x', (fst ns, s'))
        | (Inr enqueued, (x', s')) \<Rightarrow> ok () (x', (if enqueued then Suc (fst ns) else fst ns, s')))"

definition pump_one ::
  "supply_env \<Rightarrow> supply_config \<Rightarrow> PayloadTransfer \<Rightarrow> nat \<times> ExpertSupply \<Rightarrow> (exn, PayloadTransfer \<times> nat \<times> ExpertSupply, unit) outcome" where
  "pump_one env cfg x ns =
     (if tr_io_pending x then
        if \<exists>chunk\<in>set [0..<tr_io_request_count x]. completions (snd ns) (tr_io_user_data x + chunk) = None then ok () (x, ns)
        else case for_each (collect_chunk cfg x) [0..<tr_io_request_count x] (snd ns) of
            (Inl e, s') \<Rightarrow> throw e (x, (fst ns, s'))
          | (Inr _, s') \<Rightarrow> pump_copy env cfg (x\<lparr>tr_io_pending := False, tr_io_complete := True\<rparr>) (fst ns, s')
      else pump_copy env cfg x ns)"

definition materialize_available ::
  "supply_env \<Rightarrow> supply_config \<Rightarrow> PayloadTransfer list \<Rightarrow> ExpertSupply \<Rightarrow> (exn, PayloadTransfer list \<times> nat \<times> ExpertSupply, unit) outcome" where
  "materialize_available env cfg batch s = for_each_ref (pump_one env cfg) batch (0, drain_landed s)"

definition release_one ::
  "supply_env \<Rightarrow> PayloadTransfer \<Rightarrow> ExpertSupply \<Rightarrow> (exn, PayloadTransfer \<times> ExpertSupply, unit) outcome" where
  "release_one env x s =
     (if \<not> tr_is_prefetched x then ok () (x, s)
      else case Staging_Arena.slot_state (staging s) (tr_staging_idx x) of
          Inl e \<Rightarrow> throw e (x, s)
        | Inr st \<Rightarrow>
            if st \<noteq> GPU_TRANSFER_PENDING then ok () (x\<lparr>tr_is_prefetched := False\<rparr>, s)
            else case and_then (check_hip env ''hipEventSynchronize(stream staging)'' (tr_operation_id x) None s)
                   (\<lambda>_ s1. on_staging (release_after_gpu_transfer (tr_staging_idx x)) s1) of
                (Inl e, s') \<Rightarrow> throw e (x, s')
              | (Inr _, s') \<Rightarrow> ok () (x\<lparr>tr_is_prefetched := False\<rparr>, s'))"

definition release_streamed_staging ::
  "supply_env \<Rightarrow> PayloadTransfer list \<Rightarrow> ExpertSupply \<Rightarrow> (exn, PayloadTransfer list \<times> ExpertSupply, unit) outcome" where
  "release_streamed_staging env batch s = for_each_ref (release_one env) batch s"

end
