(* ===== verification/Tiered_Supply.thy ===== *)
theory Tiered_Supply
  imports Expert_Supply
begin

text \<open>
  The policy half of \<^verbatim>\<open>src/infrastructure/expert/transport/tiered_expert_supply.hpp\<close>: \<open>schedule_demotion\<close>,
  \<open>reap_registry_transfers\<close> and \<open>dispatch\<close>.
\<close>

text \<open>The cast of a signed slot number to \<^verbatim>\<open>uint32_t\<close>.\<close>

definition as_u32 :: "int \<Rightarrow> nat" where
  "as_u32 i = nat (i mod 2 ^ 32)"

subsection \<open>Demotions\<close>

text \<open>The D2H copy of a victim: event, copy, record. A failure before the copy was submitted drops the demotion
  and gives the borrowed slot back; the exception propagates in both cases.\<close>

definition submit_demotion ::
  "supply_env \<Rightarrow> supply_config \<Rightarrow> nat \<Rightarrow> nat \<Rightarrow> nat \<Rightarrow> ExpertSupply \<Rightarrow> unit supply_outcome" where
  "submit_demotion env cfg op_id source destination s =
     and_then (check_hip env ''hipEventCreateWithFlags(demotion)'' op_id None s) (\<lambda>_ s1.
       let e = next_event s1;
           s2 = set_transfer op_id (\<lambda>t. t\<lparr>pt_demotion_event := Some e\<rparr>) (s1\<lparr>next_event := Suc e\<rparr>) in
       and_then (download_to_host_expert env cfg op_id source destination Demotion s2) (\<lambda>_ s3.
         check_hip env ''hipEventRecord(demotion)'' op_id (Some (RecordEvent Demotion e))
           (set_transfer op_id (\<lambda>t. t\<lparr>pt_demotion_submitted := True\<rparr>) s3)))"

definition abandon_demotion :: "nat \<Rightarrow> exn \<Rightarrow> ExpertSupply \<Rightarrow> unit supply_outcome" where
  "abandon_demotion op_id e s =
     (case find_transfer op_id (transfers s) of
        None \<Rightarrow> throw e s
      | Some t \<Rightarrow>
          if pt_demotion_submitted t then throw e s
          else and_then (on_registry (drop_demotion op_id) s) (\<lambda>_ s1.
            and_then (if 0 \<le> pt_demotion_staging_idx t
                      then on_staging (release_after_failure (nat (pt_demotion_staging_idx t))) s1 else ok () s1) (\<lambda>_ s2.
              throw e (set_transfer op_id (\<lambda>t. t\<lparr>pt_demotion_event := None\<rparr>) s2))))"

definition dropped_victim :: "nat \<Rightarrow> ExpertRegistry \<Rightarrow> nat option" where
  "dropped_victim op_id r = find (\<lambda>g. operation_id (ent r g) = op_id \<and> operation (ent r g) = DEMOTION_PENDING)
     [0..<length (catalog r)]"

text \<open>A pageable Warm slot is filled through a borrowed arena slot; without one the demotion is dropped.\<close>

definition borrow_slot :: "nat \<Rightarrow> ExpertSupply \<Rightarrow> nat option supply_outcome" where
  "borrow_slot op_id s = and_then (on_staging try_begin_direct_transfer s) (\<lambda>claimed s1.
     case claimed of
       None \<Rightarrow> and_then (on_registry (drop_demotion op_id) s1) (\<lambda>_ s2. ok None s2)
     | Some idx \<Rightarrow>
         let s2 = set_transfer op_id (\<lambda>t. t\<lparr>pt_demotion_staging_idx := int idx, pt_demotion_uses_staging := True\<rparr>) s1 in
         (case get_slot_ptr (staging s2) idx of Inl e \<Rightarrow> throw e s2 | Inr p \<Rightarrow> ok (Some p) s2))"

definition schedule_demotion :: "supply_env \<Rightarrow> supply_config \<Rightarrow> ExpertRequestReservation \<Rightarrow> ExpertSupply \<Rightarrow> unit supply_outcome" where
  "schedule_demotion env cfg q s =
     (let op_id = rq_operation_id q in
      case rq_demotion q of
        Some d \<Rightarrow>
          let s1 = set_transfer op_id (\<lambda>t. t\<lparr>pt_demoted_expert_id := dr_victim_gid d,
                pt_demotion_source_slot := int (dr_source_vram_slot d),
                pt_demotion_destination_slot := int (dr_destination_host_slot d)\<rparr>)
              (ensure_registry_transfer op_id (rq_global_expert_id q) s) in
          (case get_expert_slot_ptr (host_pool s1) (dr_destination_host_slot d) of
             Inl e \<Rightarrow> throw e s1
           | Inr ptr \<Rightarrow>
               and_then (if is_slot_pinned (host_pool s1) (dr_destination_host_slot d) then ok (Some ptr) s1 else borrow_slot op_id s1)
                 (\<lambda>destination s4. case destination of
                      None \<Rightarrow> ok () s4
                    | Some p \<Rightarrow>
                        (case submit_demotion env cfg op_id (dr_source_vram_slot d) p s4 of
                           (Inl e, s5) \<Rightarrow> abandon_demotion op_id e s5
                         | (Inr _, s5) \<Rightarrow> ok () s5)))
      | None \<Rightarrow>
          if host_capacity (registry s) = 0 then ok () s
          else
            let s1 = ensure_registry_transfer op_id (rq_global_expert_id q) s in
            (case dropped_victim op_id (registry s1) of
               None \<Rightarrow> ok () s1
             | Some g \<Rightarrow> ok () (set_transfer op_id (\<lambda>t. t\<lparr>pt_demoted_expert_id := global_expert_id (ent (registry s1) g),
                 pt_demotion_source_slot := slot_idx (ent (registry s1) g), pt_demotion_destination_slot := -1\<rparr>) s1)))"

subsection \<open>Reaping\<close>

text \<open>The demotion leg of one entry; the answer is \<open>demotion_ready\<close>.\<close>

definition reap_demotion ::
  "supply_env \<Rightarrow> supply_config \<Rightarrow> PendingTransfer \<Rightarrow> ExpertSupply \<Rightarrow> (exn, PendingTransfer \<times> ExpertSupply, bool) outcome" where
  "reap_demotion env cfg t s =
     (case pt_demotion_event t of
        None \<Rightarrow> ok True (t, s)
      | Some e \<Rightarrow>
          let done = t\<lparr>pt_demotion_event := None\<rparr>; idx = as_u32 (pt_demotion_staging_idx t) in
          (case event_status env e of
             hipErrorNotReady \<Rightarrow> ok False (t, s)
           | hipSuccess \<Rightarrow>
               (case and_then
                   (if pt_demotion_uses_staging t then
                      case (get_expert_slot_ptr (host_pool s) (as_u32 (pt_demotion_destination_slot t)), get_slot_ptr (staging s) idx) of
                        (Inr dst, Inr src) \<Rightarrow>
                          on_staging (release_after_gpu_transfer idx) (s\<lparr>host_mem := memcpy dst src (expert_bytes cfg) (host_mem s)\<rparr>)
                      | (Inl err, _) \<Rightarrow> throw err s
                      | (_, Inl err) \<Rightarrow> throw err s
                    else ok () s)
                   (\<lambda>_ s1. on_registry (complete_demotion (pt_operation_id t)) s1) of
                 (Inl err, s') \<Rightarrow> throw err (t, s')
               | (Inr _, s') \<Rightarrow> ok True (done, s'))
           | hipFailure \<Rightarrow>
               (case and_then (if pt_demotion_uses_staging t then on_staging (release_after_failure idx) s else ok () s)
                   (\<lambda>_ s1. on_registry (fail_demotion (pt_operation_id t)) s1) of
                 (Inl err, s') \<Rightarrow> throw err (t, s')
               | (Inr _, s') \<Rightarrow> ok True (done, s'))))"

text \<open>One entry of the table; the answer is whether it stays.\<close>

definition reap_request ::
  "supply_env \<Rightarrow> bool \<Rightarrow> PendingTransfer \<Rightarrow> ExpertSupply \<Rightarrow> bool supply_outcome" where
  "reap_request env ready t s =
     (if pt_request_failed t \<and> \<not> pt_h2d_submitted t then
        if \<not> ready then ok True s
        else and_then (on_registry (fail_request (pt_operation_id t)) s) (\<lambda>_ s1. ok False s1)
      else if \<not> pt_h2d_submitted t \<or> pt_h2d_event t = None \<or> \<not> ready then ok True s
      else case event_status env (the (pt_h2d_event t)) of
          hipErrorNotReady \<Rightarrow> ok True s
        | hipFailure \<Rightarrow>
            and_then (if pt_has_staging t then on_staging (release_after_failure (pt_staging_idx t)) s else ok () s) (\<lambda>_ s1.
            and_then (on_registry (fail_request (pt_operation_id t)) s1) (\<lambda>_ s2. ok False s2))
        | hipSuccess \<Rightarrow>
            and_then (on_registry (complete_request (pt_operation_id t)) s) (\<lambda>_ s1.
            and_then (if pt_has_staging t
                      then and_then (on_staging (release_if_copying (pt_staging_idx t)) s1) (\<lambda>_ s2. ok () s2) else ok () s1) (\<lambda>_ s2.
              ok False s2)))"

definition reap_one ::
  "supply_env \<Rightarrow> supply_config \<Rightarrow> PendingTransfer \<Rightarrow> ExpertSupply \<Rightarrow> (exn, PendingTransfer \<times> ExpertSupply, bool) outcome" where
  "reap_one env cfg t s = and_then (reap_demotion env cfg t s) (\<lambda>ready (t', s1).
     case reap_request env ready t' s1 of (res, s2) \<Rightarrow> (res, (t', s2)))"

fun reap_from :: "supply_env \<Rightarrow> supply_config \<Rightarrow> PendingTransfer list \<Rightarrow> PendingTransfer list \<Rightarrow> ExpertSupply \<Rightarrow> unit supply_outcome" where
  "reap_from env cfg kept [] s = ok () (s\<lparr>transfers := kept\<rparr>)"
| "reap_from env cfg kept (t # ts) s =
     (case reap_one env cfg t s of
        (Inl e, (t', s')) \<Rightarrow> throw e (s'\<lparr>transfers := kept @ t' # ts\<rparr>)
      | (Inr stays, (t', s')) \<Rightarrow> reap_from env cfg (if stays then kept @ [t'] else kept) ts s')"

definition reap_registry_transfers :: "supply_env \<Rightarrow> supply_config \<Rightarrow> ExpertSupply \<Rightarrow> unit supply_outcome" where
  "reap_registry_transfers env cfg s = reap_from env cfg [] (transfers s) s"

subsection \<open>Dispatch\<close>

definition reservation_priority :: "ExpertRegistry \<Rightarrow> PayloadRequest \<Rightarrow> nat" where
  "reservation_priority r p =
     (let e = ent r (pr_global_expert_id p) in
      if owner e = HOT_VRAM \<and> operation e = OP_NONE \<and> publication e = PUBLISHED then 0
      else if owner e = HOT_VRAM then 1 else 2)"

definition request_order :: "ExpertRegistry \<Rightarrow> PayloadRequest list \<Rightarrow> nat list" where
  "request_order r requests = sort_key (\<lambda>i. reservation_priority r (requests ! i)) [0..<length requests]"

text \<open>The reservation loop. A request that meets a demotion whose upload has landed gives its lease back, reaps
  and asks again. \<open>polls\<close> is what the device answers in each round; \<open>None\<close> is a loop still turning when they end.\<close>

fun reserve_loop ::
  "supply_env list \<Rightarrow> supply_config \<Rightarrow> nat \<Rightarrow> nat \<Rightarrow> bool \<Rightarrow> ExpertSupply \<Rightarrow> ExpertRequestReservation supply_outcome option" where
  "reserve_loop [] cfg gid step stage_only s = None"
| "reserve_loop (env # polls) cfg gid step stage_only s =
     (case on_registry (reserve_request_by_gid gid step (demotion_capacity cfg) stage_only) s of
        (Inl e, s1) \<Rightarrow> Some (throw e s1)
      | (Inr q, s1) \<Rightarrow>
          if rq_kind q \<noteq> PENDING \<or> operation (ent (registry s1) (rq_global_expert_id q)) \<noteq> DEMOTION_PENDING then Some (ok q s1)
          else
            (case (case find_transfer (rq_operation_id q) (transfers s1) of None \<Rightarrow> hipErrorNotReady
                 | Some t \<Rightarrow> (case pt_h2d_event t of None \<Rightarrow> hipErrorNotReady | Some e \<Rightarrow> event_status env e)) of
               hipSuccess \<Rightarrow>
                 (case and_then (on_registry (release_lease (rq_global_expert_id q)) s1)
                     (\<lambda>_ s2. reap_registry_transfers env cfg s2) of
                    (Inl e, s3) \<Rightarrow> Some (throw e s3)
                  | (Inr _, s3) \<Rightarrow> reserve_loop polls cfg gid step stage_only s3)
             | hipFailure \<Rightarrow> Some (throw (runtime_error ''TieredExpertSupply: failed to query an optional demotion dependency'') s1)
             | hipErrorNotReady \<Rightarrow> Some (and_then (on_registry (release_lease (rq_global_expert_id q)) s1) (\<lambda>_ s2.
                 throw (runtime_error ''TieredExpertSupply: request encountered an in-flight optional demotion'') s2))))"

definition stage_from :: "nat \<Rightarrow> nat \<Rightarrow> ExpertSupply \<Rightarrow> unit supply_outcome" where
  "stage_from idx src s = (case stage_payload idx src (staging s, host_mem s) of
     (res, (a, m)) \<Rightarrow> (res, s\<lparr>staging := a, host_mem := m\<rparr>))"

text \<open>The copy of a payload that was staged just now: its arena slot is the source.\<close>

definition stage_and_copy ::
  "supply_env \<Rightarrow> supply_config \<Rightarrow> nat \<Rightarrow> nat \<Rightarrow> nat \<Rightarrow> int \<Rightarrow> ExpertSupply \<Rightarrow> unit supply_outcome" where
  "stage_and_copy env cfg op_id idx src dst s =
     and_then (stage_from idx src s) (\<lambda>_ s1.
       case get_slot_ptr (staging s1) idx of
         Inl e \<Rightarrow> throw e s1
       | Inr ptr \<Rightarrow> and_then (on_staging (begin_gpu_transfer idx) s1) (\<lambda>_ s2.
           submit_copy env cfg op_id Sdma idx ptr (int idx) dst s2))"

definition with_ptr :: "exn + nat \<Rightarrow> ExpertSupply \<Rightarrow> (nat \<Rightarrow> ExpertSupply \<Rightarrow> 'a supply_outcome) \<Rightarrow> 'a supply_outcome" where
  "with_ptr p s f = (case p of Inl e \<Rightarrow> throw e s | Inr a \<Rightarrow> f a s)"

text \<open>The transport of one granted request, by source: NVMe into staging, a deferred Warm hand-off, a pinned Warm
  slot, an unpinned Warm slot, mapped memory. The answer is the state of its transfer.\<close>

definition transport ::
  "supply_env \<Rightarrow> supply_config \<Rightarrow> PayloadRequest \<Rightarrow> ExpertRequestReservation \<Rightarrow> PayloadTransfer \<Rightarrow> ExpertSupply \<Rightarrow> PayloadTransfer supply_outcome" where
  "transport env cfg p q x s =
     (let op_id = rq_operation_id q; idx = pr_staging_idx p; gid = rq_global_expert_id q;
          warm = rq_source_tier q = WARM_HOST; src = rq_source_host_slot q;
          pinned = (0 \<le> src \<and> is_slot_pinned (host_pool s) (nat src));
          prefetched = x\<lparr>tr_is_prefetched := True, tr_staging_idx := idx\<rparr> in
      if rq_source_tier q = COLD_NVME \<and> direct_reader cfg \<and> 0 \<le> source_fd cfg then
        and_then (bind_staging op_id idx s) (\<lambda>_ s1.
          if snd (locate cfg gid) \<noteq> expert_bytes cfg then
            throw (runtime_error ''TieredExpertSupply: payload source returned an incompatible payload size'') s1
          else and_then (on_staging (begin_io idx) s1) (\<lambda>_ s2.
            with_ptr (get_slot_ptr (staging s2) idx) s2 (\<lambda>ptr s2.
              let uid = next_direct_io_id s2 in
              and_then (on_reader (submit_read_chunks (source_fd cfg) ptr (snd (locate cfg gid)) (fst (locate cfg gid)) uid DEFAULT_CHUNK_BYTES) s2)
                (\<lambda>count s3. ok (x\<lparr>tr_staging_idx := idx, tr_io_pending := True, tr_io_user_data := uid, tr_io_request_count := count\<rparr>)
                  (s3\<lparr>next_direct_io_id := uid + count\<rparr>)))))
      else if warm \<and> rq_vram_slot q < 0 then
        and_then (bind_staging op_id idx s) (\<lambda>_ s1.
          if pinned then
            and_then (on_staging (mark_ready idx) s1) (\<lambda>_ s2.
              ok (x\<lparr>tr_warm_host_slot := src, tr_staging_idx := idx, tr_staging_ready := True, tr_io_complete := True\<rparr>) s2)
          else with_ptr (get_expert_slot_ptr (host_pool s1) (as_u32 src)) s1 (\<lambda>ptr s1.
            and_then (stage_from idx ptr s1) (\<lambda>_ s2.
              ok (x\<lparr>tr_staging_idx := idx, tr_staging_ready := True, tr_io_complete := True\<rparr>) s2)))
      else if warm \<and> pinned then
        and_then (bind_staging op_id idx s) (\<lambda>_ s1.
        and_then (on_staging (begin_direct_transfer idx) s1) (\<lambda>_ s2.
          with_ptr (get_expert_slot_ptr (host_pool s2) (as_u32 src)) s2 (\<lambda>ptr s2.
            and_then (submit_copy env cfg op_id Sdma idx ptr src (rq_vram_slot q) s2) (\<lambda>_ s3. ok prefetched s3))))
      else if warm then
        with_ptr (get_expert_slot_ptr (host_pool s) (as_u32 src)) (set_transfer op_id (\<lambda>t. t\<lparr>pt_staging_idx := idx, pt_has_staging := True\<rparr>) s)
          (\<lambda>ptr s1. and_then (stage_and_copy env cfg op_id idx ptr (rq_vram_slot q) s1) (\<lambda>_ s2. ok prefetched s2))
      else case host_payload cfg gid of
          None \<Rightarrow> throw (runtime_error ''TieredExpertSupply: host payload unavailable for requested expert'') s
        | Some ptr \<Rightarrow> and_then (bind_staging op_id idx s) (\<lambda>_ s1.
            and_then (stage_and_copy env cfg op_id idx ptr (rq_vram_slot q) s1) (\<lambda>_ s2. ok prefetched s2)))"

type_synonym dispatch_state = "PayloadTransfer list \<times> nat list \<times> ExpertSupply"

definition start_transfer :: "ExpertRequestReservation \<Rightarrow> PayloadTransfer" where
  "start_transfer q = default_transfer\<lparr>tr_global_expert_id := rq_global_expert_id q, tr_operation_id := rq_operation_id q,
     tr_vram_slot := rq_vram_slot q, tr_source_tier := rq_source_tier q\<rparr>"

text \<open>The handler of a failed submission: mark the transfer, reap, rethrow.\<close>

definition submission_failed :: "supply_env \<Rightarrow> supply_config \<Rightarrow> nat \<Rightarrow> exn \<Rightarrow> ExpertSupply \<Rightarrow> 'a supply_outcome" where
  "submission_failed env cfg op_id e s =
     and_then (mark_request_failed op_id ''transfer_submission_failure'' s) (\<lambda>_ s1.
     and_then (reap_registry_transfers env cfg s1) (\<lambda>_ s2. throw e s2))"

definition serve_request ::
  "supply_env \<Rightarrow> supply_config \<Rightarrow> PayloadRequest \<Rightarrow> ExpertRequestReservation \<Rightarrow> ExpertSupply \<Rightarrow> PayloadTransfer supply_outcome" where
  "serve_request env cfg p q s =
     (let x = start_transfer q; op_id = rq_operation_id q in
      if rq_kind q = HOT_HIT then ok x s
      else if rq_kind q = PENDING then
        (case find_transfer op_id (transfers s) of
           None \<Rightarrow> throw (runtime_error ''TieredExpertSupply: duplicate request joined before its transfer was submitted'') s
         | Some t \<Rightarrow>
             if \<not> pt_h2d_submitted t then
               throw (runtime_error ''TieredExpertSupply: duplicate request joined before its transfer was submitted'') s
             else ok (x\<lparr>tr_is_prefetched := pt_has_staging t, tr_staging_idx := pt_staging_idx t\<rparr>) s)
      else
        (case and_then (schedule_demotion env cfg q s) (\<lambda>_ s1.
             transport env cfg p q x (ensure_registry_transfer op_id (rq_global_expert_id q) s1)) of
           (Inl e, s2) \<Rightarrow> submission_failed env cfg op_id e s2
         | (Inr x', s2) \<Rightarrow> ok x' s2))"

definition dispatch_one ::
  "supply_env list \<Rightarrow> supply_env \<Rightarrow> supply_config \<Rightarrow> nat \<Rightarrow> bool \<Rightarrow> PayloadRequest list \<Rightarrow> nat \<Rightarrow> dispatch_state \<Rightarrow> (exn, dispatch_state, unit) outcome option" where
  "dispatch_one polls env cfg step stage_only requests i d = (case d of (batch, leases, s) \<Rightarrow>
     (case reserve_loop polls cfg (pr_global_expert_id (requests ! i)) step stage_only s of
        None \<Rightarrow> None
      | Some (Inl e, s1) \<Rightarrow> Some (throw e (batch, leases, s1))
      | Some (Inr q, s1) \<Rightarrow>
          let leases' = leases @ [rq_global_expert_id q] in
          (case serve_request env cfg (requests ! i) q s1 of
             (Inl e, s2) \<Rightarrow> Some (throw e (batch, leases', s2))
           | (Inr x, s2) \<Rightarrow> Some (ok () (batch[i := x], leases', s2)))))"

fun dispatch_loop ::
  "supply_env list \<Rightarrow> supply_env \<Rightarrow> supply_config \<Rightarrow> nat \<Rightarrow> bool \<Rightarrow> PayloadRequest list \<Rightarrow> nat list \<Rightarrow> dispatch_state \<Rightarrow> (exn, dispatch_state, unit) outcome option" where
  "dispatch_loop polls env cfg step stage_only requests [] d = Some (ok () d)"
| "dispatch_loop polls env cfg step stage_only requests (i # ix) d =
     (case dispatch_one polls env cfg step stage_only requests i d of
        None \<Rightarrow> None
      | Some (Inl e, d1) \<Rightarrow> Some (throw e d1)
      | Some (Inr _, d1) \<Rightarrow> dispatch_loop polls env cfg step stage_only requests ix d1)"

text \<open>The reads of the whole batch go to the drive in one submission; \<open>answers\<close> is what it answers.\<close>

definition submit_batch :: "int list \<Rightarrow> dispatch_state \<Rightarrow> (exn, dispatch_state, unit) outcome option" where
  "submit_batch answers d = (case d of (batch, leases, s) \<Rightarrow>
     if \<not> list_ex tr_io_pending batch then Some (ok () d)
     else case submit_pending_reads answers (reader s) of
         None \<Rightarrow> None
       | Some (Inl e, rd) \<Rightarrow>
           (case for_each (\<lambda>x s. if tr_io_pending x then mark_request_failed (tr_operation_id x) ''nvme_submit_failure'' s else ok () s)
               batch (s\<lparr>reader := rd\<rparr>) of
              (Inl e', s') \<Rightarrow> Some (throw e' (batch, leases, s'))
            | (Inr _, s') \<Rightarrow> Some (throw e (batch, leases, s')))
       | Some (Inr _, rd) \<Rightarrow> Some (ok () (batch, leases, s\<lparr>reader := rd\<rparr>)))"

definition dispatch ::
  "supply_env list \<Rightarrow> supply_env \<Rightarrow> supply_config \<Rightarrow> int list \<Rightarrow> PayloadRequest list \<Rightarrow> nat \<Rightarrow> nat list \<Rightarrow> bool \<Rightarrow> ExpertSupply \<Rightarrow>
     (exn, dispatch_state, unit) outcome option" where
  "dispatch polls env cfg answers requests step leases stage_only s =
     (case dispatch_loop polls env cfg step stage_only requests (request_order (registry s) requests)
         (replicate (length requests) default_transfer, leases, s) of
        None \<Rightarrow> None
      | Some (Inl e, d) \<Rightarrow> Some (throw e d)
      | Some (Inr _, d) \<Rightarrow> submit_batch answers d)"

subsection \<open>Answers\<close>

text \<open>Partial correctness of a path, one step at a time.\<close>

definition returns :: "('a \<Rightarrow> 's \<Rightarrow> bool) \<Rightarrow> ('e, 's, 'a) outcome \<Rightarrow> bool" where
  "returns P m \<longleftrightarrow> (\<forall>x s. m = ok x s \<longrightarrow> P x s)"

lemma returns_ok_throw: "P x s \<Longrightarrow> returns P (ok x s)" "returns P (throw e s)"
  by (auto simp: returns_def)

lemma returns_seq:
  assumes "returns P m" and "\<And>x s. P x s \<Longrightarrow> returns Q (k x s)"
  shows "returns Q (and_then m k)"
  using assms by (auto simp: returns_def and_then_eq_ok)

lemma returns_then: "(\<And>x s. returns Q (k x s)) \<Longrightarrow> returns Q (and_then m k)"
  by (rule returns_seq[where P = "\<lambda>_ _. True"]) (simp_all add: returns_def)

lemma returns_with_ptr: "(\<And>a. returns Q (f a s)) \<Longrightarrow> returns Q (with_ptr a s f)"
  by (auto simp: with_ptr_def returns_def split: sum.splits)

text \<open>What a served request's transfer says: which expert, and the slot its reads go to.\<close>

definition serves :: "PayloadRequest \<Rightarrow> nat \<Rightarrow> PayloadTransfer \<Rightarrow> bool" where
  "serves p gid x \<longleftrightarrow> tr_global_expert_id x = gid \<and> (tr_io_pending x \<longrightarrow> tr_staging_idx x = pr_staging_idx p)"

lemma transport_serves:
  "tr_global_expert_id x = gid \<Longrightarrow> \<not> tr_io_pending x \<Longrightarrow> returns (\<lambda>x' _. serves p gid x') (transport env cfg p q x s)"
  unfolding transport_def Let_def serves_def
  by (auto split: option.splits intro!: returns_then returns_with_ptr returns_ok_throw)

lemma serve_request_serves:
  assumes "serve_request env cfg p q s = ok x s'"
  shows "serves p (rq_global_expert_id q) x"
proof -
  let ?Q = "\<lambda>x _. serves p (rq_global_expert_id q) x"
  let ?m = "and_then (schedule_demotion env cfg q s) (\<lambda>_ s1.
    transport env cfg p q (start_transfer q) (ensure_registry_transfer (rq_operation_id q) (rq_global_expert_id q) s1))"
  have x: "tr_global_expert_id (start_transfer q) = rq_global_expert_id q" "\<not> tr_io_pending (start_transfer q)"
    by (simp_all add: start_transfer_def default_transfer_def)
  have "returns ?Q ?m" using transport_serves[OF x] by (intro returns_then)
  then have "returns ?Q (case ?m of (Inl e, s2) \<Rightarrow> submission_failed env cfg (rq_operation_id q) e s2 | (Inr x', s2) \<Rightarrow> ok x' s2)"
    by (cases ?m rule: outcome_cases)
      (auto simp: ok_def throw_def submission_failed_def returns_def and_then_eq_ok[unfolded ok_def])
  then have "returns ?Q (serve_request env cfg p q s)"
    unfolding serve_request_def Let_def using x by (auto simp: serves_def split: option.splits intro!: returns_ok_throw)
  then show ?thesis using assms unfolding returns_def by blast
qed

subsection \<open>The registry stays sound\<close>

text \<open>Every path of the supply reaches the registry through its public operations. A supply is \<open>sound\<close> when
  its registry is one that a sequence of such calls reaches.\<close>

definition sound :: "ExpertSupply \<Rightarrow> bool" where
  "sound s \<longleftrightarrow> reachable (registry s)"

lemma registry_frames [simp]:
  "registry (set_transfer op_id f s) = registry s" "registry (issue c s) = registry s"
  "registry (ensure_registry_transfer op_id gid s) = registry s" "registry (take_next d s) = registry s"
  "registry (drain_landed s) = registry s"
  by (simp_all add: set_transfer_def issue_def ensure_registry_transfer_def take_next_def drain_landed_def Let_def)

lemma registry_frame_outcomes [simp]:
  "registry (snd (on_staging f s)) = registry s" "registry (snd (on_reader g s)) = registry s"
  "registry (snd (check_hip env call op_id c s)) = registry s"
  by (auto simp: on_staging_def on_reader_def check_hip_def split: prod.splits option.splits)

lemma on_registry_ok:
  "on_registry f s = ok x s' \<longleftrightarrow> (\<exists>r. f (registry s) = ok x r \<and> s' = s\<lparr>registry := r\<rparr>)"
  by (cases "f (registry s)" rule: outcome_cases) (auto simp: on_registry_def ok_def throw_def)

lemma snd_on_registry: "registry (snd (on_registry f s)) = snd (f (registry s))"
  by (auto simp: on_registry_def split: prod.splits sum.splits)

lemma registry_and_then:
  assumes "registry (snd m) = r" and "\<And>x s. registry s = r \<Longrightarrow> registry (snd (k x s)) = r"
  shows "registry (snd (and_then m k)) = r"
  by (rule and_then_inv) (use assms in auto)

lemma registry_after_check: "registry (snd (k s)) = r \<Longrightarrow> registry s = r \<Longrightarrow> registry (snd (after_check c s k)) = r"
  by (cases c) simp_all

lemma bind_staging_registry [simp]: "registry (snd (bind_staging op_id idx s)) = registry s"
  by (auto simp: bind_staging_def Let_def split: option.splits intro!: registry_after_check)

lemma mark_request_failed_registry [simp]: "registry (snd (mark_request_failed op_id reason s)) = registry s"
  by (simp add: mark_request_failed_def Let_def split: option.splits)

lemma wait_registry [simp]: "registry (snd (wait_for_demotion_dependency env op_id st s)) = registry s"
  by (simp add: wait_for_demotion_dependency_def split: option.splits)

lemma upload_registry [simp]: "registry (snd (upload_from_host_expert env cfg op_id slot ptr st s)) = registry s"
  by (simp add: upload_from_host_expert_def)

lemma download_registry [simp]: "registry (snd (download_to_host_expert env cfg op_id slot ptr st s)) = registry s"
  by (simp add: download_to_host_expert_def)

lemma record_registry [simp]: "registry (snd (record_h2d_event env op_id st idx has src dst s)) = registry s"
  unfolding record_h2d_event_def Let_def
  by (auto split: option.splits intro!: registry_and_then)

lemma submit_copy_registry [simp]: "registry (snd (submit_copy env cfg op_id st idx ptr src dst s)) = registry s"
  unfolding submit_copy_def by (intro registry_and_then) simp_all

lemma stage_from_registry [simp]: "registry (snd (stage_from idx src s)) = registry s"
  by (simp add: stage_from_def split: prod.splits)

lemma stage_and_copy_registry [simp]: "registry (snd (stage_and_copy env cfg op_id idx src dst s)) = registry s"
  unfolding stage_and_copy_def by (auto split: sum.splits intro!: registry_and_then)

lemma submit_demotion_registry [simp]: "registry (snd (submit_demotion env cfg op_id source destination s)) = registry s"
  unfolding submit_demotion_def Let_def by (auto intro!: registry_and_then)

lemma with_ptr_registry: "(\<And>a. registry (snd (f a s)) = r) \<Longrightarrow> registry s = r \<Longrightarrow> registry (snd (with_ptr p s f)) = r"
  by (simp add: with_ptr_def split: sum.splits)

lemma transport_registry [simp]: "registry (snd (transport env cfg p q x s)) = registry s"
  unfolding transport_def Let_def
  by (auto split: option.splits intro!: registry_and_then with_ptr_registry)

lemma await_from_registry [simp]: "registry (snd (await_from op_id uid cs s)) = registry s"
  by (induction op_id uid cs s rule: await_from.induct) (auto split: option.splits intro!: registry_and_then)

lemma fail_read_registry [simp]: "registry (snd (fail_read op_id reason msg s)) = registry s"
  unfolding fail_read_def by (rule registry_and_then) simp_all

lemma await_chunk_registry [simp]: "registry (snd (await_chunk cfg x chunk s)) = registry s"
  unfolding await_chunk_def check_chunk_def by (rule registry_and_then) simp_all

lemma collect_chunk_registry [simp]: "registry (snd (collect_chunk cfg x chunk s)) = registry s"
  by (simp add: collect_chunk_def Let_def split: option.splits)

lemma for_each_registry: "(\<And>x s. registry (snd (f x s)) = registry s) \<Longrightarrow> registry (snd (for_each f xs s)) = registry s"
  by (rule for_each_inv[where P = "\<lambda>s'. registry s' = registry s"]) auto

lemma sound_cong: "registry s' = registry s \<Longrightarrow> sound s \<Longrightarrow> sound s'"
  by (simp add: sound_def)

lemma on_registry_sound:
  assumes "sound s" and "call_allowed c (registry s)" and "after_call c (registry s) = snd (f (registry s))"
  shows "sound (snd (on_registry f s))"
  using assms call_reachable by (auto simp: sound_def snd_on_registry)

lemma registry_ops_sound:
  assumes "sound s"
  shows "sound (snd (on_registry (reserve_request_by_gid gid step cap stage) s))"
    "sound (snd (on_registry (attach_vram_destination op_id cap) s))"
    "sound (snd (on_registry (complete_request op_id) s))" "sound (snd (on_registry (fail_request op_id) s))"
    "sound (snd (on_registry (complete_demotion op_id) s))" "sound (snd (on_registry (fail_demotion op_id) s))"
    "sound (snd (on_registry (release_lease gid) s))"
proof -
  note k = on_registry_sound[OF assms]
  show "sound (snd (on_registry (reserve_request_by_gid gid step cap stage) s))" by (rule k[of "ReserveByGid gid step cap stage"]) simp_all
  show "sound (snd (on_registry (attach_vram_destination op_id cap) s))" by (rule k[of "AttachDestination op_id cap"]) simp_all
  show "sound (snd (on_registry (complete_request op_id) s))" by (rule k[of "CompleteRequest op_id"]) simp_all
  show "sound (snd (on_registry (fail_request op_id) s))" by (rule k[of "FailRequest op_id"]) simp_all
  show "sound (snd (on_registry (complete_demotion op_id) s))" by (rule k[of "CompleteDemotion op_id"]) simp_all
  show "sound (snd (on_registry (fail_demotion op_id) s))" by (rule k[of "FailDemotion op_id"]) simp_all
  show "sound (snd (on_registry (release_lease gid) s))" by (rule k[of "ReleaseLease gid"]) simp_all
qed

lemma sound_and_then:
  assumes "sound (snd m)" and "\<And>x s. sound s \<Longrightarrow> sound (snd (k x s))"
  shows "sound (snd (and_then m k))"
  by (rule and_then_inv) (use assms in auto)

lemma sound_frame: "sound s \<Longrightarrow> registry (snd m) = registry s \<Longrightarrow> sound (snd m)"
  by (rule sound_cong)

text \<open>The demotion of a granted request cannot be dropped: its victim's copy is already marked as submitted.\<close>

definition drop_blocked :: "nat \<Rightarrow> ExpertRegistry \<Rightarrow> bool" where
  "drop_blocked op_id r \<longleftrightarrow> (\<exists>v. find_operation_victim op_id r = Some v \<and> gpu_transfer (ent r v) = D2H_PENDING)"

lemma drop_blocked_throws: "drop_blocked op_id r \<Longrightarrow> drop_demotion op_id r = throw (LogicError ''submitted D2H cannot be dropped'') r"
  by (auto simp: drop_blocked_def drop_demotion_def)

lemma on_registry_drop:
  "drop_blocked op_id (registry s) \<Longrightarrow> on_registry (drop_demotion op_id) s = throw (logic_error ''submitted D2H cannot be dropped'') s"
  by (simp add: on_registry_def drop_blocked_throws throw_def)

lemma abandon_demotion_registry:
  "drop_blocked op_id (registry s) \<Longrightarrow> registry (snd (abandon_demotion op_id e s)) = registry s"
  by (auto simp: abandon_demotion_def on_registry_drop split: option.splits)

lemma schedule_demotion_registry:
  assumes "rq_demotion q \<noteq> None \<longrightarrow> drop_blocked (rq_operation_id q) (registry s)"
  shows "registry (snd (schedule_demotion env cfg q s)) = registry s"
proof (cases "rq_demotion q")
  case None
  then show ?thesis by (auto simp: schedule_demotion_def Let_def split: option.splits)
next
  case (Some d)
  then have b: "drop_blocked (rq_operation_id q) (registry s)" using assms by simp
  have drop: "registry (snd (on_registry (drop_demotion (rq_operation_id q)) s')) = registry s" if "registry s' = registry s" for s'
    using that b by (simp add: on_registry_drop)
  have sub: "registry (snd (case submit_demotion env cfg op_id src p s' of (Inl e, s5) \<Rightarrow> abandon_demotion (rq_operation_id q) e s5 | (Inr _, s5) \<Rightarrow> ok () s5))
      = registry s" if "registry s' = registry s" for s' op_id src p
    using submit_demotion_registry[of env cfg op_id src p s'] that b abandon_demotion_registry[of "rq_operation_id q"]
    by (cases "submit_demotion env cfg op_id src p s'" rule: outcome_cases) (auto simp: ok_def throw_def)
  show ?thesis
    unfolding schedule_demotion_def borrow_slot_def Let_def Some option.case
    by (auto split: sum.splits option.splits simp: drop sub intro!: registry_and_then)
qed

lemma reserve_ok_granted:
  assumes "reachable r" and "reserve_request_by_gid gid step cap stage r = ok q r'"
  shows "reg_inv r'" "request_granted gid r q r'"
proof -
  note inv = reachable_inv[OF assms(1)]
  have g: "gid < total_experts r"
    using assms(2) inv_sizesD(1)[OF reg_invD(1)[OF inv]] by (auto simp: reserve_request_by_gid_def split: if_splits)
  show "reg_inv r'" "request_granted gid r q r'"
    by (cases rule: reserve_request_by_gid_cases[OF inv g, of step cap stage], use assms(2) in auto)+
qed

lemma granted_drop_blocked:
  assumes "reachable r" and "reserve_request_by_gid gid step cap stage r = ok q r'"
    and "rq_kind q \<noteq> HOT_HIT" "rq_kind q \<noteq> PENDING" "rq_demotion q = Some d"
  shows "drop_blocked (rq_operation_id q) r'"
proof -
  note inv1 = reserve_ok_granted(1)[OF assms(1,2)] and gr = reserve_ok_granted(2)[OF assms(1,2)]
  let ?v = "dr_victim_gid d"
  have v: "?v < total_experts r'" "gpu_transfer (ent r' ?v) = D2H_PENDING" "operation_id (ent r' ?v) = rq_operation_id q"
    using gr assms(3-5) by (cases "rq_kind q"; auto simp: request_granted_def)+
  have "operation (ent r' ?v) = DEMOTION_PENDING" using demotion_facts(1)[OF inv1 v(1,2)] .
  from find_victim_eq[OF inv1 v(1) this] v show ?thesis by (simp add: drop_blocked_def)
qed

lemma reap_demotion_sound:
  assumes "sound s"
  shows "sound (snd (snd (reap_demotion env cfg t s)))"
proof -
  have settle: "sound (snd (and_then m (\<lambda>_ s1. on_registry f s1)))"
    if "registry (snd m) = registry s" "\<And>s1. sound s1 \<Longrightarrow> sound (snd (on_registry f s1))" for m :: "unit supply_outcome" and f :: "ExpertRegistry \<Rightarrow> unit reg_outcome"
    using that sound_frame[OF assms] by (intro sound_and_then) auto
  have out: "sound (snd (snd (case m of (Inl e, s') \<Rightarrow> throw e (t, s') | (Inr _, s') \<Rightarrow> ok True (t', s'))))"
    if "sound (snd m)" for m :: "unit supply_outcome" and t'
    using that by (cases m rule: outcome_cases) (auto simp: ok_def throw_def)
  show ?thesis
    unfolding reap_demotion_def Let_def
    using assms
    by (auto split: option.splits hip_status.splits intro!: out settle registry_ops_sound) (auto split: sum.splits prod.splits)
qed

lemma reap_request_sound: "sound s \<Longrightarrow> sound (snd (reap_request env ready t s))"
  unfolding reap_request_def
  by (auto split: hip_status.splits intro!: sound_and_then registry_ops_sound elim: sound_frame)

lemma reap_one_sound:
  assumes "sound s"
  shows "sound (snd (snd (reap_one env cfg t s)))"
proof (cases "reap_demotion env cfg t s" rule: outcome_cases)
  case (ok ready ts)
  then have "sound (snd ts)" using reap_demotion_sound[OF assms, of env cfg t] by simp
  then show ?thesis
    using ok reap_request_sound[of "snd ts" env ready "fst ts"] by (cases ts) (auto simp: reap_one_def split: prod.splits)
next
  case (throw e ts)
  then show ?thesis using reap_demotion_sound[OF assms, of env cfg t] by (simp add: reap_one_def)
qed

lemma reap_from_sound: "sound s \<Longrightarrow> sound (snd (reap_from env cfg kept ts s))"
proof (induction ts arbitrary: kept s)
  case Nil
  then show ?case by (simp add: sound_def)
next
  case (Cons t ts)
  have one: "sound (snd (snd (reap_one env cfg t s)))" using Cons.prems by (rule reap_one_sound)
  show ?case
    using one Cons.IH by (cases "reap_one env cfg t s" rule: outcome_cases)
      (auto simp: ok_def throw_def sound_def split: prod.splits)
qed

lemma reap_sound: "sound s \<Longrightarrow> sound (snd (reap_registry_transfers env cfg s))"
  by (simp add: reap_registry_transfers_def reap_from_sound)

text \<open>What the reservation loop hands on.\<close>

definition servable :: "ExpertRequestReservation \<Rightarrow> ExpertSupply \<Rightarrow> bool" where
  "servable q s \<longleftrightarrow> sound s \<and> (rq_kind q \<noteq> HOT_HIT \<longrightarrow> rq_kind q \<noteq> PENDING \<longrightarrow> rq_demotion q \<noteq> None \<longrightarrow>
     drop_blocked (rq_operation_id q) (registry s))"

lemma reserved_servable:
  assumes "sound s" and "on_registry (reserve_request_by_gid gid step cap stage) s = ok q s1"
  shows "servable q s1"
proof -
  obtain r1 where r: "reserve_request_by_gid gid step cap stage (registry s) = ok q r1" "s1 = s\<lparr>registry := r1\<rparr>"
    using assms(2) by (auto simp: on_registry_ok)
  have "sound s1" using registry_ops_sound(1)[OF assms(1), of gid step cap stage] assms(2) by simp
  moreover have "drop_blocked (rq_operation_id q) (registry s1)"
    if "rq_kind q \<noteq> HOT_HIT" "rq_kind q \<noteq> PENDING" "rq_demotion q = Some d" for d
    using granted_drop_blocked[OF _ r(1) that] assms(1) r(2) by (simp add: sound_def)
  ultimately show ?thesis by (auto simp: servable_def)
qed

lemma reserved_gid:
  assumes "sound s" and "on_registry (reserve_request_by_gid gid step cap stage) s = ok q s1"
  shows "rq_global_expert_id q = gid"
proof -
  obtain r1 where r: "reserve_request_by_gid gid step cap stage (registry s) = ok q r1"
    using assms(2) by (auto simp: on_registry_ok)
  show ?thesis using reserve_ok_granted(2)[OF _ r] assms(1) by (simp add: sound_def request_granted_def)
qed

lemma reserve_loop_sound:
  "sound s \<Longrightarrow> reserve_loop polls cfg gid step stage_only s = Some (res, s') \<Longrightarrow>
     sound s' \<and> (\<forall>q. res = Inr q \<longrightarrow> servable q s' \<and> rq_global_expert_id q = gid)"
proof (induction polls arbitrary: s)
  case Nil
  then show ?case by simp
next
  case (Cons env polls)
  let ?m = "on_registry (reserve_request_by_gid gid step (demotion_capacity cfg) stage_only) s"
  have m: "sound (snd ?m)" using Cons.prems(1) by (rule registry_ops_sound)
  show ?case
  proof (cases ?m rule: outcome_cases)
    case (throw e s1)
    then show ?thesis using m Cons.prems(2) by (auto simp: throw_def)
  next
    case (ok q s1)
    note q = reserved_servable[OF Cons.prems(1) ok] reserved_gid[OF Cons.prems(1) ok]
    have s1: "sound s1" using m ok by simp
    let ?rel = "on_registry (release_lease (rq_global_expert_id q)) s1"
    let ?k = "and_then ?rel (\<lambda>_ s2. reap_registry_transfers env cfg s2)"
    have rel: "sound (snd ?rel)" using s1 by (rule registry_ops_sound)
    have k: "sound (snd ?k)" using rel by (auto intro: sound_and_then reap_sound)
    have t: "sound t' \<and> (\<forall>q. r \<noteq> Inr q)" if "and_then ?rel (\<lambda>_ s2. throw e s2) = (r, t')"
      for e t' and r :: "exn + ExpertRequestReservation"
      using rel that by (cases ?rel rule: outcome_cases) (auto simp: throw_def)
    show ?thesis
      using Cons.prems(2) ok q s1 k Cons.IH
      by (cases ?k rule: outcome_cases) (auto simp: ok_def throw_def split: if_splits hip_status.splits dest!: t)
  qed
qed

lemma submission_failed_sound: "sound s \<Longrightarrow> sound (snd (submission_failed env cfg op_id e s))"
  unfolding submission_failed_def
  by (auto intro!: sound_and_then reap_sound sound_frame[OF _ mark_request_failed_registry])

lemma serve_request_sound:
  assumes "servable q s"
  shows "sound (snd (serve_request env cfg p q s))"
proof -
  have s: "sound s" using assms by (simp add: servable_def)
  let ?m = "and_then (schedule_demotion env cfg q s) (\<lambda>_ s1.
    transport env cfg p q (start_transfer q) (ensure_registry_transfer (rq_operation_id q) (rq_global_expert_id q) s1))"
  have "sound (snd ?m)" if "rq_kind q \<noteq> HOT_HIT" "rq_kind q \<noteq> PENDING"
  proof (rule sound_and_then)
    show "sound (snd (schedule_demotion env cfg q s))"
      using s schedule_demotion_registry[of q s env cfg] assms that by (auto simp: servable_def intro: sound_frame)
  qed (simp add: sound_def)
  then show ?thesis
    unfolding serve_request_def Let_def using s submission_failed_sound
    by (cases ?m rule: outcome_cases) (auto simp: ok_def throw_def split: option.splits)
qed

lemma dispatch_one_sound:
  assumes "sound (snd (snd d))" and "dispatch_one polls env cfg step stage_only requests i d = Some (res, d')"
  shows "sound (snd (snd d'))"
proof -
  obtain batch leases s where d: "d = (batch, leases, s)" by (cases d)
  obtain res0 s1 where r: "reserve_loop polls cfg (pr_global_expert_id (requests ! i)) step stage_only s = Some (res0, s1)"
    using assms(2) d by (cases "reserve_loop polls cfg (pr_global_expert_id (requests ! i)) step stage_only s")
      (auto simp: dispatch_one_def)
  note s1 = reserve_loop_sound[OF _ r]
  show ?thesis
  proof (cases res0)
    case (Inl e)
    then show ?thesis using assms d r s1 by (auto simp: dispatch_one_def throw_def)
  next
    case (Inr q)
    have "sound (snd (serve_request env cfg (requests ! i) q s1))"
      using s1 assms(1) d Inr by (auto intro: serve_request_sound)
    then show ?thesis
      using assms(2) d r Inr by (auto simp: dispatch_one_def throw_def ok_def Let_def split: prod.splits sum.splits)
  qed
qed

lemma dispatch_loop_sound:
  "sound (snd (snd d)) \<Longrightarrow> dispatch_loop polls env cfg step stage_only requests ix d = Some (res, d') \<Longrightarrow> sound (snd (snd d'))"
proof (induction ix arbitrary: d)
  case Nil
  then show ?case by (auto simp: ok_def)
next
  case (Cons i ix)
  show ?case
  proof (cases "dispatch_one polls env cfg step stage_only requests i d")
    case None
    then show ?thesis using Cons.prems by simp
  next
    case (Some r)
    obtain res1 d1 where r: "r = (res1, d1)" by (cases r)
    have "sound (snd (snd d1))" using dispatch_one_sound[OF Cons.prems(1)] Some r by blast
    then show ?thesis using Cons Some r by (cases res1) (auto simp: throw_def)
  qed
qed

lemma submit_batch_sound:
  assumes "sound (snd (snd d))" and "submit_batch answers d = Some (res, d')"
  shows "sound (snd (snd d'))"
proof -
  obtain batch leases s where d: "d = (batch, leases, s)" by (cases d)
  let ?f = "\<lambda>x s. if tr_io_pending x then mark_request_failed (tr_operation_id x) ''nvme_submit_failure'' s else ok () s"
  have f: "sound (snd (for_each ?f batch (s\<lparr>reader := rd\<rparr>)))" for rd
    using for_each_registry[of ?f batch "s\<lparr>reader := rd\<rparr>"] assms(1) d by (simp add: sound_def)
  show ?thesis
  proof (cases "list_ex tr_io_pending batch")
    case False
    then show ?thesis using assms d by (auto simp: submit_batch_def ok_def)
  next
    case True
    then obtain r rd where sub: "submit_pending_reads answers (reader s) = Some (r, rd)"
      using assms(2) d by (cases "submit_pending_reads answers (reader s)") (auto simp: submit_batch_def)
    show ?thesis
    proof (cases r)
      case (Inr u)
      then show ?thesis using True sub assms d by (auto simp: submit_batch_def ok_def sound_def)
    next
      case (Inl e)
      then show ?thesis
        using True sub assms(2) d f[of rd]
        by (cases "for_each ?f batch (s\<lparr>reader := rd\<rparr>)" rule: outcome_cases) (auto simp: submit_batch_def ok_def throw_def)
    qed
  qed
qed

lemma dispatch_sound:
  assumes "sound s" and "dispatch polls env cfg answers requests step leases stage_only s = Some (res, d')"
  shows "sound (snd (snd d'))"
proof -
  let ?d = "(replicate (length requests) default_transfer, leases, s)"
  obtain r d1 where l: "dispatch_loop polls env cfg step stage_only requests (request_order (registry s) requests) ?d = Some (r, d1)"
    using assms(2)
    by (cases "dispatch_loop polls env cfg step stage_only requests (request_order (registry s) requests) ?d") (auto simp: dispatch_def)
  have "sound (snd (snd d1))" using dispatch_loop_sound[OF _ l] assms(1) by simp
  then show ?thesis
    using assms(2) l submit_batch_sound[of d1 answers] by (cases r) (auto simp: dispatch_def throw_def)
qed

text \<open>The pipeline's own call on the registry is the late VRAM destination.\<close>

lemma enqueue_sound:
  assumes "sound s"
  shows "sound (snd (snd (enqueue_expert_copy env cfg x s)))"
proof -
  let ?att = "if tr_vram_slot x < 0 then on_registry (attach_vram_destination (tr_operation_id x) (demotion_capacity cfg)) s
              else ok (tr_vram_slot x) s"
  have att: "sound (snd ?att)" using assms registry_ops_sound(2)[OF assms] by simp
  let ?k = "\<lambda>slot s1. and_then (if tr_staging_ready x then ok () s1 else on_staging (complete_io (tr_staging_idx x)) s1) (\<lambda>_ s2.
    and_then (on_staging (begin_gpu_transfer (tr_staging_idx x)) s2) (\<lambda>_ s3.
      case slot_source s3 (tr_warm_host_slot x) (tr_staging_idx x) of
        Inl e \<Rightarrow> and_then (wait_for_demotion_dependency env (tr_operation_id x) SdmaCold s3) (\<lambda>_ s4. throw e s4)
      | Inr ptr \<Rightarrow> submit_copy env cfg (tr_operation_id x) SdmaCold (tr_staging_idx x) ptr
          (if 0 \<le> tr_warm_host_slot x then tr_warm_host_slot x else int (tr_staging_idx x)) slot s3))"
  have k: "registry (snd (?k slot s1)) = registry s1" for slot s1
    by (auto split: sum.splits intro!: registry_and_then)
  show ?thesis
  proof (cases ?att rule: outcome_cases)
    case (throw e s1)
    then show ?thesis using att assms unfolding enqueue_expert_copy_def by (auto simp: ok_def throw_def)
  next
    case (ok slot s1)
    have "sound (snd (?k slot s1))" using k[of s1 slot] att ok by (simp add: sound_def)
    then show ?thesis
      using ok assms unfolding enqueue_expert_copy_def Let_def
      by (cases "?k slot s1" rule: outcome_cases) (auto simp: ok_def throw_def)
  qed
qed

lemma for_each_ref_inv:
  assumes "P s" and "\<And>x s. P s \<Longrightarrow> P (snd (snd (f x s)))"
  shows "P (snd (snd (for_each_ref f xs s)))"
  using assms(1)
proof (induction xs arbitrary: s)
  case Nil
  then show ?case by simp
next
  case (Cons x xs)
  then show ?case using assms(2)[OF Cons.prems, of x]
    by (cases "f x s" rule: outcome_cases) (auto simp: ok_def throw_def split: prod.splits, metis snd_conv)
qed

lemma copy_or_refuse_sound: "sound s \<Longrightarrow> sound (snd (snd (copy_or_refuse env cfg x s)))"
  unfolding copy_or_refuse_def using enqueue_sound[of s env cfg x]
  by (cases "enqueue_expert_copy env cfg x s" rule: outcome_cases) (auto split: prod.splits)

lemma settle_read_sound:
  assumes "sound s"
  shows "sound (snd (snd (settle_read env cfg x s)))"
proof -
  let ?m = "for_each (await_chunk cfg x) [0..<tr_io_request_count x] s"
  have "sound (snd ?m)" using for_each_registry[of "await_chunk cfg x"] assms by (auto simp: sound_def)
  then show ?thesis
    using assms copy_or_refuse_sound by (cases ?m rule: outcome_cases) (auto simp: settle_read_def ok_def throw_def)
qed

lemma materialize_sound:
  assumes "sound s"
  shows "sound (snd (snd (materialize env cfg batch s)))"
proof -
  let ?m = "for_each_ref (settle_copy env cfg) batch s"
  have m: "sound (snd (snd ?m))"
    by (rule for_each_ref_inv[where P = sound]) (simp_all add: settle_copy_def copy_or_refuse_sound assms)
  have n: "sound (snd (snd (for_each_ref (settle_read env cfg) batch' s')))" if "sound s'" for batch' s'
    by (rule for_each_ref_inv[where P = sound]) (simp_all add: settle_read_sound that)
  show ?thesis using m n unfolding materialize_def by (cases ?m rule: outcome_cases) (auto split: prod.splits)
qed

lemma pump_copy_sound: "sound (snd ns) \<Longrightarrow> sound (snd (snd (snd (pump_copy env cfg x ns))))"
  unfolding pump_copy_def using enqueue_sound[of "snd ns" env cfg x]
  by (cases "enqueue_expert_copy env cfg x (snd ns)" rule: outcome_cases) (auto simp: ok_def throw_def split: prod.splits)

lemma pump_one_sound:
  assumes "sound (snd ns)"
  shows "sound (snd (snd (snd (pump_one env cfg x ns))))"
proof -
  let ?m = "for_each (collect_chunk cfg x) [0..<tr_io_request_count x] (snd ns)"
  have "sound (snd ?m)" using for_each_registry[of "collect_chunk cfg x"] assms by (auto simp: sound_def)
  then show ?thesis
    using assms pump_copy_sound[of ns env cfg x] pump_copy_sound[of "(fst ns, snd ?m)" env cfg]
    by (cases ?m rule: outcome_cases) (auto simp: pump_one_def ok_def throw_def)
qed

lemma materialize_available_sound:
  "sound s \<Longrightarrow> sound (snd (snd (snd (materialize_available env cfg batch s))))"
  unfolding materialize_available_def
  by (rule for_each_ref_inv[where P = "\<lambda>ns. sound (snd ns)"]) (auto simp: pump_one_sound, simp add: sound_def)

lemma release_one_sound: "sound s \<Longrightarrow> sound (snd (snd (release_one env x s)))"
proof -
  assume s: "sound s"
  let ?m = "and_then (check_hip env ''hipEventSynchronize(stream staging)'' (tr_operation_id x) None s)
    (\<lambda>_ s1. on_staging (release_after_gpu_transfer (tr_staging_idx x)) s1)"
  have "registry (snd ?m) = registry s" by (intro registry_and_then) simp_all
  with s show ?thesis
    by (cases ?m rule: outcome_cases) (auto simp: release_one_def sound_def ok_def throw_def split: sum.splits)
qed

lemma release_streamed_staging_sound: "sound s \<Longrightarrow> sound (snd (snd (release_streamed_staging env batch s)))"
  unfolding release_streamed_staging_def by (rule for_each_ref_inv[where P = sound]) (simp_all add: release_one_sound)

subsection \<open>Sequences of calls\<close>

text \<open>The supply as its callers drive it. A call that throws leaves its state behind; the run goes on, as the
  executor's handlers do. \<open>None\<close> is a run that waits in the reservation loop.\<close>

datatype supply_call =
    Dispatch "supply_env list" supply_env "int list" "PayloadRequest list" nat bool
  | Materialize supply_env "PayloadTransfer list"
  | Pump supply_env "PayloadTransfer list"
  | ReleaseStreamed supply_env "PayloadTransfer list"
  | Reap supply_env
  | ReleaseLeases "nat list"
  | Deliver "DirectIOCompletion list"

fun supply_step :: "supply_config \<Rightarrow> supply_call \<Rightarrow> ExpertSupply \<Rightarrow> ExpertSupply option" where
  "supply_step cfg (Dispatch polls env answers requests step stage) s =
     map_option (\<lambda>(_, d). snd (snd d)) (dispatch polls env cfg answers requests step [] stage s)"
| "supply_step cfg (Materialize env batch) s = Some (snd (snd (materialize env cfg batch s)))"
| "supply_step cfg (Pump env batch) s = Some (snd (snd (snd (materialize_available env cfg batch s))))"
| "supply_step cfg (ReleaseStreamed env batch) s = Some (snd (snd (release_streamed_staging env batch s)))"
| "supply_step cfg (Reap env) s = Some (snd (reap_registry_transfers env cfg s))"
| "supply_step cfg (ReleaseLeases gs) s = Some (snd (for_each (\<lambda>g. on_registry (release_lease g)) gs s))"
| "supply_step cfg (Deliver cs) s = Some (s\<lparr>landed := landed s @ cs, outstanding := drop (length cs) (outstanding s)\<rparr>)"

fun supply_run :: "supply_config \<Rightarrow> supply_call list \<Rightarrow> ExpertSupply \<Rightarrow> ExpertSupply option" where
  "supply_run cfg [] s = Some s"
| "supply_run cfg (c # cs) s = Option.bind (supply_step cfg c s) (supply_run cfg cs)"

lemma supply_step_sound:
  assumes "sound s" and "supply_step cfg c s = Some s'"
  shows "sound s'"
proof (cases c)
  case (Dispatch polls env answers requests step stage)
  then show ?thesis using assms dispatch_sound[OF assms(1)] by auto
next
  case (ReleaseLeases gs)
  have "sound (snd (for_each (\<lambda>g. on_registry (release_lease g)) gs s))"
    using assms(1) by (rule for_each_inv) (simp add: registry_ops_sound)
  then show ?thesis using assms ReleaseLeases by simp
next
  case (Deliver cs)
  then show ?thesis using assms by (auto simp: sound_def)
qed (use assms in \<open>auto simp: materialize_sound materialize_available_sound release_streamed_staging_sound reap_sound\<close>)

lemma supply_run_sound: "sound s \<Longrightarrow> supply_run cfg cs s = Some s' \<Longrightarrow> sound s'"
proof (induction cs arbitrary: s)
  case Nil
  then show ?case by simp
next
  case (Cons c cs)
  then show ?case using supply_step_sound[OF Cons.prems(1)] by (auto simp: bind_eq_Some_conv)
qed

text \<open>Nor can the request itself fail while its victim's copy counts as submitted.\<close>

lemma granted_fail_blocked:
  assumes "reachable r" and "reserve_request_by_gid gid step cap stage r = ok q r'"
    and "rq_kind q \<noteq> HOT_HIT" "rq_kind q \<noteq> PENDING" "rq_demotion q = Some d"
  shows "fail_request (rq_operation_id q) r' = throw (LogicError ''request failed before submitted D2H completed'') r'"
proof -
  note inv1 = reserve_ok_granted(1)[OF assms(1,2)] and gr = reserve_ok_granted(2)[OF assms(1,2)]
  have i: "gid < total_experts r'" "incoming (ent r' gid)" "operation_id (ent r' gid) = rq_operation_id q"
    using gr assms(3-5) by (cases "rq_kind q"; auto simp: request_granted_def)+
  obtain v where v: "find_operation_victim (rq_operation_id q) r' = Some v" "gpu_transfer (ent r' v) = D2H_PENDING"
    using granted_drop_blocked[OF assms] by (auto simp: drop_blocked_def)
  have "\<not> warm_shadow (ent r' gid)" using shadow_no_victim[OF inv1 i(1)] find_victim_Some[OF inv1 v(1)] v(2) i(3) by metis
  then show ?thesis
    using v find_incoming_eq[OF inv1 i(1,2)] i(3) by (simp add: fail_request_def Let_def)
qed

lemma granted_demotion_slot:
  assumes "reachable r" and "reserve_request_by_gid gid step cap stage r = ok q r'"
    and "rq_kind q \<noteq> HOT_HIT" "rq_kind q \<noteq> PENDING" "rq_demotion q = Some d"
  shows "rq_vram_slot q = int (dr_source_vram_slot d)"
  using reserve_ok_granted(2)[OF assms(1,2)] assms(3-5) by (cases "rq_kind q"; auto simp: request_granted_def)

end
