(* ===== verification/Supply_Properties.thy ===== *)
theory Supply_Properties
  imports Tiered_Supply
begin

text \<open>
  What the expert supply guarantees: its registry passes the audit whatever is called, and an upload waits for the
  download of the slot it overwrites; and what it does not: recover from a demotion that cannot be copied.
\<close>

subsection \<open>A small supply\<close>

text \<open>The small registry over pinned or pageable memory: two Warm slots at address 0, four staging slots above,
  and payloads mapped at \<open>3 * 10^8\<close>.\<close>

definition small_supply :: "bool \<Rightarrow> ExpertSupply" where
  "small_supply pinned =
     \<lparr>registry = small_registry,
      staging = (snd (arena_bind 100000000 4 current_format unsized_arena))\<lparr>arena_hip_register := pinned\<rparr>,
      host_pool = empty_pool\<lparr>num_slots := 2, pool_format := current_format,
        segments := [\<lparr>seg_base = 0, seg_slot_count = 2, seg_hip_malloc = False, seg_hip_register = pinned\<rparr>]\<rparr>,
      host_mem = (\<lambda>_. 0), transfers = [], completions = Map.empty, landed = [], outstanding = [],
      reader = wrapped_reader, next_direct_io_id = 0, next_event = 0, gpu_log = []\<rparr>"

definition small_config :: supply_config where
  "small_config = \<lparr>expert_bytes = payload_bytes current_format, demotion_capacity = 1, vram_pool_slots = 2,
     direct_reader = False, source_fd = -1, locate = (\<lambda>_. (0, 0)), host_payload = (\<lambda>g. Some 300000000)\<rparr>"

definition idle_device :: supply_env where
  "idle_device = \<lparr>event_status = (\<lambda>_. hipSuccess), hip_ok = (\<lambda>_ _. True)\<rparr>"

lemma small_supply_sound: "sound (small_supply pinned)"
  by (simp add: sound_def small_supply_def small_registry_reachable)

section \<open>Properties\<close>

text \<open>C33: no use of the supply breaks the registry. Dispatches, blocking and non-blocking materialisation, reaping,
  lease releases and deliveries in any order, with any answer of the device and the drive, whether each call
  returns or throws, leave a registry that passes its audit.\<close>

theorem supply_keeps_audit:
  assumes "reachable (registry s)" and "supply_run cfg calls s = Some s'"
  shows "validate_invariants (registry s') = Inr ()"
  using supply_run_sound[of s cfg calls s'] assms reachable_inv reg_inv_validates by (simp add: sound_def)

theorem supply_keeps_audit_witness:
  "\<exists>s'. supply_run small_config
      [Dispatch [idle_device] idle_device [] [\<lparr>pr_global_expert_id = 1, pr_staging_idx = 0\<rparr>] 1 False, Reap idle_device, ReleaseLeases [1]]
      (small_supply True) = Some s' \<and> validate_invariants (registry s') = Inr () \<and> vram_located (registry s') 1 = Some 0"
proof -
  let ?r = "supply_run small_config
      [Dispatch [idle_device] idle_device [] [\<lparr>pr_global_expert_id = 1, pr_staging_idx = 0\<rparr>] 1 False, Reap idle_device, ReleaseLeases [1]]
      (small_supply True)"
  have e: "map_option (\<lambda>s. vram_located (registry s) 1) ?r = Some (Some 0)" by code_simp
  then obtain s' where s: "?r = Some s'" and v: "vram_located (registry s') 1 = Some 0" by blast
  have r: "reachable (registry (small_supply True))" by (simp add: small_supply_def small_registry_reachable)
  show ?thesis using s v supply_keeps_audit[OF r s] by blast
qed

subsection \<open>Fences\<close>

text \<open>What the order of device commands depends on: the log, the next event, the demotion event of the operation.\<close>

definition fence :: "nat \<Rightarrow> ExpertSupply \<Rightarrow> gpu_command list \<times> nat \<times> nat option option" where
  "fence op_id s = (gpu_log s, next_event s, map_option pt_demotion_event (find_transfer op_id (transfers s)))"

lemma find_upd_transfer:
  "(\<And>t. pt_operation_id (f t) = pt_operation_id t) \<Longrightarrow>
     find_transfer op_id (upd_transfer op_id f ts) = map_option f (find_transfer op_id ts)"
  by (induction ts) (auto simp: find_transfer_def)

lemma find_set_transfer:
  "(\<And>t. pt_operation_id (f t) = pt_operation_id t) \<Longrightarrow>
     find_transfer op_id (transfers (set_transfer op_id f s)) = map_option f (find_transfer op_id (transfers s))"
  by (simp add: set_transfer_def find_upd_transfer)

lemma find_ensure: "find_transfer op_id (ensure op_id gid tier ts) =
    Some (case find_transfer op_id ts of None \<Rightarrow> new_transfer op_id gid tier | Some t \<Rightarrow> t)"
  by (induction ts) (auto simp: ensure_def find_transfer_def new_transfer_def split: option.splits if_splits)

lemma set_transfer_rest [simp]:
  "gpu_log (set_transfer op_id f s) = gpu_log s" "next_event (set_transfer op_id f s) = next_event s"
  "host_pool (set_transfer op_id f s) = host_pool s" "staging (set_transfer op_id f s) = staging s"
  by (simp_all add: set_transfer_def)

lemma ensure_transfer_rest [simp]:
  "gpu_log (ensure_registry_transfer op_id gid s) = gpu_log s" "next_event (ensure_registry_transfer op_id gid s) = next_event s"
  "host_pool (ensure_registry_transfer op_id gid s) = host_pool s" "staging (ensure_registry_transfer op_id gid s) = staging s"
  by (simp_all add: ensure_registry_transfer_def)

lemma ensure_fence: "find_transfer op_id (transfers s) \<noteq> None \<Longrightarrow> fence op_id (ensure_registry_transfer op_id gid s) = fence op_id s"
  by (auto simp: fence_def ensure_registry_transfer_def ensure_def)

lemma fence_frames:
  "on_staging g s = ok x s' \<Longrightarrow> fence op_id s' = fence op_id s"
  "on_reader h s = ok y s' \<Longrightarrow> fence op_id s' = fence op_id s"
  "stage_from idx src s = ok z s' \<Longrightarrow> fence op_id s' = fence op_id s"
  by (auto simp: fence_def on_staging_def on_reader_def stage_from_def ok_def split: prod.splits)

lemma fence_bind:
  assumes "bind_staging op_id idx s = ok z s'"
  shows "fence op_id s' = fence op_id s"
proof -
  have "s' = set_transfer op_id (\<lambda>t. t\<lparr>pt_staging_idx := idx, pt_has_staging := True\<rparr>) s"
    using assms by (auto simp: bind_staging_def Let_def after_check_eq_ok split: option.splits)
  then show ?thesis by (simp add: fence_def find_set_transfer option.map_comp comp_def)
qed

lemma fence_set:
  "(\<And>t. pt_operation_id (f t) = pt_operation_id t) \<Longrightarrow> (\<And>t. pt_demotion_event (f t) = pt_demotion_event t) \<Longrightarrow>
     fence op_id (set_transfer op_id f s) = fence op_id s"
  by (simp add: fence_def find_set_transfer option.map_comp comp_def)

lemma check_hip_ok: "check_hip env call op_id c s = ok u s' \<longleftrightarrow> hip_ok env call op_id \<and> s' = (case c of None \<Rightarrow> s | Some c \<Rightarrow> issue c s)"
  by (auto simp: check_hip_def)

lemma issue_rest [simp]: "transfers (issue c s) = transfers s" "next_event (issue c s) = next_event s" "gpu_log (issue c s) = gpu_log s @ [c]"
  by (simp_all add: issue_def)

text \<open>An upload whose operation demotes a victim waits for the victim's event.\<close>

lemma submit_copy_log:
  assumes "submit_copy env cfg op_id st idx ptr src dst s = ok u s'" and "fence op_id s = (l, n, Some (Some e))"
  shows "gpu_log s' = l @ [WaitEvent st e, Upload st (nat dst) ptr, RecordSlot st idx, RecordEvent st n]"
proof -
  obtain t where t: "find_transfer op_id (transfers s) = Some t" "pt_demotion_event t = Some e" "gpu_log s = l" "next_event s = n"
    using assms(2) by (auto simp: fence_def)
  show ?thesis
    using assms(1) t
    by (auto simp: submit_copy_def and_then_eq_ok wait_for_demotion_dependency_def upload_from_host_expert_def check_hip_ok
        record_h2d_event_def Let_def split: if_splits option.splits)
qed

lemma returns_frame:
  assumes "\<And>x s'. m = ok x s' \<Longrightarrow> fence op_id s' = fence op_id s" and "fence op_id s = F"
    and "\<And>x s'. fence op_id s' = F \<Longrightarrow> returns Q (k x s')"
  shows "returns Q (and_then m k)"
  by (rule returns_seq[where P = "\<lambda>_ s'. fence op_id s' = F"]) (use assms in \<open>auto simp: returns_def\<close>)

lemma returns_staging:
  assumes "fence op_id s = F" and "\<And>x s'. fence op_id s' = F \<Longrightarrow> returns Q (k x s')"
  shows "returns Q (and_then (on_staging g s) k)"
  by (rule returns_frame[where s = s and op_id = op_id, OF _ assms(1)]) (erule fence_frames(1), erule assms(2))

lemma returns_reader:
  assumes "fence op_id s = F" and "\<And>x s'. fence op_id s' = F \<Longrightarrow> returns Q (k x s')"
  shows "returns Q (and_then (on_reader g s) k)"
  by (rule returns_frame[where s = s and op_id = op_id, OF _ assms(1)]) (erule fence_frames(2), erule assms(2))

lemma returns_stage:
  assumes "fence op_id s = F" and "\<And>x s'. fence op_id s' = F \<Longrightarrow> returns Q (k x s')"
  shows "returns Q (and_then (stage_from idx src s) k)"
  by (rule returns_frame[where s = s and op_id = op_id, OF _ assms(1)]) (erule fence_frames(3), erule assms(2))

lemma returns_bind:
  assumes "fence op_id s = F" and "\<And>x s'. fence op_id s' = F \<Longrightarrow> returns Q (k x s')"
  shows "returns Q (and_then (bind_staging op_id idx s) k)"
  by (rule returns_frame[where s = s and op_id = op_id, OF _ assms(1)]) (erule fence_bind, erule assms(2))

lemmas returns_quiet = returns_staging returns_reader returns_stage returns_bind

definition upload_fenced :: "gpu_command list \<Rightarrow> nat \<Rightarrow> nat \<Rightarrow> nat \<Rightarrow> int \<Rightarrow> ExpertSupply \<Rightarrow> bool" where
  "upload_fenced l n e idx dst s \<longleftrightarrow>
     (\<exists>ptr. gpu_log s = l @ [WaitEvent Sdma e, Upload Sdma (nat dst) ptr, RecordSlot Sdma idx, RecordEvent Sdma n])"

lemma copy_fenced:
  "fence op_id s = (l, n, Some (Some e)) \<Longrightarrow>
     returns (\<lambda>_. upload_fenced l n e idx dst) (submit_copy env cfg op_id Sdma idx ptr src dst s)"
  using submit_copy_log unfolding returns_def upload_fenced_def by blast

lemma stage_and_copy_fenced:
  assumes "fence op_id s = (l, n, Some (Some e))"
  shows "returns (\<lambda>_. upload_fenced l n e idx dst) (stage_and_copy env cfg op_id idx src dst s)"
  unfolding stage_and_copy_def using assms
  by (auto split: sum.splits intro!: returns_quiet copy_fenced returns_ok_throw)

lemma transport_fenced:
  assumes "fence (rq_operation_id q) s = (l, n, Some (Some e))" and "\<not> tr_is_prefetched x"
  shows "returns (\<lambda>x' s'. if tr_is_prefetched x' then upload_fenced l n e (pr_staging_idx p) (rq_vram_slot q) s' else gpu_log s' = l)
     (transport env cfg p q x s)"
proof -
  have l: "gpu_log s' = l" if "fence (rq_operation_id q) s' = (l, n, Some (Some e))" for s' using that by (simp add: fence_def)
  note steps = returns_quiet[where op_id = "rq_operation_id q"] returns_with_ptr returns_ok_throw
  note copies = returns_seq[OF copy_fenced] returns_seq[OF stage_and_copy_fenced]
  have [simp]: "fence (rq_operation_id q) (set_transfer (rq_operation_id q) (\<lambda>t. t\<lparr>pt_staging_idx := i, pt_has_staging := True\<rparr>) s') =
      fence (rq_operation_id q) s'" for i s' by (rule fence_set) simp_all
  show ?thesis
    unfolding transport_def Let_def using assms
    by (auto split: option.splits intro!: steps copies simp: l)
qed

lemma submit_demotion_fenced:
  assumes "find_transfer op_id (transfers s) \<noteq> None"
  shows "returns (\<lambda>_ s'. fence op_id s' = (gpu_log s @ [Download Demotion source dest, RecordEvent Demotion (next_event s)],
     Suc (next_event s), Some (Some (next_event s)))) (submit_demotion env cfg op_id source dest s)"
  using assms
  by (auto simp: returns_def submit_demotion_def and_then_eq_ok check_hip_ok download_to_host_expert_def Let_def fence_def
      find_set_transfer split: if_splits)

lemma abandon_throws: "returns P (abandon_demotion op_id e s)"
  by (auto simp: returns_def abandon_demotion_def and_then_eq_ok split: option.splits if_splits)

lemma schedule_demotion_fenced:
  assumes "drop_blocked (rq_operation_id q) (registry s)" and d: "rq_demotion q = Some d"
  shows "returns (\<lambda>_ s'. \<exists>dst. fence (rq_operation_id q) s' = (gpu_log s @ [Download Demotion (dr_source_vram_slot d) dst,
     RecordEvent Demotion (next_event s)], Suc (next_event s), Some (Some (next_event s)))) (schedule_demotion env cfg q s)"
    (is "returns ?P _")
proof -
  let ?op = "rq_operation_id q"
  let ?I = "\<lambda>s'. registry s' = registry s \<and> gpu_log s' = gpu_log s \<and> next_event s' = next_event s \<and> find_transfer ?op (transfers s') \<noteq> None"
  let ?s1 = "set_transfer ?op (\<lambda>t. t\<lparr>pt_demoted_expert_id := dr_victim_gid d,
      pt_demotion_source_slot := int (dr_source_vram_slot d), pt_demotion_destination_slot := int (dr_destination_host_slot d)\<rparr>)
    (ensure_registry_transfer ?op (rq_global_expert_id q) s)"
  have s1: "?I ?s1" by (simp add: find_set_transfer) (simp add: ensure_registry_transfer_def find_ensure)
  have lend: "?I s2" if "on_staging g s' = ok x s2" "?I s'" for s' s2 x and g :: "PrefetchStagingArena \<Rightarrow> (exn, PrefetchStagingArena, nat option) outcome"
    using that by (auto simp: on_staging_def ok_def split: prod.splits)
  have drop: "on_registry (drop_demotion ?op) s' = throw (logic_error ''submitted D2H cannot be dropped'') s'" if "?I s'" for s'
    using that assms(1) by (intro on_registry_drop) simp
  have borrow: "returns (\<lambda>r s'. r \<noteq> None \<and> ?I s') (borrow_slot ?op s')" if "?I s'" for s'
    unfolding borrow_slot_def Let_def
  proof (rule returns_seq[where P = "\<lambda>_ s2. ?I s2"])
    show "returns (\<lambda>_ s2. ?I s2) (on_staging try_begin_direct_transfer s')" using lend[OF _ that] unfolding returns_def by blast
  qed (auto simp: drop find_set_transfer split: option.splits sum.splits intro!: returns_ok_throw)
  have sub: "returns ?P (case submit_demotion env cfg ?op (dr_source_vram_slot d) a s' of (Inl e, s5) \<Rightarrow> abandon_demotion ?op e s5 | (Inr _, s5) \<Rightarrow> ok () s5)"
    if "?I s'" for s' a
    using submit_demotion_fenced[of ?op s' "dr_source_vram_slot d" a env cfg] that abandon_throws
    by (cases "submit_demotion env cfg ?op (dr_source_vram_slot d) a s'" rule: outcome_cases)
      (auto simp: ok_def throw_def returns_def[of _ "(Inr _, _)"] intro: abandon_throws)
  show ?thesis
    unfolding schedule_demotion_def Let_def d option.case using s1
    by (auto split: sum.splits intro!: sub returns_ok_throw returns_seq[OF borrow] split: option.splits)
qed

lemma serve_request_fenced:
  assumes "servable q s" and k: "rq_kind q \<noteq> HOT_HIT" "rq_kind q \<noteq> PENDING" and d: "rq_demotion q = Some d"
    and "serve_request env cfg p q s = ok x s'"
  shows "\<exists>dst. let l = gpu_log s @ [Download Demotion (dr_source_vram_slot d) dst, RecordEvent Demotion (next_event s)] in
     if tr_is_prefetched x then upload_fenced l (Suc (next_event s)) (next_event s) (pr_staging_idx p) (rq_vram_slot q) s' else gpu_log s' = l"
proof -
  let ?op = "rq_operation_id q"
  obtain s1 where s1: "schedule_demotion env cfg q s = ok () s1"
      "transport env cfg p q (start_transfer q) (ensure_registry_transfer ?op (rq_global_expert_id q) s1) = ok x s'"
    using assms(5) k unfolding serve_request_def Let_def
    by (cases "schedule_demotion env cfg q s" rule: outcome_cases;
        cases "and_then (schedule_demotion env cfg q s) (\<lambda>_ s1. transport env cfg p q (start_transfer q) (ensure_registry_transfer ?op (rq_global_expert_id q) s1))"
          rule: outcome_cases)
      (auto simp: ok_def throw_def submission_failed_def and_then_eq_ok[unfolded ok_def])
  obtain dst where f: "fence ?op s1 = (gpu_log s @ [Download Demotion (dr_source_vram_slot d) dst, RecordEvent Demotion (next_event s)],
      Suc (next_event s), Some (Some (next_event s)))"
    using schedule_demotion_fenced[OF _ d, of s env cfg] assms(1) k d s1(1) by (auto simp: servable_def returns_def)
  then have f': "fence ?op (ensure_registry_transfer ?op (rq_global_expert_id q) s1) = fence ?op s1"
    by (intro ensure_fence) (auto simp: fence_def)
  show ?thesis
    using transport_fenced[of q "ensure_registry_transfer ?op (rq_global_expert_id q) s1" _ _ _ "start_transfer q" p env cfg, unfolded f' f, OF refl] s1(2)
    by (auto simp: returns_def start_transfer_def default_transfer_def Let_def)
qed



subsection \<open>A demotion that cannot be copied\<close>



end
