(* ===== verification/Layer_Supply.thy ===== *)
theory Layer_Supply
  imports Supply_Properties "HOL-Library.Multiset"
begin

text \<open>
  The layer calls over the supply: \<^verbatim>\<open>src/infrastructure/expert/layer_batch_supply.hpp\<close>, the port a layer-major
  prefill drives, and \<^verbatim>\<open>src/architecture/deepseek_v4/moe/v4_expert_supply.hpp\<close>, the coordinator that implements it.
  The port's virtual functions are a record of operations on the supply; the coordinator fills it.

  A dispatch waits inside the reservation loop as long as the device lets it, so it answers \<open>None\<close> when the polls
  it is given run out; the vector of leases it appends to is part of the state it leaves.
\<close>

subsection \<open>Batches\<close>

record LayerBatchState =
  lb_vram_slots :: "int list"
  lb_global_expert_ids :: "nat list"
  lb_operation_ids :: "nat list"
  lb_is_prefetched :: "bool list"
  lb_staging_indices :: "nat list"
  lb_io_pending :: "bool list"
  lb_io_user_data :: "nat list"
  lb_io_request_counts :: "nat list"
  lb_supply_batch :: "PayloadTransfer list"
  lb_first_position :: nat
  lb_token_count :: nat

definition expert_count :: "'a LayerBatchState_scheme \<Rightarrow> nat" where
  "expert_count st = length (lb_supply_batch st)"

definition empty_batch :: LayerBatchState where
  "empty_batch = \<lparr>lb_vram_slots = [], lb_global_expert_ids = [], lb_operation_ids = [], lb_is_prefetched = [],
     lb_staging_indices = [], lb_io_pending = [], lb_io_user_data = [], lb_io_request_counts = [], lb_supply_batch = [],
     lb_first_position = 0, lb_token_count = 0\<rparr>"

definition sync_state :: "'a LayerBatchState_scheme \<Rightarrow> 'a LayerBatchState_scheme" where
  "sync_state st = (let ts = lb_supply_batch st in
     st\<lparr>lb_vram_slots := map tr_vram_slot ts, lb_global_expert_ids := map tr_global_expert_id ts,
        lb_operation_ids := map tr_operation_id ts, lb_is_prefetched := map tr_is_prefetched ts,
        lb_staging_indices := map tr_staging_idx ts, lb_io_pending := map tr_io_pending ts,
        lb_io_user_data := map tr_io_user_data ts, lb_io_request_counts := map tr_io_request_count ts\<rparr>)"

text \<open>\<open>LayerPrefetchState\<close> adds, for every token, the batch index of each of its experts.\<close>

record LayerPrefetchState = LayerBatchState +
  token_indices :: "nat list list"

definition prefetch_state :: "PayloadTransfer list \<Rightarrow> nat \<Rightarrow> nat \<Rightarrow> nat list list \<Rightarrow> LayerPrefetchState" where
  "prefetch_state ts pos n ix = sync_state
     \<lparr>lb_vram_slots = [], lb_global_expert_ids = [], lb_operation_ids = [], lb_is_prefetched = [],
      lb_staging_indices = [], lb_io_pending = [], lb_io_user_data = [], lb_io_request_counts = [], lb_supply_batch = ts,
      lb_first_position = pos, lb_token_count = n, token_indices = ix\<rparr>"

definition ROUTED_EXPERTS :: nat where
  "ROUTED_EXPERTS = 6"

subsection \<open>Dispatching a layer\<close>

text \<open>What the outside answers to one call: the device in each round of the reservation loop, the device
  otherwise, the drive.\<close>

record supply_world =
  w_polls :: "supply_env list"
  w_env :: supply_env
  w_answers :: "int list"

type_synonym 'a layer_outcome = "(exn, nat list \<times> ExpertSupply, 'a) outcome option"

definition supply_dispatch ::
  "supply_world \<Rightarrow> supply_config \<Rightarrow> PayloadRequest list \<Rightarrow> nat \<Rightarrow> nat list \<Rightarrow> bool \<Rightarrow> ExpertSupply \<Rightarrow> PayloadTransfer list layer_outcome" where
  "supply_dispatch w cfg requests step leases stage_only s =
     (case dispatch (w_polls w) (w_env w) cfg (w_answers w) requests step leases stage_only s of
        None \<Rightarrow> None
      | Some (Inl e, (batch, leases', s')) \<Rightarrow> Some (throw e (leases', s'))
      | Some (Inr _, (batch, leases', s')) \<Rightarrow> Some (ok batch (leases', s')))"

fun routed_requests :: "ExpertRegistry \<Rightarrow> nat \<Rightarrow> nat \<Rightarrow> int list \<Rightarrow> exn + PayloadRequest list" where
  "routed_requests r l slot [] = Inr []"
| "routed_requests r l slot (e # es) =
     (if e < 0 then Inl (invalid_argument ''V4ExpertSupplyCoordinator: routed expert ID cannot be negative'')
      else case get_global_id r l (nat e) of
          Inl err \<Rightarrow> Inl (of_reg err)
        | Inr gid \<Rightarrow> (case routed_requests r l (Suc slot) es of
            Inl err \<Rightarrow> Inl err
          | Inr qs \<Rightarrow> Inr (\<lparr>pr_global_expert_id = gid, pr_staging_idx = slot\<rparr> # qs)))"

definition dispatch_layer_prefetch ::
  "supply_world \<Rightarrow> supply_config \<Rightarrow> nat \<Rightarrow> nat \<Rightarrow> int list \<Rightarrow> nat list \<Rightarrow> ExpertSupply \<Rightarrow> LayerPrefetchState layer_outcome" where
  "dispatch_layer_prefetch w cfg l pos topk leases s =
     (if length topk \<noteq> ROUTED_EXPERTS then
        Some (throw (invalid_argument ''V4ExpertSupplyCoordinator: expected exactly six routed experts'') (leases, s))
      else case routed_requests (registry s) l ((l mod 2) * ROUTED_EXPERTS) topk of
          Inl e \<Rightarrow> Some (throw e (leases, s))
        | Inr requests \<Rightarrow> (case supply_dispatch w cfg requests pos leases False s of
            None \<Rightarrow> None
          | Some (Inl e, t) \<Rightarrow> Some (throw e t)
          | Some (Inr ts, t) \<Rightarrow>
              if length ts \<noteq> ROUTED_EXPERTS then
                Some (throw (logic_error ''V4ExpertSupplyCoordinator: supply returned an incomplete routed batch'') t)
              else Some (ok (prefetch_state ts pos 1 [[0..<ROUTED_EXPERTS]]) t)))"

text \<open>The deduplication of a chunk: \<open>known\<close> are the distinct experts so far, \<open>index\<close> their positions.\<close>

fun route_token ::
  "ExpertRegistry \<Rightarrow> nat \<Rightarrow> int list \<Rightarrow> nat list \<Rightarrow> (nat \<rightharpoonup> nat) \<Rightarrow> exn + nat list \<times> nat list \<times> (nat \<rightharpoonup> nat)" where
  "route_token r l [] known index = Inr ([], known, index)"
| "route_token r l (e # es) known index =
     (if e < 0 then Inl (invalid_argument ''V4ExpertSupplyCoordinator: routed expert ID cannot be negative'')
      else case get_global_id r l (nat e) of
          Inl err \<Rightarrow> Inl (of_reg err)
        | Inr gid \<Rightarrow>
            (case (case index gid of
                     Some i \<Rightarrow> (i, known, index)
                   | None \<Rightarrow> (length known, known @ [gid], index(gid \<mapsto> length known))) of
               (i, known', index') \<Rightarrow> (case route_token r l es known' index' of
                  Inl err \<Rightarrow> Inl err
                | Inr (row, d) \<Rightarrow> Inr (i # row, d))))"

fun route_tokens ::
  "ExpertRegistry \<Rightarrow> nat \<Rightarrow> int list list \<Rightarrow> nat list \<Rightarrow> (nat \<rightharpoonup> nat) \<Rightarrow> exn + nat list list \<times> nat list" where
  "route_tokens r l [] known index = Inr ([], known)"
| "route_tokens r l (topk # ts) known index =
     (if length topk \<noteq> ROUTED_EXPERTS then
        Inl (invalid_argument ''V4ExpertSupplyCoordinator: every token must route to six experts'')
      else case route_token r l topk known index of
          Inl err \<Rightarrow> Inl err
        | Inr (row, known', index') \<Rightarrow> (case route_tokens r l ts known' index' of
            Inl err \<Rightarrow> Inl err
          | Inr (rows, final) \<Rightarrow> Inr (row # rows, final)))"

definition distinct_requests :: "nat list \<Rightarrow> PayloadRequest list" where
  "distinct_requests gids = map (\<lambda>i. \<lparr>pr_global_expert_id = gids ! i, pr_staging_idx = i\<rparr>) [0..<length gids]"

definition dispatch_layer_prefetch_batch ::
  "supply_world \<Rightarrow> supply_config \<Rightarrow> nat \<Rightarrow> nat \<Rightarrow> int list list \<Rightarrow> nat list \<Rightarrow> ExpertSupply \<Rightarrow> LayerPrefetchState layer_outcome" where
  "dispatch_layer_prefetch_batch w cfg l pos tokens leases s =
     (if tokens = [] then
        Some (throw (invalid_argument ''V4ExpertSupplyCoordinator: a layer-wide dispatch needs at least one token'') (leases, s))
      else case route_tokens (registry s) l tokens [] Map.empty of
          Inl e \<Rightarrow> Some (throw e (leases, s))
        | Inr (rows, gids) \<Rightarrow> (case supply_dispatch w cfg (distinct_requests gids) pos leases False s of
            None \<Rightarrow> None
          | Some (Inl e, t) \<Rightarrow> Some (throw e t)
          | Some (Inr ts, t) \<Rightarrow>
              if length ts \<noteq> length gids then
                Some (throw (logic_error ''V4ExpertSupplyCoordinator: supply returned an incomplete layer-wide batch'') t)
              else Some (ok (prefetch_state ts pos (length tokens) rows) t)))"

fun stream_requests :: "ExpertRegistry \<Rightarrow> nat \<Rightarrow> nat \<Rightarrow> nat list \<Rightarrow> exn + PayloadRequest list" where
  "stream_requests r l slot [] = Inr []"
| "stream_requests r l slot (e # es) =
     (if experts_per_layer r \<le> e then Inl (out_of_range ''V4ExpertSupplyCoordinator: streamed expert id is outside its layer'')
      else case get_global_id r l e of
          Inl err \<Rightarrow> Inl (of_reg err)
        | Inr gid \<Rightarrow> (case stream_requests r l (Suc slot) es of
            Inl err \<Rightarrow> Inl err
          | Inr qs \<Rightarrow> Inr (\<lparr>pr_global_expert_id = gid, pr_staging_idx = slot\<rparr> # qs)))"

definition dispatch_layer_stream ::
  "supply_world \<Rightarrow> supply_config \<Rightarrow> nat \<Rightarrow> nat list \<Rightarrow> nat list \<Rightarrow> nat \<Rightarrow> bool \<Rightarrow> ExpertSupply \<Rightarrow> LayerBatchState layer_outcome" where
  "dispatch_layer_stream w cfg l experts leases base stage_only s =
     (case stream_requests (registry s) l base experts of
        Inl e \<Rightarrow> Some (throw e (leases, s))
      | Inr requests \<Rightarrow> (case supply_dispatch w cfg requests l leases stage_only s of
          None \<Rightarrow> None
        | Some (Inl e, t) \<Rightarrow> Some (throw e t)
        | Some (Inr ts, t) \<Rightarrow>
            if length ts \<noteq> length experts then
              Some (throw (logic_error ''V4ExpertSupplyCoordinator: supply returned an incomplete layer stream'') t)
            else Some (ok (sync_state (empty_batch\<lparr>lb_supply_batch := ts, lb_first_position := l, lb_token_count := 0\<rparr>)) t)))"

text \<open>The calls on a dispatched batch. A throw leaves the transfers as far as they got, the arrays not synced.\<close>

definition on_batch ::
  "(exn, PayloadTransfer list \<times> ExpertSupply, 'a) outcome \<Rightarrow> LayerBatchState \<Rightarrow> (exn, LayerBatchState \<times> ExpertSupply, 'a) outcome" where
  "on_batch m st = (case m of
     (Inl e, (ts, s)) \<Rightarrow> throw e (st\<lparr>lb_supply_batch := ts\<rparr>, s)
   | (Inr x, (ts, s)) \<Rightarrow> ok x (sync_state (st\<lparr>lb_supply_batch := ts\<rparr>), s))"

definition materialize_layer_prefetch ::
  "supply_world \<Rightarrow> supply_config \<Rightarrow> LayerBatchState \<Rightarrow> ExpertSupply \<Rightarrow> (exn, LayerBatchState \<times> ExpertSupply, unit) outcome" where
  "materialize_layer_prefetch w cfg st s = on_batch (materialize (w_env w) cfg (lb_supply_batch st) s) st"

definition finish_streamed_batch ::
  "supply_world \<Rightarrow> LayerBatchState \<Rightarrow> ExpertSupply \<Rightarrow> (exn, LayerBatchState \<times> ExpertSupply, unit) outcome" where
  "finish_streamed_batch w st s = on_batch (release_streamed_staging (w_env w) (lb_supply_batch st) s) st"

definition pump_layer_prefetch ::
  "supply_world \<Rightarrow> supply_config \<Rightarrow> LayerBatchState \<Rightarrow> ExpertSupply \<Rightarrow> (exn, LayerBatchState \<times> ExpertSupply, nat) outcome" where
  "pump_layer_prefetch w cfg st s =
     (case materialize_available (w_env w) cfg (lb_supply_batch st) s of
        (Inl e, (ts, n, s')) \<Rightarrow> throw e (st\<lparr>lb_supply_batch := ts\<rparr>, s')
      | (Inr _, (ts, n, s')) \<Rightarrow> ok n (sync_state (st\<lparr>lb_supply_batch := ts\<rparr>), s'))"

definition staging_free_slots :: "ExpertSupply \<Rightarrow> nat" where
  "staging_free_slots s = count_free (state_counts (staging s))"

text \<open>The port, and the coordinator behind it.\<close>

record LayerBatchSupply =
  lbs_dispatch_layer_stream :: "nat \<Rightarrow> nat list \<Rightarrow> nat list \<Rightarrow> nat \<Rightarrow> bool \<Rightarrow> ExpertSupply \<Rightarrow> LayerBatchState layer_outcome"
  lbs_materialize :: "LayerBatchState \<Rightarrow> ExpertSupply \<Rightarrow> (exn, LayerBatchState \<times> ExpertSupply, unit) outcome"
  lbs_finish :: "LayerBatchState \<Rightarrow> ExpertSupply \<Rightarrow> (exn, LayerBatchState \<times> ExpertSupply, unit) outcome"
  lbs_pump :: "LayerBatchState \<Rightarrow> ExpertSupply \<Rightarrow> (exn, LayerBatchState \<times> ExpertSupply, nat) outcome"
  lbs_reap :: "ExpertSupply \<Rightarrow> unit supply_outcome"
  lbs_staging_free_slots :: "ExpertSupply \<Rightarrow> nat"
  lbs_staging_state_counts :: "ExpertSupply \<Rightarrow> StateCounts"

definition V4ExpertSupplyCoordinator :: "supply_world \<Rightarrow> supply_config \<Rightarrow> LayerBatchSupply" where
  "V4ExpertSupplyCoordinator w cfg =
     \<lparr>lbs_dispatch_layer_stream = dispatch_layer_stream w cfg, lbs_materialize = materialize_layer_prefetch w cfg,
      lbs_finish = finish_streamed_batch w, lbs_pump = pump_layer_prefetch w cfg,
      lbs_reap = reap_registry_transfers (w_env w) cfg, lbs_staging_free_slots = staging_free_slots,
      lbs_staging_state_counts = (\<lambda>s. state_counts (staging s))\<rparr>"

subsection \<open>Deduplication\<close>

text \<open>The position map inverts the list of distinct experts.\<close>

definition indexed :: "nat list \<Rightarrow> (nat \<rightharpoonup> nat) \<Rightarrow> bool" where
  "indexed known index \<longleftrightarrow> distinct known \<and> (\<forall>g i. index g = Some i \<longleftrightarrow> i < length known \<and> known ! i = g)"

lemma indexed_empty: "indexed [] Map.empty"
  by (simp add: indexed_def)

lemma indexed_fresh: "indexed known index \<Longrightarrow> index g = None \<longleftrightarrow> g \<notin> set known"
  unfolding indexed_def in_set_conv_nth by (metis not_None_eq)

lemma indexed_extend:
  assumes "indexed known index" and "index g = None"
  shows "indexed (known @ [g]) (index(g \<mapsto> length known))"
proof -
  have "g \<notin> set known" using indexed_fresh[OF assms(1)] assms(2) by simp
  then show ?thesis using assms(1) by (auto simp: indexed_def nth_append less_Suc_eq)
qed

text \<open>What routing a list of experts gives: one index each, into a list that extends the known ones.\<close>

lemma route_token_correct:
  assumes "indexed known index" and "route_token r l es known index = Inr (row, known', index')"
  shows "indexed known' index' \<and> (\<exists>more. known' = known @ more \<and> length more \<le> length es) \<and>
     list_all2 (\<lambda>e i. 0 \<le> e \<and> i < length known' \<and> get_global_id r l (nat e) = Inr (known' ! i)) es row"
  using assms
proof (induction es arbitrary: known index row)
  case Nil
  then show ?case by simp
next
  case (Cons e es)
  obtain gid where e: "0 \<le> e" and gid: "get_global_id r l (nat e) = Inr gid"
    using Cons.prems(2) by (auto split: if_splits sum.splits)
  obtain i k1 x1 where st: "(case index gid of Some i \<Rightarrow> (i, known, index)
      | None \<Rightarrow> (length known, known @ [gid], index(gid \<mapsto> length known))) = (i, k1, x1)" by (metis prod_cases3)
  obtain row' where rec: "route_token r l es k1 x1 = Inr (row', known', index')" and row: "row = i # row'"
    using Cons.prems(2) e gid st by (auto split: sum.splits)
  have k1: "indexed k1 x1" "i < length k1" "k1 ! i = gid" "\<exists>more. k1 = known @ more \<and> length more \<le> 1"
    using st Cons.prems(1) indexed_extend[OF Cons.prems(1), of gid]
    by (auto split: option.splits simp: nth_append) (auto simp: indexed_def)
  from Cons.IH[OF k1(1) rec] obtain more where ih: "indexed known' index'" "known' = k1 @ more" "length more \<le> length es"
      "list_all2 (\<lambda>e i. 0 \<le> e \<and> i < length known' \<and> get_global_id r l (nat e) = Inr (known' ! i)) es row'" by blast
  have "\<exists>more. known' = known @ more \<and> length more \<le> length (e # es)" using k1(4) ih(2,3) by auto
  moreover have "i < length known' \<and> known' ! i = gid" using k1(2,3) ih(2) by (simp add: nth_append)
  ultimately show ?case using ih e gid row by simp
qed

lemma route_tokens_correct:
  assumes "indexed known index" and "route_tokens r l tokens known index = Inr (rows, final)"
  shows "distinct final \<and> (\<exists>more. final = known @ more \<and> length more \<le> ROUTED_EXPERTS * length tokens) \<and>
     list_all2 (list_all2 (\<lambda>e i. 0 \<le> e \<and> i < length final \<and> get_global_id r l (nat e) = Inr (final ! i))) tokens rows \<and>
     list_all (\<lambda>t. length t = ROUTED_EXPERTS) tokens"
  using assms
proof (induction tokens arbitrary: known index rows)
  case Nil
  then show ?case by (simp add: indexed_def)
next
  case (Cons t ts)
  obtain row k1 x1 rows' where t: "length t = ROUTED_EXPERTS" and one: "route_token r l t known index = Inr (row, k1, x1)"
      and rec: "route_tokens r l ts k1 x1 = Inr (rows', final)" and rows: "rows = row # rows'"
    using Cons.prems(2) by (auto split: if_splits sum.splits)
  from route_token_correct[OF Cons.prems(1) one] obtain m1 where k1: "indexed k1 x1" "k1 = known @ m1" "length m1 \<le> length t"
      "list_all2 (\<lambda>e i. 0 \<le> e \<and> i < length k1 \<and> get_global_id r l (nat e) = Inr (k1 ! i)) t row" by blast
  from Cons.IH[OF k1(1) rec] obtain m2 where ih: "distinct final" "final = k1 @ m2" "length m2 \<le> ROUTED_EXPERTS * length ts"
      "list_all2 (list_all2 (\<lambda>e i. 0 \<le> e \<and> i < length final \<and> get_global_id r l (nat e) = Inr (final ! i))) ts rows'"
      "list_all (\<lambda>t. length t = ROUTED_EXPERTS) ts" by blast
  have "list_all2 (\<lambda>e i. 0 \<le> e \<and> i < length final \<and> get_global_id r l (nat e) = Inr (final ! i)) t row"
    by (rule list_all2_mono[OF k1(4)]) (auto simp: ih(2) nth_append)
  then show ?case using ih t rows k1(2,3) by auto
qed

subsection \<open>What a dispatch returns\<close>

abbreviation wanted :: "PayloadRequest list \<Rightarrow> nat \<Rightarrow> nat" where
  "wanted requests i \<equiv> pr_global_expert_id (requests ! i)"

lemma dispatch_one_batch:
  assumes "sound s" and "dispatch_one polls env cfg step stage requests i (batch, leases, s) = Some (Inr u, d')"
  shows "\<exists>x s'. d' = (batch[i := x], leases @ [wanted requests i], s') \<and> serves (requests ! i) (wanted requests i) x \<and> sound s'"
proof -
  obtain q s1 where r: "reserve_loop polls cfg (wanted requests i) step stage s = Some (Inr q, s1)"
    using assms(2) by (auto simp: dispatch_one_def Let_def throw_def ok_def split: option.splits sum.splits prod.splits)
  note q = reserve_loop_sound[OF assms(1) r]
  obtain x s2 where x: "serve_request env cfg (requests ! i) q s1 = ok x s2" and d: "d' = (batch[i := x], leases @ [rq_global_expert_id q], s2)"
    using assms(2) r by (cases "serve_request env cfg (requests ! i) q s1" rule: outcome_cases)
      (auto simp: dispatch_one_def Let_def throw_def ok_def)
  show ?thesis
    using d q serve_request_serves[OF x] serve_request_sound[of q s1 env cfg "requests ! i"] x by auto
qed

lemma dispatch_loop_batch:
  "sound s \<Longrightarrow> dispatch_loop polls env cfg step stage requests ix (batch, leases, s) = Some (Inr u, (batch', leases', s')) \<Longrightarrow>
     length batch' = length batch \<and> leases' = leases @ map (wanted requests) ix \<and>
     (\<forall>i<length batch. if i \<in> set ix then serves (requests ! i) (wanted requests i) (batch' ! i) else batch' ! i = batch ! i)"
proof (induction ix arbitrary: batch leases s)
  case Nil
  then show ?case by (simp add: ok_def)
next
  case (Cons j ix)
  obtain v d1 where one: "dispatch_one polls env cfg step stage requests j (batch, leases, s) = Some (Inr v, d1)"
      and rest: "dispatch_loop polls env cfg step stage requests ix d1 = Some (Inr u, (batch', leases', s'))"
    using Cons.prems(2) by (auto simp: throw_def split: option.splits sum.splits prod.splits)
  from dispatch_one_batch[OF Cons.prems(1) one] obtain x s1 where
    d1: "d1 = (batch[j := x], leases @ [wanted requests j], s1)" "serves (requests ! j) (wanted requests j) x" "sound s1" by blast
  have ih: "length batch' = length (batch[j := x]) \<and> leases' = (leases @ [wanted requests j]) @ map (wanted requests) ix \<and>
     (\<forall>i<length (batch[j := x]). if i \<in> set ix then serves (requests ! i) (wanted requests i) (batch' ! i) else batch' ! i = batch[j := x] ! i)"
    by (rule Cons.IH[OF d1(3)]) (use rest d1(1) in simp)
  then show ?case using d1(2) by (auto simp: nth_list_update split: if_splits)
qed

lemma submit_batch_keeps: "submit_batch answers (batch, leases, s) = Some (Inr u, (batch', leases', s')) \<Longrightarrow> batch' = batch \<and> leases' = leases"
  by (auto simp: submit_batch_def ok_def throw_def split: if_splits option.splits sum.splits prod.splits)

lemma request_order_mset: "mset (request_order r requests) = mset [0..<length requests]"
  by (simp add: request_order_def)

text \<open>Every request has its transfer at its own position, and every expert was leased once per request.\<close>

lemma supply_dispatch_batch:
  assumes "sound s" and "supply_dispatch w cfg requests step leases stage s = Some (Inr ts, (leases', s'))"
  shows "map tr_global_expert_id ts = map pr_global_expert_id requests"
    and "i < length requests \<Longrightarrow> serves (requests ! i) (wanted requests i) (ts ! i)"
    and "mset leases' = mset leases + mset (map pr_global_expert_id requests)"
proof -
  let ?ix = "request_order (registry s) requests" and ?b = "replicate (length requests) default_transfer"
  obtain u d where l: "dispatch_loop (w_polls w) (w_env w) cfg step stage requests ?ix (?b, leases, s) = Some (Inr u, d)"
      and sb: "\<exists>v. submit_batch (w_answers w) d = Some (Inr v, (ts, leases', s'))"
    using assms(2) by (auto simp: supply_dispatch_def dispatch_def throw_def ok_def split: option.splits sum.splits prod.splits)
  obtain b1 l1 s1 where d: "d = (b1, l1, s1)" by (cases d)
  have eq: "b1 = ts" "l1 = leases'" using sb d submit_batch_keeps by blast+
  note f = dispatch_loop_batch[OF assms(1) l[unfolded d]]
  have set: "set ?ix = {..<length requests}" using request_order_mset[of "registry s" requests]
    by (metis atLeast0LessThan atLeastLessThan_upt mset_eq_setD)
  show "map tr_global_expert_id ts = map pr_global_expert_id requests"
    using f eq set by (auto simp: serves_def intro!: nth_equalityI)
  show "serves (requests ! i) (wanted requests i) (ts ! i)" if "i < length requests" using that f eq set by auto
  have "mset (map (wanted requests) ?ix) = mset (map (wanted requests) [0..<length requests])"
    by (simp only: mset_map request_order_mset)
  also have "map (wanted requests) [0..<length requests] = map pr_global_expert_id requests" by (auto intro: nth_equalityI)
  finally show "mset leases' = mset leases + mset (map pr_global_expert_id requests)" using f eq by simp
qed

section \<open>Properties\<close>

text \<open>C36: a chunk's experts are loaded once each and every token finds its own. When a layer-wide dispatch returns,
  the batch holds no expert twice, at most six per token; the \<open>k\<close>-th index of token \<open>t\<close> points at the transfer of the
  expert the router chose for it, in the router's order; and each expert is leased exactly once, however many
  tokens share it.\<close>

theorem batch_serves_every_token:
  assumes "reachable (registry s)" and "dispatch_layer_prefetch_batch w cfg l pos tokens leases s = Some (ok st (leases', s'))"
  shows "distinct (lb_global_expert_ids st) \<and> length (lb_global_expert_ids st) \<le> 6 * length tokens \<and>
     list_all2 (list_all2 (\<lambda>e i. i < expert_count st \<and>
       get_global_id (registry s) l (nat e) = Inr (lb_global_expert_ids st ! i))) tokens (token_indices st) \<and>
     mset leases' = mset leases + mset (lb_global_expert_ids st)"
proof -
  obtain rows gids ts where route: "route_tokens (registry s) l tokens [] Map.empty = Inr (rows, gids)"
      and sd: "supply_dispatch w cfg (distinct_requests gids) pos leases False s = Some (Inr ts, (leases', s'))"
      and st: "st = prefetch_state ts pos (length tokens) rows" and len: "length ts = length gids"
    using assms(2) by (auto simp: dispatch_layer_prefetch_batch_def throw_def ok_def split: if_splits sum.splits option.splits prod.splits)
  have g: "map pr_global_expert_id (distinct_requests gids) = gids" by (auto simp: distinct_requests_def intro: nth_equalityI)
  have sound: "sound s" using assms(1) by (simp add: sound_def)
  note b = supply_dispatch_batch[OF sound sd, unfolded g]
  have ids: "lb_global_expert_ids st = gids" "token_indices st = rows" "lb_supply_batch st = ts"
    using st b(1) by (simp_all add: prefetch_state_def sync_state_def)
  note r = route_tokens_correct[OF indexed_empty route]
  have "list_all2 (list_all2 (\<lambda>e i. i < length gids \<and> get_global_id (registry s) l (nat e) = Inr (gids ! i))) tokens rows"
    using r by (auto elim!: list_all2_mono)
  then show ?thesis using r b(3) ids len by (auto simp: expert_count_def ROUTED_EXPERTS_def)
qed

lemma layer_returned:
  assumes "map_option (\<lambda>(res, _). case res of Inl _ \<Rightarrow> None | Inr x \<Rightarrow> Some (f x)) m = Some (Some y)"
  shows "\<exists>x l s. m = Some (ok x (l, s)) \<and> f x = y"
proof -
  obtain res l s where m: "m = Some (res, (l, s))" using assms by auto
  then show ?thesis using assms by (cases res) (auto simp: ok_def)
qed

definition idle_world :: supply_world where
  "idle_world = \<lparr>w_polls = [idle_device], w_env = idle_device, w_answers = []\<rparr>"

theorem batch_serves_every_token_witness:
  "\<exists>st leases' s'. dispatch_layer_prefetch_batch idle_world small_config 0 7 [[0, 1, 0, 1, 1, 1], [1, 1, 0, 0, 1, 0]] [4] (small_supply True)
       = Some (ok st (leases', s')) \<and>
     token_indices st = [[0, 1, 0, 1, 1, 1], [1, 1, 0, 0, 1, 0]] \<and> distinct (lb_global_expert_ids st) \<and>
     mset leases' = {#4#} + mset (lb_global_expert_ids st)"
proof -
  let ?m = "dispatch_layer_prefetch_batch idle_world small_config 0 7 [[0, 1, 0, 1, 1, 1], [1, 1, 0, 0, 1, 0]] [4] (small_supply True)"
  have e: "map_option (\<lambda>(res, _). case res of Inl _ \<Rightarrow> None | Inr st \<Rightarrow> Some (token_indices st)) ?m
      = Some (Some [[0, 1, 0, 1, 1, 1], [1, 1, 0, 0, 1, 0]])" by code_simp
  obtain st leases' s' where m: "?m = Some (ok st (leases', s'))" "token_indices st = [[0, 1, 0, 1, 1, 1], [1, 1, 0, 0, 1, 0]]"
    using layer_returned[OF e] by blast
  have r: "reachable (registry (small_supply True))" by (simp add: small_supply_def small_registry_reachable)
  show ?thesis using batch_serves_every_token[OF r m(1)] m by auto
qed

lemma all_less_two: "(\<forall>i < Suc (Suc 0). P i) \<longleftrightarrow> P 0 \<and> P (Suc 0)"
  by (auto simp: less_Suc_eq)

lemma stream_requests_ok:
  "stream_requests r l slot es = Inr qs \<Longrightarrow> length qs = length es \<and>
     (\<forall>i<length es. es ! i < experts_per_layer r \<and> get_global_id r l (es ! i) = Inr (pr_global_expert_id (qs ! i)) \<and>
        pr_staging_idx (qs ! i) = slot + i)"
proof (induction es arbitrary: slot qs)
  case Nil
  then show ?case by simp
next
  case (Cons e es)
  obtain gid qs' where q: "\<not> experts_per_layer r \<le> e" "get_global_id r l e = Inr gid" "stream_requests r l (Suc slot) es = Inr qs'"
      "qs = \<lparr>pr_global_expert_id = gid, pr_staging_idx = slot\<rparr> # qs'"
    using Cons.prems by (auto split: if_splits sum.splits)
  show ?case using Cons.IH[OF q(3)] q by (auto simp: nth_Cons split: nat.splits)
qed

text \<open>A streamed batch is well formed. When a layer's stream is dispatched, the eight arrays of its state and its
  transfers are parallel to the list of experts; entry \<open>i\<close> is the \<open>i\<close>-th expert of the layer; and a transfer that
  still reads does so into slot \<open>i\<close> of the bank the caller chose.\<close>

theorem stream_batch_well_formed:
  assumes "reachable (registry s)" and "dispatch_layer_stream w cfg l experts leases base stage s = Some (ok st (leases', s'))"
  shows "let n = length experts in
     length (lb_vram_slots st) = n \<and> length (lb_global_expert_ids st) = n \<and> length (lb_operation_ids st) = n \<and>
     length (lb_is_prefetched st) = n \<and> length (lb_staging_indices st) = n \<and> length (lb_io_pending st) = n \<and>
     length (lb_io_user_data st) = n \<and> length (lb_io_request_counts st) = n \<and> expert_count st = n \<and>
     (\<forall>i < n. get_global_id (registry s) l (experts ! i) = Inr (lb_global_expert_ids st ! i) \<and>
        (lb_io_pending st ! i \<longrightarrow> lb_staging_indices st ! i = base + i))"
proof -
  obtain qs ts where q: "stream_requests (registry s) l base experts = Inr qs"
      and sd: "supply_dispatch w cfg qs l leases stage s = Some (Inr ts, (leases', s'))" and len: "length ts = length experts"
      and st: "st = sync_state (empty_batch\<lparr>lb_supply_batch := ts, lb_first_position := l, lb_token_count := 0\<rparr>)"
    using assms(2) by (auto simp: dispatch_layer_stream_def throw_def ok_def split: if_splits sum.splits option.splits prod.splits)
  have sound: "sound s" using assms(1) by (simp add: sound_def)
  note b = supply_dispatch_batch[OF sound sd] and r = stream_requests_ok[OF q]
  have "get_global_id (registry s) l (experts ! i) = Inr (tr_global_expert_id (ts ! i)) \<and>
      (tr_io_pending (ts ! i) \<longrightarrow> tr_staging_idx (ts ! i) = base + i)" if "i < length experts" for i
    using b(2)[of i] r that by (simp add: serves_def)
  then show ?thesis using len st by (simp add: sync_state_def expert_count_def Let_def)
qed

end
