(* ===== verification/Prefill_Sweep.thy ===== *)
theory Prefill_Sweep
  imports Layer_Supply
begin

text \<open>
  The swept prefill: \<^verbatim>\<open>src/infrastructure/prefill/prefill_sweep.hpp\<close> and \<^verbatim>\<open>prefill_lookahead.hpp\<close>. The sweep loads
  layers whole and in order, a bounded number of them ahead of the one that computes, one read wave at a time.

  Its state goes beside the supply's; a member function answers \<open>None\<close> when a dispatch inside it is still waiting.
  The layer loop runs over the layers the registry had when the loop began: their number never changes. Time
  counters are left out.
\<close>

subsection \<open>State\<close>

record LookaheadEntry =
  la_state :: LayerBatchState
  la_layer :: nat

record BlockOccupancy =
  bo_layer :: nat
  bo_staging_free :: nat
  bo_staging_reading :: nat
  bo_staging_copying :: nat
  bo_vram_reserved_ahead :: nat
  bo_derived_capacity :: nat
  bo_vram_free_slots :: nat
  bo_staging_free_slots :: nat
  bo_vram_free_layers :: nat
  bo_staging_free_layers :: nat
  bo_ahead_count :: nat
  bo_hot_preserved :: nat

record PrefillSweep =
  sw_active :: bool
  sw_ahead :: "LookaheadEntry list"
  sw_read_ahead_max :: nat
  sw_resident_state :: LayerBatchState
  sw_resident_layer :: nat
  sw_resident_valid :: bool
  sw_staging_banks :: nat
  sw_deferred_drain :: bool
  sw_active_layer :: nat
  sw_leases :: "nat list"
  sw_layer_loads :: nat
  sw_experts_streamed :: nat
  sw_layers_released :: nat
  sw_lookahead_depth :: nat
  sw_hot_after_drain :: nat
  sw_frontier_depth :: nat
  sw_occupancy_samples :: "BlockOccupancy list"

definition new_sweep :: PrefillSweep where
  "new_sweep = \<lparr>sw_active = False, sw_ahead = [], sw_read_ahead_max = 0, sw_resident_state = empty_batch, sw_resident_layer = 0,
     sw_resident_valid = False, sw_staging_banks = 1, sw_deferred_drain = False, sw_active_layer = 0, sw_leases = [],
     sw_layer_loads = 0, sw_experts_streamed = 0, sw_layers_released = 0, sw_lookahead_depth = 0, sw_hot_after_drain = 0,
     sw_frontier_depth = 0, sw_occupancy_samples = []\<rparr>"

definition sweep_configure :: "nat \<Rightarrow> PrefillSweep \<Rightarrow> PrefillSweep" where
  "sweep_configure banks p = (let b = (if banks = 0 then 1 else banks) in p\<lparr>sw_staging_banks := b, sw_deferred_drain := 1 < b\<rparr>)"

type_synonym sweep_state = "PrefillSweep \<times> ExpertSupply"
type_synonym 'a sweep_outcome = "(exn, sweep_state, 'a) outcome option"

definition run_then ::
  "('e, 's, 'a) outcome option \<Rightarrow> ('a \<Rightarrow> 's \<Rightarrow> ('e, 's, 'b) outcome option) \<Rightarrow> ('e, 's, 'b) outcome option" where
  "run_then m k = (case m of None \<Rightarrow> None | Some (Inl e, t) \<Rightarrow> Some (throw e t) | Some (Inr x, t) \<Rightarrow> k x t)"

definition returned :: "'a \<Rightarrow> 's \<Rightarrow> ('e, 's, 'a) outcome option" where
  "returned x t = Some (ok x t)"

definition raised :: "'e \<Rightarrow> 's \<Rightarrow> ('e, 's, 'a) outcome option" where
  "raised e t = Some (throw e t)"

definition on_supply :: "(ExpertSupply \<Rightarrow> 'a supply_outcome) \<Rightarrow> sweep_state \<Rightarrow> 'a sweep_outcome" where
  "on_supply f t = (case f (snd t) of (res, s) \<Rightarrow> Some (res, (fst t, s)))"

definition on_sweep :: "(PrefillSweep \<Rightarrow> PrefillSweep) \<Rightarrow> sweep_state \<Rightarrow> unit sweep_outcome" where
  "on_sweep f t = returned () (f (fst t), snd t)"

subsection \<open>The lookahead policy\<close>

definition reading :: "LayerBatchState \<Rightarrow> bool" where
  "reading st = list_ex (\<lambda>p. p) (lb_io_pending st)"

definition reads_in_flight :: "PrefillSweep \<Rightarrow> bool" where
  "reads_in_flight p = list_ex (\<lambda>e. reading (la_state e)) (sw_ahead p)"

definition read_lookahead_capacity :: "LayerBatchSupply \<Rightarrow> sweep_state \<Rightarrow> nat" where
  "read_lookahead_capacity port t = (case t of (p, s) \<Rightarrow>
     let per_layer = experts_per_layer (registry s) in
     if per_layer = 0 then 0
     else
       let bank_bound = (if 1 < sw_staging_banks p then sw_staging_banks p - 1 else 1);
           bound = min (lbs_staging_free_slots port s div per_layer) bank_bound in
       if sw_read_ahead_max p = 0 then bound else min bound (sw_read_ahead_max p))"

definition derived_lookahead_capacity :: "LayerBatchSupply \<Rightarrow> sweep_state \<Rightarrow> nat" where
  "derived_lookahead_capacity port t = read_lookahead_capacity port t"

definition set_read_ahead_max :: "nat \<Rightarrow> PrefillSweep \<Rightarrow> PrefillSweep" where
  "set_read_ahead_max n p = p\<lparr>sw_read_ahead_max := n\<rparr>"

definition staging_base_for :: "nat \<Rightarrow> sweep_state \<Rightarrow> nat" where
  "staging_base_for layer t = (if sw_staging_banks (fst t) \<le> 1 then 0
     else u32 ((layer mod sw_staging_banks (fst t)) * experts_per_layer (registry (snd t))))"

definition missing_experts :: "nat \<Rightarrow> ExpertRegistry \<Rightarrow> reg_error + nat list" where
  "missing_experts layer r = fold (\<lambda>e acc. case acc of Inl err \<Rightarrow> Inl err
     | Inr xs \<Rightarrow> (case expert_resident layer e r of Inl err \<Rightarrow> Inl err | Inr res \<Rightarrow> Inr (if res then xs else xs @ [e])))
     [0..<experts_per_layer r] (Inr [])"

definition update_frontier :: "sweep_state \<Rightarrow> unit sweep_outcome" where
  "update_frontier t = (case t of (p, s) \<Rightarrow>
     let resident = length (filter (\<lambda>l. layer_resident_count l (registry s) \<noteq> 0) [0..<num_layers (registry s)]);
         depth = (if sw_ahead p \<noteq> [] then Suc resident else resident) in
     returned () (p\<lparr>sw_frontier_depth := max (sw_frontier_depth p) depth\<rparr>, s))"

text \<open>Issue one layer's reads; the answer is its batch, or \<open>None\<close> when nothing of it is missing.\<close>

definition dispatch_layer_into :: "LayerBatchSupply \<Rightarrow> nat \<Rightarrow> sweep_state \<Rightarrow> LayerBatchState option sweep_outcome" where
  "dispatch_layer_into port layer t = run_then (on_supply (lbs_reap port) t) (\<lambda>_ (p, s).
     case missing_experts layer (registry s) of
       Inl err \<Rightarrow> raised (of_reg err) (p, s)
     | Inr missing \<Rightarrow>
         if missing = [] then returned None (p, s)
         else (case lbs_dispatch_layer_stream port layer missing (sw_leases p) (staging_base_for layer (p, s)) True s of
             None \<Rightarrow> None
           | Some (Inl e, (leases, s')) \<Rightarrow> raised e (p\<lparr>sw_leases := leases\<rparr>, s')
           | Some (Inr st, (leases, s')) \<Rightarrow>
               returned (Some st) (p\<lparr>sw_leases := leases, sw_layer_loads := Suc (sw_layer_loads p),
                 sw_experts_streamed := sw_experts_streamed p + length missing\<rparr>, s')))"

fun dispatch_layers :: "LayerBatchSupply \<Rightarrow> nat \<Rightarrow> nat list \<Rightarrow> sweep_state \<Rightarrow> unit sweep_outcome" where
  "dispatch_layers port budget [] t = returned () t"
| "dispatch_layers port 0 (layer # layers) t = returned () t"
| "dispatch_layers port (Suc budget) (layer # layers) t =
     (if layer_resident_count layer (registry (snd t)) = experts_per_layer (registry (snd t))
      then dispatch_layers port (Suc budget) layers t
      else run_then (dispatch_layer_into port layer t) (\<lambda>st (p, s).
        case st of
          None \<Rightarrow> dispatch_layers port (Suc budget) layers (p, s)
        | Some st \<Rightarrow>
            let p' = p\<lparr>sw_ahead := sw_ahead p @ [\<lparr>la_state = st, la_layer = layer\<rparr>]\<rparr> in
            if reads_in_flight p' then returned () (p', s) else dispatch_layers port budget layers (p', s)))"

definition dispatch_ahead :: "LayerBatchSupply \<Rightarrow> nat \<Rightarrow> sweep_state \<Rightarrow> unit sweep_outcome" where
  "dispatch_ahead port start t = (case t of (p, s) \<Rightarrow>
     let cap = read_lookahead_capacity port t; queued = length (sw_ahead p);
         first = (if sw_ahead p = [] then start else max start (Suc (la_layer (last (sw_ahead p))))) in
     if num_layers (registry s) \<le> start \<or> reads_in_flight p \<or> cap \<le> queued then returned () t
     else run_then (dispatch_layers port (cap - queued) [first..<num_layers (registry s)] t) (\<lambda>_ t'.
       on_sweep (\<lambda>p. p\<lparr>sw_lookahead_depth := length (sw_ahead p)\<rparr>) t'))"

definition advance_reads :: "LayerBatchSupply \<Rightarrow> sweep_state \<Rightarrow> unit sweep_outcome" where
  "advance_reads port t = (let p = fst t in
     if \<not> sw_active p then returned () t
     else dispatch_ahead port (if sw_ahead p = [] then Suc (sw_active_layer p) else Suc (la_layer (last (sw_ahead p)))) t)"

subsection \<open>Settling a layer\<close>

definition reclaim_resident_staging :: "LayerBatchSupply \<Rightarrow> sweep_state \<Rightarrow> unit sweep_outcome" where
  "reclaim_resident_staging port t = (case t of (p, s) \<Rightarrow>
     if \<not> sw_resident_valid p then returned () t
     else case lbs_finish port (sw_resident_state p) s of
         (Inl e, (st, s')) \<Rightarrow> raised e (p\<lparr>sw_resident_state := st\<rparr>, s')
       | (Inr _, (st, s')) \<Rightarrow> returned () (p\<lparr>sw_resident_state := st, sw_resident_valid := False\<rparr>, s'))"

definition settle_entry :: "LayerBatchSupply \<Rightarrow> LayerBatchState \<Rightarrow> sweep_state \<Rightarrow> LayerBatchState sweep_outcome" where
  "settle_entry port st t = (case t of (p, s) \<Rightarrow>
     (case and_then (lbs_materialize port st s) (\<lambda>_ (st1, s1). if sw_deferred_drain p then ok () (st1, s1) else lbs_finish port st1 s1) of
        (Inl e, (st', s')) \<Rightarrow> raised e (p, s')
      | (Inr _, (st', s')) \<Rightarrow> returned st' (p, s')))"

definition release_leases :: "sweep_state \<Rightarrow> unit sweep_outcome" where
  "release_leases t = run_then (on_supply (for_each (\<lambda>g. on_registry (release_lease g)) (sw_leases (fst t))) t)
     (\<lambda>_ t'. on_sweep (\<lambda>p. p\<lparr>sw_leases := []\<rparr>) t')"

definition materialize_entry :: "LayerBatchSupply \<Rightarrow> LookaheadEntry \<Rightarrow> sweep_state \<Rightarrow> unit sweep_outcome" where
  "materialize_entry port entry t =
     run_then (on_supply (lbs_reap port) t) (\<lambda>_ t1.
     run_then (reclaim_resident_staging port t1) (\<lambda>_ t2.
     run_then (settle_entry port (la_state entry) t2) (\<lambda>st t3.
     run_then (release_leases t3) (\<lambda>_ t4.
     run_then (on_sweep (\<lambda>p. if sw_deferred_drain p
         then p\<lparr>sw_resident_state := st, sw_resident_layer := la_layer entry, sw_resident_valid := True\<rparr> else p) t4) (\<lambda>_ t5.
       update_frontier t5)))))"

definition materialize_front :: "LayerBatchSupply \<Rightarrow> sweep_state \<Rightarrow> unit sweep_outcome" where
  "materialize_front port t = (case sw_ahead (fst t) of
     [] \<Rightarrow> returned () t
   | entry # rest \<Rightarrow> materialize_entry port entry ((fst t)\<lparr>sw_ahead := rest\<rparr>, snd t))"

definition ensure_layer :: "LayerBatchSupply \<Rightarrow> nat \<Rightarrow> sweep_state \<Rightarrow> unit sweep_outcome" where
  "ensure_layer port layer t =
     (let r = registry (snd t); missing = experts_per_layer r - layer_resident_count layer r in
      if missing = 0 then returned () t
      else if free_vram_slot_count r < missing then
        raised (runtime_error ''PrefillSweep: the lookahead must not outrun the release order'') t
      else run_then (dispatch_layer_into port layer t) (\<lambda>st t'.
        case st of None \<Rightarrow> returned () t' | Some st \<Rightarrow> materialize_entry port \<lparr>la_state = st, la_layer = layer\<rparr> t'))"

subsection \<open>The driver's calls\<close>

definition is_feasible :: "ExpertSupply \<Rightarrow> bool" where
  "is_feasible s \<longleftrightarrow> experts_per_layer (registry s) \<le> vram_capacity (registry s)"

definition sweep_begin :: "LayerBatchSupply \<Rightarrow> sweep_state \<Rightarrow> unit sweep_outcome" where
  "sweep_begin port t = (case t of (p, s) \<Rightarrow>
     if sw_active p then returned () t
     else if \<not> is_feasible s then raised (logic_error ''PrefillSweep: a swept prefill is infeasible'') t
     else
       let per_layer = experts_per_layer (registry s);
           drain = (if u32 (2 * per_layer) \<le> vram_capacity (registry s) then u32 (2 * per_layer) else per_layer) in
       run_then (on_supply (on_registry (begin_prefill_stream drain FreeListOnly)) t) (\<lambda>_ (p, s).
         dispatch_ahead port 0 (p\<lparr>sw_hot_after_drain := published_hot_slots (registry s), sw_occupancy_samples := [], sw_active := True\<rparr>, s)))"

definition record_occupancy :: "LayerBatchSupply \<Rightarrow> nat \<Rightarrow> sweep_state \<Rightarrow> unit sweep_outcome" where
  "record_occupancy port layer t = (case t of (p, s) \<Rightarrow>
     let counts = lbs_staging_state_counts port s; per_layer = experts_per_layer (registry s); vfree = free_vram_slot_count (registry s);
         sample = \<lparr>bo_layer = layer, bo_staging_free = count_free counts, bo_staging_reading = count_reading counts,
           bo_staging_copying = count_copying counts, bo_vram_reserved_ahead = sum_list (map (\<lambda>e. expert_count (la_state e)) (sw_ahead p)),
           bo_derived_capacity = derived_lookahead_capacity port t, bo_vram_free_slots = vfree,
           bo_staging_free_slots = count_free counts,
           bo_vram_free_layers = (if 0 < per_layer then vfree div per_layer else 0),
           bo_staging_free_layers = (if 0 < per_layer then count_free counts div per_layer else 0),
           bo_ahead_count = length (sw_ahead p), bo_hot_preserved = published_hot_slots (registry s)\<rparr> in
     returned () (p\<lparr>sw_occupancy_samples := sw_occupancy_samples p @ [sample]\<rparr>, s))"

definition before_layer :: "LayerBatchSupply \<Rightarrow> nat \<Rightarrow> sweep_state \<Rightarrow> unit sweep_outcome" where
  "before_layer port layer t = (case t of (p, s) \<Rightarrow>
     if \<not> sw_active p then returned () t
     else
       let p1 = p\<lparr>sw_active_layer := layer\<rparr> in
       run_then (if sw_ahead p1 \<noteq> [] \<and> la_layer (hd (sw_ahead p1)) = layer then materialize_front port (p1, s)
                 else ensure_layer port layer (p1, s)) (\<lambda>_ t1.
       run_then (dispatch_ahead port (Suc layer) t1) (\<lambda>_ t2. record_occupancy port layer t2)))"

fun pump_entries :: "LayerBatchSupply \<Rightarrow> LookaheadEntry list \<Rightarrow> LookaheadEntry list \<Rightarrow> sweep_state \<Rightarrow> nat sweep_outcome" where
  "pump_entries port pumped [] t = returned 0 ((fst t)\<lparr>sw_ahead := pumped\<rparr>, snd t)"
| "pump_entries port pumped (e # es) t =
     (case lbs_pump port (la_state e) (snd t) of
        (Inl err, (st, s')) \<Rightarrow> raised err ((fst t)\<lparr>sw_ahead := pumped @ e\<lparr>la_state := st\<rparr> # es\<rparr>, s')
      | (Inr n, (st, s')) \<Rightarrow> run_then (pump_entries port (pumped @ [e\<lparr>la_state := st\<rparr>]) es (fst t, s')) (\<lambda>k t'. returned (n + k) t'))"

definition pump :: "LayerBatchSupply \<Rightarrow> sweep_state \<Rightarrow> nat sweep_outcome" where
  "pump port t =
     (if \<not> sw_active (fst t) then returned 0 t
      else run_then (pump_entries port [] (sw_ahead (fst t)) t) (\<lambda>n t1. run_then (advance_reads port t1) (\<lambda>_ t2. returned n t2)))"

definition after_layer :: "LayerBatchSupply \<Rightarrow> nat \<Rightarrow> sweep_state \<Rightarrow> unit sweep_outcome" where
  "after_layer port layer t = (let p = fst t in
     if \<not> sw_active p then returned () t
     else if sw_resident_valid p \<and> sw_resident_layer p \<noteq> layer then
       raised (logic_error ''PrefillSweep: layer retired while another layer's staging bank is still resident'') t
     else run_then (on_supply (lbs_reap port) t) (\<lambda>_ t1.
       run_then (reclaim_resident_staging port t1) (\<lambda>_ t2.
       run_then (on_supply (on_registry (release_layer layer)) t2) (\<lambda>_ t3.
       run_then (on_sweep (\<lambda>p. p\<lparr>sw_layers_released := Suc (sw_layers_released p)\<rparr>) t3) (\<lambda>_ t4. update_frontier t4)))))"

fun settle_queue :: "LayerBatchSupply \<Rightarrow> LookaheadEntry list \<Rightarrow> sweep_state \<Rightarrow> unit sweep_outcome" where
  "settle_queue port [] t = returned () t"
| "settle_queue port (e # es) t =
     run_then (materialize_entry port e ((fst t)\<lparr>sw_ahead := es\<rparr>, snd t)) (\<lambda>_ t1.
     run_then (reclaim_resident_staging port t1) (\<lambda>_ t2.
     run_then (on_supply (lbs_reap port) t2) (\<lambda>_ t3.
     run_then (on_supply (on_registry (release_layer (la_layer e))) t3) (\<lambda>_ t4. settle_queue port es t4))))"

definition sweep_end :: "LayerBatchSupply \<Rightarrow> sweep_state \<Rightarrow> unit sweep_outcome" where
  "sweep_end port t =
     (if \<not> sw_active (fst t) then returned () t
      else run_then (settle_queue port (sw_ahead (fst t)) t) (\<lambda>_ t1.
        run_then (reclaim_resident_staging port t1) (\<lambda>_ t2.
        run_then (on_sweep (\<lambda>p. p\<lparr>sw_active := False, sw_leases := []\<rparr>) t2) (\<lambda>_ t3.
          on_supply (on_registry end_prefill_stream) t3))))"

subsection \<open>The queue\<close>

text \<open>What holds of the lookahead queue between calls: layers ascend, their number is bounded by the banks, at most
  one layer has reads in flight.\<close>

definition bank_bound :: "nat \<Rightarrow> nat" where
  "bank_bound banks = (if 1 < banks then banks - 1 else 1)"

definition queue_ok :: "(LayerBatchState \<Rightarrow> bool) \<Rightarrow> nat \<Rightarrow> PrefillSweep \<Rightarrow> bool" where
  "queue_ok honest banks p \<longleftrightarrow> sw_staging_banks p = banks \<and> sorted_wrt (<) (map la_layer (sw_ahead p)) \<and>
     length (sw_ahead p) \<le> bank_bound banks \<and> length (filter (\<lambda>e. reading (la_state e)) (sw_ahead p)) \<le> 1 \<and>
     (\<forall>e\<in>set (sw_ahead p). honest (la_state e))"

text \<open>A computation keeps a property of the sweep when every state it leaves has it, thrown or returned.\<close>

definition leaves :: "(PrefillSweep \<Rightarrow> bool) \<Rightarrow> 'a sweep_outcome \<Rightarrow> bool" where
  "leaves Q m \<longleftrightarrow> (\<forall>res t. m = Some (res, t) \<longrightarrow> Q (fst t))"

lemma leaves_basic:
  "Q (fst t) \<Longrightarrow> leaves Q (returned x t)" "Q (fst t) \<Longrightarrow> leaves Q (raised e t)" "leaves Q None"
  "Q (fst t) \<Longrightarrow> leaves Q (on_supply f t)" "Q (f' (fst t)) \<Longrightarrow> leaves Q (on_sweep f' t)"
  by (auto simp: leaves_def returned_def raised_def ok_def throw_def on_supply_def on_sweep_def split: prod.splits)

lemma leaves_then:
  assumes "leaves P m" and "\<And>p. P p \<Longrightarrow> Q p" and "\<And>x t. P (fst t) \<Longrightarrow> leaves Q (k x t)"
  shows "leaves Q (run_then m k)"
proof (cases m)
  case None
  then show ?thesis by (simp add: run_then_def leaves_def)
next
  case (Some r)
  obtain res t where r: "r = (res, t)" by (cases r)
  have "P (fst t)" using assms(1) Some r unfolding leaves_def by blast
  then show ?thesis using assms(2,3) Some r by (cases res) (auto simp: run_then_def leaves_def throw_def)
qed

lemma leaves_seq: "leaves Q m \<Longrightarrow> (\<And>x t. Q (fst t) \<Longrightarrow> leaves Q (k x t)) \<Longrightarrow> leaves Q (run_then m k)"
  using leaves_then by blast

text \<open>A part of the sweep's state that most steps do not touch.\<close>

definition same_queue :: "PrefillSweep \<Rightarrow> PrefillSweep \<Rightarrow> bool" where
  "same_queue p p' \<longleftrightarrow> sw_ahead p' = sw_ahead p \<and> sw_staging_banks p' = sw_staging_banks p"

lemma queue_ok_cong: "same_queue p p' \<Longrightarrow> queue_ok honest banks p \<Longrightarrow> queue_ok honest banks p'"
  by (simp add: same_queue_def queue_ok_def)

lemma same_queue_refl [simp]: "same_queue p p"
  by (simp add: same_queue_def)

lemma same_queue_trans: "same_queue p q \<Longrightarrow> same_queue q r \<Longrightarrow> same_queue p r"
  by (simp add: same_queue_def)

lemma leaves_same:
  assumes "leaves (same_queue (fst t)) m" and "\<And>x t'. same_queue (fst t) (fst t') \<Longrightarrow> leaves (same_queue (fst t')) (k x t')"
  shows "leaves (same_queue (fst t)) (run_then m k)"
proof (rule leaves_seq[OF assms(1)])
  fix x and t' :: sweep_state assume st: "same_queue (fst t) (fst t')"
  show "leaves (same_queue (fst t)) (k x t')"
    using assms(2)[OF st, of x] same_queue_trans[OF st] by (auto simp: leaves_def)
qed

lemma update_frontier_same: "leaves (same_queue (fst t)) (update_frontier t)"
  by (cases t) (auto simp: update_frontier_def Let_def same_queue_def intro!: leaves_basic)

lemma reclaim_same: "leaves (same_queue (fst t)) (reclaim_resident_staging port t)"
  by (cases t) (auto simp: reclaim_resident_staging_def same_queue_def split: prod.splits sum.splits intro!: leaves_basic)

lemma dispatch_layer_into_same: "leaves (same_queue (fst t)) (dispatch_layer_into port layer t)"
  unfolding dispatch_layer_into_def
  by (rule leaves_same) (auto simp: same_queue_def split: sum.splits option.splits prod.splits intro!: leaves_basic)

lemma settle_entry_same: "leaves (same_queue (fst t)) (settle_entry port st t)"
  by (cases t) (auto simp: settle_entry_def split: prod.splits sum.splits intro!: leaves_basic)

lemma release_leases_same: "leaves (same_queue (fst t)) (release_leases t)"
  unfolding release_leases_def by (rule leaves_same) (auto simp: same_queue_def intro!: leaves_basic)

lemma materialize_entry_same: "leaves (same_queue (fst t)) (materialize_entry port entry t)"
  unfolding materialize_entry_def
  by (intro leaves_same leaves_basic reclaim_same settle_entry_same release_leases_same update_frontier_same)
    (simp_all add: same_queue_def)

lemma record_occupancy_same: "leaves (same_queue (fst t)) (record_occupancy port layer t)"
  by (cases t) (auto simp: record_occupancy_def Let_def same_queue_def intro!: leaves_basic)

lemma after_layer_same: "leaves (same_queue (fst t)) (after_layer port layer t)"
  unfolding after_layer_def Let_def
  by (auto intro!: leaves_same leaves_basic reclaim_same update_frontier_same simp: same_queue_def[of _ "_\<lparr>sw_layers_released := _\<rparr>"])

lemma leaves_cong: "leaves (same_queue (fst t)) m \<Longrightarrow> queue_ok honest banks (fst t) \<Longrightarrow> leaves (queue_ok honest banks) m"
  using queue_ok_cong by (auto simp: leaves_def)

lemma ascending_last: "sorted_wrt (<) (map f xs) \<Longrightarrow> e \<in> set xs \<Longrightarrow> f e \<le> (f (last xs) :: nat)"
  by (induction xs rule: rev_induct) (auto simp: sorted_wrt_append less_imp_le)

subsection \<open>What the sweep relies on\<close>

text \<open>The contract of the port: a dispatched batch shows its outstanding reads, and a pump settles reads but starts
  none. \<open>honest\<close> says that the arrays of a batch show every transfer that still reads.\<close>

locale layer_batch_supply =
  fixes port :: LayerBatchSupply and honest :: "LayerBatchState \<Rightarrow> bool"
  assumes dispatch_honest: "lbs_dispatch_layer_stream port l es leases base stage s = Some (Inr st, t) \<Longrightarrow> honest st"
    and pump_settles: "honest st \<Longrightarrow> lbs_pump port st s = (res, (st', s')) \<Longrightarrow> honest st' \<and> (reading st' \<longrightarrow> reading st)"
begin

lemma dispatch_into_honest: "dispatch_layer_into port layer t = Some (Inr (Some st), t') \<Longrightarrow> honest st"
  by (auto simp: dispatch_layer_into_def run_then_def returned_def raised_def ok_def throw_def
      split: option.splits sum.splits prod.splits if_splits dest: dispatch_honest)

lemma queue_push:
  assumes "queue_ok honest banks p" and "\<not> reads_in_flight p" and "honest st" and "length (sw_ahead p) < bank_bound banks"
    and "\<forall>e\<in>set (sw_ahead p). la_layer e < layer"
  shows "queue_ok honest banks (p\<lparr>sw_ahead := sw_ahead p @ [\<lparr>la_state = st, la_layer = layer\<rparr>]\<rparr>)"
proof -
  have "filter (\<lambda>e. reading (la_state e)) (sw_ahead p) = []"
    using assms(2) by (simp add: reads_in_flight_def filter_empty_conv list_ex_iff)
  then show ?thesis using assms by (auto simp: queue_ok_def sorted_wrt_append)
qed

lemma dispatch_layers_queue:
  assumes "queue_ok honest banks (fst t)" and "\<not> reads_in_flight (fst t)" and "length (sw_ahead (fst t)) + budget \<le> bank_bound banks"
    and "sorted_wrt (<) layers" and "\<forall>l\<in>set layers. \<forall>e\<in>set (sw_ahead (fst t)). la_layer e < l"
  shows "leaves (queue_ok honest banks) (dispatch_layers port budget layers t)"
  using assms
proof (induction layers arbitrary: budget t)
  case Nil
  then show ?case by (simp add: leaves_basic)
next
  case (Cons layer layers)
  show ?case
  proof (cases budget)
    case 0
    then show ?thesis using Cons.prems by (simp add: leaves_basic)
  next
    case (Suc n)
    have skip: "leaves (queue_ok honest banks) (dispatch_layers port (Suc n) layers t')" if "same_queue (fst t) (fst t')" for t' :: sweep_state
      using that Cons.prems Suc by (intro Cons.IH) (auto simp: same_queue_def queue_ok_def reads_in_flight_def)
    have step: "leaves (queue_ok honest banks) (run_then (dispatch_layer_into port layer t) (\<lambda>st (p, s).
        case st of None \<Rightarrow> dispatch_layers port (Suc n) layers (p, s)
        | Some st \<Rightarrow> let p' = p\<lparr>sw_ahead := sw_ahead p @ [\<lparr>la_state = st, la_layer = layer\<rparr>]\<rparr> in
            if reads_in_flight p' then returned () (p', s) else dispatch_layers port n layers (p', s)))" (is "leaves _ (run_then ?m ?k)")
    proof (cases ?m)
      case None
      then show ?thesis by (simp add: run_then_def leaves_def)
    next
      case (Some r)
      obtain res p s where r: "r = (res, (p, s))" by (cases r)
      have same: "same_queue (fst t) p" using dispatch_layer_into_same[of t port layer] Some r by (fastforce simp: leaves_def)
      have q: "queue_ok honest banks p" using queue_ok_cong[OF same] Cons.prems(1) .
      show ?thesis
      proof (cases res)
        case (Inl e)
        then show ?thesis using Some r q by (simp add: run_then_def leaves_def throw_def)
      next
        case (Inr st)
        show ?thesis
        proof (cases st)
          case None
          then show ?thesis using Some r Inr skip[of "(p, s)"] same by (simp add: run_then_def)
        next
          case (Some st0)
          let ?p' = "p\<lparr>sw_ahead := sw_ahead p @ [\<lparr>la_state = st0, la_layer = layer\<rparr>]\<rparr>"
          have h: "honest st0" using dispatch_into_honest \<open>?m = Some r\<close> r Inr Some by blast
          have eq: "sw_ahead p = sw_ahead (fst t)" using same by (simp add: same_queue_def)
          have push: "queue_ok honest banks ?p'"
            by (rule queue_push[OF q _ h]) (use Cons.prems Suc eq in \<open>auto simp: reads_in_flight_def\<close>)
          have rest: "leaves (queue_ok honest banks) (dispatch_layers port n layers (?p', s))" if "\<not> reads_in_flight ?p'"
            using push that Cons.prems Suc eq by (intro Cons.IH) auto
          show ?thesis using \<open>?m = Some r\<close> r Inr Some push rest by (auto simp: run_then_def Let_def intro!: leaves_basic)
        qed
      qed
    qed
    show ?thesis using step skip[of t] Suc by auto
  qed
qed

lemma dispatch_ahead_queue:
  assumes "queue_ok honest banks (fst t)"
  shows "leaves (queue_ok honest banks) (dispatch_ahead port start t)"
proof -
  obtain p s where t: "t = (p, s)" by (cases t)
  let ?first = "if sw_ahead p = [] then start else max start (Suc (la_layer (last (sw_ahead p))))"
  let ?cap = "read_lookahead_capacity port t"
  have cap: "?cap \<le> bank_bound banks"
    using assms t by (auto simp: read_lookahead_capacity_def bank_bound_def queue_ok_def Let_def)
  have below: "la_layer e < l" if "e \<in> set (sw_ahead p)" "?first \<le> l" for e l
  proof -
    have ne: "sw_ahead p \<noteq> []" using that by auto
    have "la_layer e \<le> la_layer (last (sw_ahead p))"
      using assms t by (intro ascending_last that(1)) (simp add: queue_ok_def)
    then show ?thesis using that(2) ne by auto
  qed
  have run: "leaves (queue_ok honest banks) (dispatch_layers port (?cap - length (sw_ahead p)) [?first..<num_layers (registry s)] t)"
    if "\<not> reads_in_flight p" "length (sw_ahead p) < ?cap"
    by (rule dispatch_layers_queue) (use assms t that cap below in auto)
  show ?thesis
  proof (cases "num_layers (registry s) \<le> start \<or> reads_in_flight p \<or> ?cap \<le> length (sw_ahead p)")
    case True
    then show ?thesis using assms t by (auto simp: dispatch_ahead_def Let_def intro: leaves_basic)
  next
    case False
    have "leaves (queue_ok honest banks) (run_then (dispatch_layers port (?cap - length (sw_ahead p)) [?first..<num_layers (registry s)] t)
        (\<lambda>_ t'. on_sweep (\<lambda>p. p\<lparr>sw_lookahead_depth := length (sw_ahead p)\<rparr>) t'))"
      by (rule leaves_seq[OF run]) (use False in \<open>auto simp: queue_ok_def intro!: leaves_basic\<close>)
    then show ?thesis using False t by (simp add: dispatch_ahead_def Let_def)
  qed
qed

lemma advance_reads_queue: "queue_ok honest banks (fst t) \<Longrightarrow> leaves (queue_ok honest banks) (advance_reads port t)"
  by (auto simp: advance_reads_def Let_def intro: leaves_basic dispatch_ahead_queue)

lemma materialize_front_queue:
  assumes "queue_ok honest banks (fst t)"
  shows "leaves (queue_ok honest banks) (materialize_front port t)"
proof (cases "sw_ahead (fst t)")
  case Nil
  then show ?thesis using assms by (simp add: materialize_front_def leaves_basic)
next
  case (Cons e es)
  have "queue_ok honest banks ((fst t)\<lparr>sw_ahead := es\<rparr>)"
    using assms Cons by (auto simp: queue_ok_def split: if_splits)
  then show ?thesis
    using leaves_cong[OF materialize_entry_same[of "((fst t)\<lparr>sw_ahead := es\<rparr>, snd t)" port e]] Cons by (simp add: materialize_front_def)
qed

lemma ensure_layer_queue:
  assumes "queue_ok honest banks (fst t)"
  shows "leaves (queue_ok honest banks) (ensure_layer port layer t)"
proof -
  have "leaves (same_queue (fst t)) (ensure_layer port layer t)"
    unfolding ensure_layer_def Let_def
    by (auto intro!: leaves_basic leaves_same[OF dispatch_layer_into_same] split: option.splits)
      (use materialize_entry_same in force)
  then show ?thesis using assms by (rule leaves_cong)
qed

lemma before_layer_queue:
  assumes "queue_ok honest banks (fst t)"
  shows "leaves (queue_ok honest banks) (before_layer port layer t)"
proof -
  obtain p s where t: "t = (p, s)" by (cases t)
  have p1: "queue_ok honest banks (p\<lparr>sw_active_layer := layer\<rparr>)" using assms t by (simp add: queue_ok_def)
  have occ: "leaves (queue_ok honest banks) (record_occupancy port l t')" if "queue_ok honest banks (fst t')" for t' l
    using record_occupancy_same that by (rule leaves_cong)
  show ?thesis
    unfolding before_layer_def t prod.case Let_def
    using p1 assms t by (auto intro!: leaves_basic leaves_seq materialize_front_queue ensure_layer_queue dispatch_ahead_queue occ)
qed

lemma queue_pumped:
  assumes "queue_ok honest banks (p\<lparr>sw_ahead := pumped @ e # es\<rparr>)" and "honest st" and "reading st \<longrightarrow> reading (la_state e)"
  shows "queue_ok honest banks (p\<lparr>sw_ahead := pumped @ e\<lparr>la_state := st\<rparr> # es\<rparr>)"
  using assms by (auto simp: queue_ok_def split: if_splits)

lemma pump_entries_queue:
  "queue_ok honest banks ((fst t)\<lparr>sw_ahead := pumped @ es\<rparr>) \<Longrightarrow> leaves (queue_ok honest banks) (pump_entries port pumped es t)"
proof (induction es arbitrary: pumped t)
  case Nil
  then show ?case by (auto intro: leaves_basic)
next
  case (Cons e es)
  obtain res st s' where p: "lbs_pump port (la_state e) (snd t) = (res, (st, s'))" by (metis prod_cases3)
  have "honest (la_state e)" using Cons.prems by (simp add: queue_ok_def)
  note st = pump_settles[OF this p]
  have q: "queue_ok honest banks ((fst t)\<lparr>sw_ahead := pumped @ e\<lparr>la_state := st\<rparr> # es\<rparr>)"
    using queue_pumped[OF Cons.prems] st by blast
  have rest: "leaves (queue_ok honest banks) (pump_entries port (pumped @ [e\<lparr>la_state := st\<rparr>]) es (fst t, s'))"
    by (rule Cons.IH) (use q in simp)
  show ?case using p q rest by (cases res) (auto intro!: leaves_basic leaves_seq[OF rest])
qed

lemma pump_queue: "queue_ok honest banks (fst t) \<Longrightarrow> leaves (queue_ok honest banks) (pump port t)"
  unfolding pump_def
  by (auto intro!: leaves_basic leaves_seq pump_entries_queue advance_reads_queue)

lemma sweep_begin_queue:
  assumes "queue_ok honest banks (fst t)"
  shows "leaves (queue_ok honest banks) (sweep_begin port t)"
proof -
  obtain p s where t: "t = (p, s)" by (cases t)
  have start: "leaves (queue_ok honest banks) (dispatch_ahead port 0
      (p\<lparr>sw_hot_after_drain := h, sw_occupancy_samples := [], sw_active := True\<rparr>, s))" if "queue_ok honest banks p" for p s h
    using that by (intro dispatch_ahead_queue) (simp add: queue_ok_def)
  show ?thesis
    unfolding sweep_begin_def t prod.case Let_def using assms t
    by (auto intro!: leaves_basic leaves_seq start)
qed

lemma settle_queue_queue:
  "queue_ok honest banks ((fst t)\<lparr>sw_ahead := es\<rparr>) \<Longrightarrow> es = sw_ahead (fst t) \<Longrightarrow> leaves (queue_ok honest banks) (settle_queue port es t)"
proof (induction es arbitrary: t)
  case Nil
  then show ?case by (auto simp: queue_ok_def intro!: leaves_basic)
next
  case (Cons e es)
  let ?t = "((fst t)\<lparr>sw_ahead := es\<rparr>, snd t)"
  let ?P = "\<lambda>p. queue_ok honest banks p \<and> sw_ahead p = es"
  have q: "?P (fst ?t)" using Cons.prems(1) by (auto simp: queue_ok_def split: if_splits)
  have same: "leaves ?P m" if "leaves (same_queue (fst t')) m" "?P (fst t')" for t' :: sweep_state and m :: "unit sweep_outcome"
    using that queue_ok_cong by (auto simp: leaves_def same_queue_def)
  have last: "leaves (queue_ok honest banks) (settle_queue port es t')" if "?P (fst t')" for t'
    using that by (intro Cons.IH) auto
  show ?case
    unfolding settle_queue.simps
    by (intro leaves_then[where P = ?P] same[OF materialize_entry_same, of ?t] same[OF reclaim_same] leaves_basic last q) auto
qed

lemma sweep_end_queue:
  assumes "queue_ok honest banks (fst t)"
  shows "leaves (queue_ok honest banks) (sweep_end port t)"
proof -
  have settle: "leaves (queue_ok honest banks) (settle_queue port (sw_ahead (fst t)) t)"
    by (rule settle_queue_queue) (use assms in simp_all)
  have rec: "leaves (queue_ok honest banks) (reclaim_resident_staging port t')" if "queue_ok honest banks (fst t')" for t'
    using reclaim_same that by (rule leaves_cong)
  show ?thesis
    unfolding sweep_end_def using assms
    by (auto intro!: leaves_basic leaves_seq settle rec) (simp add: queue_ok_def)
qed

lemma after_layer_queue: "queue_ok honest banks (fst t) \<Longrightarrow> leaves (queue_ok honest banks) (after_layer port layer t)"
  using after_layer_same by (rule leaves_cong)

end

subsection \<open>The coordinator keeps the contract\<close>

definition honest_batch :: "LayerBatchState \<Rightarrow> bool" where
  "honest_batch st \<longleftrightarrow> list_all2 (\<lambda>x pending. tr_io_pending x \<longrightarrow> pending) (lb_supply_batch st) (lb_io_pending st)"

lemma sync_honest: "honest_batch (sync_state st)"
  by (simp add: honest_batch_def sync_state_def Let_def list_all2_conv_all_nth)

lemma sync_reading: "reading (sync_state st) \<longleftrightarrow> list_ex tr_io_pending (lb_supply_batch st)"
  by (simp add: reading_def sync_state_def Let_def list_ex_iff)

text \<open>An element-wise relation between a vector before and after a loop that updates it in place.\<close>

lemma for_each_ref_rel:
  assumes "\<And>x s res x' s'. f x s = (res, (x', s')) \<Longrightarrow> R x x'" and "\<And>x. R x x"
  shows "for_each_ref f xs s = (res, (xs', s')) \<Longrightarrow> list_all2 R xs xs'"
proof (induction xs arbitrary: s xs' res s')
  case Nil
  then show ?case by (simp add: ok_def)
next
  case (Cons x xs)
  obtain r x1 s1 where f: "f x s = (r, (x1, s1))" by (metis prod_cases3)
  show ?case
  proof (cases r)
    case (Inl e)
    then show ?thesis using Cons.prems f assms by (auto simp: throw_def list_all2_refl)
  next
    case (Inr u)
    obtain r2 ys s2 where rec: "for_each_ref f xs s1 = (r2, (ys, s2))" by (metis prod_cases3)
    show ?thesis using Cons.prems f Inr rec Cons.IH[OF rec] assms(1)[OF f] by auto
  qed
qed

abbreviation settles :: "PayloadTransfer \<Rightarrow> PayloadTransfer \<Rightarrow> bool" where
  "settles x x' \<equiv> tr_io_pending x' \<longrightarrow> tr_io_pending x"

lemma enqueue_settles: "enqueue_expert_copy env cfg x s = (res, (x', s')) \<Longrightarrow> settles x x'"
  by (auto simp: enqueue_expert_copy_def Let_def ok_def throw_def split: if_splits prod.splits sum.splits)

lemma pump_one_settles: "pump_one env cfg x ns = (res, (x', ns')) \<Longrightarrow> settles x x'"
  by (auto simp: pump_one_def pump_copy_def ok_def throw_def dest: enqueue_settles split: if_splits prod.splits sum.splits)

lemma pump_honest:
  assumes "honest_batch st" and "pump_layer_prefetch w cfg st s = (res, (st', s'))"
  shows "honest_batch st' \<and> (reading st' \<longrightarrow> reading st)"
proof -
  obtain r ts ns where m: "materialize_available (w_env w) cfg (lb_supply_batch st) s = (r, (ts, ns))" by (metis prod_cases3)
  have rel: "list_all2 settles (lb_supply_batch st) ts"
    using m pump_one_settles unfolding materialize_available_def by (intro for_each_ref_rel) auto
  have keep: "list_all2 (\<lambda>x pending. tr_io_pending x \<longrightarrow> pending) ts (lb_io_pending st)"
    using assms(1) rel unfolding honest_batch_def list_all2_conv_all_nth by auto
  have read: "reading st" if pending: "list_ex tr_io_pending ts"
  proof -
    obtain i where i: "i < length ts" "tr_io_pending (ts ! i)" using pending by (auto simp: list_ex_length)
    then have "i < length (lb_io_pending st)" "lb_io_pending st ! i" using keep by (auto simp: list_all2_conv_all_nth)
    then show ?thesis by (auto simp: reading_def list_ex_length)
  qed
  show ?thesis
  proof (cases r)
    case (Inl e)
    then have "st' = st\<lparr>lb_supply_batch := ts\<rparr>" using assms(2) m by (cases ns) (simp add: pump_layer_prefetch_def throw_def)
    then show ?thesis using keep by (simp add: honest_batch_def reading_def)
  next
    case (Inr u)
    then have "st' = sync_state (st\<lparr>lb_supply_batch := ts\<rparr>)" using assms(2) m by (cases ns) (simp add: pump_layer_prefetch_def ok_def)
    then show ?thesis using read by (simp add: sync_honest sync_reading)
  qed
qed

interpretation v4: layer_batch_supply "V4ExpertSupplyCoordinator w cfg" honest_batch
proof
  fix l es leases base stage s st t
  assume "lbs_dispatch_layer_stream (V4ExpertSupplyCoordinator w cfg) l es leases base stage s = Some (Inr st, t)"
  then show "honest_batch st"
    by (auto simp: V4ExpertSupplyCoordinator_def dispatch_layer_stream_def ok_def throw_def sync_honest
        split: sum.splits option.splits prod.splits if_splits)
qed (use pump_honest in \<open>auto simp: V4ExpertSupplyCoordinator_def\<close>)

section \<open>Properties\<close>

datatype sweep_call = SweepBegin | BeforeLayer nat | SweepPump | AfterLayer nat | SweepEnd

fun sweep_do :: "LayerBatchSupply \<Rightarrow> sweep_call \<Rightarrow> sweep_state \<Rightarrow> sweep_state option" where
  "sweep_do port SweepBegin t = map_option snd (sweep_begin port t)"
| "sweep_do port (BeforeLayer l) t = map_option snd (before_layer port l t)"
| "sweep_do port SweepPump t = map_option snd (pump port t)"
| "sweep_do port (AfterLayer l) t = map_option snd (after_layer port l t)"
| "sweep_do port SweepEnd t = map_option snd (sweep_end port t)"

text \<open>A run of the sweep: each call meets its own answers of the device and the drive.\<close>

fun sweep_run :: "supply_config \<Rightarrow> (supply_world \<times> sweep_call) list \<Rightarrow> sweep_state \<Rightarrow> sweep_state option" where
  "sweep_run cfg [] t = Some t"
| "sweep_run cfg ((w, c) # cs) t = Option.bind (sweep_do (V4ExpertSupplyCoordinator w cfg) c t) (sweep_run cfg cs)"

lemma leavesD: "leaves Q m \<Longrightarrow> map_option snd m = Some t \<Longrightarrow> Q (fst t)"
  by (auto simp: leaves_def)

lemma sweep_do_queue:
  assumes "queue_ok honest_batch banks (fst t)" and "sweep_do (V4ExpertSupplyCoordinator w cfg) c t = Some t'"
  shows "queue_ok honest_batch banks (fst t')"
  using assms(2) leavesD[OF v4.sweep_begin_queue[OF assms(1)]] leavesD[OF v4.before_layer_queue[OF assms(1)]]
    leavesD[OF v4.pump_queue[OF assms(1)]] leavesD[OF v4.after_layer_queue[OF assms(1)]] leavesD[OF v4.sweep_end_queue[OF assms(1)]]
  by (cases c) (simp_all del: map_option_eq_Some)

lemma sweep_run_queue:
  "queue_ok honest_batch banks (fst t) \<Longrightarrow> sweep_run cfg cs t = Some t' \<Longrightarrow> queue_ok honest_batch banks (fst t')"
proof (induction cs arbitrary: t)
  case Nil
  then show ?case by simp
next
  case (Cons c cs)
  obtain w x where c: "c = (w, x)" by (cases c)
  obtain t1 where t1: "sweep_do (V4ExpertSupplyCoordinator w cfg) x t = Some t1" "sweep_run cfg cs t1 = Some t'"
    using Cons.prems(2) c by (auto simp: bind_eq_Some_conv)
  show ?case using Cons.IH[OF sweep_do_queue[OF Cons.prems(1) t1(1)] t1(2)] .
qed

text \<open>C37: the sweep never runs its lookahead out of order or out of bounds. Whatever sequence of calls drives it,
  whether they return or throw, and whatever device and drive answer, the layers in the queue ascend strictly, there
  are no more of them than banks less the resident one (one with a single bank), and at most one of them has
  reads in the drive.\<close>

theorem sweep_lookahead_ordered:
  assumes "sweep_run cfg calls (sweep_configure banks new_sweep, s) = Some (p, s')"
  shows "sorted_wrt (<) (map la_layer (sw_ahead p)) \<and> length (sw_ahead p) \<le> max 1 (banks - 1) \<and>
     length (filter (\<lambda>e. reading (la_state e)) (sw_ahead p)) \<le> 1"
proof -
  have "queue_ok honest_batch (if banks = 0 then 1 else banks) (sweep_configure banks new_sweep)"
    by (simp add: queue_ok_def sweep_configure_def new_sweep_def)
  then have "queue_ok honest_batch (if banks = 0 then 1 else banks) p"
    using sweep_run_queue[OF _ assms] by simp
  then show ?thesis by (auto simp: queue_ok_def bank_bound_def split: if_splits)
qed

subsection \<open>A small sweep\<close>

text \<open>The drain loop of the registry as a fold, for evaluation.\<close>

lemma funpow_fold: "(f ^^ n) x = fold (\<lambda>_. f) [0..<n] x"
  by (induction n) simp_all

lemma begin_prefill_stream_code [code]:
  "begin_prefill_stream drain_slots alloc r =
     (if prefill_stream r then ok () r
      else after_check
        (check_all (\<lambda>e. check_then
             (require_that (lease_count e = 0) ''begin_prefill_stream with a live lease'')
             (require_that (operation e = OP_NONE) ''begin_prefill_stream with a transfer still in flight'')) (catalog r)) r
        (\<lambda>r. let r1 = mark_residents r; r2 = fold (\<lambda>_. drain_one) [0..<min drain_slots (length (hot_vram_lru r1))] r1
             in validated () (r2\<lparr>prefill_stream := True, prefill_alloc := alloc, warm_frozen := True\<rparr>)))"
  by (simp only: begin_prefill_stream_def funpow_fold)

text \<open>Layers of one expert each over a few VRAM slots, two staging banks, a drive whose reads will all complete.\<close>

definition completed_reads :: "nat \<Rightarrow> DirectIOCompletion list" where
  "completed_reads n = map (\<lambda>k. \<lparr>user_data = k, result = 4096\<rparr>) [0..<n]"

definition sweep_supply :: "nat \<Rightarrow> nat \<Rightarrow> ExpertSupply" where
  "sweep_supply layers vram = (small_supply True)\<lparr>registry := snd (init layers 1 vram 0 True default_registry),
     staging := (snd (arena_bind 122880000 2 current_format unsized_arena))\<lparr>arena_hip_register := True\<rparr>, outstanding := completed_reads 3\<rparr>"

definition sweep_config :: supply_config where
  "sweep_config = small_config\<lparr>expert_bytes := 4096, vram_pool_slots := 4, direct_reader := True, source_fd := 3, locate := (\<lambda>g. (g * 4096, 4096))\<rparr>"

definition drive_world :: supply_world where
  "drive_world = \<lparr>w_polls = [idle_device], w_env = idle_device, w_answers = [1]\<rparr>"

definition busy_world :: supply_world where
  "busy_world = drive_world\<lparr>w_env := idle_device\<lparr>event_status := (\<lambda>_. hipErrorNotReady)\<rparr>\<rparr>"

theorem sweep_lookahead_ordered_witness:
  "\<exists>p s'. sweep_run sweep_config [(drive_world, SweepBegin), (drive_world, BeforeLayer 0)] (sweep_configure 2 new_sweep, sweep_supply 4 2) = Some (p, s') \<and>
     map la_layer (sw_ahead p) = [1] \<and> length (filter (\<lambda>e. reading (la_state e)) (sw_ahead p)) = 1"
proof -
  let ?r = "sweep_run sweep_config [(drive_world, SweepBegin), (drive_world, BeforeLayer 0)] (sweep_configure 2 new_sweep, sweep_supply 4 2)"
  have e: "map_option (\<lambda>t. (map la_layer (sw_ahead (fst t)), reads_in_flight (fst t))) ?r = Some ([1], True)" by code_simp
  then obtain p s' where r: "?r = Some (p, s')" by auto
  have l: "map la_layer (sw_ahead p) = [1]" "reads_in_flight p" using e r by auto
  then have "filter (\<lambda>e. reading (la_state e)) (sw_ahead p) \<noteq> []" by (auto simp: reads_in_flight_def list_ex_iff filter_empty_conv)
  then have "1 \<le> length (filter (\<lambda>e. reading (la_state e)) (sw_ahead p))" by (simp add: Suc_le_eq)
  then show ?thesis using sweep_lookahead_ordered[OF r] l(1) r by (intro exI[of _ p] exI[of _ s']) auto
qed

text \<open>A layer that stayed resident through the drain is not queued, and the layer after it lands in the bank of the
  layer that computes: its copy is still in flight, the dispatch throws, and the failure handler gives that
  copy's slot back.\<close>

definition preserved_layer :: ExpertSupply where
  "preserved_layer = (let s = sweep_supply 4 3 in
     s\<lparr>registry := after_call (ReleaseLease 1) (after_call (ReserveByGid 1 1 0 False) (registry s))\<rparr>)"

lemma skipped_layer_shares_bank:
  "map_option (\<lambda>m. (case fst m of Inl (runtime_error msg) \<Rightarrow> Some msg | _ \<Rightarrow> None, slot_states (staging (snd (snd m)))))
     (Option.bind (sweep_run sweep_config [(drive_world, SweepBegin)] (sweep_configure 2 new_sweep, preserved_layer))
       (before_layer (V4ExpertSupplyCoordinator busy_world sweep_config) 0)) =
   Some (Some ''PrefetchStagingArena: invalid slot state transition for slot'', [AVAILABLE, AVAILABLE])"
  by code_simp

end
