(* ===== verification/Host_Partition.thy ===== *)
theory Host_Partition
  imports Prefill_Sweep
begin

text \<open>
  The boundary between Warm and the staging corridor, \<^verbatim>\<open>src/infrastructure/expert/storage/host_partition.hpp\<close>, and
  the window lifecycle that moves it, \<^verbatim>\<open>src/infrastructure/prefill/prefill_controller.hpp\<close>. Both act on bound
  collaborators, which are one state here: the sweep, the supply (with registry, pool and arena), the region,
  the heap, the budget report and the leases of the executor.
\<close>

subsection \<open>State\<close>

record HostPartition =
  hp_active :: bool
  hp_region_slots :: nat
  hp_lane_base :: nat
  hp_lane_slots :: nat
  hp_staging_decode_slots :: nat
  hp_staging_batch_slots :: nat
  hp_staging_prefill_slots :: nat
  hp_staging_floor_slots :: nat
  hp_warm_slots_decode :: nat
  hp_warm_slots_routed :: nat
  hp_warm_slots_prefill :: nat
  hp_current_warm_slots :: nat
  hp_sweep_staging_banks :: nat

record host_services =
  hs_partition :: HostPartition
  hs_sweep :: PrefillSweep
  hs_supply :: ExpertSupply
  hs_region :: ExpertHostRegion
  hs_heap :: host_heap
  hs_budget :: MemoryBudgetReport
  hs_leases :: "nat list"

type_synonym 'a host_outcome = "(exn, host_services, 'a) outcome"

text \<open>Warm's share when the corridor holds \<open>slots\<close> of the region's tail.\<close>

definition warm_for :: "HostPartition \<Rightarrow> nat \<Rightarrow> nat" where
  "warm_for hp slots =
     (let room = (if slots < hp_region_slots hp then hp_region_slots hp - slots else 0);
          usable = (if hp_lane_base hp < room then room - hp_lane_base hp else 0)
      in min usable (hp_lane_slots hp))"

definition partition_configure ::
  "bool \<Rightarrow> StagingSlotCounts \<Rightarrow> bool \<Rightarrow> nat \<Rightarrow> nat \<Rightarrow> nat \<Rightarrow> HostPartition \<Rightarrow> HostPartition" where
  "partition_configure act counts phase_cuts all_slots start lane hp =
     (let hp1 = hp\<lparr>hp_active := act, hp_region_slots := all_slots, hp_lane_base := start, hp_lane_slots := lane,
            hp_staging_decode_slots := (if act \<and> \<not> phase_cuts then batch_slots counts else decode_slots counts),
            hp_staging_batch_slots := batch_slots counts, hp_staging_prefill_slots := prefill_slots counts,
            hp_staging_floor_slots := decode_slots counts\<rparr> in
      if act then
        let warm = warm_for hp1 (hp_staging_decode_slots hp1) in
        hp1\<lparr>hp_warm_slots_decode := warm, hp_warm_slots_routed := warm_for hp1 (batch_slots counts),
            hp_warm_slots_prefill := warm_for hp1 (prefill_slots counts), hp_current_warm_slots := warm\<rparr>
      else hp1\<lparr>hp_warm_slots_decode := 0, hp_warm_slots_routed := 0, hp_warm_slots_prefill := 0, hp_current_warm_slots := 0\<rparr>)"

definition refresh_sweep_banks :: "nat \<Rightarrow> host_services \<Rightarrow> host_services" where
  "refresh_sweep_banks per_layer h =
     (let banks = (if per_layer = 0 then 1 else max 1 (slot_count (staging (hs_supply h)) div per_layer)) in
      h\<lparr>hs_partition := (hs_partition h)\<lparr>hp_sweep_staging_banks := banks\<rparr>, hs_sweep := sweep_configure banks (hs_sweep h)\<rparr>)"

definition account_staging :: "nat \<Rightarrow> host_services \<Rightarrow> host_services" where
  "account_staging slots h = h\<lparr>hs_budget := (hs_budget h)\<lparr>transient_staging_bytes :=
     slots * payload_bytes (arena_format (staging (hs_supply h)))\<rparr>\<rparr>"

definition on_host_supply :: "(ExpertSupply \<Rightarrow> 'a supply_outcome) \<Rightarrow> host_services \<Rightarrow> 'a host_outcome" where
  "on_host_supply f h = (case f (hs_supply h) of (res, s) \<Rightarrow> (res, h\<lparr>hs_supply := s\<rparr>))"

text \<open>The depth change of an arena of its own. \<open>answer\<close> is what the allocator gives.\<close>

definition partition_resize :: "nat \<Rightarrow> nat \<Rightarrow> nat \<Rightarrow> alloc_answer \<Rightarrow> host_services \<Rightarrow> bool host_outcome" where
  "partition_resize slots per_layer leases answer h =
     (if in_use_slots (staging (hs_supply h)) \<noteq> 0 \<or> leases \<noteq> 0 \<or> slots < hp_staging_floor_slots (hs_partition h) \<or>
         hp_active (hs_partition h) then ok False h
      else case arena_resize slots answer (staging (hs_supply h), hs_heap h) of
          (Inl e, (a, hp)) \<Rightarrow> throw e (h\<lparr>hs_supply := (hs_supply h)\<lparr>staging := a\<rparr>, hs_heap := hp\<rparr>)
        | (Inr _, (a, hp)) \<Rightarrow> ok True (account_staging slots (refresh_sweep_banks per_layer
            (h\<lparr>hs_supply := (hs_supply h)\<lparr>staging := a\<rparr>, hs_heap := hp\<rparr>))))"

subsection \<open>Moving the boundary\<close>

definition surrender_tail :: "nat \<Rightarrow> host_services \<Rightarrow> unit host_outcome" where
  "surrender_tail warm h =
     (if warm < host_capacity_usable (registry (hs_supply h)) then
        and_then (on_host_supply (on_registry (release_host_tail warm)) h) (\<lambda>_ h1.
          on_host_supply (on_registry (shrink_host_capacity warm)) h1)
      else ok () h)"

definition bind_lane :: "nat \<Rightarrow> host_services \<Rightarrow> unit host_outcome" where
  "bind_lane warm h =
     (case slot_ptr (hs_region h) (hp_lane_base (hs_partition h)) of
        Inl e \<Rightarrow> throw e h
      | Inr base \<Rightarrow>
          (case pool_bind base warm (region_format (hs_region h)) (region_pinned (hs_region h)) (host_pool (hs_supply h), hs_heap h) of
             (res, (p, hp)) \<Rightarrow> (res, h\<lparr>hs_supply := (hs_supply h)\<lparr>host_pool := p\<rparr>, hs_heap := hp\<rparr>)))"

definition recover_tail :: "nat \<Rightarrow> host_services \<Rightarrow> unit host_outcome" where
  "recover_tail warm h =
     (if host_capacity_usable (registry (hs_supply h)) < warm
      then on_host_supply (on_registry (grow_host_capacity warm)) h else ok () h)"

definition bind_corridor :: "nat \<Rightarrow> host_services \<Rightarrow> unit host_outcome" where
  "bind_corridor slots h =
     (case slot_ptr (hs_region h) (region_slot_count (hs_region h) - slots) of
        Inl e \<Rightarrow> throw e h
      | Inr base \<Rightarrow> on_host_supply (on_staging (arena_bind base slots (region_format (hs_region h)))) h)"

definition partition_apply :: "nat \<Rightarrow> nat \<Rightarrow> nat \<Rightarrow> nat \<Rightarrow> host_services \<Rightarrow> unit host_outcome" where
  "partition_apply warm slots per_layer leases h =
     (let hp = hs_partition h; a = staging (hs_supply h); region = region_slot_count (hs_region h) in
      if \<not> hp_active hp \<or> warm = hp_current_warm_slots hp \<and> slots = slot_count a then ok () h
      else if in_use_slots a \<noteq> 0 \<or> leases \<noteq> 0 then
        throw (logic_error ''HostPartition: cannot move the host partition with a transfer or lease live'') h
      else if region < slots \<or> 0 < warm \<and> region - slots < u32 (hp_lane_base hp + warm) then
        throw (logic_error ''HostPartition: the Warm lane and the corridor overlap in the region'') h
      else and_then (surrender_tail warm h) (\<lambda>_ h1.
        and_then (bind_lane warm h1) (\<lambda>_ h2.
        and_then (recover_tail warm h2) (\<lambda>_ h3.
        and_then (bind_corridor slots h3) (\<lambda>_ h4.
          let h5 = account_staging slots (refresh_sweep_banks per_layer h4) in
          ok () (h5\<lparr>hs_partition := (hs_partition h5)\<lparr>hp_current_warm_slots := warm\<rparr>\<rparr>))))))"

subsection \<open>What a move leaves\<close>

lemma on_host_supply_ok:
  "on_host_supply f h = ok x h' \<longleftrightarrow> (\<exists>s. f (hs_supply h) = ok x s \<and> h' = h\<lparr>hs_supply := s\<rparr>)"
  by (auto simp: on_host_supply_def ok_def split: prod.splits)

lemma on_staging_ok: "on_staging f s = ok x s' \<longleftrightarrow> (\<exists>a. f (staging s) = ok x a \<and> s' = s\<lparr>staging := a\<rparr>)"
  by (auto simp: on_staging_def ok_def split: prod.splits)

lemma checked_validate_ok: "checked_validate x r = ok y r' \<Longrightarrow> r' = r"
  by (metis snd_checked_validate snd_ok_throw(1))

lemma shrink_usable: "shrink_host_capacity n r = ok x r' \<Longrightarrow> host_capacity_usable r' \<le> n"
  by (auto simp: shrink_host_capacity_def after_check_eq_ok rebuild_free_host_slots_def split: if_splits dest!: checked_validate_ok)

lemma grow_usable: "grow_host_capacity n r = ok x r' \<Longrightarrow> host_capacity_usable r < n \<Longrightarrow> host_capacity_usable r' = n"
  by (auto simp: grow_host_capacity_def and_then_eq_ok split: if_splits dest!: checked_validate_ok)

text \<open>What the four steps share of the state they leave.\<close>

definition same_region :: "host_services \<Rightarrow> host_services \<Rightarrow> bool" where
  "same_region h h' \<longleftrightarrow> hs_region h' = hs_region h \<and> hs_partition h' = hs_partition h"

lemma surrender_tail_ok:
  assumes "surrender_tail w h = ok u h'"
  shows "same_region h h'" "host_capacity_usable (registry (hs_supply h')) \<le> w"
    "host_pool (hs_supply h') = host_pool (hs_supply h)" "staging (hs_supply h') = staging (hs_supply h)"
  using assms
  by (auto simp: surrender_tail_def and_then_eq_ok on_host_supply_ok on_registry_ok same_region_def dest: shrink_usable split: if_splits)

lemma bind_lane_ok:
  assumes "bind_lane w h = ok u h'" and "region_base (hs_region h) = Some base"
  shows "same_region h h'" "registry (hs_supply h') = registry (hs_supply h)" "staging (hs_supply h') = staging (hs_supply h)"
    "i < w \<Longrightarrow> get_expert_slot_ptr (host_pool (hs_supply h')) i =
       Inr (base + (hp_lane_base (hs_partition h) + i) * payload_bytes (region_format (hs_region h)))"
proof -
  obtain lane p hp where lane: "slot_ptr (hs_region h) (hp_lane_base (hs_partition h)) = Inr lane"
      and b: "pool_bind lane w (region_format (hs_region h)) (region_pinned (hs_region h)) (host_pool (hs_supply h), hs_heap h) = ok () (p, hp)"
      and h': "h' = h\<lparr>hs_supply := (hs_supply h)\<lparr>host_pool := p\<rparr>, hs_heap := hp\<rparr>"
    using assms(1) by (auto simp: bind_lane_def ok_def throw_def split: sum.splits prod.splits)
  show "same_region h h'" "registry (hs_supply h') = registry (hs_supply h)" "staging (hs_supply h') = staging (hs_supply h)"
    using h' by (simp_all add: same_region_def)
  show "get_expert_slot_ptr (host_pool (hs_supply h')) i = Inr (base + (hp_lane_base (hs_partition h) + i) * payload_bytes (region_format (hs_region h)))"
    if "i < w"
    using pool_bind_slot_ptr(1)[OF b, of i] that lane assms(2) h' by (auto simp: slot_ptr_def algebra_simps split: if_splits)
qed

lemma recover_tail_ok:
  assumes "recover_tail w h = ok u h'" and "host_capacity_usable (registry (hs_supply h)) \<le> w"
  shows "same_region h h'" "host_capacity_usable (registry (hs_supply h')) = w"
    "host_pool (hs_supply h') = host_pool (hs_supply h)" "staging (hs_supply h') = staging (hs_supply h)"
  using assms
  by (auto simp: recover_tail_def on_host_supply_ok on_registry_ok same_region_def dest: grow_usable split: if_splits)

lemma bind_corridor_ok:
  assumes "bind_corridor n h = ok u h'" and "region_base (hs_region h) = Some base" and "n \<le> region_slot_count (hs_region h)"
  shows "same_region h h'" "registry (hs_supply h') = registry (hs_supply h)" "host_pool (hs_supply h') = host_pool (hs_supply h)"
    "slot_count (staging (hs_supply h')) = n" "arena_format (staging (hs_supply h')) = region_format (hs_region h)"
    "j < n \<Longrightarrow> get_slot_ptr (staging (hs_supply h')) j =
       Inr (base + (region_slot_count (hs_region h) - n + j) * payload_bytes (region_format (hs_region h)))"
proof -
  obtain c a where c: "slot_ptr (hs_region h) (region_slot_count (hs_region h) - n) = Inr c"
      and b: "arena_bind c n (region_format (hs_region h)) (staging (hs_supply h)) = ok () a"
      and h': "h' = h\<lparr>hs_supply := (hs_supply h)\<lparr>staging := a\<rparr>\<rparr>"
    using assms(1) by (auto simp: bind_corridor_def on_host_supply_ok on_staging_ok split: sum.splits)
  note f = arena_bind_ok[OF b]
  show "same_region h h'" "registry (hs_supply h') = registry (hs_supply h)" "host_pool (hs_supply h') = host_pool (hs_supply h)"
    "slot_count (staging (hs_supply h')) = n" "arena_format (staging (hs_supply h')) = region_format (hs_region h)"
    using h' f by (simp_all add: same_region_def)
  show "get_slot_ptr (staging (hs_supply h')) j =
       Inr (base + (region_slot_count (hs_region h) - n + j) * payload_bytes (region_format (hs_region h)))" if "j < n"
    using f that c assms(2) h' by (auto simp: get_slot_ptr_def validate_slot_def slot_ptr_def algebra_simps split: if_splits)
qed

lemma partition_apply_steps:
  assumes "hp_active (hs_partition h)" and "warm \<noteq> hp_current_warm_slots (hs_partition h) \<or> slots \<noteq> slot_count (staging (hs_supply h))"
    and "partition_apply warm slots per_layer leases h = ok () h'"
  obtains h1 h2 h3 h4 where "surrender_tail warm h = ok () h1" "bind_lane warm h1 = ok () h2" "recover_tail warm h2 = ok () h3"
    "bind_corridor slots h3 = ok () h4"
    "h' = (let h5 = account_staging slots (refresh_sweep_banks per_layer h4) in
       h5\<lparr>hs_partition := (hs_partition h5)\<lparr>hp_current_warm_slots := warm\<rparr>\<rparr>)"
    "slots \<le> region_slot_count (hs_region h)"
    "0 < warm \<longrightarrow> u32 (hp_lane_base (hs_partition h) + warm) \<le> region_slot_count (hs_region h) - slots"
proof -
  let ?fin = "\<lambda>h4. let h5 = account_staging slots (refresh_sweep_banks per_layer h4) in
    h5\<lparr>hs_partition := (hs_partition h5)\<lparr>hp_current_warm_slots := warm\<rparr>\<rparr>"
  have go: "\<not> (\<not> hp_active (hs_partition h) \<or> warm = hp_current_warm_slots (hs_partition h) \<and> slots = slot_count (staging (hs_supply h)))" using assms(1,2) by simp
  have idle: "\<not> (in_use_slots (staging (hs_supply h)) \<noteq> 0 \<or> leases \<noteq> 0)"
    using assms(3) go unfolding partition_apply_def Let_def by (metis ok_throw_inject(4))
  have fit: "\<not> (region_slot_count (hs_region h) < slots \<or> 0 < warm \<and> region_slot_count (hs_region h) - slots < u32 (hp_lane_base (hs_partition h) + warm))"
    using assms(3) go idle unfolding partition_apply_def Let_def by (metis ok_throw_inject(4))
  have "and_then (surrender_tail warm h) (\<lambda>_ h1. and_then (bind_lane warm h1) (\<lambda>_ h2. and_then (recover_tail warm h2) (\<lambda>_ h3.
      and_then (bind_corridor slots h3) (\<lambda>_ h4. ok () (?fin h4))))) = ok () h'"
    using assms(3) unfolding partition_apply_def Let_def if_not_P[OF go] if_not_P[OF idle] if_not_P[OF fit] .
  with fit that show thesis unfolding and_then_eq_ok by auto
qed

lemma partition_apply_cut_moved_full:
  assumes "hp_active (hs_partition h)" and "warm \<noteq> hp_current_warm_slots (hs_partition h) \<or> slots \<noteq> slot_count (staging (hs_supply h))"
    and "region_base (hs_region h) = Some base" and "hp_lane_base (hs_partition h) + warm < 2 ^ 32"
    and "partition_apply warm slots per_layer leases h = ok () h'"
  shows "let s = hs_supply h'; bytes = payload_bytes (region_format (hs_region h)) in
     host_capacity_usable (registry s) = warm \<and> slot_count (staging s) = slots \<and> hp_current_warm_slots (hs_partition h') = warm \<and>
     (\<forall>i < warm. \<forall>j < slots. \<exists>a c. get_expert_slot_ptr (host_pool s) i = Inr a \<and> get_slot_ptr (staging s) j = Inr c \<and>
        base \<le> a \<and> a + bytes \<le> c \<and> c + bytes \<le> base + region_slot_count (hs_region h) * bytes) \<and>
     sw_staging_banks (hs_sweep h') * per_layer \<le> max per_layer slots \<and>
     transient_staging_bytes (hs_budget h') = slots * bytes"
proof -
  let ?hp = "hs_partition h" and ?R = "region_slot_count (hs_region h)" and ?P = "payload_bytes (region_format (hs_region h))"
  let ?fin = "\<lambda>h4. let h5 = account_staging slots (refresh_sweep_banks per_layer h4) in
    h5\<lparr>hs_partition := (hs_partition h5)\<lparr>hp_current_warm_slots := warm\<rparr>\<rparr>"
  obtain h1 h2 h3 h4 where st: "surrender_tail warm h = ok () h1" "bind_lane warm h1 = ok () h2" "recover_tail warm h2 = ok () h3"
      "bind_corridor slots h3 = ok () h4" and h': "h' = ?fin h4"
      and fit: "slots \<le> ?R" "0 < warm \<longrightarrow> u32 (hp_lane_base ?hp + warm) \<le> ?R - slots"
    by (rule partition_apply_steps[OF assms(1,2,5)])
  have fit': "0 < warm \<longrightarrow> hp_lane_base ?hp + warm \<le> ?R - slots" using fit(2) assms(4) by simp
  note t = surrender_tail_ok[OF st(1)]
  have r1: "hs_region h1 = hs_region h" "hs_partition h1 = ?hp" using t(1) by (simp_all add: same_region_def)
  note l = bind_lane_ok[OF st(2), unfolded r1, OF assms(3)]
  have r2: "hs_region h2 = hs_region h" "hs_partition h2 = ?hp" using l(1) r1 by (simp_all add: same_region_def)
  have u: "host_capacity_usable (registry (hs_supply h2)) \<le> warm" using t(2) l(2) by simp
  note g = recover_tail_ok[OF st(3) u]
  have r3: "hs_region h3 = hs_region h" using g(1) r2 by (simp add: same_region_def)
  note c = bind_corridor_ok[OF st(4), unfolded r3, OF assms(3) fit(1)]
  have s: "hs_supply h' = hs_supply h4" using h' by (simp add: account_staging_def refresh_sweep_banks_def Let_def)
  have apart: "(hp_lane_base ?hp + i) * ?P + ?P \<le> (?R - slots + j) * ?P" if "i < warm" for i j
  proof -
    have "Suc (hp_lane_base ?hp + i) \<le> ?R - slots + j" using that fit' by simp
    then have "Suc (hp_lane_base ?hp + i) * ?P \<le> (?R - slots + j) * ?P" by (rule mult_le_mono1)
    then show ?thesis by simp
  qed
  have inside: "(?R - slots + j) * ?P + ?P \<le> ?R * ?P" if "j < slots" for j
  proof -
    have "Suc (?R - slots + j) \<le> ?R" using that fit(1) by simp
    then have "Suc (?R - slots + j) * ?P \<le> ?R * ?P" by (rule mult_le_mono1)
    then show ?thesis by simp
  qed
  have "sw_staging_banks (hs_sweep h') * per_layer \<le> max per_layer slots"
    using h' c(4) by (auto simp: account_staging_def refresh_sweep_banks_def sweep_configure_def Let_def max_def)
  moreover have "transient_staging_bytes (hs_budget h') = slots * ?P"
    using h' c(5) by (simp add: account_staging_def refresh_sweep_banks_def Let_def)
  moreover have "\<exists>a d. get_expert_slot_ptr (host_pool (hs_supply h')) i = Inr a \<and> get_slot_ptr (staging (hs_supply h')) j = Inr d \<and>
        base \<le> a \<and> a + ?P \<le> d \<and> d + ?P \<le> base + ?R * ?P" if "i < warm" "j < slots" for i j
    using l(4)[OF that(1)] c(6)[OF that(2)] c(3) g(3) s apart[OF that(1), of j] inside[OF that(2)] by simp
  ultimately show ?thesis
    using h' s c(2,4) g(2) by (simp add: Let_def)
qed

lemma partition_apply_cut_moved:
  assumes "hp_active (hs_partition h)" and "warm \<noteq> hp_current_warm_slots (hs_partition h) \<or> slots \<noteq> slot_count (staging (hs_supply h))"
    and "region_base (hs_region h) = Some base" and "hp_lane_base (hs_partition h) + warm < 2 ^ 32"
    and "partition_apply warm slots per_layer leases h = ok () h'"
  shows "host_capacity_usable (registry (hs_supply h')) = warm" "slot_count (staging (hs_supply h')) = slots"
    "hp_current_warm_slots (hs_partition h') = warm"
  using partition_apply_cut_moved_full[OF assms] by (simp_all add: Let_def)

section \<open>Properties\<close>

text \<open>C38: a moved boundary separates Warm from the corridor. When \<open>apply\<close> returns from an actual move, the registry
  uses exactly the requested Warm slots; every Warm slot of the pool and every slot of the arena has its own bytes
  inside the region, each Warm slot ends before each corridor slot begins; the sweep's banks fit the arena; and
  the report accounts for the corridor.\<close>

theorem partition_separates:
  assumes "hp_active (hs_partition h)" and "warm \<noteq> hp_current_warm_slots (hs_partition h) \<or> slots \<noteq> slot_count (staging (hs_supply h))"
    and "region_base (hs_region h) = Some base" and "hp_lane_base (hs_partition h) + warm < 2 ^ 32"
    and "partition_apply warm slots per_layer leases h = ok () h'"
  shows "let s = hs_supply h'; bytes = payload_bytes (region_format (hs_region h)) in
     host_capacity_usable (registry s) = warm \<and> slot_count (staging s) = slots \<and> hp_current_warm_slots (hs_partition h') = warm \<and>
     (\<forall>i < warm. \<forall>j < slots. \<exists>a c. get_expert_slot_ptr (host_pool s) i = Inr a \<and> get_slot_ptr (staging s) j = Inr c \<and>
        base \<le> a \<and> a + bytes \<le> c \<and> c + bytes \<le> base + region_slot_count (hs_region h) * bytes) \<and>
     sw_staging_banks (hs_sweep h') * per_layer \<le> max per_layer slots \<and>
     transient_staging_bytes (hs_budget h') = slots * bytes"
  by (rule partition_apply_cut_moved_full[OF assms])

text \<open>Six region slots, of which the first two are Warm's lane; the corridor has four.\<close>

definition small_host :: host_services where
  "small_host = \<lparr>hs_partition = partition_configure True \<lparr>decode_slots = 4, batch_slots = 4, prefill_slots = 5, peak_slots = 5\<rparr> True 6 0 2
       \<lparr>hp_active = False, hp_region_slots = 0, hp_lane_base = 0, hp_lane_slots = 0, hp_staging_decode_slots = 0,
        hp_staging_batch_slots = 0, hp_staging_prefill_slots = 0, hp_staging_floor_slots = 0, hp_warm_slots_decode = 0,
        hp_warm_slots_routed = 0, hp_warm_slots_prefill = 0, hp_current_warm_slots = 0, hp_sweep_staging_banks = 2\<rparr>,
     hs_sweep = new_sweep, hs_supply = (small_supply True)\<lparr>host_pool := empty_pool\<lparr>pool_owns_memory := False\<rparr>\<rparr>,
     hs_region = \<lparr>region_base = Some 0, region_slot_count = 6, region_hip_malloc = True, region_hip_register = False, region_format = current_format\<rparr>,
     hs_heap = [], hs_budget = empty_report, hs_leases = []\<rparr>"

theorem partition_separates_witness:
  "\<exists>h'. partition_apply 1 5 3 0 small_host = ok () h' \<and> host_capacity_usable (registry (hs_supply h')) = 1 \<and>
     slot_count (staging (hs_supply h')) = 5 \<and>
     (\<exists>a c. get_expert_slot_ptr (host_pool (hs_supply h')) 0 = Inr a \<and> get_slot_ptr (staging (hs_supply h')) 0 = Inr c \<and>
        a + payload_bytes current_format \<le> c)"
proof -
  let ?m = "partition_apply 1 5 3 0 small_host"
  have m: "?m = ok () (snd ?m)" by (rule outcome_ok) code_simp
  have h: "hp_active (hs_partition small_host)" "hp_lane_base (hs_partition small_host) + 1 < 2 ^ 32"
      "1 \<noteq> hp_current_warm_slots (hs_partition small_host) \<or> 5 \<noteq> slot_count (staging (hs_supply small_host))" by code_simp+
  have r: "region_base (hs_region small_host) = Some 0" "region_format (hs_region small_host) = current_format" by (simp_all add: small_host_def)
  from partition_separates[OF h(1,3) r(1) h(2) m] r(2) show ?thesis
    by (intro exI[of _ "snd ?m"] conjI m) (auto simp: Let_def dest!: spec[of _ "0::nat"])
qed

end
