(* ===== verification/Prefill_Controller.thy ===== *)
theory Prefill_Controller
  imports Host_Partition
begin

text \<open>
  The lifecycle of a prefill window, \<^verbatim>\<open>src/infrastructure/prefill/prefill_controller.hpp\<close>, over the partition and the sweep,
  with the executor's lease list (\<open>release_leases\<close> of \<^verbatim>\<open>v4_expert_executor.hpp\<close>). A stream synchronisation is a call
  whose success the environment answers.
\<close>

record PrefillController =
  pc_bound :: bool
  pc_sweep_requested :: bool
  pc_min_tokens :: nat
  pc_prefill_active :: bool
  pc_sweep_active :: bool

type_synonym window_state = "PrefillController \<times> host_services"
type_synonym 'a window_outcome = "(exn, window_state, 'a) outcome option"

definition controller_configure :: "bool \<Rightarrow> nat \<Rightarrow> PrefillController \<Rightarrow> PrefillController" where
  "controller_configure requested min_tokens c = c\<lparr>pc_sweep_requested := requested, pc_min_tokens := min_tokens\<rparr>"

definition sweep_enabled :: "window_state \<Rightarrow> bool" where
  "sweep_enabled t \<longleftrightarrow> pc_sweep_requested (fst t) \<and> is_feasible (hs_supply (snd t))"

definition engaged_for :: "nat \<Rightarrow> window_state \<Rightarrow> bool" where
  "engaged_for window_tokens t \<longleftrightarrow> sweep_enabled t \<and> pc_min_tokens (fst t) \<le> window_tokens"

definition on_host :: "(host_services \<Rightarrow> 'a host_outcome) \<Rightarrow> window_state \<Rightarrow> 'a window_outcome" where
  "on_host f t = (case f (snd t) of (res, h) \<Rightarrow> Some (res, (fst t, h)))"

definition on_window_sweep :: "(sweep_state \<Rightarrow> 'a sweep_outcome) \<Rightarrow> window_state \<Rightarrow> 'a window_outcome" where
  "on_window_sweep f t = (case f (hs_sweep (snd t), hs_supply (snd t)) of
     None \<Rightarrow> None
   | Some (res, (p, s)) \<Rightarrow> Some (res, (fst t, (snd t)\<lparr>hs_sweep := p, hs_supply := s\<rparr>)))"

definition drain :: "supply_env \<Rightarrow> host_services \<Rightarrow> unit host_outcome" where
  "drain env h = (if list_all (hip_ok env ''hipStreamSynchronize'') [0..<4] then ok () h else throw (runtime_error ''HIP Error'') h)"

definition executor_release_leases :: "host_services \<Rightarrow> unit host_outcome" where
  "executor_release_leases h =
     and_then (on_host_supply (for_each (\<lambda>g. on_registry (release_lease g)) (hs_leases h)) h) (\<lambda>_ h1. ok () (h1\<lparr>hs_leases := []\<rparr>))"

definition quiesce :: "supply_world \<Rightarrow> supply_config \<Rightarrow> host_services \<Rightarrow> unit host_outcome" where
  "quiesce w cfg h = and_then (drain (w_env w) h) (\<lambda>_ h1.
     and_then (on_host_supply (lbs_reap (V4ExpertSupplyCoordinator w cfg)) h1) (\<lambda>_ h2. executor_release_leases h2))"

definition move_partition :: "nat \<Rightarrow> nat \<Rightarrow> host_services \<Rightarrow> unit host_outcome" where
  "move_partition warm slots h =
     (if hp_active (hs_partition h)
      then partition_apply warm slots (experts_per_layer (registry (hs_supply h))) (length (hs_leases h)) h else ok () h)"

definition open_window :: "supply_world \<Rightarrow> supply_config \<Rightarrow> nat \<Rightarrow> window_state \<Rightarrow> unit window_outcome" where
  "open_window w cfg window_tokens t =
     (if \<not> pc_bound (fst t) then returned () ((fst t)\<lparr>pc_prefill_active := False, pc_sweep_active := False\<rparr>, snd t)
      else
        let act = sweep_enabled t; sweeps = (act \<and> pc_min_tokens (fst t) \<le> window_tokens); hp = hs_partition (snd t);
            t1 = ((fst t)\<lparr>pc_prefill_active := act, pc_sweep_active := sweeps\<rparr>, snd t) in
        run_then (on_host (\<lambda>h. if act \<or> hp_active hp then quiesce w cfg h else ok () h) t1) (\<lambda>_ t2.
          on_host (move_partition (if sweeps then hp_warm_slots_prefill hp else hp_warm_slots_routed hp)
            (if sweeps then hp_staging_prefill_slots hp else hp_staging_batch_slots hp)) t2))"

definition begin_strategy :: "supply_world \<Rightarrow> supply_config \<Rightarrow> window_state \<Rightarrow> unit window_outcome" where
  "begin_strategy w cfg t =
     (if \<not> pc_bound (fst t) \<or> \<not> pc_prefill_active (fst t) then returned () t
      else if pc_sweep_active (fst t) then on_window_sweep (sweep_begin (V4ExpertSupplyCoordinator w cfg)) t
      else on_host (on_host_supply (\<lambda>s. on_registry (begin_prefill_stream (experts_per_layer (registry s)) BoundedEvict) s)) t)"

definition window_begin :: "supply_world \<Rightarrow> supply_config \<Rightarrow> nat \<Rightarrow> window_state \<Rightarrow> unit window_outcome" where
  "window_begin w cfg window_tokens t = run_then (open_window w cfg window_tokens t) (\<lambda>_ t1. begin_strategy w cfg t1)"

definition window_before_layer :: "supply_world \<Rightarrow> supply_config \<Rightarrow> nat \<Rightarrow> window_state \<Rightarrow> unit window_outcome" where
  "window_before_layer w cfg layer t =
     (if pc_prefill_active (fst t) \<and> pc_sweep_active (fst t)
      then on_window_sweep (before_layer (V4ExpertSupplyCoordinator w cfg) layer) t else returned () t)"

definition window_after_layer :: "supply_world \<Rightarrow> supply_config \<Rightarrow> nat \<Rightarrow> window_state \<Rightarrow> unit window_outcome" where
  "window_after_layer w cfg layer t =
     (if \<not> pc_prefill_active (fst t) then returned () t
      else if pc_sweep_active (fst t) then on_window_sweep (after_layer (V4ExpertSupplyCoordinator w cfg) layer) t
      else on_host (\<lambda>h. and_then (drain (w_env w) h) (\<lambda>_ h1.
        and_then (on_host_supply (lbs_reap (V4ExpertSupplyCoordinator w cfg)) h1) (\<lambda>_ h2.
          on_host_supply (on_registry (release_layer layer)) h2))) t)"

definition end_strategy :: "supply_world \<Rightarrow> supply_config \<Rightarrow> window_state \<Rightarrow> unit window_outcome" where
  "end_strategy w cfg t =
     (if \<not> pc_bound (fst t) then returned () t
      else run_then (on_host (\<lambda>h. if hp_active (hs_partition h) \<or> pc_prefill_active (fst t) then quiesce w cfg h else ok () h) t) (\<lambda>_ t1.
        if \<not> pc_prefill_active (fst t1) then returned () t1
        else if pc_sweep_active (fst t1) then on_window_sweep (sweep_end (V4ExpertSupplyCoordinator w cfg)) t1
        else on_host (on_host_supply (on_registry end_prefill_stream)) t1))"

definition close_window :: "window_state \<Rightarrow> unit window_outcome" where
  "close_window t =
     (if \<not> pc_bound (fst t) then returned () t
      else on_host (move_partition (hp_warm_slots_decode (hs_partition (snd t))) (hp_staging_decode_slots (hs_partition (snd t)))) t)"

definition window_end :: "supply_world \<Rightarrow> supply_config \<Rightarrow> window_state \<Rightarrow> unit window_outcome" where
  "window_end w cfg t = run_then (end_strategy w cfg t) (\<lambda>_ t1. close_window t1)"

definition window_pump :: "supply_world \<Rightarrow> supply_config \<Rightarrow> window_state \<Rightarrow> nat window_outcome" where
  "window_pump w cfg t = on_window_sweep (pump (V4ExpertSupplyCoordinator w cfg)) t"

subsection \<open>The decode cut returns\<close>

text \<open>The shape the partition is at: the two numbers \<open>apply\<close> compares are those of the registry and the arena.\<close>

definition cut_to :: "nat \<Rightarrow> nat \<Rightarrow> host_services \<Rightarrow> bool" where
  "cut_to warm slots h \<longleftrightarrow> hp_current_warm_slots (hs_partition h) = warm \<and> host_capacity_usable (registry (hs_supply h)) = warm \<and>
     slot_count (staging (hs_supply h)) = slots"

lemma partition_apply_cuts:
  assumes "hp_active (hs_partition h)" and "region_base (hs_region h) \<noteq> None" and "hp_lane_base (hs_partition h) + warm < 2 ^ 32"
    and "\<exists>w n. cut_to w n h" and "partition_apply warm slots per_layer leases h = ok () h'"
  shows "cut_to warm slots h'"
proof (cases "warm = hp_current_warm_slots (hs_partition h) \<and> slots = slot_count (staging (hs_supply h))")
  case True
  then show ?thesis using assms(1,4,5) by (auto simp: partition_apply_def Let_def cut_to_def)
next
  case False
  obtain base where b: "region_base (hs_region h) = Some base" using assms(2) by blast
  then show ?thesis
    using partition_apply_cut_moved[OF assms(1) _ b assms(3,5)] False by (auto simp: cut_to_def)
qed

end
