(* ===== verification/Binary_Float.thy ===== *)
theory Binary_Float
  imports Aeon_Errors
begin

text \<open>
  Decimal text to binary floating point, as the C++ library does it for \<^verbatim>\<open>std::stod\<close> and the narrowing
  \<^verbatim>\<open>static_cast<float>\<close>. A finite number is a sign, a mantissa and a binary exponent; a value that arises
  from text or from narrowing is never a NaN. Rounding is to the nearest, ties to even. The fraction
  \<open>p / q\<close> that is rounded is exact, in unbounded naturals.
\<close>

datatype fp = Finite bool nat int | Infinite bool

text \<open>The number of binary digits, and the exponent \<open>e\<close> with \<open>2 ^ e \<le> p / q < 2 ^ (e + 1)\<close>.\<close>

fun bit_length :: "nat \<Rightarrow> nat" where
  "bit_length n = (if n = 0 then 0 else Suc (bit_length (n div 2)))"

declare bit_length.simps [simp del]

definition scaled :: "nat \<Rightarrow> nat \<Rightarrow> int \<Rightarrow> nat \<times> nat" where
  "scaled p q k = (if 0 \<le> k then (p, q * 2 ^ nat k) else (p * 2 ^ nat (- k), q))"

definition exponent :: "nat \<Rightarrow> nat \<Rightarrow> int" where
  "exponent p q =
     (let e = int (bit_length p) - int (bit_length q)
      in case scaled p q e of (a, b) \<Rightarrow> if b \<le> a then e else e - 1)"

definition round_half_even :: "nat \<Rightarrow> nat \<Rightarrow> nat" where
  "round_half_even a b =
     (if 2 * (a mod b) < b \<or> 2 * (a mod b) = b \<and> even (a div b) then a div b else Suc (a div b))"

text \<open>A format has \<open>prec\<close> mantissa bits, the least exponent \<open>emin\<close> of a mantissa unit, and the least power
  of two \<open>emax\<close> that overflows.\<close>

definition round_fp :: "nat \<Rightarrow> int \<Rightarrow> int \<Rightarrow> bool \<Rightarrow> nat \<Rightarrow> nat \<Rightarrow> fp" where
  "round_fp prec emin emax neg p q =
     (if p = 0 then Finite neg 0 emin
      else
        let k = max (exponent p q - int prec + 1) emin;
            m = (case scaled p q k of (a, b) \<Rightarrow> round_half_even a b);
            (m', k') = (if m = 2 ^ prec then (2 ^ (prec - 1), k + 1) else (m, k))
        in if emax - int prec < k' then Infinite neg else Finite neg m' k')"

text \<open>\<^verbatim>\<open>std::stod\<close> throws \<^verbatim>\<open>out_of_range\<close> on overflow, and when the result is subnormal and not exact.\<close>

definition exact :: "nat \<Rightarrow> nat \<Rightarrow> nat \<Rightarrow> int \<Rightarrow> bool" where
  "exact p q m k \<longleftrightarrow> (case scaled p q k of (a, b) \<Rightarrow> a = m * b)"

definition stod_fraction :: "bool \<Rightarrow> nat \<Rightarrow> nat \<Rightarrow> exn + fp" where
  "stod_fraction neg p q =
     (case round_fp 53 (- 1074) 1024 neg p q of
        Infinite _ \<Rightarrow> Inl (out_of_range ''stod'')
      | Finite s m k \<Rightarrow> if m < 2 ^ 52 \<and> \<not> exact p q m k then Inl (out_of_range ''stod'') else Inr (Finite s m k))"

definition to_float :: "fp \<Rightarrow> fp" where
  "to_float x = (case x of
     Infinite s \<Rightarrow> Infinite s
   | Finite s m k \<Rightarrow> (if 0 \<le> k then round_fp 24 (- 149) 128 s (m * 2 ^ nat k) 1 else round_fp 24 (- 149) 128 s m (2 ^ nat (- k))))"

text \<open>Whole numbers: \<^verbatim>\<open>std::trunc (x) == x\<close>, and the value then.\<close>

fun is_whole :: "fp \<Rightarrow> bool" where
  "is_whole (Finite s m k) \<longleftrightarrow> 0 \<le> k \<or> 2 ^ nat (- k) dvd m"
| "is_whole (Infinite s) \<longleftrightarrow> False"

fun whole_value :: "fp \<Rightarrow> int" where
  "whole_value (Finite s m k) = (if s then - 1 else 1) * int (if 0 \<le> k then m * 2 ^ nat k else m div 2 ^ nat (- k))"
| "whole_value (Infinite s) = 0"

fun is_zero :: "fp \<Rightarrow> bool" where
  "is_zero (Finite s m k) \<longleftrightarrow> m = 0"
| "is_zero (Infinite s) \<longleftrightarrow> False"

subsection \<open>Rounding keeps what fits\<close>

lemma bit_length_bounds: "0 < n \<Longrightarrow> 2 ^ (bit_length n - 1) \<le> n \<and> n < 2 ^ bit_length n"
proof (induction n rule: bit_length.induct)
  case (1 n)
  show ?case
  proof (cases "n div 2 = 0")
    case True
    then show ?thesis using 1 by (simp add: bit_length.simps[of n] bit_length.simps[of 0])
  next
    case False
    then obtain b where b: "bit_length (n div 2) = Suc b" by (simp add: bit_length.simps[of "n div 2"])
    have "2 ^ b \<le> n div 2 \<and> n div 2 < 2 ^ Suc b" using 1 False b by simp
    then show ?thesis using b 1(2) by (simp add: bit_length.simps[of n]) linarith
  qed
qed

lemma bit_length_0 [simp]: "bit_length 0 = 0"
  by (simp add: bit_length.simps)

lemma bit_length_1 [simp]: "bit_length 1 = 1" "bit_length (Suc 0) = 1"
  by (simp_all add: bit_length.simps)

lemma bit_length_le: "n < 2 ^ k \<Longrightarrow> bit_length n \<le> k"
proof (cases "n = 0")
  case False
  assume n: "n < 2 ^ k"
  have "(2::nat) ^ (bit_length n - 1) < 2 ^ k" using bit_length_bounds[of n] False n by linarith
  then have "bit_length n - 1 < k" by simp
  then show ?thesis by linarith
qed simp

lemma exponent_whole: "0 < n \<Longrightarrow> exponent n 1 = int (bit_length n) - 1"
  using bit_length_bounds[of n] by (simp add: exponent_def scaled_def Let_def nat_diff_distrib')

lemma round_half_even_mult [simp]: "0 < b \<Longrightarrow> round_half_even (m * b) b = m"
  by (simp add: round_half_even_def)

text \<open>A natural of at most \<open>prec\<close> bits is represented exactly.\<close>

lemma round_fp_whole:
  assumes "n < 2 ^ prec" and "emin \<le> 0" and "int prec < emax" and "0 < prec"
  shows "\<exists>m k. round_fp prec emin emax s n 1 = Finite s m k \<and> k \<le> 0 \<and> is_whole (Finite s m k) \<and>
     whole_value (Finite s m k) = (if s then - int n else int n) \<and> m = n * 2 ^ nat (- k)"
proof (cases "n = 0")
  case True
  then show ?thesis using assms(2) by (auto simp: round_fp_def)
next
  case False
  define k where "k = max (exponent n 1 - int prec + 1) emin"
  have bl: "bit_length n \<le> prec" using bit_length_le assms(1) by blast
  have k0: "k \<le> 0" using assms(2) bl False by (simp add: k_def exponent_whole del: One_nat_def)
  have small: "n * 2 ^ nat (- k) < 2 ^ prec"
  proof -
    have "nat (- k) \<le> prec - bit_length n" using bl False by (simp add: k_def exponent_whole del: One_nat_def)
    then have "(2::nat) ^ nat (- k) \<le> 2 ^ (prec - bit_length n)" by (rule power_increasing) simp
    then have "n * 2 ^ nat (- k) \<le> n * 2 ^ (prec - bit_length n)" by (rule mult_le_mono2)
    moreover have "n * 2 ^ (prec - bit_length n) < 2 ^ bit_length n * 2 ^ (prec - bit_length n)"
      using bit_length_bounds[of n] False by simp
    ultimately show ?thesis using bl by (metis le_add_diff_inverse order_le_less_trans power_add)
  qed
  have m: "(case scaled n 1 k of (a, b) \<Rightarrow> round_half_even a b) = n * 2 ^ nat (- k)"
    using k0 round_half_even_mult[of 1 "n * 2 ^ nat (- k)"] by (auto simp: scaled_def)
  have "round_fp prec emin emax s n 1 = Finite s (n * 2 ^ nat (- k)) k"
    using False small m k0 assms(3) unfolding round_fp_def Let_def k_def[symmetric] by simp
  moreover have "k = 0 \<or> \<not> 0 \<le> k" using k0 by linarith
  ultimately show ?thesis using k0 by (auto simp del: One_nat_def)
qed

lemma stod_whole:
  assumes "n < 2 ^ 53"
  shows "\<exists>x. stod_fraction s n 1 = Inr x \<and> is_whole x \<and> whole_value x = (if s then - int n else int n) \<and> (is_zero x \<longleftrightarrow> n = 0)"
proof -
  obtain m k where r: "round_fp 53 (- 1074) 1024 s n 1 = Finite s m k" "k \<le> 0" "is_whole (Finite s m k)"
      "whole_value (Finite s m k) = (if s then - int n else int n)" "m = n * 2 ^ nat (- k)"
    using round_fp_whole[of n 53 "- 1074" 1024 s] assms by auto
  have "exact n 1 m k" using r by (auto simp: exact_def scaled_def)
  then have st: "stod_fraction s n 1 = Inr (Finite s m k)" unfolding stod_fraction_def r(1) by simp
  show ?thesis
    by (rule exI[of _ "Finite s m k"]) (use st r(3,4,5) in simp)
qed

lemma stod_nat:
  assumes "n < 2 ^ 1000"
  shows "\<exists>x. stod_fraction s n 1 = Inr x"
proof (cases "n < 2 ^ 53")
  case True
  then show ?thesis using stod_whole[OF True, of s] by blast
next
  case False
  define b where "b = bit_length n"
  have n0: "0 < n" using False by (cases n) simp_all
  have b: "2 ^ (b - 1) \<le> n" "n < 2 ^ b" "b \<le> 1000"
    using bit_length_bounds[OF n0] bit_length_le[OF assms] by (simp_all add: b_def)
  have "(2::nat) ^ 53 < 2 ^ b" using False b(2) by linarith
  then have b53: "53 < b" by (rule power_less_imp_less_exp[rotated]) simp
  define k where "k = max (exponent n 1 - int 53 + 1) (- 1074)"
  have k: "k = int (b - 53)" "0 \<le> k" using b53 by (simp_all add: k_def exponent_whole[OF n0] b_def[symmetric] del: One_nat_def)
  define m where "m = (case scaled n 1 k of (x, y) \<Rightarrow> round_half_even x y)"
  have "52 + (b - 53) = b - 1" using b53 by simp
  then have "(2::nat) ^ 52 * 2 ^ (b - 53) = 2 ^ (b - 1)" by (metis power_add)
  then have "2 ^ 52 \<le> n div 2 ^ (b - 53)" using b(1) by (simp add: less_eq_div_iff_mult_less_eq)
  moreover have "n div 2 ^ (b - 53) \<le> m" using k by (simp add: m_def scaled_def round_half_even_def)
  ultimately have m: "2 ^ 52 \<le> m" by linarith
  have "\<exists>m' k'. round_fp 53 (- 1074) 1024 s n 1 = Finite s m' k' \<and> 2 ^ 52 \<le> m'"
    unfolding round_fp_def Let_def k_def[symmetric] m_def[symmetric] using n0 m k b(3) b53 by (auto split: if_splits)
  then show ?thesis by (auto simp: stod_fraction_def)
qed

end
