(* ===== verification/Conversation_Seam.thy ===== *)
theory Conversation_Seam
  imports Session Stream_Decoder Binary_Float
begin

text \<open>
  The types between the engine and the serving layer, \<^verbatim>\<open>src/infrastructure/session/conversation.hpp\<close>. Text
  is a \<open>string\<close> of eight-bit characters, except in a delta, whose bytes the stream decoder produces.
  The two durations of a result are what the clock said; nothing depends on them.
\<close>

datatype Role = SystemRole | DeveloperRole | UserRole | AssistantRole | ToolRole

record ToolCall =
  call_id :: string
  call_name :: string
  arguments_json :: string

record Message =
  msg_role :: Role
  msg_content :: string
  msg_reasoning :: string
  msg_tool_call_id :: string
  msg_tool_calls :: "ToolCall list"

record Sampling =
  temperature :: "fp option"
  top_p :: "fp option"
  sampling_seed :: "nat option"

record ConversationRequest =
  req_messages :: "Message list"
  req_tools_json :: string
  req_response_format_json :: string
  req_thinking :: bool
  req_reasoning_effort :: string
  req_max_new_tokens :: "nat option"
  req_sampling :: Sampling

record ConversationResult =
  res_stop :: StopReason
  res_prompt_tokens :: nat
  res_completion_tokens :: nat
  res_reused_tokens :: nat
  res_prefilled_tokens :: nat
  res_verdict :: ReuseVerdict
  res_ttft_ms :: fp
  res_tokens_per_second :: fp

definition zero_fp :: fp where
  "zero_fp = Finite False 0 (- 1074)"

definition default_result :: ConversationResult where
  "default_result = \<lparr>res_stop = Error, res_prompt_tokens = 0, res_completion_tokens = 0, res_reused_tokens = 0,
     res_prefilled_tokens = 0, res_verdict = Cold, res_ttft_ms = zero_fp, res_tokens_per_second = zero_fp\<rparr>"

record ConversationInfo =
  info_model_id :: string
  info_context_capacity :: nat
  info_resident_tokens :: nat
  info_invariants_ok :: bool

end
