(* ===== verification/Json_Value.thy ===== *)
theory Json_Value
  imports Binary_Float
begin

text \<open>
  The JSON reader of \<^verbatim>\<open>src/infrastructure/json.hpp\<close>: the value type with its accessors, and the
  recursive-descent parser. Text is a \<open>string\<close> of eight-bit characters. The parser's position is
  the rest of the text; \<open>Inr (x, rest)\<close> is a return and \<open>Inl e\<close> a throw. An object is the sorted list
  of its members, the order of the \<^verbatim>\<open>std::map\<close>.
\<close>

datatype JsonValue =
    JNull
  | JBool bool
  | JNumber fp
  | JString string
  | JArray "JsonValue list"
  | JObject "(string \<times> JsonValue) list"

abbreviation byte_of :: "char \<Rightarrow> nat" where
  "byte_of c \<equiv> of_char c"

abbreviation quote_char :: char where "quote_char \<equiv> CHR 0x22"
abbreviation backslash_char :: char where "backslash_char \<equiv> CHR 0x5C"

text \<open>The order of the keys, bytewise, and the insertion of a new key.\<close>

fun key_less :: "string \<Rightarrow> string \<Rightarrow> bool" where
  "key_less _ [] \<longleftrightarrow> False"
| "key_less [] (_ # _) \<longleftrightarrow> True"
| "key_less (a # as) (b # bs) \<longleftrightarrow> (byte_of a :: nat) < byte_of b \<or> a = b \<and> key_less as bs"

fun emplace :: "string \<Rightarrow> 'v \<Rightarrow> (string \<times> 'v) list \<Rightarrow> (string \<times> 'v) list" where
  "emplace k v [] = [(k, v)]"
| "emplace k v ((k', v') # m) = (if key_less k k' then (k, v) # (k', v') # m else (k', v') # emplace k v m)"

subsection \<open>The accessors\<close>

definition json_find :: "string \<Rightarrow> JsonValue \<Rightarrow> JsonValue option" where
  "json_find k v = (case v of JObject m \<Rightarrow> map_of m k | _ \<Rightarrow> None)"

definition json_at :: "string \<Rightarrow> JsonValue \<Rightarrow> exn + JsonValue" where
  "json_at k v = (case json_find k v of None \<Rightarrow> Inl (runtime_error ''JSON object is missing key'') | Some x \<Rightarrow> Inr x)"

fun as_bool :: "JsonValue \<Rightarrow> exn + bool" where
  "as_bool (JBool b) = Inr b"
| "as_bool _ = Inl (runtime_error ''JSON value is not a boolean'')"

fun as_number :: "JsonValue \<Rightarrow> exn + fp" where
  "as_number (JNumber x) = Inr x"
| "as_number _ = Inl (runtime_error ''JSON value is not a number'')"

fun as_string :: "JsonValue \<Rightarrow> exn + string" where
  "as_string (JString s) = Inr s"
| "as_string _ = Inl (runtime_error ''JSON value is not a string'')"

text \<open>The two bounds are the doubles nearest to the limits of \<^verbatim>\<open>int64_t\<close>, and the nearest to the upper
  one is \<open>2 ^ 63\<close>. Converting \<open>2 ^ 63\<close> is undefined in C++; the hardware's conversion gives \<open>- 2 ^ 63\<close>.\<close>

definition to_int64 :: "int \<Rightarrow> int" where
  "to_int64 v = (if - (2 ^ 63) \<le> v \<and> v < 2 ^ 63 then v else - (2 ^ 63))"

definition as_int64 :: "JsonValue \<Rightarrow> exn + int" where
  "as_int64 v = (case as_number v of Inl e \<Rightarrow> Inl e | Inr x \<Rightarrow>
     if \<not> is_whole x \<or> whole_value x < - (2 ^ 63) \<or> 2 ^ 63 < whole_value x
     then Inl (runtime_error ''JSON number is not a signed 64-bit integer'') else Inr (to_int64 (whole_value x)))"

subsection \<open>Scanning\<close>

definition parse_error :: "string \<Rightarrow> exn" where
  "parse_error m = runtime_error (''JSON parse error: '' @ m)"

definition is_ws :: "char \<Rightarrow> bool" where
  "is_ws c \<longleftrightarrow> c = CHR '' '' \<or> c = CHR 0x0A \<or> c = CHR 0x0D \<or> c = CHR 0x09"

definition skip_whitespace :: "string \<Rightarrow> string" where
  "skip_whitespace s = dropWhile is_ws s"

definition json_digit :: "char \<Rightarrow> bool" where
  "json_digit c \<longleftrightarrow> (48::nat) \<le> byte_of c \<and> byte_of c \<le> (57::nat)"

definition parse_literal :: "string \<Rightarrow> JsonValue \<Rightarrow> string \<Rightarrow> exn + JsonValue \<times> string" where
  "parse_literal expected v s =
     (if take (length expected) s = expected then Inr (v, drop (length expected) s) else Inl (parse_error ''invalid literal''))"

text \<open>The three parts of a number. \<^verbatim>\<open>std::stod\<close> then sees exactly the text scanned.\<close>

definition scan_integer :: "string \<Rightarrow> exn + string \<times> string" where
  "scan_integer s = (case s of
     [] \<Rightarrow> Inl (parse_error ''expected value'')
   | c # r \<Rightarrow> if \<not> json_digit c then Inl (parse_error ''expected value'')
       else if c = CHR ''0'' then Inr ([c], r) else Inr (takeWhile json_digit s, dropWhile json_digit s))"

definition scan_fraction :: "string \<Rightarrow> exn + string \<times> string" where
  "scan_fraction s = (case s of
     c # r \<Rightarrow> if c \<noteq> CHR ''.'' then Inr ([], s)
       else if takeWhile json_digit r = [] then Inl (parse_error ''invalid fractional part'')
       else Inr (takeWhile json_digit r, dropWhile json_digit r)
   | [] \<Rightarrow> Inr ([], s))"

definition scan_exponent :: "string \<Rightarrow> exn + (bool \<times> string) \<times> string" where
  "scan_exponent s = (case s of
     c # r \<Rightarrow> if c \<noteq> CHR ''e'' \<and> c \<noteq> CHR ''E'' then Inr ((False, []), s)
       else let (neg, r') = (case r of d # t \<Rightarrow> if d = CHR ''-'' then (True, t) else if d = CHR ''+'' then (False, t) else (False, r)
                             | [] \<Rightarrow> (False, r))
         in if takeWhile json_digit r' = [] then Inl (parse_error ''invalid exponent'')
            else Inr ((neg, takeWhile json_digit r'), dropWhile json_digit r')
   | [] \<Rightarrow> Inr ((False, []), s))"

definition json_digits :: "string \<Rightarrow> nat" where
  "json_digits ds = foldl (\<lambda>a d. 10 * a + (byte_of d - 48)) 0 ds"

definition json_decimal :: "bool \<Rightarrow> string \<Rightarrow> string \<Rightarrow> bool \<Rightarrow> string \<Rightarrow> exn + fp" where
  "json_decimal neg int_part fraction neg_exponent exponent_digits =
     (let n = json_digits (int_part @ fraction);
          e = (if neg_exponent then - int (json_digits exponent_digits) else int (json_digits exponent_digits)) - int (length fraction)
      in if 0 \<le> e then stod_fraction neg (n * 10 ^ nat e) 1 else stod_fraction neg n (10 ^ nat (- e)))"

definition parse_number :: "string \<Rightarrow> exn + JsonValue \<times> string" where
  "parse_number s =
     (let (neg, s1) = (case s of c # r \<Rightarrow> if c = CHR ''-'' then (True, r) else (False, s) | [] \<Rightarrow> (False, s)) in
      case scan_integer s1 of Inl e \<Rightarrow> Inl e | Inr (i, s2) \<Rightarrow>
      case scan_fraction s2 of Inl e \<Rightarrow> Inl e | Inr (f, s3) \<Rightarrow>
      case scan_exponent s3 of Inl e \<Rightarrow> Inl e | Inr ((en, ed), s4) \<Rightarrow>
      case json_decimal neg i f en ed of Inl _ \<Rightarrow> Inl (parse_error ''invalid number'') | Inr x \<Rightarrow> Inr (JNumber x, s4))"

subsection \<open>Strings\<close>

definition hex_value :: "char \<Rightarrow> nat option" where
  "hex_value c = (let b = byte_of c in
     if 48 \<le> b \<and> b \<le> 57 then Some (b - 48)
     else if 97 \<le> b \<and> b \<le> 102 then Some (b - 87)
     else if 65 \<le> b \<and> b \<le> 70 then Some (b - 55) else None)"

fun read_hex :: "nat \<Rightarrow> nat \<Rightarrow> string \<Rightarrow> exn + nat \<times> string" where
  "read_hex 0 acc s = Inr (acc, s)"
| "read_hex (Suc n) acc (c # s) = (case hex_value c of
     None \<Rightarrow> Inl (parse_error ''invalid unicode escape'') | Some d \<Rightarrow> read_hex n (16 * acc + d) s)"
| "read_hex (Suc n) acc [] = Inl (parse_error ''truncated unicode escape'')"

lemma read_hex_code [code]:
  "read_hex n acc s = (if n = 0 then Inr (acc, s) else case s of [] \<Rightarrow> Inl (parse_error ''truncated unicode escape'')
     | c # s' \<Rightarrow> (case hex_value c of None \<Rightarrow> Inl (parse_error ''invalid unicode escape'') | Some d \<Rightarrow> read_hex (n - 1) (16 * acc + d) s'))"
  by (cases n; cases s) (simp_all split: option.split)

definition read_hex4 :: "string \<Rightarrow> exn + nat \<times> string" where
  "read_hex4 s = (if length s < 4 then Inl (parse_error ''truncated unicode escape'') else read_hex 4 0 s)"

text \<open>The UTF-8 bytes of a code point; the shifts and masks are quotients and remainders.\<close>

definition append_code_point :: "nat \<Rightarrow> string" where
  "append_code_point c = map char_of
     (if c \<le> 0x7F then [c]
      else if c \<le> 0x7FF then [0xC0 + c div 64, 0x80 + c mod 64]
      else if c \<le> 0xFFFF then [0xE0 + c div 4096, 0x80 + c div 64 mod 64, 0x80 + c mod 64]
      else [0xF0 + c div 262144, 0x80 + c div 4096 mod 64, 0x80 + c div 64 mod 64, 0x80 + c mod 64])"

definition high_surrogate :: "nat \<Rightarrow> bool" where
  "high_surrogate c \<longleftrightarrow> 0xD800 \<le> c \<and> c \<le> 0xDBFF"

definition low_surrogate :: "nat \<Rightarrow> bool" where
  "low_surrogate c \<longleftrightarrow> 0xDC00 \<le> c \<and> c \<le> 0xDFFF"

definition surrogate_pair :: "nat \<Rightarrow> nat \<Rightarrow> nat" where
  "surrogate_pair high low = 0x10000 + (high - 0xD800) * 1024 + (low - 0xDC00)"

definition no_surrogate :: "nat \<Rightarrow> nat" where
  "no_surrogate c = (if 0xD800 \<le> c \<and> c \<le> 0xDFFF then 0xFFFD else c)"

definition append_unicode_escape :: "string \<Rightarrow> exn + string \<times> string" where
  "append_unicode_escape s =
     (case read_hex4 s of Inl e \<Rightarrow> Inl e | Inr (c, r) \<Rightarrow>
       (case r of
          a # b # t \<Rightarrow>
            if high_surrogate c \<and> a = backslash_char \<and> b = CHR ''u'' then
              (case read_hex4 t of Inl e \<Rightarrow> Inl e | Inr (low, t') \<Rightarrow>
                if low_surrogate low then Inr (append_code_point (no_surrogate (surrogate_pair c low)), t')
                else Inr (append_code_point (no_surrogate 0xFFFD), r))
            else Inr (append_code_point (no_surrogate c), r)
        | _ \<Rightarrow> Inr (append_code_point (no_surrogate c), r)))"

lemma read_hex_rest: "read_hex n a s = Inr (c, r) \<Longrightarrow> \<exists>ds. s = ds @ r \<and> length ds = n"
proof (induction n a s rule: read_hex.induct)
  case (2 n acc c s)
  then obtain d where "hex_value c = Some d" "\<exists>ds. s = ds @ r \<and> length ds = n" by (auto split: option.splits)
  then obtain ds where "c # s = (c # ds) @ r \<and> length (c # ds) = Suc n" by auto
  then show ?case by blast
qed auto

lemma read_hex4_rest: "read_hex4 s = Inr (c, r) \<Longrightarrow> \<exists>ds. s = ds @ r \<and> length ds = 4"
  using read_hex_rest by (auto simp: read_hex4_def split: if_splits)

lemma append_unicode_escape_rest: "append_unicode_escape s = Inr (u, r) \<Longrightarrow> length r < length s"
  by (auto simp: append_unicode_escape_def split: sum.splits list.splits if_splits dest!: read_hex4_rest)

text \<open>What one escape stands for, \<open>u\<close> apart.\<close>

definition simple_escape :: "char \<Rightarrow> char option" where
  "simple_escape c =
     (if c = quote_char \<or> c = backslash_char \<or> c = CHR ''/'' then Some c
      else if c = CHR ''b'' then Some (CHR 0x08) else if c = CHR ''f'' then Some (CHR 0x0C)
      else if c = CHR ''n'' then Some (CHR 0x0A) else if c = CHR ''r'' then Some (CHR 0x0D)
      else if c = CHR ''t'' then Some (CHR 0x09) else None)"

definition prepend :: "string \<Rightarrow> exn + string \<times> string \<Rightarrow> exn + string \<times> string" where
  "prepend u res = (case res of Inl e \<Rightarrow> Inl e | Inr (t, r) \<Rightarrow> Inr (u @ t, r))"

lemma prepend_eq_Inr [simp]: "prepend u res = Inr (t, r) \<longleftrightarrow> (\<exists>t'. res = Inr (t', r) \<and> t = u @ t')"
  by (auto simp: prepend_def split: sum.splits)

text \<open>A string after its opening quote.\<close>

function string_body :: "string \<Rightarrow> exn + string \<times> string" where
  "string_body s = (case s of
     [] \<Rightarrow> Inl (parse_error ''unterminated string'')
   | c # r \<Rightarrow>
       if c = quote_char then Inr ([], r)
       else if (byte_of c :: nat) < 32 then Inl (parse_error ''control character in string'')
       else if c \<noteq> backslash_char then prepend [c] (string_body r)
       else (case r of
           [] \<Rightarrow> Inl (parse_error ''unterminated escape'')
         | d # t \<Rightarrow>
             if d = CHR ''u'' then (case append_unicode_escape t of Inl e \<Rightarrow> Inl e | Inr (u, t') \<Rightarrow> prepend u (string_body t'))
             else (case simple_escape d of None \<Rightarrow> Inl (parse_error ''invalid string escape'') | Some e \<Rightarrow> prepend [e] (string_body t))))"
  by pat_completeness auto
termination
  by (relation "measure length") (auto dest: append_unicode_escape_rest)

declare string_body.simps [simp del]

definition parse_string :: "string \<Rightarrow> exn + string \<times> string" where
  "parse_string s = (case s of
     c # r \<Rightarrow> if c = quote_char then string_body r else Inl (parse_error ''expected quote'')
   | [] \<Rightarrow> Inl (parse_error ''expected quote''))"

lemma string_body_rest: "string_body s = Inr (t, r) \<Longrightarrow> length r < length s"
proof (induction s arbitrary: t r rule: string_body.induct)
  case (1 s)
  show ?case
  proof (cases s)
    case Nil
    then show ?thesis using 1(4) by (subst (asm) string_body.simps) simp
  next
    case (Cons c rest)
    then show ?thesis
      using 1(4) 1(1)[OF Cons] 1(2)[OF Cons] 1(3)[OF Cons]
      by (subst (asm) string_body.simps)
        (fastforce split: if_splits list.splits sum.splits option.splits dest: append_unicode_escape_rest)
  qed
qed

subsection \<open>Values\<close>

definition expect_char :: "char \<Rightarrow> string \<Rightarrow> exn + string" where
  "expect_char c s = (case s of d # r \<Rightarrow> if d = c then Inr r else Inl (parse_error ''expected character'') | [] \<Rightarrow> Inl (parse_error ''expected character''))"

lemma expect_char_eq [simp]: "expect_char c s = Inr r \<longleftrightarrow> s = c # r"
  by (auto simp: expect_char_def split: list.splits)

text \<open>The loops of \<open>parse_array\<close> and \<open>parse_object\<close> return the elements and the members; the members
  read so far are an argument, for the test for duplicates.\<close>

function (sequential) parse_value :: "string \<Rightarrow> exn + JsonValue \<times> string"
  and parse_elements :: "string \<Rightarrow> exn + JsonValue list \<times> string"
  and parse_members :: "(string \<times> JsonValue) list \<Rightarrow> string \<Rightarrow> exn + (string \<times> JsonValue) list \<times> string" where
  "parse_value s = (case skip_whitespace s of
     [] \<Rightarrow> Inl (parse_error ''unexpected end of input'')
   | c # r \<Rightarrow>
       if c = CHR ''n'' then parse_literal ''null'' JNull (c # r)
       else if c = CHR ''t'' then parse_literal ''true'' (JBool True) (c # r)
       else if c = CHR ''f'' then parse_literal ''false'' (JBool False) (c # r)
       else if c = quote_char then (case string_body r of Inl e \<Rightarrow> Inl e | Inr (t, r') \<Rightarrow> Inr (JString t, r'))
       else if c = CHR ''['' then
         (case expect_char (CHR '']'') (skip_whitespace r) of
            Inr r' \<Rightarrow> Inr (JArray [], r')
          | Inl _ \<Rightarrow> (case parse_elements (skip_whitespace r) of Inl e \<Rightarrow> Inl e | Inr (vs, r') \<Rightarrow> Inr (JArray vs, r')))
       else if c = CHR ''{'' then
         (case expect_char (CHR ''}'') (skip_whitespace r) of
            Inr r' \<Rightarrow> Inr (JObject [], r')
          | Inl _ \<Rightarrow> (case parse_members [] (skip_whitespace r) of Inl e \<Rightarrow> Inl e | Inr (m, r') \<Rightarrow> Inr (JObject m, r')))
       else parse_number (c # r))"
| "parse_elements s =
     (case parse_value s of Inl e \<Rightarrow> Inl e | Inr (v, r) \<Rightarrow>
       (case expect_char (CHR '']'') (skip_whitespace r) of
          Inr r' \<Rightarrow> Inr ([v], r')
        | Inl _ \<Rightarrow>
            (case expect_char (CHR '','') (skip_whitespace r) of Inl e \<Rightarrow> Inl e | Inr r' \<Rightarrow>
              (case parse_elements r' of Inl e \<Rightarrow> Inl e | Inr (vs, r'') \<Rightarrow> Inr (v # vs, r'')))))"
| "parse_members m s =
     (case expect_char quote_char (skip_whitespace s) of Inl _ \<Rightarrow> Inl (parse_error ''expected object key'') | Inr s1 \<Rightarrow>
       (case string_body s1 of Inl e \<Rightarrow> Inl e | Inr (k, s2) \<Rightarrow>
         (case expect_char (CHR '':'') (skip_whitespace s2) of Inl e \<Rightarrow> Inl e | Inr s3 \<Rightarrow>
           (case parse_value s3 of Inl e \<Rightarrow> Inl e | Inr (v, s4) \<Rightarrow>
             if k \<in> fst ` set m then Inl (parse_error ''duplicate object key'')
             else (case expect_char (CHR ''}'') (skip_whitespace s4) of
                 Inr s5 \<Rightarrow> Inr (emplace k v m, s5)
               | Inl _ \<Rightarrow>
                   (case expect_char (CHR '','') (skip_whitespace s4) of Inl e \<Rightarrow> Inl e | Inr s5 \<Rightarrow>
                     parse_members (emplace k v m) s5))))))"
  by pat_completeness auto

lemma skip_whitespace_length: "length (skip_whitespace s) \<le> length s"
  by (simp add: skip_whitespace_def length_dropWhile_le)

lemma skip_whitespace_Cons: "skip_whitespace s = c # r \<Longrightarrow> length r < length s"
  using skip_whitespace_length[of s] by simp

lemma parse_literal_rest: "parse_literal e v s = Inr (w, r) \<Longrightarrow> w = v \<and> s = e @ r"
  by (auto simp: parse_literal_def split: if_splits) (metis append_take_drop_id)

lemma scan_integer_rest:
  "scan_integer s = Inr (i, r) \<Longrightarrow> s = i @ r \<and> i \<noteq> [] \<and> (\<forall>c\<in>set i. json_digit c)"
  by (auto simp: scan_integer_def split: list.splits if_splits dest: set_takeWhileD)

lemma scan_fraction_rest: "scan_fraction s = Inr (i, r) \<Longrightarrow> \<exists>p. s = p @ r \<and> (\<forall>c\<in>set p. json_digit c \<or> c = CHR ''.'')"
proof -
  assume a: "scan_fraction s = Inr (i, r)"
  show ?thesis
  proof (cases s)
    case (Cons c t)
    then consider "r = s" | "c = CHR ''.''" "r = dropWhile json_digit t" using a by (auto simp: scan_fraction_def split: if_splits)
    then show ?thesis
    proof cases
      case 2
      then show ?thesis using Cons by (intro exI[of _ "c # takeWhile json_digit t"]) (auto dest: set_takeWhileD)
    qed auto
  qed (use a in \<open>auto simp: scan_fraction_def\<close>)
qed

definition number_char :: "char \<Rightarrow> bool" where
  "number_char c \<longleftrightarrow> json_digit c \<or> c \<in> {CHR ''.'', CHR ''e'', CHR ''E'', CHR ''+'', CHR ''-''}"

lemma scan_exponent_rest: "scan_exponent s = Inr (i, r) \<Longrightarrow> \<exists>p. s = p @ r \<and> (\<forall>c\<in>set p. number_char c)"
proof -
  assume a: "scan_exponent s = Inr (i, r)"
  show ?thesis
  proof (cases s)
    case (Cons c t)
    define st where "st = (case t of d # u \<Rightarrow> if d = CHR ''-'' then (True, u) else if d = CHR ''+'' then (False, u) else (False, t) | [] \<Rightarrow> (False, t))"
    have st: "\<exists>q. t = q @ snd st \<and> (\<forall>c\<in>set q. number_char c)"
      by (cases t) (auto simp: st_def number_char_def intro: exI[of _ "[hd t]"] exI[of _ "[]"])
    then obtain q where q: "t = q @ snd st" "\<forall>c\<in>set q. number_char c" by blast
    consider "r = s" | "c = CHR ''e'' \<or> c = CHR ''E''" "r = dropWhile json_digit (snd st)"
      using a Cons by (fastforce simp: scan_exponent_def Let_def st_def split: if_splits list.splits)
    then show ?thesis
    proof cases
      case 2
      have "s = (c # q @ takeWhile json_digit (snd st)) @ r" using Cons q(1) 2(2) by simp
      moreover have "\<forall>d\<in>set (c # q @ takeWhile json_digit (snd st)). number_char d"
        using q(2) 2(1) by (auto simp: number_char_def dest: set_takeWhileD)
      ultimately show ?thesis by blast
    qed auto
  qed (use a in \<open>auto simp: scan_exponent_def\<close>)
qed

text \<open>A number consumes a nonempty run of the characters a number can have.\<close>

lemma parse_number_rest:
  assumes "parse_number s = Inr (v, r)"
  shows "\<exists>p x. s = p @ r \<and> p \<noteq> [] \<and> (\<forall>c\<in>set p. number_char c) \<and> v = JNumber x"
proof -
  define st where "st = (case s of c # r \<Rightarrow> if c = CHR ''-'' then (True, r) else (False, s) | [] \<Rightarrow> (False, s))"
  obtain i s2 f s3 e s4 x where h: "scan_integer (snd st) = Inr (i, s2)" "scan_fraction s2 = Inr (f, s3)"
      "scan_exponent s3 = Inr (e, s4)" "v = JNumber x" "r = s4"
    using assms by (auto simp: parse_number_def Let_def st_def[symmetric] split: sum.splits prod.splits)
  obtain q where q: "s = q @ snd st" "\<forall>c\<in>set q. number_char c"
    by (cases s; cases "hd s = CHR ''-''") (auto simp: st_def number_char_def intro: that[of "[]"] that[of "[hd s]"])
  note i = scan_integer_rest[OF h(1)]
  obtain p2 where p2: "s2 = p2 @ s3" "\<forall>c\<in>set p2. number_char c" using scan_fraction_rest[OF h(2)] by (auto simp: number_char_def)
  obtain p3 where p3: "s3 = p3 @ s4" "\<forall>c\<in>set p3. number_char c" using scan_exponent_rest[OF h(3)] by blast
  have "s = (q @ i @ p2 @ p3) @ r" using q(1) i p2(1) p3(1) h(5) by simp
  moreover have "\<forall>c\<in>set (q @ i @ p2 @ p3). number_char c" using q(2) i p2(2) p3(2) by (auto simp: number_char_def)
  ultimately show ?thesis using i h(4) by blast
qed

lemma parse_partial:
  "parse_value_parse_elements_parse_members_dom (Inl s) \<Longrightarrow> parse_value s = Inr (v, r) \<Longrightarrow> length r < length s"
  "parse_value_parse_elements_parse_members_dom (Inr (Inl s')) \<Longrightarrow> parse_elements s' = Inr (vs, r) \<Longrightarrow> length r < length s'"
  "parse_value_parse_elements_parse_members_dom (Inr (Inr (m, s''))) \<Longrightarrow> parse_members m s'' = Inr (ms, r) \<Longrightarrow> length r < length s''"
proof (induction s and s' and m s'' arbitrary: v r and vs r and ms r rule: parse_value_parse_elements_parse_members.pinduct)
  case (1 s)
  note IH = "1.IH"
  show ?case
  proof (cases "skip_whitespace s")
    case Nil
    then show ?thesis using "1.prems" by (simp add: parse_value.psimps[OF "1.hyps"])
  next
    case (Cons c t)
    note lt = skip_whitespace_Cons[OF Cons] and ltt = skip_whitespace_length[of t]
    consider (lit) e w where "parse_literal e w (c # t) = Inr (v, r)" "e \<noteq> []" | (str) u where "string_body t = Inr (u, r)"
      | (empty) d where "skip_whitespace t = d # r"
      | (els) us where "c = CHR ''[''" "expect_char (CHR '']'') (skip_whitespace t) = Inl us" "\<exists>ws. parse_elements (skip_whitespace t) = Inr (ws, r)"
      | (mem) us where "c = CHR ''{''" "expect_char (CHR ''}'') (skip_whitespace t) = Inl us" "\<exists>ws. parse_members [] (skip_whitespace t) = Inr (ws, r)"
      | (num) "parse_number (c # t) = Inr (v, r)"
      using "1.prems" Cons by (fastforce simp: parse_value.psimps[OF "1.hyps"] split: if_splits sum.splits prod.splits)
    then show ?thesis
    proof cases
      case lit
      then show ?thesis using parse_literal_rest[OF lit(1)] skip_whitespace_length[of s] Cons by (cases e) auto
    next
      case str
      then show ?thesis using string_body_rest[OF str] lt by simp
    next
      case empty
      then show ?thesis using skip_whitespace_Cons[OF empty] lt by simp
    next
      case els
      then have "length r < length (skip_whitespace t)" using IH(1)[OF Cons] by (auto split: if_splits)
      then show ?thesis using lt ltt by simp
    next
      case mem
      then have "length r < length (skip_whitespace t)" using IH(2)[OF Cons] by (auto split: if_splits)
      then show ?thesis using lt ltt by simp
    next
      case num
      then show ?thesis using parse_number_rest[OF num] skip_whitespace_length[of s] Cons by (auto simp: neq_Nil_conv)
    qed
  qed
next
  case (2 s)
  obtain v t where v: "parse_value s = Inr (v, t)" using "2.prems" by (auto simp: parse_elements.psimps[OF "2.hyps"] split: sum.splits)
  have l: "length t < length s" using "2.IH"(1)[OF v] .
  show ?case
    using "2.prems" "2.IH"(2)[OF v] v l skip_whitespace_Cons
    by (fastforce simp: parse_elements.psimps[OF "2.hyps"] split: sum.splits dest!: skip_whitespace_Cons[of t])
next
  case (3 m s)
  obtain s1 k s2 s3 v s4 where h: "skip_whitespace s = quote_char # s1" "string_body s1 = Inr (k, s2)"
      "skip_whitespace s2 = CHR '':'' # s3" "parse_value s3 = Inr (v, s4)"
    using "3.prems" by (auto simp: parse_members.psimps[OF "3.hyps"] split: sum.splits)
  have l: "length s4 < length s"
    using "3.IH"(1)[of s1 "(k, s2)" k s2 s3 v s4] h skip_whitespace_Cons[OF h(1)] skip_whitespace_Cons[OF h(3)] string_body_rest[OF h(2)] by simp
  show ?case
    using "3.prems" "3.IH"(2)[of s1 "(k, s2)" k s2 s3 "(v, s4)" v s4] h l
    by (fastforce simp: parse_members.psimps[OF "3.hyps"] split: if_splits sum.splits dest!: skip_whitespace_Cons[of s4])
qed

lemma parse_calls_shrink:
  "skip_whitespace s = c # t \<Longrightarrow> length (skip_whitespace t) < length s"
  "skip_whitespace s = c # s1 \<Longrightarrow> string_body s1 = Inr (k, s2) \<Longrightarrow> skip_whitespace s2 = d # s3 \<Longrightarrow> length s3 < length s"
  using skip_whitespace_length[of t] by (force dest!: skip_whitespace_Cons string_body_rest)+

lemma parse_dom: "All parse_value_parse_elements_parse_members_dom"
proof (rule "parse_value_parse_elements_parse_members.termination"[of "measure (\<lambda>x. case x of Inl s \<Rightarrow> 2 * length s | Inr (Inl s) \<Rightarrow> Suc (2 * length s) | Inr (Inr (m, s)) \<Rightarrow> Suc (2 * length s))"], goal_cases)
  case (2 s c t) then show ?case using parse_calls_shrink(1)[of s c t] by simp
next
  case (3 s c t) then show ?case using parse_calls_shrink(1)[of s c t] by simp
next
  case (5 s x v r) then show ?case by (auto dest!: skip_whitespace_Cons parse_partial(1))
next
  case (6 m s) then show ?case by (auto dest: parse_calls_shrink(2))
next
  case (7 m s) then show ?case by (auto dest!: skip_whitespace_Cons string_body_rest parse_partial(1))
qed auto

termination parse_value by (rule parse_dom)

lemma parse_rest: "parse_value s = Inr (v, r) \<Longrightarrow> length r < length s"
  using parse_partial(1) parse_dom by blast

declare parse_value.simps [simp del] parse_elements.simps [simp del] parse_members.simps [simp del]

text \<open>\<open>JsonValue::parse\<close>.\<close>

definition parse_document :: "string \<Rightarrow> exn + JsonValue" where
  "parse_document s = (case parse_value (skip_whitespace s) of Inl e \<Rightarrow> Inl e | Inr (v, r) \<Rightarrow>
     if skip_whitespace r \<noteq> [] then Inl (parse_error ''trailing characters'') else Inr v)"

subsection \<open>How the parser uses its text\<close>

text \<open>What follows a value inside a document, or the end of the text.\<close>

definition delimited :: "string \<Rightarrow> bool" where
  "delimited r \<longleftrightarrow> r = [] \<or> hd r \<in> {CHR '','', CHR '']'', CHR ''}''} \<or> is_ws (hd r)"

lemma delimited_scan: "delimited r \<Longrightarrow> scan_fraction r = Inr ([], r)" "delimited r \<Longrightarrow> scan_exponent r = Inr ((False, []), r)"
  "delimited r \<Longrightarrow> takeWhile json_digit r = []" "delimited r \<Longrightarrow> dropWhile json_digit r = r"
  by (cases r; auto simp: delimited_def scan_fraction_def scan_exponent_def json_digit_def is_ws_def)+

definition reads_as :: "string \<Rightarrow> JsonValue \<Rightarrow> bool" where
  "reads_as t v \<longleftrightarrow> (\<forall>r. delimited r \<longrightarrow> parse_value (t @ r) = Inr (v, r))"

lemma skip_whitespace_idem [simp]: "skip_whitespace (skip_whitespace s) = skip_whitespace s"
  by (simp add: skip_whitespace_def)

lemma skip_whitespace_sep [simp]: "skip_whitespace (CHR '','' # r) = CHR '','' # r" "skip_whitespace (CHR '']'' # r) = CHR '']'' # r"
  "skip_whitespace (CHR ''}'' # r) = CHR ''}'' # r" "skip_whitespace (CHR '':'' # r) = CHR '':'' # r"
  "skip_whitespace (quote_char # r) = quote_char # r"
  by (simp_all add: skip_whitespace_def is_ws_def)

lemma parse_value_skip [simp]: "parse_value (skip_whitespace s) = parse_value s"
  by (subst (1 2) parse_value.simps) simp

lemma parse_elements_skip [simp]: "parse_elements (skip_whitespace s) = parse_elements s"
  by (subst (1 2) parse_elements.simps) simp

lemma parse_members_skip [simp]: "parse_members m (skip_whitespace s) = parse_members m s"
  by (subst (1 2) parse_members.simps) simp

lemma parse_value_closing: "c = CHR '']'' \<or> c = CHR ''}'' \<Longrightarrow> skip_whitespace s = c # r \<Longrightarrow> parse_value s = Inl (parse_error ''expected value'')"
proof -
  assume c: "c = CHR '']'' \<or> c = CHR ''}''" and s: "skip_whitespace s = c # r"
  have "parse_number (c # r) = Inl (parse_error ''expected value'')" using c by (auto simp: parse_number_def scan_integer_def json_digit_def)
  then show ?thesis using c by (subst parse_value.simps) (auto simp: s)
qed

lemma expect_char_Cons [simp]: "expect_char c (d # r) = (if d = c then Inr r else Inl (parse_error ''expected character''))"
  by (simp add: expect_char_def)

lemma read_hex4_Cons: "read_hex4 (a # b # c # d # r) = read_hex (Suc (Suc (Suc (Suc 0)))) 0 (a # b # c # d # r)"
  by (simp add: read_hex4_def eval_nat_numeral)

lemma parse_value_array:
  assumes "parse_elements r = Inr (vs, r')" and "\<And>u. skip_whitespace r \<noteq> CHR '']'' # u"
  shows "parse_value (CHR ''['' # r) = Inr (JArray vs, r')"
proof -
  have "expect_char (CHR '']'') (skip_whitespace r) = Inl (parse_error ''expected character'')"
    using assms(2) by (auto simp: expect_char_def split: list.splits)
  then show ?thesis using assms(1)
    by (subst parse_value.simps) (simp add: skip_whitespace_def[of "CHR ''['' # x" for x] is_ws_def)
qed

lemma parse_value_object:
  assumes "parse_members [] r = Inr (m, r')" and "\<And>u. skip_whitespace r \<noteq> CHR ''}'' # u"
  shows "parse_value (CHR ''{'' # r) = Inr (JObject m, r')"
proof -
  have "expect_char (CHR ''}'') (skip_whitespace r) = Inl (parse_error ''expected character'')"
    using assms(2) by (auto simp: expect_char_def split: list.splits)
  then show ?thesis using assms(1)
    by (subst parse_value.simps) (simp add: skip_whitespace_def[of "CHR ''{'' # x" for x] is_ws_def)
qed

lemma parse_value_empty:
  "parse_value (CHR ''['' # CHR '']'' # r) = Inr (JArray [], r)" "parse_value (CHR ''{'' # CHR ''}'' # r) = Inr (JObject [], r)"
  by (subst parse_value.simps, simp add: skip_whitespace_def is_ws_def)+

lemma parse_value_literals:
  "parse_value (''null'' @ r) = Inr (JNull, r)" "parse_value (''true'' @ r) = Inr (JBool True, r)"
  "parse_value (''false'' @ r) = Inr (JBool False, r)"
  by (subst parse_value.simps, simp add: skip_whitespace_def is_ws_def parse_literal_def)+

lemma set_emplace: "set (emplace k v m) = insert (k, v) (set m)"
  by (induction m) (auto split: if_splits)

end
