(* ===== verification/Json_Writer.thy ===== *)
theory Json_Writer
  imports Json_Value
begin

text \<open>
  The JSON writer of \<^verbatim>\<open>src/server/json_write.hpp\<close>. The writer appends to a buffer and keeps a stack of open
  containers, each with a flag whether it has a child yet; the stacks are lists with the innermost
  container first. A document is what a nesting of calls writes, and reading it back gives its value.
\<close>

subsection \<open>Escaping and numbers\<close>

definition hex_digit :: "nat \<Rightarrow> char" where
  "hex_digit d = char_of (if d < 10 then 48 + d else 87 + d)"

definition escape_char :: "char \<Rightarrow> string" where
  "escape_char c =
     (if c = quote_char \<or> c = backslash_char then [backslash_char, c]
      else if c = CHR 0x0A then [backslash_char, CHR ''n''] else if c = CHR 0x0D then [backslash_char, CHR ''r'']
      else if c = CHR 0x09 then [backslash_char, CHR ''t''] else if c = CHR 0x08 then [backslash_char, CHR ''b'']
      else if c = CHR 0x0C then [backslash_char, CHR ''f'']
      else if (byte_of c :: nat) < 32 then
        [backslash_char, CHR ''u'', CHR ''0'', CHR ''0'', hex_digit (byte_of c div 16), hex_digit (byte_of c mod 16)]
      else [c])"

definition json_escape :: "string \<Rightarrow> string" where
  "json_escape text = concat (map escape_char text)"

fun decimal_digits :: "nat \<Rightarrow> string" where
  "decimal_digits n = (if n < 10 then [char_of (48 + n)] else decimal_digits (n div 10) @ [char_of (48 + n mod 10)])"

declare decimal_digits.simps [simp del]

definition int_to_string :: "int \<Rightarrow> string" where
  "int_to_string i = (if i < 0 then CHR ''-'' # decimal_digits (nat (- i)) else decimal_digits (nat i))"

text \<open>\<^verbatim>\<open>snprintf "%.6g"\<close>: six significant digits, rounded to even, without trailing zeros, in fixed notation
  when the decimal exponent is from -4 to 5 and in exponent notation otherwise.\<close>

function decades_up :: "nat \<Rightarrow> nat \<Rightarrow> nat" where
  "decades_up p q = (if q = 0 \<or> p < 10 * q then 0 else Suc (decades_up p (10 * q)))"
  by pat_completeness auto
termination by (relation "measure (\<lambda>(p, q). p - q)") auto

function decades_down :: "nat \<Rightarrow> nat \<Rightarrow> nat" where
  "decades_down p q = (if p = 0 \<or> q \<le> p then 0 else Suc (decades_down (10 * p) q))"
  by pat_completeness auto
termination by (relation "measure (\<lambda>(p, q). q - p)") auto

declare decades_up.simps [simp del] decades_down.simps [simp del]

definition decimal_exponent :: "nat \<Rightarrow> nat \<Rightarrow> int" where
  "decimal_exponent p q = (if q \<le> p then int (decades_up p q) else - int (decades_down p q))"

definition six_digits :: "nat \<Rightarrow> nat \<Rightarrow> string \<times> int" where
  "six_digits p q =
     (let x = decimal_exponent p q; e = x - 5;
          d = (if 0 \<le> e then round_half_even p (q * 10 ^ nat e) else round_half_even (p * 10 ^ nat (- e)) q)
      in if d = 10 ^ 6 then (decimal_digits (10 ^ 5), x + 1) else (decimal_digits d, x))"

definition strip_zeros :: "string \<Rightarrow> string" where
  "strip_zeros ds = rev (dropWhile (\<lambda>c. c = CHR ''0'') (rev ds))"

definition point :: "string \<Rightarrow> string" where
  "point ds = (if strip_zeros ds = [] then [] else CHR ''.'' # strip_zeros ds)"

definition format_g :: "string \<Rightarrow> int \<Rightarrow> string" where
  "format_g ds x =
     (if 0 \<le> x \<and> x < 6 then take (Suc (nat x)) ds @ point (drop (Suc (nat x)) ds)
      else if - 4 \<le> x \<and> x < 0 then ''0'' @ point (replicate (nat (- x) - 1) (CHR ''0'') @ ds)
      else take 1 ds @ point (drop 1 ds) @ (if x < 0 then ''e-'' else ''e+'') @
             (let e = decimal_digits (nat \<bar>x\<bar>) in if length e < 2 then CHR ''0'' # e else e))"

fun json_number :: "fp \<Rightarrow> string" where
  "json_number (Infinite s) = (if s then ''-inf'' else ''inf'')"
| "json_number (Finite s m k) =
     (if s then ''-'' else []) @
     (if m = 0 then ''0'' else case (if 0 \<le> k then six_digits (m * 2 ^ nat k) 1 else six_digits m (2 ^ nat (- k))) of (ds, x) \<Rightarrow> format_g ds x)"

subsection \<open>The writer\<close>

record JsonWriter =
  out :: string
  container :: "char list"
  has_child :: "bool list"
  pending_key :: bool

definition new_writer :: JsonWriter where
  "new_writer = \<lparr>out = [], container = [], has_child = [], pending_key = False\<rparr>"

definition append_out :: "string \<Rightarrow> JsonWriter \<Rightarrow> JsonWriter" where
  "append_out t w = w\<lparr>out := out w @ t\<rparr>"

definition separator_for_key :: "JsonWriter \<Rightarrow> JsonWriter" where
  "separator_for_key w = (case has_child w of
     [] \<Rightarrow> w | h # hs \<Rightarrow> (if h then append_out '','' w else w)\<lparr>has_child := True # hs\<rparr>)"

definition separator :: "JsonWriter \<Rightarrow> JsonWriter" where
  "separator w = (case has_child w of
     [] \<Rightarrow> w
   | h # hs \<Rightarrow>
       if pending_key w then w\<lparr>pending_key := False, has_child := True # hs\<rparr>
       else if h then append_out '','' w
       else w\<lparr>has_child := True # hs\<rparr>)"

definition open_container :: "char \<Rightarrow> JsonWriter \<Rightarrow> JsonWriter" where
  "open_container brace w = (let w' = append_out [brace] (separator w)
     in w'\<lparr>container := brace # container w', has_child := False # has_child w'\<rparr>)"

text \<open>\<open>back ()\<close> of an empty vector is undefined; the callers close what they opened.\<close>

definition close_container :: "JsonWriter \<Rightarrow> JsonWriter" where
  "close_container w = (case container w of
     [] \<Rightarrow> w
   | b # bs \<Rightarrow> (append_out (if b = CHR ''['' then '']'' else ''}'') w)
       \<lparr>container := bs, has_child := tl (has_child w), pending_key := False\<rparr>)"

definition begin_object :: "JsonWriter \<Rightarrow> JsonWriter" where "begin_object = open_container (CHR ''{'')"
definition begin_array :: "JsonWriter \<Rightarrow> JsonWriter" where "begin_array = open_container (CHR ''['')"
definition end_object :: "JsonWriter \<Rightarrow> JsonWriter" where "end_object = close_container"
definition end_array :: "JsonWriter \<Rightarrow> JsonWriter" where "end_array = close_container"

definition quoted :: "string \<Rightarrow> string" where
  "quoted t = [quote_char] @ json_escape t @ [quote_char]"

definition write_key :: "string \<Rightarrow> JsonWriter \<Rightarrow> JsonWriter" where
  "write_key name w = (append_out (quoted name @ '':'') (separator_for_key w))\<lparr>pending_key := True\<rparr>"

definition write_raw :: "string \<Rightarrow> JsonWriter \<Rightarrow> JsonWriter" where
  "write_raw v w = append_out v (separator w)"

definition write_string :: "string \<Rightarrow> JsonWriter \<Rightarrow> JsonWriter" where
  "write_string v w = append_out (quoted v) (separator w)"

definition write_number :: "fp \<Rightarrow> JsonWriter \<Rightarrow> JsonWriter" where
  "write_number v w = append_out (json_number v) (separator w)"

definition write_integer :: "int \<Rightarrow> JsonWriter \<Rightarrow> JsonWriter" where
  "write_integer v w = append_out (int_to_string v) (separator w)"

definition write_boolean :: "bool \<Rightarrow> JsonWriter \<Rightarrow> JsonWriter" where
  "write_boolean v w = append_out (if v then ''true'' else ''false'') (separator w)"

definition write_null :: "JsonWriter \<Rightarrow> JsonWriter" where
  "write_null w = append_out ''null'' (separator w)"

lemmas writer_defs = append_out_def separator_for_key_def separator_def open_container_def close_container_def
  begin_object_def begin_array_def end_object_def end_array_def write_key_def write_raw_def write_string_def
  write_number_def write_integer_def write_boolean_def write_null_def

subsection \<open>Documents\<close>

text \<open>A nesting of calls. \<open>DRaw t v\<close> is a call of \<open>raw\<close> with text that reads as \<open>v\<close>, and so is the text of a
  number.\<close>

datatype json_doc =
    DNull
  | DBool bool
  | DInt int
  | DString string
  | DRaw string JsonValue
  | DArray "json_doc list"
  | DObject "(string \<times> json_doc) list"

fun write_doc :: "json_doc \<Rightarrow> JsonWriter \<Rightarrow> JsonWriter" where
  "write_doc DNull w = write_null w"
| "write_doc (DBool b) w = write_boolean b w"
| "write_doc (DInt i) w = write_integer i w"
| "write_doc (DString t) w = write_string t w"
| "write_doc (DRaw t v) w = write_raw t w"
| "write_doc (DArray ds) w = end_array (fold write_doc ds (begin_array w))"
| "write_doc (DObject ms) w = end_object (fold (\<lambda>(k, d) w. write_doc d (write_key k w)) ms (begin_object w))"

fun commas :: "string list \<Rightarrow> string" where
  "commas [] = []"
| "commas [t] = t"
| "commas (t # u # us) = t @ '','' @ commas (u # us)"

fun print_doc :: "json_doc \<Rightarrow> string" where
  "print_doc DNull = ''null''"
| "print_doc (DBool b) = (if b then ''true'' else ''false'')"
| "print_doc (DInt i) = int_to_string i"
| "print_doc (DString t) = quoted t"
| "print_doc (DRaw t v) = t"
| "print_doc (DArray ds) = ''['' @ commas (map print_doc ds) @ '']''"
| "print_doc (DObject ms) = ''{'' @ commas (map (\<lambda>(k, d). quoted k @ '':'' @ print_doc d) ms) @ ''}''"

text \<open>The state in which a value may be written, and what writing leaves of it.\<close>

definition sep :: "JsonWriter \<Rightarrow> string" where
  "sep w = (case has_child w of [] \<Rightarrow> [] | h # _ \<Rightarrow> if pending_key w \<or> \<not> h then [] else '','')"

definition after_value :: "string \<Rightarrow> JsonWriter \<Rightarrow> JsonWriter" where
  "after_value t w = w\<lparr>out := out w @ sep w @ t, has_child := (case has_child w of [] \<Rightarrow> [] | _ # hs \<Rightarrow> True # hs),
     pending_key := False\<rparr>"

definition ready_writer :: "JsonWriter \<Rightarrow> bool" where
  "ready_writer w \<longleftrightarrow> length (container w) = length (has_child w) \<and> (has_child w = [] \<longrightarrow> \<not> pending_key w)"

lemma append_separator: "ready_writer w \<Longrightarrow> append_out t (separator w) = after_value t w"
  by (cases w; cases "has_child w") (auto simp: ready_writer_def after_value_def sep_def separator_def append_out_def)

lemma write_elements:
  assumes "\<And>d w. d \<in> set ds \<Longrightarrow> ready_writer w \<Longrightarrow> write_doc d w = after_value (print_doc d) w"
    and "ready_writer w" and "has_child w = h # hs" and "\<not> pending_key w"
  shows "fold write_doc ds w = w\<lparr>out := out w @ (if h \<and> ds \<noteq> [] then '','' else []) @ commas (map print_doc ds),
     has_child := (h \<or> ds \<noteq> []) # hs\<rparr>"
  using assms
proof (induction ds arbitrary: w h)
  case Nil
  then show ?case by (cases w) simp
next
  case (Cons d ds)
  define w1 where "w1 = after_value (print_doc d) w"
  have w1: "ready_writer w1" "has_child w1 = True # hs" "\<not> pending_key w1"
    using Cons.prems by (simp_all add: w1_def ready_writer_def after_value_def)
  have "fold write_doc (d # ds) w = fold write_doc ds w1" using Cons.prems(1,2) by (simp add: w1_def)
  also have "\<dots> = w1\<lparr>out := out w1 @ (if ds \<noteq> [] then '','' else []) @ commas (map print_doc ds), has_child := True # hs\<rparr>"
    using Cons.IH[OF _ w1] Cons.prems(1) by simp
  also have "\<dots> = w\<lparr>out := out w @ (if h then '','' else []) @ commas (map print_doc (d # ds)), has_child := True # hs\<rparr>"
    using Cons.prems(3,4) by (cases w; cases ds) (auto simp: w1_def after_value_def sep_def)
  finally show ?case by simp
qed

lemma write_members:
  assumes "\<And>k d w. (k, d) \<in> set ms \<Longrightarrow> ready_writer w \<Longrightarrow> write_doc d w = after_value (print_doc d) w"
    and "ready_writer w" and "has_child w = h # hs" and "\<not> pending_key w"
  shows "fold (\<lambda>(k, d) w. write_doc d (write_key k w)) ms w =
     w\<lparr>out := out w @ (if h \<and> ms \<noteq> [] then '','' else []) @ commas (map (\<lambda>(k, d). quoted k @ '':'' @ print_doc d) ms),
       has_child := (h \<or> ms \<noteq> []) # hs\<rparr>"
  using assms
proof (induction ms arbitrary: w h)
  case Nil
  then show ?case by (cases w) simp
next
  case (Cons m ms)
  obtain k d where m: "m = (k, d)" by force
  have prem: "\<And>k d w. (k, d) \<in> set ms \<Longrightarrow> ready_writer w \<Longrightarrow> write_doc d w = after_value (print_doc d) w"
    using Cons.prems(1) by (meson list.set_intros(2))
  define w0 where "w0 = write_key k w"
  define w1 where "w1 = after_value (print_doc d) w0"
  have w0: "ready_writer w0" using Cons.prems by (auto simp: w0_def ready_writer_def write_key_def append_out_def separator_for_key_def)
  have w1: "ready_writer w1" "has_child w1 = True # hs" "\<not> pending_key w1"
    using Cons.prems w0 by (auto simp: w1_def w0_def ready_writer_def after_value_def write_key_def append_out_def separator_for_key_def)
  have "fold (\<lambda>(k, d) w. write_doc d (write_key k w)) (m # ms) w = fold (\<lambda>(k, d) w. write_doc d (write_key k w)) ms w1"
    using Cons.prems(1)[of k d w0] w0 by (simp add: m w1_def w0_def)
  also have "\<dots> = w1\<lparr>out := out w1 @ (if ms \<noteq> [] then '','' else []) @ commas (map (\<lambda>(k, d). quoted k @ '':'' @ print_doc d) ms),
      has_child := True # hs\<rparr>"
    using Cons.IH[OF prem w1] by simp
  also have "\<dots> = w\<lparr>out := out w @ (if h then '','' else []) @ commas (map (\<lambda>(k, d). quoted k @ '':'' @ print_doc d) (m # ms)),
      has_child := True # hs\<rparr>"
    using Cons.prems(3,4) by (cases w; cases ms) (auto simp: m w1_def w0_def after_value_def sep_def write_key_def append_out_def separator_for_key_def)
  finally show ?case by simp
qed

lemma open_container_ready:
  "ready_writer w \<Longrightarrow> open_container b w = (after_value [b] w)\<lparr>container := b # container w, has_child := False # has_child (after_value [b] w)\<rparr>"
  by (simp add: open_container_def append_separator Let_def) (simp add: after_value_def)

theorem write_doc_prints: "ready_writer w \<Longrightarrow> write_doc d w = after_value (print_doc d) w"
proof (induction d arbitrary: w)
  case (DArray ds)
  define w1 where "w1 = begin_array w"
  have w1: "ready_writer w1" "has_child w1 = False # has_child (after_value ''['' w)" "\<not> pending_key w1"
    using DArray.prems by (auto simp: w1_def begin_array_def open_container_ready ready_writer_def after_value_def split: list.splits)
  show ?case
    using write_elements[OF _ w1] DArray
    by (cases "has_child w") (auto simp: w1_def begin_array_def end_array_def close_container_def append_out_def open_container_ready after_value_def sep_def)
next
  case (DObject ms)
  define w1 where "w1 = begin_object w"
  have w1: "ready_writer w1" "has_child w1 = False # has_child (after_value ''{'' w)" "\<not> pending_key w1"
    using DObject.prems by (auto simp: w1_def begin_object_def open_container_ready ready_writer_def after_value_def split: list.splits)
  have "\<And>k d w. (k, d) \<in> set ms \<Longrightarrow> ready_writer w \<Longrightarrow> write_doc d w = after_value (print_doc d) w"
    using DObject.IH by fastforce
  from write_members[OF this w1] DObject.prems show ?case
    by (cases "has_child w") (auto simp: w1_def begin_object_def end_object_def close_container_def append_out_def open_container_ready after_value_def sep_def)
qed (simp_all add: write_null_def write_boolean_def write_integer_def write_string_def write_raw_def append_separator)

subsection \<open>Reading back\<close>

lemma hex_value_digit: "d < 16 \<Longrightarrow> hex_value (hex_digit d) = Some d"
  unfolding hex_value_def hex_digit_def Let_def by (simp add: of_char_of)

lemma read_hex4_control:
  assumes "(b::nat) < 32"
  shows "read_hex4 (CHR ''0'' # CHR ''0'' # hex_digit (b div 16) # hex_digit (b mod 16) # r) = Inr (b, r)"
proof -
  have "hex_value (CHR ''0'') = Some 0" by (simp add: hex_value_def)
  moreover have "b div 16 < 16" "16 * (b div 16) + b mod 16 = b" using assms by simp_all
  ultimately show ?thesis by (simp add: read_hex4_Cons hex_value_digit)
qed

lemma unicode_escape_control:
  assumes "(byte_of c :: nat) < 32"
  shows "append_unicode_escape (CHR ''0'' # CHR ''0'' # hex_digit (byte_of c div 16) # hex_digit (byte_of c mod 16) # r) = Inr ([c], r)"
proof -
  have "\<not> high_surrogate (byte_of c)" "no_surrogate (byte_of c) = byte_of c" "append_code_point (byte_of c) = [c]"
    using assms by (simp_all add: high_surrogate_def no_surrogate_def append_code_point_def)
  then show ?thesis by (simp add: append_unicode_escape_def read_hex4_control[OF assms] split: list.splits)
qed

lemma string_body_plain: "c \<noteq> quote_char \<Longrightarrow> c \<noteq> backslash_char \<Longrightarrow> \<not> (byte_of c :: nat) < 32 \<Longrightarrow>
    string_body (c # r) = prepend [c] (string_body r)"
  by (subst string_body.simps) simp

lemma string_body_simple: "d \<noteq> CHR ''u'' \<Longrightarrow> simple_escape d = Some e \<Longrightarrow>
    string_body (backslash_char # d # r) = prepend [e] (string_body r)"
  by (subst string_body.simps) simp

lemma string_body_unicode: "append_unicode_escape t = Inr (u, r) \<Longrightarrow>
    string_body (backslash_char # CHR ''u'' # t) = prepend u (string_body r)"
  by (subst string_body.simps) simp

lemma string_body_quote [simp]: "string_body (quote_char # r) = Inr ([], r)"
  by (subst string_body.simps) simp

lemma string_body_escape: "string_body (escape_char c @ r) = prepend [c] (string_body r)"
proof (cases "c \<in> {quote_char, backslash_char, CHR 0x0A, CHR 0x0D, CHR 0x09, CHR 0x08, CHR 0x0C}")
  case True
  then show ?thesis by (auto simp: escape_char_def string_body_simple simple_escape_def)
next
  case False
  then show ?thesis
    by (cases "(byte_of c :: nat) < 32")
      (simp_all add: escape_char_def string_body_plain string_body_unicode[OF unicode_escape_control])
qed

theorem string_body_quoted: "string_body (json_escape t @ quote_char # r) = Inr (t, r)"
  by (induction t) (simp_all add: json_escape_def string_body_escape prepend_def)

lemma parse_value_quoted: "parse_value (quoted t @ r) = Inr (JString t, r)"
  by (subst parse_value.simps) (simp add: quoted_def skip_whitespace_def is_ws_def string_body_quoted)

subsection \<open>Integers\<close>

lemma byte_of_digit [simp]: "d < 10 \<Longrightarrow> byte_of (char_of (48 + d) :: char) = (48 + d :: nat)"
  by (simp add: of_char_of)

lemma is_digit_char [simp]: "d < 10 \<Longrightarrow> json_digit (char_of (48 + d :: nat))"
  by (simp add: json_digit_def)

lemma decimal_digits_all: "\<forall>c\<in>set (decimal_digits n). json_digit c"
  by (induction n rule: decimal_digits.induct) (subst decimal_digits.simps, auto)

lemma decimal_digits_nonempty [simp]: "decimal_digits n \<noteq> []"
  by (subst decimal_digits.simps) simp

lemma decimal_digits_zero [simp]: "decimal_digits 0 = ''0''"
  by code_simp

lemma digits_value_snoc: "json_digits (ds @ [d]) = 10 * json_digits ds + (byte_of d - 48)"
  by (simp add: json_digits_def)

lemma digits_value_digits: "json_digits (decimal_digits n) = n"
proof (induction n rule: decimal_digits.induct)
  case (1 n)
  then show ?case
    by (subst decimal_digits.simps) (auto simp: digits_value_snoc simp flip: digits_value_snoc[of "[]"] simp: json_digits_def)
qed

lemma decimal_digits_first: "0 < n \<Longrightarrow> hd (decimal_digits n) \<noteq> CHR ''0''"
proof (induction n rule: decimal_digits.induct)
  case (1 n)
  show ?case
  proof (cases "n < 10")
    case True
    have "byte_of (char_of (48 + n) :: char) \<noteq> (byte_of (CHR ''0'') :: nat)" using True 1(2) by (simp add: of_char_of)
    then have "char_of (48 + n) \<noteq> CHR ''0''" by metis
    then show ?thesis using True by (subst decimal_digits.simps) simp
  next
    case False
    then show ?thesis using 1 by (subst decimal_digits.simps) simp
  qed
qed

lemma scan_integer_digits: "delimited r \<Longrightarrow> scan_integer (decimal_digits n @ r) = Inr (decimal_digits n, r)"
proof (cases "n = 0")
  case True
  then show "scan_integer (decimal_digits n @ r) = Inr (decimal_digits n, r)" by (simp add: scan_integer_def json_digit_def)
next
  case False
  assume r: "delimited r"
  obtain c cs where d: "decimal_digits n = c # cs" by (cases "decimal_digits n") auto
  then show ?thesis using decimal_digits_first[of n] decimal_digits_all[of n] False r
    by (simp add: scan_integer_def delimited_scan takeWhile_append2 dropWhile_append2)
qed

definition double_of :: "int \<Rightarrow> fp" where
  "double_of i = (case stod_fraction (i < 0) (nat \<bar>i\<bar>) 1 of Inr x \<Rightarrow> x | Inl _ \<Rightarrow> Infinite (i < 0))"

lemma decimal_whole: "json_decimal s (decimal_digits n) [] False [] = stod_fraction s n 1"
  by (simp add: json_decimal_def digits_value_digits) (simp add: json_digits_def)

lemma digit_facts: "json_digit c \<Longrightarrow> c \<notin> {CHR ''n'', CHR ''t'', CHR ''f'', quote_char, CHR ''['', CHR ''{'', CHR ''-''} \<and> \<not> is_ws c"
  by (auto simp: json_digit_def is_ws_def)

lemma parse_number_digits:
  assumes "delimited r" and "stod_fraction s n 1 = Inr x"
  shows "parse_number ((if s then ''-'' else []) @ decimal_digits n @ r) = Inr (JNumber x, r)"
proof -
  obtain c cs where d: "decimal_digits n = c # cs" by (cases "decimal_digits n") auto
  have "c \<noteq> CHR ''-''" using decimal_digits_all[of n] d digit_facts[of c] by simp
  then show ?thesis using assms scan_integer_digits[OF assms(1), of n] decimal_whole[of s n]
    by (cases s) (simp_all add: parse_number_def delimited_scan d)
qed

lemma parse_value_int:
  assumes "delimited r" and "stod_fraction (i < 0) (nat \<bar>i\<bar>) 1 = Inr x"
  shows "parse_value (int_to_string i @ r) = Inr (JNumber (double_of i), r)"
proof -
  obtain c cs where d: "decimal_digits (nat \<bar>i\<bar>) = c # cs" by (cases "decimal_digits (nat \<bar>i\<bar>)") auto
  have c: "c \<notin> {CHR ''n'', CHR ''t'', CHR ''f'', quote_char, CHR ''['', CHR ''{'', CHR ''-''}" "\<not> is_ws c"
    using decimal_digits_all[of "nat \<bar>i\<bar>"] d digit_facts[of c] by simp_all
  have m: "\<not> is_ws (CHR ''-'')" by (simp add: is_ws_def)
  show ?thesis
    using parse_number_digits[OF assms] c d m assms(2)
    by (cases "i < 0"; subst parse_value.simps) (simp_all add: int_to_string_def skip_whitespace_def double_of_def)
qed

subsection \<open>Whole documents\<close>

fun doc_value :: "json_doc \<Rightarrow> JsonValue" where
  "doc_value DNull = JNull"
| "doc_value (DBool b) = JBool b"
| "doc_value (DInt i) = JNumber (double_of i)"
| "doc_value (DString t) = JString t"
| "doc_value (DRaw t v) = v"
| "doc_value (DArray ds) = JArray (map doc_value ds)"
| "doc_value (DObject ms) = JObject (fold (\<lambda>(k, d). emplace k (doc_value d)) ms [])"

fun doc_ok :: "json_doc \<Rightarrow> bool" where
  "doc_ok (DInt i) \<longleftrightarrow> \<bar>i\<bar> < 2 ^ 64"
| "doc_ok (DRaw t v) \<longleftrightarrow> reads_as t v"
| "doc_ok (DArray ds) \<longleftrightarrow> (\<forall>d\<in>set ds. doc_ok d)"
| "doc_ok (DObject ms) \<longleftrightarrow> distinct (map fst ms) \<and> (\<forall>(k, d)\<in>set ms. doc_ok d)"
| "doc_ok _ \<longleftrightarrow> True"

lemma parse_elements_commas:
  assumes "\<And>d. d \<in> set ds \<Longrightarrow> reads_as (f d) (g d)" and "ds \<noteq> []"
  shows "parse_elements (commas (map f ds) @ CHR '']'' # r) = Inr (map g ds, r)"
  using assms
proof (induction ds rule: induct_list012)
  case (2 d)
  then have "parse_value (f d @ CHR '']'' # r) = Inr (g d, CHR '']'' # r)" by (simp add: reads_as_def delimited_def)
  then show ?case by (subst parse_elements.simps) simp
next
  case (3 d e ds)
  have v: "parse_value (f d @ CHR '','' # t) = Inr (g d, CHR '','' # t)" for t
    using 3(3)[of d] by (simp add: reads_as_def delimited_def)
  have IH: "parse_elements (commas (map f (e # ds)) @ CHR '']'' # r) = Inr (map g (e # ds), r)"
    by (rule 3(2)) (simp_all add: 3(3))
  show ?case using v[of "commas (map f (e # ds)) @ CHR '']'' # r"] IH by (subst parse_elements.simps) simp
qed simp

lemma parse_members_commas:
  assumes "\<And>k d. (k, d) \<in> set ms \<Longrightarrow> reads_as (f d) (g d)" and "ms \<noteq> []" and "distinct (map fst ms)"
    and "\<And>k. k \<in> fst ` set ms \<Longrightarrow> k \<notin> fst ` set m"
  shows "parse_members m (commas (map (\<lambda>(k, d). quoted k @ '':'' @ f d) ms) @ CHR ''}'' # r) =
     Inr (fold (\<lambda>(k, d). emplace k (g d)) ms m, r)"
  using assms
proof (induction ms arbitrary: m rule: induct_list012)
  case (2 x)
  obtain k d where x: "x = (k, d)" by force
  have "parse_value (f d @ CHR ''}'' # r) = Inr (g d, CHR ''}'' # r)" using 2(1)[of k d] by (simp add: x reads_as_def delimited_def)
  then show ?case using 2(4)[of k] by (subst parse_members.simps) (simp add: x quoted_def string_body_quoted)
next
  case (3 x y ms)
  obtain k d where x: "x = (k, d)" by force
  have k: "k \<notin> fst ` set m" using 3(6)[of k] by (simp add: x)
  have IH: "parse_members (emplace k (g d) m) (commas (map (\<lambda>(k, d). quoted k @ '':'' @ f d) (y # ms)) @ CHR ''}'' # r) =
     Inr (fold (\<lambda>(k, d). emplace k (g d)) (y # ms) (emplace k (g d) m), r)"
  proof (rule 3(2))
    show "\<And>k d. (k, d) \<in> set (y # ms) \<Longrightarrow> reads_as (f d) (g d)" using 3(3) by (meson list.set_intros(2))
    show "distinct (map fst (y # ms))" using 3(5) by simp
    show "k' \<notin> fst ` set (emplace k (g d) m)" if "k' \<in> fst ` set (y # ms)" for k'
      using that 3(5) 3(6)[of k'] by (auto simp: x set_emplace)
  qed simp
  have "parse_value (f d @ CHR '','' # t) = Inr (g d, CHR '','' # t)" for t
    using 3(3)[of k d] by (simp add: x reads_as_def delimited_def)
  then show ?case using IH k
    by (subst parse_members.simps) (simp add: x quoted_def string_body_quoted del: fold_simps)
qed simp

lemma reads_as_not_closing:
  assumes "reads_as t v" and "c = CHR '']'' \<or> c = CHR ''}''" and "delimited r"
  shows "skip_whitespace (t @ r) \<noteq> c # u"
proof
  assume "skip_whitespace (t @ r) = c # u"
  then have "parse_value (t @ r) = Inl (parse_error ''expected value'')" by (rule parse_value_closing[OF assms(2)])
  moreover have "parse_value (t @ r) = Inr (v, r)" using assms by (simp add: reads_as_def)
  ultimately show False by simp
qed

text \<open>What the writer prints is read back as the value of the document.\<close>

theorem print_doc_reads: "doc_ok d \<Longrightarrow> reads_as (print_doc d) (doc_value d)"
proof (induction d)
  case (DInt i)
  have "nat \<bar>i\<bar> < 2 ^ 64" using DInt by simp
  also have "(2::nat) ^ 64 \<le> 2 ^ 1000" by (rule power_increasing) simp_all
  finally obtain x where "stod_fraction (i < 0) (nat \<bar>i\<bar>) 1 = Inr x" using stod_nat by blast
  then show ?case using parse_value_int by (simp add: reads_as_def)
next
  case (DArray ds)
  have ds: "\<And>d. d \<in> set ds \<Longrightarrow> reads_as (print_doc d) (doc_value d)" using DArray by simp
  show ?case
  proof (cases ds)
    case Nil
    then show ?thesis by (simp add: reads_as_def parse_value_empty)
  next
    case (Cons e es)
    have "skip_whitespace (commas (map print_doc ds) @ CHR '']'' # r) \<noteq> CHR '']'' # u" for r u
      using reads_as_not_closing[OF ds[of e], of "CHR '']''" _ u]
      by (cases es) (simp_all add: Cons delimited_def)
    moreover have "parse_elements (commas (map print_doc ds) @ CHR '']'' # r) = Inr (map doc_value ds, r)" for r
      using parse_elements_commas[OF ds, of ds] by (simp add: Cons)
    ultimately show ?thesis using parse_value_array by (simp add: reads_as_def)
  qed
next
  case (DObject ms)
  have ms: "\<And>k d. (k, d) \<in> set ms \<Longrightarrow> reads_as (print_doc d) (doc_value d)" using DObject by fastforce
  show ?case
  proof (cases ms)
    case Nil
    then show ?thesis by (simp add: reads_as_def parse_value_empty)
  next
    case (Cons e es)
    have "\<exists>t. commas (map (\<lambda>(k, d). quoted k @ '':'' @ print_doc d) ms) = quote_char # t"
      by (cases e; cases es) (simp_all add: Cons quoted_def)
    then have "skip_whitespace (commas (map (\<lambda>(k, d). quoted k @ '':'' @ print_doc d) ms) @ CHR ''}'' # r) \<noteq> CHR ''}'' # u" for r u
      by auto
    moreover have "parse_members [] (commas (map (\<lambda>(k, d). quoted k @ '':'' @ print_doc d) ms) @ CHR ''}'' # r) =
        Inr (fold (\<lambda>(k, d). emplace k (doc_value d)) ms [], r)" for r
      by (rule parse_members_commas[OF ms]) (use DObject(2) Cons in simp_all)
    ultimately show ?thesis using parse_value_object by (simp add: reads_as_def)
  qed
qed (simp_all add: reads_as_def parse_value_quoted parse_value_literals[simplified])

lemma write_doc_parses: "doc_ok d \<Longrightarrow> parse_document (out (write_doc d new_writer)) = Inr (doc_value d)"
proof -
  assume "doc_ok d"
  then have "parse_value (print_doc d @ []) = Inr (doc_value d, [])" using print_doc_reads delimited_def unfolding reads_as_def by blast
  moreover have "out (write_doc d new_writer) = print_doc d"
    using write_doc_prints[of new_writer d] by (simp add: ready_writer_def new_writer_def after_value_def sep_def)
  ultimately show ?thesis by (simp add: parse_document_def) (simp add: skip_whitespace_def)
qed

text \<open>C3: what the writer writes, the parser reads. A document of nested objects, arrays, strings, integers,
  booleans and spliced raw text, written through the calls of \<open>JsonWriter\<close>, parses to the value it
  stands for, whatever characters its strings hold, when the keys of each object are distinct.\<close>

theorem written_document_reads: "doc_ok d \<Longrightarrow> parse_document (out (write_doc d new_writer)) = Inr (doc_value d)"
  by (rule write_doc_parses)

definition sample_doc :: json_doc where
  "sample_doc = DObject [(''choices'', DArray [DObject [(''index'', DInt 0), (''text'', DString (CHR 0x22 # CHR 0x0A # ''a''))]]),
     (''object'', DString ''chat.completion''), (''seed'', DNull)]"

theorem written_document_reads_witness:
  "parse_document (out (write_doc sample_doc new_writer)) = Inr (doc_value sample_doc)"
  by (rule written_document_reads) (simp add: sample_doc_def)

end
