(* ===== verification/Json_Grammar.thy ===== *)
theory Json_Grammar
  imports Json_Value
begin

text \<open>
  What the parser of \<open>Json_Value\<close> accepts, as relations on texts: the literals of strings and the
  derivations of values. From a derivation follows that the parser reads a value off its own text alone,
  whatever delimiter comes next, which is what makes a part of a document a document.
\<close>

subsection \<open>String literals\<close>

text \<open>\<open>lit p t\<close>: the text \<open>p\<close> between two quotes is read as \<open>t\<close>. Every string the parser accepts is one.\<close>

definition hex_text :: "string \<Rightarrow> nat \<Rightarrow> bool" where
  "hex_text h c \<longleftrightarrow> length h = 4 \<and> read_hex4 h = Inr (c, [])"

inductive lit :: "string \<Rightarrow> string \<Rightarrow> bool" where
  lit_nil: "lit [] []"
| lit_plain: "c \<noteq> quote_char \<Longrightarrow> c \<noteq> backslash_char \<Longrightarrow> \<not> (byte_of c :: nat) < 32 \<Longrightarrow> lit p t \<Longrightarrow> lit (c # p) (c # t)"
| lit_simple: "d \<noteq> CHR ''u'' \<Longrightarrow> simple_escape d = Some e \<Longrightarrow> lit p t \<Longrightarrow> lit (backslash_char # d # p) (e # t)"
| lit_unicode: "hex_text h c \<Longrightarrow> \<not> (high_surrogate c \<and> (\<exists>x. p = backslash_char # CHR ''u'' # x)) \<Longrightarrow> lit p t \<Longrightarrow>
    lit (backslash_char # CHR ''u'' # h @ p) (append_code_point (no_surrogate c) @ t)"
| lit_pair: "hex_text h c \<Longrightarrow> hex_text h' d \<Longrightarrow> high_surrogate c \<Longrightarrow> low_surrogate d \<Longrightarrow> lit p t \<Longrightarrow>
    lit (backslash_char # CHR ''u'' # h @ backslash_char # CHR ''u'' # h' @ p) (append_code_point (no_surrogate (surrogate_pair c d)) @ t)"
| lit_lone: "hex_text h c \<Longrightarrow> high_surrogate c \<Longrightarrow> p = backslash_char # CHR ''u'' # h' @ q \<Longrightarrow> hex_text h' d \<Longrightarrow> \<not> low_surrogate d \<Longrightarrow> lit p t \<Longrightarrow>
    lit (backslash_char # CHR ''u'' # h @ p) (append_code_point (no_surrogate 0xFFFD) @ t)"

lemma read_hex_local: "read_hex n a h = Inr (c, []) \<Longrightarrow> read_hex n a (h @ x) = Inr (c, x)"
  by (induction n a h rule: read_hex.induct) (auto split: option.splits)

lemma read_hex_split: "read_hex n a s = Inr (c, r) \<Longrightarrow> \<exists>h. s = h @ r \<and> length h = n \<and> read_hex n a h = Inr (c, [])"
proof (induction n a s rule: read_hex.induct)
  case (2 n acc d s)
  then obtain v where v: "hex_value d = Some v" "read_hex n (16 * acc + v) s = Inr (c, r)" by (auto split: option.splits)
  then obtain h where "s = h @ r" "length h = n" "read_hex n (16 * acc + v) h = Inr (c, [])" using 2 by blast
  then show ?case using v by (intro exI[of _ "d # h"]) simp
qed auto

lemma read_hex_digits: "read_hex n a s = Inr (c, r) \<Longrightarrow> d \<in> set (take n s) \<Longrightarrow> hex_value d \<noteq> None"
  by (induction n a s rule: read_hex.induct) (auto split: option.splits)

lemma read_hex4_split: "read_hex4 s = Inr (c, r) \<Longrightarrow> \<exists>h. s = h @ r \<and> hex_text h c"
  using read_hex_split by (fastforce simp: read_hex4_def hex_text_def split: if_splits)

lemma read_hex4_text: "hex_text h c \<Longrightarrow> read_hex4 (h @ x) = Inr (c, x)"
  by (auto simp: read_hex4_def hex_text_def intro: read_hex_local)

lemma hex_text_digits: "hex_text h c \<Longrightarrow> d \<in> set h \<Longrightarrow> hex_value d \<noteq> None \<and> d \<noteq> quote_char \<and> d \<noteq> backslash_char"
proof -
  assume h: "hex_text h c" and d: "d \<in> set h"
  have "hex_value d \<noteq> None" using h d read_hex_digits[of 4 0 h c "[]" d] by (auto simp: hex_text_def read_hex4_def)
  then show ?thesis by (auto simp: hex_value_def)
qed

lemma string_body_lit: "string_body s = Inr (t, r) \<Longrightarrow> \<exists>p. s = p @ quote_char # r \<and> lit p t"
proof (induction s arbitrary: t r rule: string_body.induct)
  case (1 s)
  obtain c u where s: "s = c # u" using 1(4) by (cases s) (simp_all add: string_body.simps)
  consider (quote) "c = quote_char" "t = []" "r = u"
    | (plain) t' where "c \<noteq> quote_char" "c \<noteq> backslash_char" "\<not> (byte_of c :: nat) < 32" "string_body u = Inr (t', r)" "t = c # t'"
    | (simple) d v e t' where "c = backslash_char" "u = d # v" "d \<noteq> CHR ''u''" "simple_escape d = Some e" "string_body v = Inr (t', r)" "t = e # t'"
    | (uni) v b v' t' where "c = backslash_char" "u = CHR ''u'' # v" "append_unicode_escape v = Inr (b, v')" "string_body v' = Inr (t', r)" "t = b @ t'"
    using 1(4) unfolding s by (subst (asm) string_body.simps) (auto split: if_splits list.splits sum.splits option.splits)
  then show ?case
  proof cases
    case quote
    then show ?thesis using s lit_nil by auto
  next
    case plain
    then obtain p where "u = p @ quote_char # r" "lit p t'" using 1(1)[OF s] by blast
    then show ?thesis using plain s lit_plain by (intro exI[of _ "c # p"]) simp
  next
    case simple
    have "\<exists>p. v = p @ quote_char # r \<and> lit p t'" by (rule 1(3)[OF s _ _ _ simple(2,3,4,5)]) (use simple in simp_all)
    then obtain p where "v = p @ quote_char # r" "lit p t'" by blast
    then show ?thesis using simple s lit_simple by (intro exI[of _ "backslash_char # d # p"]) simp
  next
    case uni
    have "\<exists>p. v' = p @ quote_char # r \<and> lit p t'" by (rule 1(2)[OF s _ _ _ uni(2) _ uni(3) _ uni(4)]) (use uni in simp_all)
    then obtain p where p: "v' = p @ quote_char # r" "lit p t'" by blast
    obtain k r1 where k: "read_hex4 v = Inr (k, r1)" using uni(3) by (auto simp: append_unicode_escape_def split: sum.splits)
    obtain h where h: "v = h @ r1" "hex_text h k" using read_hex4_split[OF k] by blast
    consider (none) "r1 = v'" "b = append_code_point (no_surrogate k)" "\<not> (high_surrogate k \<and> (\<exists>x. r1 = backslash_char # CHR ''u'' # x))"
      | (pair) x d where "r1 = backslash_char # CHR ''u'' # x" "read_hex4 x = Inr (d, v')" "high_surrogate k" "low_surrogate d"
          "b = append_code_point (no_surrogate (surrogate_pair k d))"
      | (lone) x d y where "r1 = backslash_char # CHR ''u'' # x" "read_hex4 x = Inr (d, y)" "high_surrogate k" "\<not> low_surrogate d"
          "r1 = v'" "b = append_code_point (no_surrogate 0xFFFD)"
      using uni(3) k by (auto simp: append_unicode_escape_def split: list.splits if_splits sum.splits)
    then show ?thesis
    proof cases
      case none
      have "\<not> (high_surrogate k \<and> (\<exists>x. p = backslash_char # CHR ''u'' # x))" using none(1,3) p(1) by auto
      then have "lit (backslash_char # CHR ''u'' # h @ p) t" using lit_unicode[OF h(2) _ p(2)] none(2) uni(5) by simp
      then show ?thesis using s uni h none p by (intro exI[of _ "backslash_char # CHR ''u'' # h @ p"]) simp
    next
      case pair
      obtain h' where h': "x = h' @ v'" "hex_text h' d" using read_hex4_split[OF pair(2)] by blast
      have "lit (backslash_char # CHR ''u'' # h @ backslash_char # CHR ''u'' # h' @ p) t"
        using lit_pair[OF h(2) h'(2) pair(3,4) p(2)] pair(5) uni(5) by simp
      then show ?thesis using s uni h pair p h' by (intro exI[of _ "backslash_char # CHR ''u'' # h @ backslash_char # CHR ''u'' # h' @ p"]) simp
    next
      case lone
      obtain h' where h': "x = h' @ y" "hex_text h' d" using read_hex4_split[OF lone(2)] by blast
      have e: "p @ quote_char # r = backslash_char # CHR ''u'' # h' @ y" using lone(1,5) p(1) h'(1) by simp
      then obtain p2 where p2: "p = backslash_char # CHR ''u'' # p2" "p2 @ quote_char # r = h' @ y"
        by (cases p; cases "tl p") auto
      have "\<exists>q. p2 = h' @ q"
      proof (rule ccontr)
        assume "\<nexists>q. p2 = h' @ q"
        then obtain z where "h' = p2 @ quote_char # z" using p2(2) by (auto simp: append_eq_append_conv2 Cons_eq_append_conv)
        then show False using hex_text_digits[OF h'(2), of quote_char] by simp
      qed
      then obtain q where q: "p = backslash_char # CHR ''u'' # h' @ q" using p2(1) by blast
      have "lit (backslash_char # CHR ''u'' # h @ p) t"
        using lit_lone[OF h(2) lone(3) q h'(2) lone(4) p(2)] lone(6) uni(5) by simp
      then show ?thesis using s uni h lone(5) p by (intro exI[of _ "backslash_char # CHR ''u'' # h @ p"]) simp
    qed
  qed
qed

lemma unicode_escape_plain:
  assumes "hex_text h c" and "\<not> (high_surrogate c \<and> (\<exists>x. s = backslash_char # CHR ''u'' # x))"
  shows "append_unicode_escape (h @ s) = Inr (append_code_point (no_surrogate c), s)"
  using assms by (auto simp: append_unicode_escape_def read_hex4_text[OF assms(1)] split: list.splits)

lemma lit_string_body: "lit p t \<Longrightarrow> string_body (p @ quote_char # r) = Inr (t, r)"
proof (induction rule: lit.induct)
  case (lit_unicode h c p t)
  have "\<not> (high_surrogate c \<and> (\<exists>x. p @ quote_char # r = backslash_char # CHR ''u'' # x))"
    using lit_unicode(2) by (cases p; cases "tl p") auto
  then have "append_unicode_escape (h @ p @ quote_char # r) = Inr (append_code_point (no_surrogate c), p @ quote_char # r)"
    by (rule unicode_escape_plain[OF lit_unicode(1)])
  then show ?case using lit_unicode(4) by (subst string_body.simps) simp
next
  case (lit_pair h c h' d p t)
  then show ?case by (subst string_body.simps) (simp add: append_unicode_escape_def read_hex4_text)
next
  case (lit_lone h c p h' q d t)
  then show ?case by (subst string_body.simps) (simp add: append_unicode_escape_def read_hex4_text)
qed (subst string_body.simps; simp)+

subsection \<open>Derivations\<close>

text \<open>The derivations of the parser: \<open>json_value s v r\<close> says that \<open>s\<close> starts with a value \<open>v\<close> that ends at \<open>r\<close>.\<close>

inductive json_value :: "string \<Rightarrow> JsonValue \<Rightarrow> string \<Rightarrow> bool"
  and json_elements :: "string \<Rightarrow> JsonValue list \<Rightarrow> string \<Rightarrow> bool"
  and json_members :: "(string \<times> JsonValue) list \<Rightarrow> string \<Rightarrow> (string \<times> JsonValue) list \<Rightarrow> string \<Rightarrow> bool" where
  jv_literal: "skip_whitespace s = e @ r \<Longrightarrow> (e, v) \<in> {(''null'', JNull), (''true'', JBool True), (''false'', JBool False)} \<Longrightarrow> json_value s v r"
| jv_string: "skip_whitespace s = quote_char # p @ quote_char # r \<Longrightarrow> lit p t \<Longrightarrow> json_value s (JString t) r"
| jv_number: "skip_whitespace s = p @ r \<Longrightarrow> parse_number (p @ r) = Inr (v, r) \<Longrightarrow> p \<noteq> [] \<Longrightarrow> \<forall>c\<in>set p. number_char c \<Longrightarrow> json_value s v r"
| jv_array0: "skip_whitespace s = CHR ''['' # u \<Longrightarrow> skip_whitespace u = CHR '']'' # r \<Longrightarrow> json_value s (JArray []) r"
| jv_array: "skip_whitespace s = CHR ''['' # u \<Longrightarrow> json_elements u vs r \<Longrightarrow> json_value s (JArray vs) r"
| jv_object0: "skip_whitespace s = CHR ''{'' # u \<Longrightarrow> skip_whitespace u = CHR ''}'' # r \<Longrightarrow> json_value s (JObject []) r"
| jv_object: "skip_whitespace s = CHR ''{'' # u \<Longrightarrow> json_members [] u m r \<Longrightarrow> json_value s (JObject m) r"
| je_last: "json_value s v t \<Longrightarrow> skip_whitespace t = CHR '']'' # r \<Longrightarrow> json_elements s [v] r"
| je_more: "json_value s v t \<Longrightarrow> skip_whitespace t = CHR '','' # u \<Longrightarrow> json_elements u vs r \<Longrightarrow> json_elements s (v # vs) r"
| jm_last: "skip_whitespace s = quote_char # p @ quote_char # s2 \<Longrightarrow> lit p k \<Longrightarrow> skip_whitespace s2 = CHR '':'' # s3 \<Longrightarrow> json_value s3 v s4 \<Longrightarrow>
    k \<notin> fst ` set m \<Longrightarrow> skip_whitespace s4 = CHR ''}'' # r \<Longrightarrow> json_members m s (emplace k v m) r"
| jm_more: "skip_whitespace s = quote_char # p @ quote_char # s2 \<Longrightarrow> lit p k \<Longrightarrow> skip_whitespace s2 = CHR '':'' # s3 \<Longrightarrow> json_value s3 v s4 \<Longrightarrow>
    k \<notin> fst ` set m \<Longrightarrow> skip_whitespace s4 = CHR '','' # u \<Longrightarrow> json_members (emplace k v m) u ms r \<Longrightarrow> json_members m s ms r"

lemma parse_derivation:
  "(\<forall>v r. parse_value s = Inr (v, r) \<longrightarrow> json_value s v r) \<and>
   (\<forall>vs r. parse_elements s = Inr (vs, r) \<longrightarrow> json_elements s vs r) \<and>
   (\<forall>m ms r. parse_members m s = Inr (ms, r) \<longrightarrow> json_members m s ms r)"
proof (induction "length s" arbitrary: s rule: less_induct)
  case less
  have V: "json_value s v r" if run: "parse_value s = Inr (v, r)" for v r
  proof (cases "skip_whitespace s")
    case Nil
    then show ?thesis using run by (simp add: parse_value.simps[of s])
  next
    case (Cons c u)
    have small: "length u < length s" using skip_whitespace_Cons[OF Cons] .
    note pv = run[unfolded parse_value.simps[of s] Cons list.case parse_elements_skip parse_members_skip]
    have literal: "parse_literal e w (c # u) = Inr (v, r) \<Longrightarrow> (e, w) \<in> {(''null'', JNull), (''true'', JBool True), (''false'', JBool False)} \<Longrightarrow>
        json_value s v r" for e w
      using parse_literal_rest[of e w "c # u" v r] Cons by (intro jv_literal[of s e]) simp_all
    consider "c = CHR ''n''" | "c = CHR ''t''" | "c = CHR ''f''" | "c = quote_char" | "c = CHR ''[''" | "c = CHR ''{''"
      | "c \<notin> {CHR ''n'', CHR ''t'', CHR ''f'', quote_char, CHR ''['', CHR ''{''}" by blast
    then show ?thesis
    proof cases
      case 1
      show ?thesis by (rule literal[of "''null''" JNull]) (use pv in \<open>simp_all add: 1\<close>)
    next
      case 2
      show ?thesis by (rule literal[of "''true''" "JBool True"]) (use pv in \<open>simp_all add: 2\<close>)
    next
      case 3
      show ?thesis by (rule literal[of "''false''" "JBool False"]) (use pv in \<open>simp_all add: 3\<close>)
    next
      case 4
      then obtain t where t: "string_body u = Inr (t, r)" "v = JString t" using pv by (auto split: sum.splits)
      obtain p where "u = p @ quote_char # r" "lit p t" using string_body_lit[OF t(1)] by blast
      then show ?thesis using jv_string[of s p r t] Cons 4 t(2) by simp
    next
      case 5
      show ?thesis
      proof (cases "expect_char (CHR '']'') (skip_whitespace u)")
        case (Inl e)
        then obtain vs where "parse_elements u = Inr (vs, r)" "v = JArray vs" using pv 5 by (auto split: sum.splits)
        then show ?thesis using less[OF small] jv_array[of s u vs r] Cons 5 by simp
      next
        case (Inr r')
        then show ?thesis using pv 5 jv_array0[of s u r] Cons by simp
      qed
    next
      case 6
      show ?thesis
      proof (cases "expect_char (CHR ''}'') (skip_whitespace u)")
        case (Inl e)
        then obtain m where "parse_members [] u = Inr (m, r)" "v = JObject m" using pv 6 by (auto split: sum.splits)
        then show ?thesis using less[OF small] jv_object[of s u m r] Cons 6 by simp
      next
        case (Inr r')
        then show ?thesis using pv 6 jv_object0[of s u r] Cons by simp
      qed
    next
      case 7
      then have n: "parse_number (c # u) = Inr (v, r)" using pv by simp
      obtain p x where "c # u = p @ r" "p \<noteq> []" "\<forall>c\<in>set p. number_char c" using parse_number_rest[OF n] by blast
      then show ?thesis using jv_number[of s p r v] Cons n by simp
    qed
  qed
  have E: "json_elements s vs r" if run: "parse_elements s = Inr (vs, r)" for vs r
  proof -
    obtain v t where v: "parse_value s = Inr (v, t)" using run by (auto simp: parse_elements.simps[of s] split: sum.splits)
    consider (one) "skip_whitespace t = CHR '']'' # r" "vs = [v]" | (more) u ws where "skip_whitespace t = CHR '','' # u" "parse_elements u = Inr (ws, r)" "vs = v # ws"
      using run v by (auto simp: parse_elements.simps[of s] split: sum.splits)
    then show ?thesis
    proof cases
      case more
      have "length u < length s" using skip_whitespace_Cons[OF more(1)] parse_rest[OF v] by simp
      then show ?thesis using less more je_more V[OF v] by metis
    qed (use V[OF v] je_last in metis)
  qed
  have M: "json_members m s ms r" if run: "parse_members m s = Inr (ms, r)" for m ms r
  proof -
    obtain s1 k s2 s3 v s4 where h: "skip_whitespace s = quote_char # s1" "string_body s1 = Inr (k, s2)"
        "skip_whitespace s2 = CHR '':'' # s3" "parse_value s3 = Inr (v, s4)" "k \<notin> fst ` set m"
      and alt: "skip_whitespace s4 = CHR ''}'' # r \<and> ms = emplace k v m \<or>
        (\<exists>u. skip_whitespace s4 = CHR '','' # u \<and> parse_members (emplace k v m) u = Inr (ms, r))"
      using run by (auto simp: parse_members.simps[of m s] split: sum.splits if_splits)
    obtain p where p: "s1 = p @ quote_char # s2" "lit p k" using string_body_lit[OF h(2)] by blast
    have l: "length s3 < length s" "length s4 < length s3"
      using skip_whitespace_Cons[OF h(1)] skip_whitespace_Cons[OF h(3)] p(1) parse_rest[OF h(4)] by simp_all
    have v: "json_value s3 v s4" using less[OF l(1)] h(4) by blast
    from alt show ?thesis
    proof (elim disjE conjE exE)
      assume "skip_whitespace s4 = CHR ''}'' # r" "ms = emplace k v m"
      then show ?thesis using jm_last h p v by metis
    next
      fix u assume u: "skip_whitespace s4 = CHR '','' # u" "parse_members (emplace k v m) u = Inr (ms, r)"
      have "length u < length s" using skip_whitespace_Cons[OF u(1)] l by simp
      then have "json_members (emplace k v m) u ms r" using less u(2) by blast
      then show ?thesis using jm_more h p v u(1) by metis
    qed
  qed
  show ?case using V E M by blast
qed

lemma json_value_skip: "json_value (skip_whitespace s) v r \<longleftrightarrow> json_value s v r"
  by (subst (1 2) json_value.simps) simp

lemma map_of_emplace: "k \<notin> fst ` set m \<Longrightarrow> map_of (emplace k v m) = (map_of m)(k \<mapsto> v)"
  by (induction m) (auto simp: fun_eq_iff)

lemma json_members_keep: "json_members m s ms r \<Longrightarrow> k \<in> fst ` set m \<Longrightarrow> map_of ms k = map_of m k"
proof (induction rule: json_value_json_elements_json_members.inducts(3)[where ?P1.0 = "\<lambda>_ _ _. True" and ?P2.0 = "\<lambda>_ _ _. True"])
qed (auto simp: map_of_emplace set_emplace)

subsection \<open>A value depends on its own text only\<close>

lemma takeWhile_digits_local:
  assumes "takeWhile json_digit (i @ r) = i" and "r' = [] \<or> \<not> json_digit (hd r')"
  shows "takeWhile json_digit (i @ r') = i" "dropWhile json_digit (i @ r') = r'"
proof -
  have "\<forall>c\<in>set i. json_digit c" using assms(1) by (metis set_takeWhileD)
  then show "takeWhile json_digit (i @ r') = i" "dropWhile json_digit (i @ r') = r'"
    using assms(2) by (cases r'; simp add: takeWhile_append2 dropWhile_append2)+
qed

lemma scan_integer_local:
  assumes "scan_integer (i @ r) = Inr (i, r)" and "r' = [] \<or> \<not> json_digit (hd r')"
  shows "scan_integer (i @ r') = Inr (i, r')"
proof -
  obtain c j where i: "i = c # j" using scan_integer_rest[OF assms(1)] by (cases i) auto
  show ?thesis
  proof (cases "c = CHR ''0''")
    case True
    then have "j = []" using assms(1) by (simp add: i scan_integer_def split: if_splits)
    then show ?thesis using True by (simp add: i scan_integer_def json_digit_def)
  next
    case False
    then have "takeWhile json_digit (i @ r) = i" "json_digit c" using assms(1) by (auto simp: i scan_integer_def split: if_splits)
    then show ?thesis using False takeWhile_digits_local[of i r r', OF _ assms(2)] by (simp add: i scan_integer_def)
  qed
qed

lemma scan_fraction_local:
  assumes "scan_fraction (q @ t) = Inr (f, t)" and "t' = [] \<or> \<not> json_digit (hd t') \<and> hd t' \<noteq> CHR ''.''"
  shows "scan_fraction (q @ t') = Inr (f, t')"
proof (cases q)
  case Nil
  have "scan_fraction t' = Inr ([], t')" using assms(2) by (cases t') (simp_all add: scan_fraction_def)
  moreover have "f = []"
  proof (cases t)
    case (Cons c u)
    then have "dropWhile json_digit u \<noteq> t" using length_dropWhile_le[of json_digit u] by (metis impossible_Cons)
    then show ?thesis using assms(1) Nil Cons by (auto simp: scan_fraction_def split: if_splits)
  qed (use assms(1) Nil in \<open>simp add: scan_fraction_def\<close>)
  ultimately show ?thesis using Nil by simp
next
  case (Cons c j)
  then have c: "c = CHR ''.''" "takeWhile json_digit (j @ t) = f" "f \<noteq> []" "dropWhile json_digit (j @ t) = t"
    using assms(1) by (auto simp: scan_fraction_def split: if_splits)
  then have "f @ t = j @ t" by (metis takeWhile_dropWhile_id)
  then have f: "f = j" by simp
  have "takeWhile json_digit (j @ t') = j" "dropWhile json_digit (j @ t') = t'"
    by (rule takeWhile_digits_local[of j t t']; use c f assms(2) in auto)+
  then show ?thesis using c f Cons by (simp add: scan_fraction_def)
qed

definition exponent_text :: "string \<Rightarrow> bool \<Rightarrow> string \<Rightarrow> bool" where
  "exponent_text q en ed \<longleftrightarrow> q = [] \<and> ed = [] \<and> \<not> en \<or>
     (\<exists>c sg. (c = CHR ''e'' \<or> c = CHR ''E'') \<and> q = c # sg @ ed \<and> ed \<noteq> [] \<and> (\<forall>d\<in>set ed. json_digit d) \<and>
        (sg = [] \<and> \<not> en \<or> sg = ''+'' \<and> \<not> en \<or> sg = ''-'' \<and> en))"

lemma exponent_digits: "takeWhile json_digit t \<noteq> [] \<Longrightarrow> t = takeWhile json_digit t @ dropWhile json_digit t \<and> (\<forall>d\<in>set (takeWhile json_digit t). json_digit d)"
  by (auto dest: set_takeWhileD)

lemma scan_exponent_text: "scan_exponent s = Inr ((en, ed), t) \<Longrightarrow> \<exists>q. s = q @ t \<and> exponent_text q en ed"
proof -
  assume a: "scan_exponent s = Inr ((en, ed), t)"
  show ?thesis
  proof (cases s)
    case Nil
    then show ?thesis using a by (auto simp: scan_exponent_def exponent_text_def)
  next
    case (Cons c u)
    show ?thesis
    proof (cases "c = CHR ''e'' \<or> c = CHR ''E''")
      case False
      then show ?thesis using a Cons by (auto simp: scan_exponent_def exponent_text_def)
    next
      case True
      obtain sg u' where u: "u = sg @ u'" "ed = takeWhile json_digit u'" "t = dropWhile json_digit u'" "ed \<noteq> []"
          "sg = [] \<and> \<not> en \<or> sg = ''+'' \<and> \<not> en \<or> sg = ''-'' \<and> en"
      proof (cases u)
        case Nil
        then show thesis using a Cons True by (auto simp: scan_exponent_def)
      next
        case Cons': (Cons d v)
        then show thesis using a Cons True that[of "[]" u] that[of "[d]" v]
          by (auto simp: scan_exponent_def split: if_splits)
      qed
      then have "s = (c # sg @ ed) @ t" using Cons by simp
      moreover have "exponent_text (c # sg @ ed) en ed" using True u unfolding exponent_text_def by (auto dest: set_takeWhileD)
      ultimately show ?thesis by blast
    qed
  qed
qed

lemma scan_exponent_reads:
  assumes "exponent_text q en ed" and "delimited t"
  shows "scan_exponent (q @ t) = Inr ((en, ed), t)"
proof (cases "q = []")
  case True
  then show ?thesis using assms delimited_scan(2) by (auto simp: exponent_text_def)
next
  case False
  then obtain c sg where q: "c = CHR ''e'' \<or> c = CHR ''E''" "q = c # sg @ ed" "ed \<noteq> []" "\<forall>d\<in>set ed. json_digit d"
      "sg = [] \<and> \<not> en \<or> sg = ''+'' \<and> \<not> en \<or> sg = ''-'' \<and> en" using assms(1) by (auto simp: exponent_text_def)
  have w: "takeWhile json_digit (ed @ t) = ed" "dropWhile json_digit (ed @ t) = t"
    using q(4) delimited_scan(3,4)[OF assms(2)] by (simp_all add: takeWhile_append2 dropWhile_append2)
  obtain d ed' where ed: "ed = d # ed'" using q(3) by (cases ed) auto
  have "d \<noteq> CHR ''-''" "d \<noteq> CHR ''+''" using q(4) by (auto simp: ed json_digit_def)
  then show ?thesis using q(1,2,3,5) w by (auto simp: scan_exponent_def ed)
qed

lemma parse_number_local:
  assumes "parse_number (p @ r) = Inr (v, r)" and "delimited r'"
  shows "parse_number (p @ r') = Inr (v, r')"
proof -
  define sg where "sg = (case p @ r of c # _ \<Rightarrow> if c = CHR ''-'' then ''-'' else [] | [] \<Rightarrow> [])"
  obtain i s2 f s3 en ed x s1 where h: "p @ r = sg @ s1" "scan_integer s1 = Inr (i, s2)" "scan_fraction s2 = Inr (f, s3)"
      "scan_exponent s3 = Inr ((en, ed), r)" "json_decimal (sg \<noteq> []) i f en ed = Inr x" "v = JNumber x"
    using assms(1) unfolding parse_number_def sg_def Let_def
    by (cases "p @ r"; cases "hd (p @ r) = CHR ''-''") (auto split: sum.splits prod.splits)
  have i: "s1 = i @ s2" "i \<noteq> []" "\<forall>c\<in>set i. json_digit c" using scan_integer_rest[OF h(2)] by auto
  obtain q2 where q2: "s2 = q2 @ s3" "\<forall>c\<in>set q2. json_digit c \<or> c = CHR ''.''" using scan_fraction_rest[OF h(3)] by blast
  obtain q3 where q3: "s3 = q3 @ r" "exponent_text q3 en ed" using scan_exponent_text[OF h(4)] by blast
  have p: "p = sg @ i @ q2 @ q3" using h(1) i(1) q2(1) q3(1) by simp
  have d: "r' = [] \<or> \<not> json_digit (hd r') \<and> hd r' \<noteq> CHR ''.''" using assms(2) by (auto simp: delimited_def json_digit_def is_ws_def)
  have e3: "scan_exponent (q3 @ r') = Inr ((en, ed), r')" using scan_exponent_reads[OF q3(2) assms(2)] .
  have t3: "q3 @ r' = [] \<or> \<not> json_digit (hd (q3 @ r')) \<and> hd (q3 @ r') \<noteq> CHR ''.''"
    using q3(2) d by (auto simp: exponent_text_def json_digit_def)
  have e2: "scan_fraction (q2 @ q3 @ r') = Inr (f, q3 @ r')" using scan_fraction_local[of q2 s3 f "q3 @ r'"] h(3) q2(1) t3 by simp
  have t2: "q2 @ q3 @ r' = [] \<or> \<not> json_digit (hd (q2 @ q3 @ r'))"
  proof (cases q2)
    case (Cons c u)
    then have "c = CHR ''.''" using h(3) q2(1) i arg_cong[of "s2" "s3" length] by (auto simp: scan_fraction_def split: if_splits)
    then show ?thesis using Cons by (simp add: json_digit_def)
  qed (use t3 in auto)
  have e1: "scan_integer (i @ q2 @ q3 @ r') = Inr (i, q2 @ q3 @ r')" using scan_integer_local[of i s2 "q2 @ q3 @ r'"] h(2) i(1) t2 by simp
  have "hd i \<noteq> CHR ''-''" using i(2,3) by (cases i) (auto simp: json_digit_def)
  moreover have "sg = [] \<or> sg = ''-''" by (auto simp: sg_def split: list.splits)
  ultimately show ?thesis using e1 e2 e3 h(5,6) i(2) p
    by (cases i) (auto simp: parse_number_def)
qed

lemma skip_ws_append: "\<forall>c\<in>set w. is_ws c \<Longrightarrow> skip_whitespace (w @ x) = skip_whitespace x"
  by (simp add: skip_whitespace_def dropWhile_append2)

lemma parse_ws_append:
  assumes "\<forall>c\<in>set w. is_ws c"
  shows "parse_value (w @ x) = parse_value x" "parse_elements (w @ x) = parse_elements x" "parse_members m (w @ x) = parse_members m x"
  using skip_ws_append[OF assms, of x] parse_value_skip parse_elements_skip parse_members_skip by metis+

text \<open>\<open>local_parse good f s x r\<close>: \<open>s\<close> is a text followed by \<open>r\<close>, and \<open>f\<close> reads \<open>x\<close> off that text whatever good text follows it.\<close>

definition local_parse :: "(string \<Rightarrow> bool) \<Rightarrow> (string \<Rightarrow> exn + 'x \<times> string) \<Rightarrow> string \<Rightarrow> 'x \<Rightarrow> string \<Rightarrow> bool" where
  "local_parse good f s x r \<longleftrightarrow> (\<exists>p. s = p @ r \<and> (\<forall>r'. good r' \<longrightarrow> f (p @ r') = Inr (x, r')))"

lemma local_parseI: "s = p @ r \<Longrightarrow> (\<And>r'. good r' \<Longrightarrow> f (p @ r') = Inr (x, r')) \<Longrightarrow> local_parse good f s x r"
  by (auto simp: local_parse_def)

lemma ws_split: obtains w where "s = w @ skip_whitespace s" "\<forall>c\<in>set w. is_ws c"
  by (rule that[of "takeWhile is_ws s"]) (auto simp: skip_whitespace_def dest: set_takeWhileD)

lemma local_value_skip:
  assumes "local_parse good parse_value (skip_whitespace s) x r"
  shows "local_parse good parse_value s x r"
proof -
  obtain p where p: "skip_whitespace s = p @ r" "\<And>r'. good r' \<Longrightarrow> parse_value (p @ r') = Inr (x, r')" using assms by (auto simp: local_parse_def)
  obtain w where w: "s = w @ skip_whitespace s" "\<forall>c\<in>set w. is_ws c" by (rule ws_split)
  have "s = (w @ p) @ r" using w(1) p(1) by simp
  then show ?thesis using p(2) parse_ws_append(1)[OF w(2)] by (intro local_parseI[of s "w @ p"]) simp_all
qed

lemma local_members_skip:
  assumes "local_parse good (parse_members m) (skip_whitespace s) x r"
  shows "local_parse good (parse_members m) s x r"
proof -
  obtain p where p: "skip_whitespace s = p @ r" "\<And>r'. good r' \<Longrightarrow> parse_members m (p @ r') = Inr (x, r')" using assms by (auto simp: local_parse_def)
  obtain w where w: "s = w @ skip_whitespace s" "\<forall>c\<in>set w. is_ws c" by (rule ws_split)
  have "s = (w @ p) @ r" using w(1) p(1) by simp
  then show ?thesis using p(2) parse_ws_append(3)[OF w(2)] by (intro local_parseI[of s "w @ p"]) simp_all
qed

lemma parse_elements_not_closing: "parse_elements x = Inr y \<Longrightarrow> skip_whitespace x \<noteq> CHR '']'' # u"
proof
  assume "parse_elements x = Inr y" "skip_whitespace x = CHR '']'' # u"
  then show False using parse_value_closing[of "CHR '']''" x u] by (simp add: parse_elements.simps[of x])
qed

lemma parse_members_not_closing: "parse_members m x = Inr y \<Longrightarrow> skip_whitespace x \<noteq> CHR ''}'' # u"
  by (auto simp: parse_members.simps[of m x])

lemma delimited_skip: "skip_whitespace s = c # u \<Longrightarrow> c \<in> {CHR '','', CHR '']'', CHR ''}''} \<Longrightarrow> delimited s"
  by (cases s) (auto simp: delimited_def skip_whitespace_def split: if_splits)

lemma ws_delimited: "\<forall>c\<in>set w. is_ws c \<Longrightarrow> c \<in> {CHR '','', CHR '']'', CHR ''}''} \<Longrightarrow> delimited (w @ c # x)"
  by (cases w) (auto simp: delimited_def)

lemma skip_through: "skip_whitespace s = c # u \<Longrightarrow> \<exists>w. s = w @ c # u \<and> (\<forall>x. skip_whitespace (w @ c # x) = c # x) \<and> (\<forall>d\<in>set w. is_ws d)"
proof -
  assume a: "skip_whitespace s = c # u"
  obtain w where w: "s = w @ skip_whitespace s" "\<forall>d\<in>set w. is_ws d" by (rule ws_split)
  have "\<not> is_ws c" using a by (auto simp: skip_whitespace_def dropWhile_eq_Cons_conv)
  then have "skip_whitespace (w @ c # x) = c # x" for x using skip_ws_append[OF w(2)] by (simp add: skip_whitespace_def)
  moreover have "s = w @ c # u" using w(1) unfolding a .
  ultimately show ?thesis using w(2) by blast
qed

lemma number_char_start: "number_char c \<Longrightarrow> c \<notin> {CHR ''n'', CHR ''t'', CHR ''f'', quote_char, CHR ''['', CHR ''{''} \<and> \<not> is_ws c"
  by (auto simp: number_char_def is_ws_def json_digit_def)

lemma derivation_local:
  "json_value s v r \<Longrightarrow> local_parse delimited parse_value s v r"
  "json_elements s vs r \<Longrightarrow> local_parse (\<lambda>_. True) parse_elements s vs r"
  "json_members m s ms r \<Longrightarrow> local_parse (\<lambda>_. True) (parse_members m) s ms r"
proof (induction rule: json_value_json_elements_json_members.inducts)
  case (jv_literal s e r v)
  have "parse_value (e @ r') = Inr (v, r')" for r' using jv_literal(2) parse_value_literals[of r'] by auto
  then show ?case by - (rule local_value_skip, rule local_parseI[OF jv_literal(1)])
next
  case (jv_string s p r t)
  have "parse_value ((quote_char # p @ [quote_char]) @ r') = Inr (JString t, r')" for r'
    by (subst parse_value.simps) (simp add: lit_string_body[OF jv_string(2)])
  then show ?case using jv_string(1) by - (rule local_value_skip, rule local_parseI[of _ "quote_char # p @ [quote_char]"], simp_all)
next
  case (jv_number s p r v)
  have "parse_value (p @ r') = Inr (v, r')" if "delimited r'" for r'
  proof -
    obtain c u where p: "p = c # u" using jv_number(3) by (cases p) auto
    then have "skip_whitespace (p @ r') = c # u @ r'" "c \<notin> {CHR ''n'', CHR ''t'', CHR ''f'', quote_char, CHR ''['', CHR ''{''}"
      using jv_number(4) number_char_start[of c] by (auto simp: skip_whitespace_def)
    then show ?thesis using parse_number_local[OF jv_number(2) that] p by (subst parse_value.simps) simp
  qed
  then show ?case by - (rule local_value_skip, rule local_parseI[OF jv_number(1)])
next
  case (jv_array0 s u r)
  obtain w where w: "u = w @ CHR '']'' # r" "\<forall>x. skip_whitespace (w @ CHR '']'' # x) = CHR '']'' # x" using skip_through[OF jv_array0(2)] by blast
  have "parse_value ((CHR ''['' # w @ '']'') @ r') = Inr (JArray [], r')" for r'
    using w(2) by (subst parse_value.simps) (simp add: skip_whitespace_def[of "CHR ''['' # x" for x] is_ws_def)
  then show ?case using jv_array0(1) w(1) by - (rule local_value_skip, rule local_parseI[of _ "CHR ''['' # w @ '']''"], simp_all)
next
  case (jv_array s u vs r)
  then obtain p where p: "u = p @ r" "\<And>r'. parse_elements (p @ r') = Inr (vs, r')" by (auto simp: local_parse_def)
  have "parse_value ((CHR ''['' # p) @ r') = Inr (JArray vs, r')" for r'
    using parse_value_array[OF p(2)] parse_elements_not_closing[OF p(2)] by simp
  then show ?case using jv_array(1) p(1) by - (rule local_value_skip, rule local_parseI[of _ "CHR ''['' # p"], simp_all)
next
  case (jv_object0 s u r)
  obtain w where w: "u = w @ CHR ''}'' # r" "\<forall>x. skip_whitespace (w @ CHR ''}'' # x) = CHR ''}'' # x" using skip_through[OF jv_object0(2)] by blast
  have "parse_value ((CHR ''{'' # w @ ''}'') @ r') = Inr (JObject [], r')" for r'
    using w(2) by (subst parse_value.simps) (simp add: skip_whitespace_def[of "CHR ''{'' # x" for x] is_ws_def)
  then show ?case using jv_object0(1) w(1) by - (rule local_value_skip, rule local_parseI[of _ "CHR ''{'' # w @ ''}''"], simp_all)
next
  case (jv_object s u m r)
  then obtain p where p: "u = p @ r" "\<And>r'. parse_members [] (p @ r') = Inr (m, r')" by (auto simp: local_parse_def)
  have "parse_value ((CHR ''{'' # p) @ r') = Inr (JObject m, r')" for r'
    using parse_value_object[OF p(2)] parse_members_not_closing[OF p(2)] by simp
  then show ?case using jv_object(1) p(1) by - (rule local_value_skip, rule local_parseI[of _ "CHR ''{'' # p"], simp_all)
next
  case (je_last s v t r)
  obtain p where p: "s = p @ t" "\<And>r'. delimited r' \<Longrightarrow> parse_value (p @ r') = Inr (v, r')" using je_last.IH by (auto simp: local_parse_def)
  obtain w where w: "t = w @ CHR '']'' # r" "\<forall>x. skip_whitespace (w @ CHR '']'' # x) = CHR '']'' # x" "\<forall>d\<in>set w. is_ws d"
    using skip_through[OF je_last.hyps(2)] by blast
  have "parse_elements ((p @ w @ '']'') @ r') = Inr ([v], r')" for r'
    using p(2)[OF ws_delimited[OF w(3), of "CHR '']''" r']] w(2) by (subst parse_elements.simps) simp
  then show ?case using p(1) w(1) by (intro local_parseI[of _ "p @ w @ '']''"]) simp_all
next
  case (je_more s v t u vs r)
  obtain p where p: "s = p @ t" "\<And>r'. delimited r' \<Longrightarrow> parse_value (p @ r') = Inr (v, r')" using je_more.IH(1) by (auto simp: local_parse_def)
  obtain q where q: "u = q @ r" "\<And>r'. parse_elements (q @ r') = Inr (vs, r')" using je_more.IH(2) by (auto simp: local_parse_def)
  obtain w where w: "t = w @ CHR '','' # u" "\<forall>x. skip_whitespace (w @ CHR '','' # x) = CHR '','' # x" "\<forall>d\<in>set w. is_ws d"
    using skip_through[OF je_more.hyps(2)] by blast
  have "parse_elements ((p @ w @ CHR '','' # q) @ r') = Inr (v # vs, r')" for r'
    using p(2)[OF ws_delimited[OF w(3), of "CHR '',''" "q @ r'"]] w(2) q(2) by (subst parse_elements.simps) simp
  then show ?case using p(1) w(1) q(1) by (intro local_parseI[of _ "p @ w @ CHR '','' # q"]) simp_all
next
  case (jm_last s p s2 k s3 v s4 m r)
  obtain q where q: "s3 = q @ s4" "\<And>r'. delimited r' \<Longrightarrow> parse_value (q @ r') = Inr (v, r')" using jm_last.IH by (auto simp: local_parse_def)
  obtain w2 where w2: "s2 = w2 @ CHR '':'' # s3" "\<forall>x. skip_whitespace (w2 @ CHR '':'' # x) = CHR '':'' # x" using skip_through[OF jm_last.hyps(3)] by blast
  obtain w4 where w4: "s4 = w4 @ CHR ''}'' # r" "\<forall>x. skip_whitespace (w4 @ CHR ''}'' # x) = CHR ''}'' # x" "\<forall>d\<in>set w4. is_ws d"
    using skip_through[OF jm_last.hyps(6)] by blast
  define t where "t = quote_char # p @ quote_char # w2 @ CHR '':'' # q @ w4 @ ''}''"
  have "parse_members m (t @ r') = Inr (emplace k v m, r')" for r'
    using q(2)[OF ws_delimited[OF w4(3), of "CHR ''}''" r']] w2(2) w4(2) lit_string_body[OF jm_last.hyps(2)] jm_last.hyps(5)
    by (subst parse_members.simps) (simp add: t_def)
  moreover have "skip_whitespace s = t @ r" using jm_last.hyps(1) w2(1) q(1) w4(1) by (simp add: t_def)
  ultimately show ?case by - (rule local_members_skip, rule local_parseI[of _ t], simp_all)
next
  case (jm_more s p s2 k s3 v s4 m u ms r)
  obtain q where q: "s3 = q @ s4" "\<And>r'. delimited r' \<Longrightarrow> parse_value (q @ r') = Inr (v, r')" using jm_more.IH(1) by (auto simp: local_parse_def)
  obtain z where z: "u = z @ r" "\<And>r'. parse_members (emplace k v m) (z @ r') = Inr (ms, r')" using jm_more.IH(2) by (auto simp: local_parse_def)
  obtain w2 where w2: "s2 = w2 @ CHR '':'' # s3" "\<forall>x. skip_whitespace (w2 @ CHR '':'' # x) = CHR '':'' # x" using skip_through[OF jm_more.hyps(3)] by blast
  obtain w4 where w4: "s4 = w4 @ CHR '','' # u" "\<forall>x. skip_whitespace (w4 @ CHR '','' # x) = CHR '','' # x" "\<forall>d\<in>set w4. is_ws d"
    using skip_through[OF jm_more.hyps(6)] by blast
  define t where "t = quote_char # p @ quote_char # w2 @ CHR '':'' # q @ w4 @ CHR '','' # z"
  have "parse_members m (t @ r') = Inr (ms, r')" for r'
    using q(2)[OF ws_delimited[OF w4(3), of "CHR '',''" "z @ r'"]] w2(2) w4(2) z(2) lit_string_body[OF jm_more.hyps(2)] jm_more.hyps(5)
    by (subst parse_members.simps) (simp add: t_def)
  moreover have "skip_whitespace s = t @ r" using jm_more.hyps(1) w2(1) q(1) w4(1) z(1) by (simp add: t_def)
  ultimately show ?case by - (rule local_members_skip, rule local_parseI[of _ t], simp_all)
qed

end
