(* ===== verification/Json_Span.thy ===== *)
theory Json_Span
  imports Json_Grammar
begin

text \<open>
  The extraction of one top-level member as its source text, \<^verbatim>\<open>src/server/json_span.hpp\<close>. The scanner knows only
  strings, escapes and the depth of braces and brackets; the position is the rest of the text. A scan
  that steps over an escape at the end of the text ends one past it, which is \<open>None\<close> here.
\<close>

unbundle bit_operations_syntax

subsection \<open>The scanner\<close>

text \<open>The key's value. \<open>s\<close> is the text between the quotes; digits that are not hexadecimal count as 0.
  The last branch of \<open>append_utf8\<close> is taken for code points above the BMP too, and the cast drops bits.\<close>

definition append_utf8 :: "nat \<Rightarrow> string" where
  "append_utf8 code = map char_of
     (if code \<le> 0x7F then [code]
      else if code \<le> 0x7FF then [0xC0 OR code div 64, 0x80 OR code mod 64]
      else [0xE0 OR code div 4096, 0x80 OR code div 64 mod 64, 0x80 OR code mod 64])"

definition hex_or_zero :: "char \<Rightarrow> nat" where
  "hex_or_zero c = (case hex_value c of None \<Rightarrow> 0 | Some d \<Rightarrow> d)"

definition hex4 :: "string \<Rightarrow> nat" where
  "hex4 s = hex_or_zero (s ! 0) * 4096 + hex_or_zero (s ! 1) * 256 + hex_or_zero (s ! 2) * 16 + hex_or_zero (s ! 3)"

definition unicode_at :: "string \<Rightarrow> string \<times> string" where
  "unicode_at t =
     (let code = hex4 t; r = drop 4 t in
      if high_surrogate code \<and> 6 \<le> length r \<and> take 2 r = [backslash_char, CHR ''u''] \<and> low_surrogate (hex4 (drop 2 r))
      then (append_utf8 (surrogate_pair code (hex4 (drop 2 r))), drop 6 r) else (append_utf8 code, r))"

lemma unicode_at_length: "unicode_at t = (u, t') \<Longrightarrow> 4 \<le> length t \<Longrightarrow> length t' < length t"
  by (auto simp: unicode_at_def Let_def split: if_splits)

function decode_body :: "string \<Rightarrow> string" where
  "decode_body s = (case s of
     [] \<Rightarrow> []
   | c # r \<Rightarrow>
       if c \<noteq> backslash_char then c # decode_body r
       else (case r of
           [] \<Rightarrow> []
         | d # t \<Rightarrow>
             if d = CHR ''u'' then
               (if length t < 4 then decode_body t
                else case unicode_at t of (u, t') \<Rightarrow> u @ decode_body t')
             else (case simple_escape d of None \<Rightarrow> decode_body t | Some e \<Rightarrow> e # decode_body t)))"
  by pat_completeness auto
termination by (relation "measure length") (auto dest: unicode_at_length[OF sym])

declare decode_body.simps [simp del]

definition decode_json_string :: "string \<Rightarrow> string" where
  "decode_json_string literal =
     (if length literal < 2 \<or> hd literal \<noteq> quote_char then [] else decode_body (butlast (tl literal)))"

text \<open>From inside a string to its closing quote.\<close>

fun to_quote :: "string \<Rightarrow> string option" where
  "to_quote [] = Some []"
| "to_quote (c # r) =
     (if c = quote_char then Some (c # r)
      else if c = backslash_char then (case r of [] \<Rightarrow> None | _ # t \<Rightarrow> to_quote t)
      else to_quote r)"

fun scan_container :: "int \<Rightarrow> bool \<Rightarrow> string \<Rightarrow> string option" where
  "scan_container depth in_string [] = Some []"
| "scan_container depth in_string (c # r) =
     (if in_string then
        if c = backslash_char then (case r of [] \<Rightarrow> None | _ # t \<Rightarrow> scan_container depth True t)
        else scan_container depth (c \<noteq> quote_char) r
      else if c = quote_char then scan_container depth True r
      else if c = CHR ''{'' \<or> c = CHR ''['' then scan_container (depth + 1) False r
      else if c = CHR ''}'' \<or> c = CHR '']'' then (if depth - 1 = 0 then Some r else scan_container (depth - 1) False r)
      else scan_container depth False r)"

definition ends_scalar :: "char \<Rightarrow> bool" where
  "ends_scalar c \<longleftrightarrow> c = CHR '','' \<or> c = CHR ''}'' \<or> c = CHR '']'' \<or> is_ws c"

definition skip_value :: "string \<Rightarrow> string option" where
  "skip_value s = (case s of
     [] \<Rightarrow> Some []
   | c # r \<Rightarrow>
       if c = quote_char then map_option (\<lambda>q. case q of [] \<Rightarrow> [] | _ # t \<Rightarrow> t) (to_quote r)
       else if c = CHR ''{'' \<or> c = CHR ''['' then scan_container 0 False s
       else Some (dropWhile (\<lambda>c. \<not> ends_scalar c) s))"

text \<open>The text from \<open>s\<close> up to its suffix \<open>r\<close>, the \<open>substr\<close> of the two positions.\<close>

definition text_between :: "string \<Rightarrow> string \<Rightarrow> string" where
  "text_between s r = take (length s - length r) s"

function raw_members :: "string \<Rightarrow> string \<Rightarrow> string option" where
  "raw_members key s = (case skip_whitespace s of
     [] \<Rightarrow> None
   | c # r \<Rightarrow>
       if c = CHR ''}'' then None
       else if c = CHR '','' then raw_members key r
       else if c \<noteq> quote_char then None
       else (case to_quote r of
           None \<Rightarrow> None
         | Some [] \<Rightarrow> None
         | Some (_ # t) \<Rightarrow>
             (case skip_whitespace t of
                [] \<Rightarrow> None
              | e # u \<Rightarrow>
                  if e \<noteq> CHR '':'' then None
                  else (case skip_value (skip_whitespace u) of
                      None \<Rightarrow> None
                    | Some rest \<Rightarrow>
                        if decode_json_string (text_between (c # r) t) = key then Some (text_between (skip_whitespace u) rest)
                        else raw_members key rest))))"
  by pat_completeness auto

lemma to_quote_length: "to_quote s = Some r \<Longrightarrow> length r \<le> length s"
proof (induction s rule: to_quote.induct)
  case (2 c r)
  then show ?case by (cases r) (fastforce split: if_splits)+
qed simp

lemma scan_container_length: "scan_container d b s = Some r \<Longrightarrow> length r \<le> length s"
proof (induction d b s rule: scan_container.induct)
  case (2 d b c s)
  show ?case
  proof (cases b)
    case True
    then show ?thesis using "2.prems" "2.IH"(1)[OF True] "2.IH"(2)[OF True]
      by (cases s) (auto split: if_splits intro: le_SucI)
  next
    case False
    then show ?thesis using "2.prems" "2.IH"(3-6)[OF False] by (auto split: if_splits intro: le_SucI)
  qed
qed simp

lemma skip_value_length: "skip_value s = Some r \<Longrightarrow> length r \<le> length s"
proof (cases s)
  case (Cons c t)
  assume a: "skip_value s = Some r"
  consider (str) q where "to_quote t = Some q" "r = (case q of [] \<Rightarrow> [] | _ # t \<Rightarrow> t)" | (container) "scan_container 0 False s = Some r"
    | (scalar) "r = dropWhile (\<lambda>c. \<not> ends_scalar c) s"
    using a Cons unfolding skip_value_def by (auto simp del: scan_container.simps split: if_splits)
  then show ?thesis
  proof cases
    case str
    then show ?thesis using to_quote_length[OF str(1)] Cons by (cases q) auto
  qed (simp_all add: scan_container_length length_dropWhile_le)
qed (simp add: skip_value_def)

termination raw_members
proof (relation "measure (\<lambda>(key, s). length s)", goal_cases)
  case (3 key s c r q u t e w rest)
  then show ?case
    using skip_whitespace_length[of s] skip_whitespace_length[of t] skip_whitespace_length[of w]
    by (auto dest!: to_quote_length skip_value_length)
qed (auto dest: skip_whitespace_Cons)

declare raw_members.simps [simp del]

definition raw_member :: "string \<Rightarrow> string \<Rightarrow> string option" where
  "raw_member body key = (case skip_whitespace body of
     [] \<Rightarrow> None | c # r \<Rightarrow> if c = CHR ''{'' then raw_members key r else None)"

subsection \<open>Literals\<close>

text \<open>The scanners agree with the parser on a literal.\<close>

lemma to_quote_hex: "hex_text h c \<Longrightarrow> to_quote (h @ x) = to_quote x"
proof -
  have "\<forall>d\<in>set h. d \<noteq> quote_char \<and> d \<noteq> backslash_char \<Longrightarrow> to_quote (h @ x) = to_quote x" for h by (induction h) auto
  then show "hex_text h c \<Longrightarrow> to_quote (h @ x) = to_quote x" using hex_text_digits by blast
qed

lemma scan_container_hex: "hex_text h c \<Longrightarrow> scan_container d True (h @ x) = scan_container d True x"
proof -
  have "\<forall>d\<in>set h. d \<noteq> quote_char \<and> d \<noteq> backslash_char \<Longrightarrow> scan_container d True (h @ x) = scan_container d True x" for h by (induction h) auto
  then show "hex_text h c \<Longrightarrow> scan_container d True (h @ x) = scan_container d True x" using hex_text_digits by blast
qed

lemma lit_to_quote: "lit p t \<Longrightarrow> to_quote (p @ quote_char # r) = Some (quote_char # r)"
  by (induction rule: lit.induct) (simp_all add: to_quote_hex)

lemma lit_scan: "lit p t \<Longrightarrow> scan_container d True (p @ quote_char # r) = scan_container d False r"
  by (induction rule: lit.induct) (simp_all add: scan_container_hex)

subsection \<open>Keys\<close>

definition non_ascii :: "string \<Rightarrow> bool" where
  "non_ascii s \<longleftrightarrow> (\<exists>c\<in>set s. (128::nat) \<le> byte_of c)"

lemma or_is_add: "y < 64 \<Longrightarrow> (0x80::nat) OR y = 0x80 + y" "z < 32 \<Longrightarrow> (0xC0::nat) OR z = 0xC0 + z" "w < 16 \<Longrightarrow> (0xE0::nat) OR w = 0xE0 + w"
proof -
  have "\<forall>y\<in>set [0..<64]. (0x80::nat) OR y = 0x80 + y" "\<forall>z\<in>set [0..<32]. (0xC0::nat) OR z = 0xC0 + z"
    "\<forall>w\<in>set [0..<16]. (0xE0::nat) OR w = 0xE0 + w" by code_simp+
  then show "y < 64 \<Longrightarrow> (0x80::nat) OR y = 0x80 + y" "z < 32 \<Longrightarrow> (0xC0::nat) OR z = 0xC0 + z" "w < 16 \<Longrightarrow> (0xE0::nat) OR w = 0xE0 + w"
    by simp_all
qed

lemma high_bit_char: "bit (n::nat) 7 \<Longrightarrow> (128::nat) \<le> byte_of (char_of n)"
proof -
  assume "bit n 7"
  then have "odd (n div 128)" by (simp add: bit_iff_odd)
  moreover have "n mod (128 * 2) = 128 * (n div 128 mod 2) + n mod 128" by (rule mod_mult2_eq)
  ultimately have "128 \<le> n mod 256" by (simp add: odd_iff_mod_2_eq_one)
  then show ?thesis by (simp add: of_char_of)
qed

lemma append_utf8_bmp: "c \<le> 0xFFFF \<Longrightarrow> append_utf8 c = append_code_point c"
proof -
  assume c: "c \<le> 0xFFFF"
  have "c mod 64 < 64" "c div 64 mod 64 < 64" "c \<le> 0x7FF \<Longrightarrow> c div 64 < 32" "c div 4096 < 16" using c by auto
  then show ?thesis using c by (simp add: append_utf8_def append_code_point_def or_is_add)
qed

lemma append_utf8_non_ascii: "0x7F < c \<Longrightarrow> non_ascii (append_utf8 c)"
proof -
  assume "0x7F < c"
  then have "char_of ((0x80::nat) OR c mod 64) \<in> set (append_utf8 c)" by (simp add: append_utf8_def)
  moreover have "(128::nat) \<le> byte_of (char_of ((0x80::nat) OR c mod 64))" by (rule high_bit_char) (simp add: bit_or_iff bit_0)
  ultimately show ?thesis unfolding non_ascii_def by blast
qed

lemma append_code_point_non_ascii: "0x7F < c \<Longrightarrow> c \<le> 0x10FFFF \<Longrightarrow> non_ascii (append_code_point c)"
  by (auto simp: append_code_point_def non_ascii_def of_char_of)

lemma non_ascii_append [simp]: "non_ascii (s @ t) \<longleftrightarrow> non_ascii s \<or> non_ascii t"
  by (auto simp: non_ascii_def)

text \<open>Two readings of a key agree as far as a comparison with an ASCII key can tell.\<close>

definition same_key :: "string \<Rightarrow> string \<Rightarrow> bool" where
  "same_key s t \<longleftrightarrow> s = t \<or> non_ascii s \<and> non_ascii t"

lemma same_key_append: "same_key s t \<Longrightarrow> same_key s' t' \<Longrightarrow> same_key (s @ s') (t @ t')"
  by (auto simp: same_key_def)

lemma same_key_Cons: "same_key s t \<Longrightarrow> same_key (c # s) (c # t)"
  by (auto simp: same_key_def non_ascii_def)

lemma read_hex_bound: "read_hex n a s = Inr (c, r) \<Longrightarrow> c < (a + 1) * 16 ^ n"
proof (induction n a s rule: read_hex.induct)
  case (2 n acc d s)
  then obtain v where v: "hex_value d = Some v" "read_hex n (16 * acc + v) s = Inr (c, r)" by (auto split: option.splits)
  have "v < 16" using v(1) by (auto simp: hex_value_def Let_def split: if_splits)
  then have "(16 * acc + v + 1) * 16 ^ n \<le> (16 * (acc + 1)) * 16 ^ n" by (intro mult_le_mono1) simp
  also have "\<dots> = (acc + 1) * 16 ^ Suc n" by (simp add: algebra_simps)
  finally have "(16 * acc + v + 1) * 16 ^ n \<le> (acc + 1) * 16 ^ Suc n" .
  then show ?case using 2(1)[OF v] by linarith
qed auto

lemma hex_text_bound: "hex_text h c \<Longrightarrow> c \<le> 0xFFFF"
  using read_hex_bound[of 4 0 h c "[]"] by (auto simp: hex_text_def read_hex4_def split: if_splits)

lemma hex4_text: "hex_text h c \<Longrightarrow> hex4 (h @ x) = c"
proof -
  assume h: "hex_text h c"
  then obtain a b d e where l: "h = [a, b, d, e]"
    by (cases h; cases "tl h"; cases "tl (tl h)"; cases "tl (tl (tl h))") (auto simp: hex_text_def)
  have "read_hex (Suc (Suc (Suc (Suc 0)))) 0 h = Inr (c, [])" using h unfolding l by (simp add: hex_text_def read_hex4_Cons)
  then show ?thesis unfolding l by (auto simp: hex4_def hex_or_zero_def split: option.splits)
qed

lemma decode_body_simps:
  "decode_body [] = []"
  "c \<noteq> backslash_char \<Longrightarrow> decode_body (c # r) = c # decode_body r"
  "d \<noteq> CHR ''u'' \<Longrightarrow> simple_escape d = Some e \<Longrightarrow> decode_body (backslash_char # d # r) = e # decode_body r"
  "hex_text h k \<Longrightarrow> unicode_at (h @ r) = (u, r') \<Longrightarrow> decode_body (backslash_char # CHR ''u'' # h @ r) = u @ decode_body r'"
  by (subst decode_body.simps; simp add: hex_text_def)+

lemma no_surrogate_bounds: "c \<le> 0x10FFFF \<Longrightarrow> no_surrogate c \<le> 0x10FFFF" "0x7F < c \<Longrightarrow> 0x7F < no_surrogate c"
  by (simp_all add: no_surrogate_def)

lemma same_key_code:
  assumes "c \<le> 0x10FFFF" and "c \<noteq> d \<or> 0xFFFF < c \<Longrightarrow> 0x7F < c \<and> 0x7F < d" and "d \<le> 0x10FFFF"
  shows "same_key (append_utf8 c) (append_code_point d)"
proof (cases "c = d \<and> c \<le> 0xFFFF")
  case True
  then show ?thesis by (simp add: same_key_def append_utf8_bmp)
next
  case False
  then have "0x7F < c \<and> 0x7F < d" using assms(2) by fastforce
  then show ?thesis using assms append_utf8_non_ascii append_code_point_non_ascii by (simp add: same_key_def)
qed

lemma lit_decode: "lit p t \<Longrightarrow> same_key (decode_body p) t"
proof (induction rule: lit.induct)
  case lit_nil
  then show ?case by (simp add: decode_body_simps same_key_def)
next
  case (lit_plain c p t)
  then show ?case by (simp add: decode_body_simps same_key_Cons)
next
  case (lit_simple d e p t)
  then show ?case by (simp add: decode_body_simps same_key_Cons)
next
  case (lit_unicode h c p t)
  have l: "length h = 4" using lit_unicode(1) by (simp add: hex_text_def)
  have "\<not> (high_surrogate c \<and> take 2 p = [backslash_char, CHR ''u''])"
    using lit_unicode(2) by (cases p; cases "tl p") auto
  then have "unicode_at (h @ p) = (append_utf8 c, p)"
    by (auto simp: unicode_at_def Let_def hex4_text[OF lit_unicode(1)] l)
  moreover have "same_key (append_utf8 c) (append_code_point (no_surrogate c))"
    by (rule same_key_code) (use hex_text_bound[OF lit_unicode(1)] in \<open>auto simp: no_surrogate_def split: if_splits\<close>)
  ultimately show ?case using same_key_append lit_unicode(1,4) by (simp add: decode_body_simps(4))
next
  case (lit_pair h c h' d p t)
  have l: "length h = 4" "length h' = 4" using lit_pair by (simp_all add: hex_text_def)
  have "unicode_at (h @ backslash_char # CHR ''u'' # h' @ p) = (append_utf8 (surrogate_pair c d), p)"
    using lit_pair(3,4) by (simp add: unicode_at_def Let_def hex4_text[OF lit_pair(1)] hex4_text[OF lit_pair(2)] l)
  moreover have "same_key (append_utf8 (surrogate_pair c d)) (append_code_point (no_surrogate (surrogate_pair c d)))"
    by (rule same_key_code) (use lit_pair(3,4) in \<open>auto simp: surrogate_pair_def high_surrogate_def low_surrogate_def no_surrogate_def\<close>)
  ultimately show ?case using same_key_append lit_pair(1,6) by (simp add: decode_body_simps(4))
next
  case (lit_lone h c p h' q d t)
  have l: "length h = 4" "length h' = 4" using lit_lone by (simp_all add: hex_text_def)
  have "unicode_at (h @ p) = (append_utf8 c, p)"
    using lit_lone(5) by (simp add: unicode_at_def Let_def hex4_text[OF lit_lone(1)] lit_lone(3) hex4_text[OF lit_lone(4)] l)
  moreover have "same_key (append_utf8 c) (append_code_point (no_surrogate 0xFFFD))"
    by (rule same_key_code) (use lit_lone(2) in \<open>auto simp: high_surrogate_def no_surrogate_def\<close>)
  ultimately show ?case using same_key_append lit_lone(1,7) by (simp add: decode_body_simps(4))
qed

subsection \<open>Values\<close>

text \<open>Characters that mean nothing to the scanner of a container.\<close>

definition neutral :: "char \<Rightarrow> bool" where
  "neutral c \<longleftrightarrow> c \<notin> {quote_char, CHR ''{'', CHR ''['', CHR ''}'', CHR '']''}"

lemma scan_neutral: "\<forall>c\<in>set p. neutral c \<Longrightarrow> scan_container d False (p @ r) = scan_container d False r"
  by (induction p) (auto simp: neutral_def)

lemma scan_skip: "scan_container d False (skip_whitespace s) = scan_container d False s"
proof -
  have "\<forall>c\<in>set (takeWhile is_ws s). neutral c" by (auto simp: is_ws_def neutral_def dest!: set_takeWhileD)
  then have "scan_container d False (takeWhile is_ws s @ skip_whitespace s) = scan_container d False (skip_whitespace s)" by (rule scan_neutral)
  then show ?thesis by (simp add: skip_whitespace_def)
qed

subsection \<open>Skipping a value\<close>

lemma number_char_facts: "number_char c \<Longrightarrow> neutral c \<and> \<not> ends_scalar c \<and> c \<notin> {quote_char, CHR ''['', CHR ''{''}"
  by (auto simp: number_char_def neutral_def ends_scalar_def is_ws_def json_digit_def)

lemma literal_chars: "(e, v) \<in> {(''null'', JNull), (''true'', JBool True), (''false'', JBool False)} \<Longrightarrow> c \<in> set e \<Longrightarrow> neutral c \<and> \<not> ends_scalar c"
  by (auto simp: neutral_def ends_scalar_def is_ws_def)

text \<open>A value leaves the depth unchanged, the rest of a container closes it.\<close>

definition closes :: "int \<Rightarrow> string \<Rightarrow> string \<Rightarrow> bool" where
  "closes d s r \<longleftrightarrow> scan_container d False s = (if d = 1 then Some r else scan_container (d - 1) False r)"

lemma closes_end: "skip_whitespace s = c # r \<Longrightarrow> c = CHR '']'' \<or> c = CHR ''}'' \<Longrightarrow> closes d s r"
  by (auto simp: closes_def scan_skip[of d s, symmetric])

lemma scan_through: "skip_whitespace s = p @ r \<Longrightarrow> \<forall>c\<in>set p. neutral c \<Longrightarrow> scan_container d False s = scan_container d False r"
  by (simp add: scan_skip[of d s, symmetric] scan_neutral)

lemma scan_string: "skip_whitespace s = quote_char # p @ quote_char # r \<Longrightarrow> lit p t \<Longrightarrow> scan_container d False s = scan_container d False r"
  by (simp add: scan_skip[of d s, symmetric] lit_scan)

lemma scan_open: "skip_whitespace s = c # u \<Longrightarrow> c = CHR ''['' \<or> c = CHR ''{'' \<Longrightarrow> scan_container d False s = scan_container (d + 1) False u"
  by (auto simp: scan_skip[of d s, symmetric])

lemma derivation_scan:
  "json_value s v r \<Longrightarrow> 0 < d \<Longrightarrow> scan_container d False s = scan_container d False r"
  "json_elements s vs r \<Longrightarrow> 0 < d \<Longrightarrow> closes d s r"
  "json_members m s ms r \<Longrightarrow> 0 < d \<Longrightarrow> closes d s r"
proof (induction arbitrary: d and d and d rule: json_value_json_elements_json_members.inducts)
  case (jv_literal s e r v)
  then show ?case using scan_through literal_chars by blast
next
  case (jv_string s p r t)
  then show ?case using scan_string by blast
next
  case (jv_number s p r v)
  then show ?case using scan_through number_char_facts by blast
next
  case (jv_array0 s u r)
  then show ?case using scan_open[OF jv_array0(1)] closes_end[OF jv_array0(2), of "d + 1"] by (simp add: closes_def)
next
  case (jv_array s u vs r)
  then show ?case using scan_open[OF jv_array(1)] jv_array(3)[of "d + 1"] by (simp add: closes_def)
next
  case (jv_object0 s u r)
  then show ?case using scan_open[OF jv_object0(1)] closes_end[OF jv_object0(2), of "d + 1"] by (simp add: closes_def)
next
  case (jv_object s u m r)
  then show ?case using scan_open[OF jv_object(1)] jv_object(3)[of "d + 1"] by (simp add: closes_def)
next
  case (je_last s v t r)
  then show ?case using closes_end[of t "CHR '']''" r d] by (simp add: closes_def)
next
  case (je_more s v t u vs r)
  have "scan_container d False t = scan_container d False u" using scan_through[of t "'',''" u] je_more.hyps(2) by (simp add: neutral_def)
  then show ?case using je_more by (simp add: closes_def)
next
  case (jm_last s p s2 k s3 v s4 m r)
  have "scan_container d False s2 = scan_container d False s3" using scan_through[of s2 "'':''" s3] jm_last.hyps(3) by (simp add: neutral_def)
  then show ?case using jm_last.IH jm_last.prems scan_string[OF jm_last.hyps(1,2)] closes_end[OF jm_last.hyps(6)] by (simp add: closes_def)
next
  case (jm_more s p s2 k s3 v s4 m u ms r)
  have "scan_container d False s2 = scan_container d False s3" using scan_through[of s2 "'':''" s3] jm_more.hyps(3) by (simp add: neutral_def)
  moreover have "scan_container d False s4 = scan_container d False u" using scan_through[of s4 "'',''" u] jm_more.hyps(6) by (simp add: neutral_def)
  ultimately show ?case using jm_more.IH jm_more.prems scan_string[OF jm_more.hyps(1,2)] by (simp add: closes_def)
qed

lemma dropWhile_scalar: "\<forall>c\<in>set p. \<not> ends_scalar c \<Longrightarrow> delimited r \<Longrightarrow> dropWhile (\<lambda>c. \<not> ends_scalar c) (p @ r) = r"
  by (cases r) (auto simp: dropWhile_append2 delimited_def ends_scalar_def)

lemma skip_value_scalar:
  assumes "\<forall>c\<in>set p. \<not> ends_scalar c" and "p \<noteq> []" and "hd p \<notin> {quote_char, CHR ''{'', CHR ''[''}" and "delimited r"
  shows "skip_value (p @ r) = Some r"
  using assms dropWhile_scalar[OF assms(1,4)] by (cases p) (simp_all add: skip_value_def)

lemma skip_value_correct:
  assumes "json_value s v r" and "delimited r"
  shows "skip_value (skip_whitespace s) = Some r"
  using assms(1)
proof cases
  case (jv_literal e)
  then show ?thesis using skip_value_scalar[of e r] literal_chars assms(2) by auto
next
  case (jv_string p t)
  then show ?thesis using lit_to_quote[of p t r] by (simp add: skip_value_def)
next
  case (jv_number p)
  then show ?thesis using skip_value_scalar[of p r] number_char_facts assms(2) by (cases p) auto
next
  case (jv_array0 u)
  then show ?thesis using closes_end[OF jv_array0(3), of 1] by (simp add: skip_value_def closes_def)
next
  case (jv_array u vs)
  then show ?thesis using derivation_scan(2)[OF jv_array(3), of 1] by (simp add: skip_value_def closes_def)
next
  case (jv_object0 u)
  then show ?thesis using closes_end[OF jv_object0(3), of 1] by (simp add: skip_value_def closes_def)
next
  case (jv_object u m)
  then show ?thesis using derivation_scan(3)[OF jv_object(3), of 1] by (simp add: skip_value_def closes_def)
qed

subsection \<open>The member that is found\<close>

lemma text_between_append [simp]: "text_between (p @ r) r = p"
  by (simp add: text_between_def)

lemma key_literal_decodes:
  assumes "lit p k" and "\<not> non_ascii key"
  shows "decode_json_string (quote_char # p @ [quote_char]) = key \<longleftrightarrow> k = key"
  using lit_decode[OF assms(1)] assms(2) by (auto simp: decode_json_string_def same_key_def)

text \<open>One turn of the loop over the members.\<close>

lemma raw_members_step:
  assumes "skip_whitespace s = quote_char # p @ quote_char # s2" and "lit p k" and "skip_whitespace s2 = CHR '':'' # s3"
    and "json_value s3 v s4" and "delimited s4" and "\<not> non_ascii key"
  shows "raw_members key s = (if k = key then Some (text_between (skip_whitespace s3) s4) else raw_members key s4)"
proof -
  have "text_between (quote_char # p @ quote_char # s2) s2 = quote_char # p @ [quote_char]"
    using text_between_append[of "quote_char # p @ [quote_char]" s2] by simp
  then show ?thesis
    using assms(1,3) lit_to_quote[OF assms(2)] skip_value_correct[OF assms(4,5)] key_literal_decodes[OF assms(2,6)]
    by (subst raw_members.simps) simp
qed

lemma span_reads:
  assumes "json_value s v r"
  shows "reads_as (text_between (skip_whitespace s) r) v"
proof -
  have "json_value (skip_whitespace s) v r" using assms json_value_skip by blast
  then obtain p where "skip_whitespace s = p @ r" "\<And>r'. delimited r' \<Longrightarrow> parse_value (p @ r') = Inr (v, r')"
    using derivation_local(1)[of "skip_whitespace s" v r] by (auto simp: local_parse_def)
  then show ?thesis by (simp add: reads_as_def)
qed

definition finds :: "string \<Rightarrow> string option \<Rightarrow> JsonValue option \<Rightarrow> bool" where
  "finds key found v \<longleftrightarrow> (case v of None \<Rightarrow> found = None | Some x \<Rightarrow> \<exists>t. found = Some t \<and> reads_as t x)"

lemma raw_members_finds:
  "json_members m s ms r \<Longrightarrow> \<not> non_ascii key \<Longrightarrow> key \<notin> fst ` set m \<Longrightarrow> finds key (raw_members key s) (map_of ms key)"
proof (induction rule: json_value_json_elements_json_members.inducts(3)[where ?P1.0 = "\<lambda>_ _ _. True" and ?P2.0 = "\<lambda>_ _ _. True"])
  case (jm_last s p s2 k s3 v s4 m r)
  note h = jm_last
  have d: "delimited s4" using delimited_skip[OF h(7)] by simp
  have "raw_members key s4 = None" using h(7) by (subst raw_members.simps) simp
  moreover have "map_of m key = None" using jm_last.prems(2) by (simp add: map_of_eq_None_iff)
  ultimately show ?case using raw_members_step[OF h(1,2,3,4) d jm_last.prems(1)] span_reads[OF h(4)] h(6)
    by (auto simp: finds_def map_of_emplace)
next
  case (jm_more s p s2 k s3 v s4 m u ms r)
  note h = jm_more
  have d: "delimited s4" using delimited_skip[OF h(7)] by simp
  have n: "raw_members key s4 = raw_members key u" using h(7) by (subst raw_members.simps) simp
  show ?case
  proof (cases "k = key")
    case True
    then have "map_of ms key = Some v" using json_members_keep[OF h(8), of key] h(6) by (simp add: set_emplace map_of_emplace)
    then show ?thesis using raw_members_step[OF h(1,2,3,4) d jm_more.prems(1)] span_reads[OF h(4)] True by (simp add: finds_def)
  next
    case False
    then have "finds key (raw_members key u) (map_of ms key)" using h(9) jm_more.prems by (simp add: set_emplace)
    then show ?thesis using raw_members_step[OF h(1,2,3,4) d jm_more.prems(1)] n False by simp
  qed
qed simp_all

lemma raw_member_agrees:
  assumes "parse_document body = Inr (JObject m)" and "\<not> non_ascii key"
  shows "case map_of m key of
      None \<Rightarrow> raw_member body key = None
    | Some v \<Rightarrow> \<exists>t. raw_member body key = Some t \<and> parse_document t = Inr v"
proof -
  obtain r where "parse_value body = Inr (JObject m, r)" using assms(1) by (auto simp: parse_document_def split: sum.splits if_splits)
  then have "json_value body (JObject m) r" using parse_derivation by blast
  then have "finds key (raw_member body key) (map_of m key)"
  proof cases
    case (jv_object u)
    then show ?thesis using raw_members_finds[OF jv_object(2) assms(2)] by (simp add: raw_member_def)
  next
    case (jv_object0 u)
    have "raw_members key u = None" using jv_object0(3) by (subst raw_members.simps) simp
    then show ?thesis using jv_object0 by (simp add: raw_member_def finds_def)
  next
    case (jv_number p)
    then show ?thesis using parse_number_rest by blast
  qed auto
  moreover have "parse_document t = Inr v" if "reads_as t v" for t v
  proof -
    have "parse_value (t @ []) = Inr (v, [])" using that delimited_def unfolding reads_as_def by blast
    then show ?thesis by (simp add: parse_document_def) (simp add: skip_whitespace_def)
  qed
  ultimately show ?thesis by (auto simp: finds_def split: option.splits)
qed

subsection \<open>The text of a member\<close>

lemma raw_members_span: "raw_members name s = Some t \<Longrightarrow> \<exists>u r. t = text_between (skip_whitespace u) r \<and> skip_value (skip_whitespace u) = Some r"
proof (induction name s rule: raw_members.induct)
  case (1 name s)
  have "raw_members name s = Some t" by fact
  then show ?case 
    by (subst (asm) raw_members.simps) (use "1.IH" in \<open>auto split: list.splits if_splits option.splits\<close>)
qed

lemma parse_value_null: "parse_value s = Inr (JNull, r) \<Longrightarrow> skip_whitespace s = ''null'' @ r"
proof -
  assume "parse_value s = Inr (JNull, r)"
  then have "json_value s JNull r" using parse_derivation by blast
  then show ?thesis by cases (auto simp: parse_number_def Let_def split: sum.splits prod.splits)
qed

lemma skip_whitespace_head: "skip_whitespace s = c # r \<Longrightarrow> \<not> is_ws c"
  by (simp add: skip_whitespace_def dropWhile_eq_Cons_conv)

lemma text_between_dropWhile: "text_between s (dropWhile P s) = takeWhile (\<lambda>c. P c) s"
  by (metis append_take_drop_id length_append add_diff_cancel_right' takeWhile_dropWhile_id text_between_def append_eq_conv_conj)

lemma raw_member_null:
  assumes "raw_member body name = Some t" and "parse_document t = Inr JNull"
  shows "t = ''null''"
proof -
  obtain u r where t: "t = text_between (skip_whitespace u) r" "skip_value (skip_whitespace u) = Some r"
    using assms(1) by (auto simp: raw_member_def split: list.splits if_splits dest!: raw_members_span)
  obtain w where p: "parse_value (skip_whitespace t) = Inr (JNull, w)" "skip_whitespace w = []"
    using assms(2) by (auto simp: parse_document_def split: sum.splits if_splits)
  have null: "skip_whitespace t = ''null'' @ w" using parse_value_null[OF p(1)] by (simp add: skip_whitespace_def)
  then have "t \<noteq> []" by (auto simp: skip_whitespace_def)
  then obtain c v v' where c: "skip_whitespace u = c # v" "t = c # v'" using t(1)
    by (cases "skip_whitespace u"; cases t) (auto simp: text_between_def take_Cons split: nat.splits)
  have "\<not> is_ws c" using skip_whitespace_head[OF c(1)] .
  then have n: "t = ''null'' @ w" "c = CHR ''n''" using null c(2) by (auto simp: skip_whitespace_def)
  then have "r = dropWhile (\<lambda>c. \<not> ends_scalar c) (c # v)" using t(2) c(1) by (simp add: skip_value_def)
  then have "t = takeWhile (\<lambda>c. \<not> ends_scalar c) (c # v)" using t(1) c(1) text_between_dropWhile by metis
  then have "\<forall>x\<in>set t. \<not> is_ws x" by (auto simp: ends_scalar_def dest: set_takeWhileD)
  then have "w = []" using n(1) p(2) by (cases w) (auto simp: skip_whitespace_def)
  then show ?thesis using n by simp
qed

definition quoted_plain :: "string \<Rightarrow> string" where
  "quoted_plain t = CHR 0x22 # t @ [CHR 0x22]"

definition sample_body :: string where
  "sample_body = CHR ''{'' # quoted_plain ''t'' @ '':['' @ quoted_plain ''tools'' @ ''], '' @ (CHR 0x22 # CHR 0x5C # ''u0074ools'') @ [CHR 0x22] @ '': [ ]}''"


end
