(* ===== verification/Openai_Codec.thy ===== *)
theory Openai_Codec
  imports Conversation_Seam Json_Writer Json_Span
begin

text \<open>
  The request parser and the response writers of \<^verbatim>\<open>src/server/openai_codec.cpp\<close>. A failure is a
  \<open>CodecError\<close>, which the HTTP layer turns into a reply with its status, or an exception of the JSON
  accessors that the parser does not catch. The seed a request without one gets, the clock and the id of a
  reply are arguments.
\<close>

subsection \<open>Reading a request\<close>

record CodecError =
  http_status :: nat
  error_code :: string
  error_message :: string

datatype codec_exn = Codec CodecError | Escapes exn

definition codec_fail :: "nat \<Rightarrow> string \<Rightarrow> string \<Rightarrow> codec_exn + 'a" where
  "codec_fail status code message = Inl (Codec \<lparr>http_status = status, error_code = code, error_message = message\<rparr>)"

abbreviation invalid_request :: "string \<Rightarrow> codec_exn + 'a" where
  "invalid_request \<equiv> codec_fail 400 ''invalid_request_error''"

definition require :: "bool \<Rightarrow> string \<Rightarrow> codec_exn + unit" where
  "require b message = (if b then Inr () else invalid_request message)"

definition on_success :: "'e + 'a \<Rightarrow> ('a \<Rightarrow> 'e + 'b) \<Rightarrow> 'e + 'b" where
  "on_success m k = (case m of Inl e \<Rightarrow> Inl e | Inr x \<Rightarrow> k x)"

definition escaping :: "exn + 'a \<Rightarrow> codec_exn + 'a" where
  "escaping m = (case m of Inl e \<Rightarrow> Inl (Escapes e) | Inr x \<Rightarrow> Inr x)"

fun map_all :: "('a \<Rightarrow> 'e + 'b) \<Rightarrow> 'a list \<Rightarrow> 'e + 'b list" where
  "map_all f [] = Inr []"
| "map_all f (x # xs) = on_success (f x) (\<lambda>y. on_success (map_all f xs) (\<lambda>ys. Inr (y # ys)))"

text \<open>\<open>find\<close> with a test of the kind of value, as the code's conditions have it.\<close>

definition find_string :: "string \<Rightarrow> JsonValue \<Rightarrow> string option" where
  "find_string k v = (case json_find k v of Some (JString s) \<Rightarrow> Some s | _ \<Rightarrow> None)"

definition find_present :: "string \<Rightarrow> JsonValue \<Rightarrow> JsonValue option" where
  "find_present k v = (case json_find k v of Some JNull \<Rightarrow> None | r \<Rightarrow> r)"

fun is_object :: "JsonValue \<Rightarrow> bool" where
  "is_object (JObject m) \<longleftrightarrow> True"
| "is_object _ \<longleftrightarrow> False"

fun is_number :: "JsonValue \<Rightarrow> bool" where
  "is_number (JNumber x) \<longleftrightarrow> True"
| "is_number _ \<longleftrightarrow> False"

definition parse_role :: "string \<Rightarrow> codec_exn + Role" where
  "parse_role role =
     (if role = ''system'' then Inr SystemRole
      else if role = ''developer'' then Inr DeveloperRole
      else if role = ''user'' then Inr UserRole
      else if role = ''assistant'' then Inr AssistantRole
      else if role = ''tool'' then Inr ToolRole
      else invalid_request (''unknown role: '' @ role))"

definition parse_part :: "JsonValue \<Rightarrow> codec_exn + string" where
  "parse_part part =
     on_success (require (is_object part) ''each `content` part must be an object'') (\<lambda>_.
     case find_string ''type'' part of
       None \<Rightarrow> invalid_request ''each `content` part needs a string `type`''
     | Some type \<Rightarrow>
         if type \<noteq> ''text'' then codec_fail 400 ''unsupported_parameter'' (''content part type `'' @ type @ ''` is not supported'')
         else case find_string ''text'' part of
           None \<Rightarrow> invalid_request ''a text content part needs string `text`''
         | Some text \<Rightarrow> Inr text)"

definition parse_content :: "JsonValue \<Rightarrow> codec_exn + string" where
  "parse_content message = (case json_find ''content'' message of
     None \<Rightarrow> Inr []
   | Some JNull \<Rightarrow> Inr []
   | Some (JString s) \<Rightarrow> Inr s
   | Some (JArray parts) \<Rightarrow> on_success (map_all parse_part parts) (\<lambda>texts. Inr (concat texts))
   | Some _ \<Rightarrow> invalid_request ''`content` must be a string, null, or an array of text parts'')"

definition string_or_empty :: "string option \<Rightarrow> string" where
  "string_or_empty r = (case r of None \<Rightarrow> [] | Some s \<Rightarrow> s)"

definition parse_tool_call :: "JsonValue \<Rightarrow> codec_exn + ToolCall" where
  "parse_tool_call call =
     on_success (require (is_object call) ''each tool call must be an object'') (\<lambda>_.
     case json_find ''function'' call of
       Some (JObject fn) \<Rightarrow>
         (case find_string ''arguments'' (JObject fn) of
            None \<Rightarrow> invalid_request (''a tool call'' @ CHR 0x27 # ''s `function.arguments` must be a JSON string'')
          | Some args \<Rightarrow> Inr \<lparr>call_id = string_or_empty (find_string ''id'' call),
              call_name = string_or_empty (find_string ''name'' (JObject fn)), arguments_json = args\<rparr>)
     | _ \<Rightarrow> invalid_request ''a tool call needs a `function` object'')"

definition parse_tool_calls :: "JsonValue \<Rightarrow> codec_exn + ToolCall list" where
  "parse_tool_calls message = (case find_present ''tool_calls'' message of
     None \<Rightarrow> Inr []
   | Some (JArray calls) \<Rightarrow> map_all parse_tool_call calls
   | Some _ \<Rightarrow> invalid_request ''`tool_calls` must be an array'')"

definition is_empty_value :: "JsonValue option \<Rightarrow> bool" where
  "is_empty_value v = (case v of
     None \<Rightarrow> True | Some JNull \<Rightarrow> True | Some (JString s) \<Rightarrow> s = [] | Some (JArray xs) \<Rightarrow> xs = [] | Some (JObject m) \<Rightarrow> m = []
   | Some _ \<Rightarrow> False)"

definition parse_message :: "JsonValue \<Rightarrow> codec_exn + Message" where
  "parse_message node =
     on_success (require (is_object node) ''each message must be an object'') (\<lambda>_.
     case find_string ''role'' node of
       None \<Rightarrow> invalid_request ''each message needs a string `role`''
     | Some role \<Rightarrow>
         on_success (parse_role role) (\<lambda>r.
         on_success (parse_content node) (\<lambda>content.
         let reasoning = string_or_empty (find_string ''reasoning_content'' node);
             call = string_or_empty (find_string ''tool_call_id'' node)
         in if r = ToolRole \<and> call = [] then invalid_request ''a tool message requires `tool_call_id`''
            else on_success (parse_tool_calls node) (\<lambda>calls.
              Inr \<lparr>msg_role = r, msg_content = content, msg_reasoning = reasoning, msg_tool_call_id = call, msg_tool_calls = calls\<rparr>))))"

definition parse_messages :: "JsonValue \<Rightarrow> codec_exn + Message list" where
  "parse_messages document = (case json_find ''messages'' document of
     Some (JArray (n # ns)) \<Rightarrow> map_all parse_message (n # ns)
   | _ \<Rightarrow> invalid_request ''`messages` must be a non-empty array'')"

definition passthrough :: "string \<Rightarrow> string \<Rightarrow> string" where
  "passthrough body name = (case raw_member body name of None \<Rightarrow> [] | Some t \<Rightarrow> if t = ''null'' then [] else t)"

definition read_toggle :: "JsonValue option \<Rightarrow> bool option" where
  "read_toggle v = (case v of
     Some (JBool b) \<Rightarrow> Some b
   | Some (JObject m) \<Rightarrow> (case find_string ''type'' (JObject m) of
       Some t \<Rightarrow> if t = ''enabled'' then Some True else if t = ''disabled'' then Some False else None
     | None \<Rightarrow> None)
   | _ \<Rightarrow> None)"

definition toggles :: "string list \<Rightarrow> JsonValue \<Rightarrow> bool \<Rightarrow> bool" where
  "toggles names v = fold (\<lambda>k b. case read_toggle (json_find k v) of None \<Rightarrow> b | Some b' \<Rightarrow> b') names"

definition thinking_toggle :: "JsonValue \<Rightarrow> bool" where
  "thinking_toggle document =
     (let kwargs = (case json_find ''chat_template_kwargs'' document of
            Some (JObject m) \<Rightarrow> toggles [''thinking'', ''enable_thinking''] (JObject m) False | _ \<Rightarrow> False)
      in toggles [''enable_thinking'', ''thinking''] document kwargs)"

definition parse_effort :: "JsonValue \<Rightarrow> bool \<Rightarrow> codec_exn + bool \<times> string" where
  "parse_effort document thinking = (case find_present ''reasoning_effort'' document of
     None \<Rightarrow> Inr (thinking, [])
   | Some (JString e) \<Rightarrow>
       if e = ''none'' then Inr (False, [])
       else if e = ''minimal'' \<or> e = ''medium'' then Inr (True, ''low'')
       else if e = ''low'' \<or> e = ''high'' \<or> e = ''max'' then Inr (True, e)
       else invalid_request ''`reasoning_effort` must be one of low|high|max''
   | Some _ \<Rightarrow> invalid_request ''`reasoning_effort` must be a string'')"

definition parse_cap :: "JsonValue \<Rightarrow> string \<Rightarrow> nat option \<Rightarrow> codec_exn + nat option" where
  "parse_cap document name cap = (case find_present name document of
     None \<Rightarrow> Inr cap
   | Some v \<Rightarrow>
       on_success (require (is_number v) (''`'' @ name @ ''` must be a number'')) (\<lambda>_.
       on_success (escaping (as_int64 v)) (\<lambda>c.
       on_success (require (0 < c) (''`'' @ name @ ''` must be positive'')) (\<lambda>_.
       Inr (Some (u32 (nat c)))))))"

definition parse_float :: "JsonValue \<Rightarrow> string \<Rightarrow> codec_exn + fp option" where
  "parse_float document name = (case find_present name document of
     None \<Rightarrow> Inr None
   | Some v \<Rightarrow>
       on_success (require (is_number v) (''`'' @ name @ ''` must be a number'')) (\<lambda>_.
       on_success (escaping (as_number v)) (\<lambda>x. Inr (Some (to_float x)))))"

definition parse_seed :: "JsonValue \<Rightarrow> nat \<Rightarrow> codec_exn + nat" where
  "parse_seed document drawn = (case find_present ''seed'' document of
     None \<Rightarrow> Inr drawn
   | Some v \<Rightarrow>
       on_success (require (is_number v) ''`seed` must be a number'') (\<lambda>_.
       on_success (escaping (as_int64 v)) (\<lambda>s. Inr (nat (s mod 2 ^ 64)))))"

definition parse_stream :: "JsonValue \<Rightarrow> codec_exn + bool" where
  "parse_stream document = (case find_present ''stream'' document of
     None \<Rightarrow> Inr False
   | Some (JBool b) \<Rightarrow> Inr b
   | Some _ \<Rightarrow> invalid_request ''`stream` must be a boolean'')"

definition parse_include_usage :: "JsonValue \<Rightarrow> bool" where
  "parse_include_usage document = (case json_find ''stream_options'' document of
     Some (JObject m) \<Rightarrow> (case json_find ''include_usage'' (JObject m) of Some (JBool b) \<Rightarrow> b | _ \<Rightarrow> False)
   | _ \<Rightarrow> False)"

definition check_n :: "JsonValue \<Rightarrow> codec_exn + unit" where
  "check_n document = (case find_present ''n'' document of
     None \<Rightarrow> Inr ()
   | Some v \<Rightarrow>
       on_success (require (is_number v) ''`n` must be a number'') (\<lambda>_.
       on_success (escaping (as_int64 v)) (\<lambda>n. require (n = 1) ''`n` must be 1'')))"

definition check_unsupported :: "JsonValue \<Rightarrow> string \<Rightarrow> codec_exn + unit" where
  "check_unsupported document name =
     (if is_empty_value (json_find name document) then Inr ()
      else codec_fail 400 ''unsupported_parameter'' (''`'' @ name @ ''` is not supported''))"

definition check_logprobs :: "JsonValue \<Rightarrow> codec_exn + unit" where
  "check_logprobs document =
     (if (case json_find ''logprobs'' document of Some (JBool b) \<Rightarrow> b | Some (JNumber x) \<Rightarrow> \<not> is_zero x | _ \<Rightarrow> False)
      then codec_fail 400 ''unsupported_parameter'' ''`logprobs` is not supported'' else Inr ())"

definition check_penalty :: "JsonValue \<Rightarrow> string \<Rightarrow> codec_exn + unit" where
  "check_penalty document name = (case find_present name document of
     None \<Rightarrow> Inr ()
   | Some v \<Rightarrow>
       on_success (require (is_number v) (''`'' @ name @ ''` must be a number'')) (\<lambda>_.
       on_success (escaping (as_number v)) (\<lambda>x.
       if is_zero x then Inr () else codec_fail 400 ''unsupported_parameter'' (''`'' @ name @ ''` is not supported''))))"

definition check_rejected :: "JsonValue \<Rightarrow> codec_exn + unit" where
  "check_rejected document =
     check_then (check_n document)
    (check_then (check_all (check_unsupported document) [''stop'', ''logit_bias''])
    (check_then (check_logprobs document)
                (check_all (check_penalty document) [''presence_penalty'', ''frequency_penalty'', ''repetition_penalty''])))"

record ParsedRequest =
  request :: ConversationRequest
  stream :: bool
  include_usage :: bool
  seed :: nat

definition parse_fields :: "nat \<Rightarrow> string \<Rightarrow> JsonValue \<Rightarrow> codec_exn + ParsedRequest" where
  "parse_fields drawn body document =
     on_success (require (is_object document) ''the request body must be a JSON object'') (\<lambda>_.
     on_success (parse_messages document) (\<lambda>messages.
     on_success (parse_effort document (thinking_toggle document)) (\<lambda>(thinking, effort).
     on_success (parse_cap document ''max_tokens'' None) (\<lambda>cap1.
     on_success (parse_cap document ''max_completion_tokens'' cap1) (\<lambda>cap.
     on_success (parse_float document ''temperature'') (\<lambda>temp.
     on_success (parse_float document ''top_p'') (\<lambda>top.
     on_success (parse_seed document drawn) (\<lambda>s.
     on_success (parse_stream document) (\<lambda>str.
     on_success (check_rejected document) (\<lambda>_.
     Inr \<lparr>request = \<lparr>req_messages = messages, req_tools_json = passthrough body ''tools'',
            req_response_format_json = passthrough body ''response_format'', req_thinking = thinking, req_reasoning_effort = effort,
            req_max_new_tokens = cap, req_sampling = \<lparr>temperature = temp, top_p = top, sampling_seed = Some s\<rparr>\<rparr>,
          stream = str, include_usage = parse_include_usage document, seed = s\<rparr>))))))))))"

fun exn_text :: "exn \<Rightarrow> string" where
  "exn_text (invalid_argument m) = m"
| "exn_text (logic_error m) = m"
| "exn_text (runtime_error m) = m"
| "exn_text (out_of_range m) = m"
| "exn_text GenerationCancelled = []"
| "exn_text (ConversationError k m) = m"

definition parse_chat_request :: "nat \<Rightarrow> string \<Rightarrow> codec_exn + ParsedRequest" where
  "parse_chat_request drawn body = (case parse_document body of
     Inl e \<Rightarrow> invalid_request (''malformed JSON: '' @ exn_text e)
   | Inr document \<Rightarrow> parse_fields drawn body document)"

subsection \<open>What an accepted request looks like\<close>

lemma on_success_Inr: "on_success m k = Inr y \<longleftrightarrow> (\<exists>x. m = Inr x \<and> k x = Inr y)"
  by (cases m) (auto simp: on_success_def)

lemma on_success_Inl: "on_success m k = Inl e \<longleftrightarrow> m = Inl e \<or> (\<exists>x. m = Inr x \<and> k x = Inl e)"
  by (cases m) (auto simp: on_success_def)

lemma require_simps [simp]: "require b t = Inr () \<longleftrightarrow> b" "require b t = Inl e \<longleftrightarrow> \<not> b \<and> invalid_request t = (Inl e :: codec_exn + unit)"
  by (auto simp: require_def codec_fail_def)

lemma codec_fail_simps [simp]: "codec_fail s c t \<noteq> Inr x" "codec_fail s c t \<noteq> Inl (Escapes e)"
    "codec_fail s c t = Inl (Codec err) \<longleftrightarrow> err = \<lparr>http_status = s, error_code = c, error_message = t\<rparr>"
  by (auto simp: codec_fail_def)

lemma escaping_simps [simp]: "escaping m = Inr x \<longleftrightarrow> m = Inr x" "escaping m \<noteq> Inl (Codec c)" "escaping m = Inl (Escapes e) \<longleftrightarrow> m = Inl e"
  by (auto simp: escaping_def split: sum.splits)

lemma map_all_Inr: "map_all f xs = Inr ys \<longleftrightarrow> list_all2 (\<lambda>x y. f x = Inr y) xs ys"
  by (induction xs arbitrary: ys) (auto simp: on_success_Inr list_all2_Cons1)

lemma map_all_Inl: "map_all f xs = Inl e \<Longrightarrow> \<exists>x\<in>set xs. f x = Inl e"
  by (induction xs) (auto simp: on_success_Inl)

definition message_ok :: "Message \<Rightarrow> bool" where
  "message_ok m \<longleftrightarrow> (msg_role m = ToolRole \<longrightarrow> msg_tool_call_id m \<noteq> [])"

definition effort_ok :: "bool \<Rightarrow> string \<Rightarrow> bool" where
  "effort_ok thinking e \<longleftrightarrow> e = [] \<or> thinking \<and> e \<in> {''low'', ''high'', ''max''}"

text \<open>A member passed through as text stands for the member the parser sees; absent and \<open>null\<close> are both the
  empty text.\<close>

definition passed :: "string \<Rightarrow> JsonValue option \<Rightarrow> bool" where
  "passed t v = (case v of None \<Rightarrow> t = [] | Some JNull \<Rightarrow> t = [] | Some x \<Rightarrow> t \<noteq> [] \<and> parse_document t = Inr x)"

lemma parse_message_ok: "parse_message node = Inr m \<Longrightarrow> message_ok m"
  by (auto simp: parse_message_def on_success_Inr message_ok_def Let_def split: option.splits if_splits)

lemma parse_messages_ok: "parse_messages document = Inr ms \<Longrightarrow> ms \<noteq> [] \<and> (\<forall>m\<in>set ms. message_ok m)"
proof -
  assume run: "parse_messages document = Inr ms"
  then obtain ns where "ns \<noteq> []" "map_all parse_message ns = Inr ms"
    by (auto simp del: map_all.simps simp: parse_messages_def split: option.splits JsonValue.splits list.splits)
  then have "list_all2 (\<lambda>n m. parse_message n = Inr m) ns ms" by (simp add: map_all_Inr)
  then have "\<forall>m\<in>set ms. message_ok m" "length ns = length ms"
    by (induction rule: list_all2_induct) (auto intro: parse_message_ok)
  then show ?thesis using \<open>ns \<noteq> []\<close> by auto
qed

lemma parse_effort_ok: "parse_effort document b = Inr (t, e) \<Longrightarrow> effort_ok t e"
  by (auto simp: parse_effort_def effort_ok_def split: option.splits JsonValue.splits if_splits)

lemma parse_cap_ok: "parse_cap document name c = Inr c' \<Longrightarrow> (\<forall>n. c = Some n \<longrightarrow> n < 2 ^ 32) \<Longrightarrow> (\<forall>n. c' = Some n \<longrightarrow> n < 2 ^ 32)"
  by (auto simp: parse_cap_def on_success_Inr u32_def split: option.splits)

lemma parse_seed_ok: "parse_seed document d = Inr s \<Longrightarrow> d < 2 ^ 64 \<Longrightarrow> s < 2 ^ 64"
proof -
  have "nat (x mod 2 ^ 64) < 2 ^ 64" for x :: int
    using pos_mod_bound[of "2 ^ 64" x] nat_less_eq_zless[of "x mod 2 ^ 64" "2 ^ 64"] by (simp add: nat_power_eq)
  then show "parse_seed document d = Inr s \<Longrightarrow> d < 2 ^ 64 \<Longrightarrow> s < 2 ^ 64"
    by (auto simp: parse_seed_def on_success_Inr split: option.splits)
qed

lemma parse_document_null: "parse_document ''null'' = Inr JNull"
  by code_simp

lemma parse_document_empty: "parse_document [] \<noteq> Inr v"
  by (simp add: parse_document_def parse_value.simps[of "[]"] skip_whitespace_def)

lemma passthrough_passed:
  assumes "parse_document body = Inr (JObject m)" and "\<not> non_ascii name"
  shows "passed (passthrough body name) (map_of m name)"
proof (cases "map_of m name")
  case None
  then show ?thesis using raw_member_agrees[OF assms] by (simp add: passed_def passthrough_def)
next
  case (Some v)
  then obtain t where t: "raw_member body name = Some t" "parse_document t = Inr v" using raw_member_agrees[OF assms] by auto
  have "t \<noteq> []" using t(2) parse_document_empty by auto
  moreover have "t = ''null'' \<longleftrightarrow> v = JNull" using raw_member_null[OF t(1)] t(2) parse_document_null by auto
  ultimately show ?thesis using t Some by (cases v) (auto simp: passed_def passthrough_def)
qed

definition request_ok :: "string \<Rightarrow> (string \<times> JsonValue) list \<Rightarrow> ConversationRequest \<Rightarrow> bool" where
  "request_ok body m r \<longleftrightarrow> req_messages r \<noteq> [] \<and> (\<forall>msg\<in>set (req_messages r). message_ok msg) \<and>
     effort_ok (req_thinking r) (req_reasoning_effort r) \<and> (\<forall>n. req_max_new_tokens r = Some n \<longrightarrow> n < 2 ^ 32) \<and>
     passed (req_tools_json r) (map_of m ''tools'') \<and> passed (req_response_format_json r) (map_of m ''response_format'')"

text \<open>C27: what the request parser lets through. An accepted body is a JSON object; its request has at
  least one message and every tool message its call id, a reasoning effort the encoder knows, and only with thinking on, a
  token cap of 32 bits and a seed of 64; and \<open>tools\<close> and \<open>response_format\<close> reach the encoder as text that parses to the very
  values the parsed body has, with absent and \<open>null\<close> both empty.\<close>

theorem accepted_request_ok:
  assumes "parse_chat_request drawn body = Inr p" and "drawn < 2 ^ 64"
  shows "\<exists>m. parse_document body = Inr (JObject m) \<and> request_ok body m (request p) \<and>
     sampling_seed (req_sampling (request p)) = Some (seed p) \<and> seed p < 2 ^ 64"
proof -
  obtain document where d: "parse_document body = Inr document" "parse_fields drawn body document = Inr p"
    using assms(1) by (auto simp: parse_chat_request_def split: sum.splits)
  then obtain m where m: "document = JObject m" by (cases document) (auto simp: parse_fields_def on_success_Inr)
  obtain ms t e c1 c s where run: "parse_messages document = Inr ms" "parse_effort document (thinking_toggle document) = Inr (t, e)"
      "parse_cap document ''max_tokens'' None = Inr c1" "parse_cap document ''max_completion_tokens'' c1 = Inr c" "parse_seed document drawn = Inr s"
    and p: "req_messages (request p) = ms" "req_thinking (request p) = t" "req_reasoning_effort (request p) = e" "req_max_new_tokens (request p) = c"
      "req_tools_json (request p) = passthrough body ''tools''" "req_response_format_json (request p) = passthrough body ''response_format''"
      "sampling_seed (req_sampling (request p)) = Some s" "seed p = s"
    using d(2) by (auto simp: parse_fields_def on_success_Inr)
  have ascii: "\<not> non_ascii ''tools''" "\<not> non_ascii ''response_format''" by code_simp+
  have cap: "\<forall>n. c = Some n \<longrightarrow> n < 2 ^ 32" using parse_cap_ok[OF run(4) parse_cap_ok[OF run(3)]] by simp
  have "passed (passthrough body ''tools'') (map_of m ''tools'')" "passed (passthrough body ''response_format'') (map_of m ''response_format'')"
    using passthrough_passed[OF d(1)[unfolded m]] ascii by simp_all
  then show ?thesis using d(1) m p cap parse_messages_ok[OF run(1)] parse_effort_ok[OF run(2)] parse_seed_ok[OF run(5) assms(2)]
    by (auto simp: request_ok_def)
qed

subsection \<open>Refusals\<close>

text \<open>A failure is fine when it is a \<open>CodecError\<close> with status 400; only a number that is no 64-bit integer makes
  another exception leave the parser.\<close>

definition bad_integer :: "JsonValue \<Rightarrow> bool" where
  "bad_integer v \<longleftrightarrow> is_number v \<and> isl (as_int64 v)"

definition refusal :: "JsonValue \<Rightarrow> codec_exn \<Rightarrow> bool" where
  "refusal document e = (case e of
     Codec c \<Rightarrow> http_status c = 400
   | Escapes x \<Rightarrow> \<exists>name\<in>{''max_tokens'', ''max_completion_tokens'', ''seed'', ''n''}. \<exists>v. json_find name document = Some v \<and> bad_integer v)"

definition plain_refusal :: "codec_exn \<Rightarrow> bool" where
  "plain_refusal e = (case e of Codec c \<Rightarrow> http_status c = 400 | Escapes x \<Rightarrow> False)"

lemma plain_refusal_refusal: "plain_refusal e \<Longrightarrow> refusal document e"
  by (auto simp: plain_refusal_def refusal_def split: codec_exn.splits)

lemma codec_fail_refusal: "codec_fail 400 c t = Inl e \<Longrightarrow> plain_refusal e"
  by (auto simp: codec_fail_def plain_refusal_def)

lemmas refusal_simps = on_success_Inl on_success_Inr

lemma parse_role_refusal: "parse_role t = Inl e \<Longrightarrow> plain_refusal e"
  by (auto simp: parse_role_def split: if_splits dest: codec_fail_refusal)

lemma parse_part_refusal: "parse_part v = Inl e \<Longrightarrow> plain_refusal e"
  by (auto simp: parse_part_def refusal_simps split: if_splits option.splits dest: codec_fail_refusal)

lemma parse_content_refusal: "parse_content v = Inl e \<Longrightarrow> plain_refusal e"
  by (auto simp: parse_content_def refusal_simps split: option.splits JsonValue.splits dest: codec_fail_refusal map_all_Inl parse_part_refusal)

lemma parse_tool_call_refusal: "parse_tool_call v = Inl e \<Longrightarrow> plain_refusal e"
  by (auto simp: parse_tool_call_def refusal_simps split: option.splits JsonValue.splits dest: codec_fail_refusal)

lemma parse_tool_calls_refusal: "parse_tool_calls v = Inl e \<Longrightarrow> plain_refusal e"
  by (auto simp: parse_tool_calls_def split: option.splits JsonValue.splits dest: codec_fail_refusal map_all_Inl parse_tool_call_refusal)

lemma parse_message_refusal: "parse_message v = Inl e \<Longrightarrow> plain_refusal e"
  by (auto simp: parse_message_def refusal_simps Let_def split: option.splits if_splits
      dest: codec_fail_refusal parse_role_refusal parse_content_refusal parse_tool_calls_refusal)

lemma parse_messages_refusal: "parse_messages v = Inl e \<Longrightarrow> plain_refusal e"
  by (auto simp del: map_all.simps simp: parse_messages_def split: option.splits JsonValue.splits list.splits
      dest!: codec_fail_refusal map_all_Inl dest: parse_message_refusal)

lemma parse_effort_refusal: "parse_effort v b = Inl e \<Longrightarrow> plain_refusal e"
  by (auto simp: parse_effort_def split: option.splits JsonValue.splits if_splits dest: codec_fail_refusal)

lemma find_present_Some: "find_present name v = Some x \<Longrightarrow> json_find name v = Some x"
  by (auto simp: find_present_def split: option.splits JsonValue.splits)

lemma number_as_number: "is_number v \<Longrightarrow> \<exists>x. as_number v = Inr x"
  by (cases v) simp_all

lemma escaping_Inl: "escaping m = Inl e \<longleftrightarrow> (\<exists>x. e = Escapes x \<and> m = Inl x)"
  by (auto simp: escaping_def split: sum.splits)

lemma parse_cap_refusal: "parse_cap document name c = Inl e \<Longrightarrow> name \<in> {''max_tokens'', ''max_completion_tokens''} \<Longrightarrow> refusal document e"
  by (auto simp: parse_cap_def refusal_simps escaping_Inl refusal_def bad_integer_def split: option.splits
      dest!: codec_fail_refusal find_present_Some dest: plain_refusal_refusal)

lemma parse_float_refusal: "parse_float document name = Inl e \<Longrightarrow> plain_refusal e"
  by (auto simp: parse_float_def refusal_simps escaping_Inl split: option.splits dest: codec_fail_refusal dest!: number_as_number)

lemma parse_seed_refusal: "parse_seed document d = Inl e \<Longrightarrow> refusal document e"
  by (auto simp: parse_seed_def refusal_simps escaping_Inl refusal_def bad_integer_def split: option.splits
      dest!: codec_fail_refusal find_present_Some dest: plain_refusal_refusal)

lemma parse_stream_refusal: "parse_stream document = Inl e \<Longrightarrow> plain_refusal e"
  by (auto simp: parse_stream_def split: option.splits JsonValue.splits dest: codec_fail_refusal)

lemma check_n_refusal: "check_n document = Inl e \<Longrightarrow> refusal document e"
  by (auto simp: check_n_def refusal_simps escaping_Inl refusal_def bad_integer_def split: option.splits
      dest!: codec_fail_refusal find_present_Some dest: plain_refusal_refusal)

lemma check_unsupported_refusal: "check_unsupported document name = Inl e \<Longrightarrow> plain_refusal e"
  by (auto simp: check_unsupported_def split: if_splits dest: codec_fail_refusal)

lemma check_logprobs_refusal: "check_logprobs document = Inl e \<Longrightarrow> plain_refusal e"
  by (auto simp: check_logprobs_def split: if_splits dest: codec_fail_refusal)

lemma check_penalty_refusal: "check_penalty document name = Inl e \<Longrightarrow> plain_refusal e"
  by (auto simp: check_penalty_def refusal_simps escaping_Inl split: option.splits if_splits dest: codec_fail_refusal dest!: number_as_number)

lemma check_then_Inl: "check_then a b = Inl e \<Longrightarrow> a = Inl e \<or> b = Inl e"
  by (auto simp: check_then_def split: sum.splits)

lemma check_all_Inl: "check_all f xs = Inl e \<Longrightarrow> \<exists>x\<in>set xs. f x = Inl e"
  by (induction xs) (auto split: sum.splits)

lemma check_rejected_refusal: "check_rejected document = Inl e \<Longrightarrow> refusal document e"
  unfolding check_rejected_def
  by (auto simp del: check_all.simps dest!: check_then_Inl check_all_Inl
      dest: check_n_refusal check_unsupported_refusal check_logprobs_refusal check_penalty_refusal intro: plain_refusal_refusal)

lemma parse_fields_refusal: "parse_fields drawn body document = Inl e \<Longrightarrow> refusal document e"
  unfolding parse_fields_def
  by (auto simp: refusal_simps
      dest: codec_fail_refusal parse_messages_refusal parse_effort_refusal parse_cap_refusal parse_float_refusal parse_seed_refusal
        parse_stream_refusal check_rejected_refusal intro: plain_refusal_refusal)

text \<open>How the request parser refuses. Every refusal is a \<open>CodecError\<close> with status 400, except that a number
  which is no 64-bit integer in one of four members makes an exception of the JSON accessors leave the parser.\<close>

theorem refusals_are_client_errors:
  assumes "parse_chat_request drawn body = Inl e"
  shows "case parse_document body of Inl x \<Rightarrow> plain_refusal e | Inr document \<Rightarrow> refusal document e"
  using assms by (auto simp: parse_chat_request_def split: sum.splits dest: codec_fail_refusal parse_fields_refusal)

text \<open>Such a number is answered with 500, and a cap of \<open>2 ^ 32\<close> becomes a cap of zero.\<close>

definition sample_request :: "string \<Rightarrow> string" where
  \<open>sample_request cap = ''{"messages":[{"role":"user","content":"hi"}],"max_tokens":'' @ cap @ ''}''\<close>

theorem fractional_cap_escapes:
  "parse_chat_request 0 (sample_request ''1.5'') = Inl (Escapes (runtime_error ''JSON number is not a signed 64-bit integer''))"
  by code_simp

theorem large_cap_truncated:
  "map_sum id (\<lambda>p. req_max_new_tokens (request p)) (parse_chat_request 0 (sample_request ''4294967296'')) = Inr (Some 0)"
  by code_simp

definition accepted_sample :: ParsedRequest where
  "accepted_sample = (case parse_chat_request 7 (sample_request ''16'') of Inr p \<Rightarrow> p)"

theorem accepted_request_ok_witness:
  "\<exists>m. parse_document (sample_request ''16'') = Inr (JObject m) \<and> request_ok (sample_request ''16'') m (request accepted_sample) \<and>
     req_max_new_tokens (request accepted_sample) = Some 16"
proof -
  have "isl (parse_chat_request 7 (sample_request ''16'')) = False" "req_max_new_tokens (request accepted_sample) = Some 16" by code_simp+
  then have "parse_chat_request 7 (sample_request ''16'') = Inr accepted_sample"
    by (auto simp: accepted_sample_def split: sum.splits)
  then show ?thesis using accepted_request_ok[of 7 "sample_request ''16''" accepted_sample] \<open>req_max_new_tokens _ = _\<close> by auto
qed

end
