(* ===== verification/Job_Service.thy ===== *)
theory Job_Service
  imports Conversation_Seam
begin

text \<open>
  The one place where the engine thread and the HTTP threads meet: \<^verbatim>\<open>src/server/job_stream.hpp\<close> and
  \<^verbatim>\<open>src/server/conversation_service.cpp\<close>, with the consumer loops of \<^verbatim>\<open>http_server.cpp\<close> as far as they use them.

  Each critical section, each store to an atomic and each call on a stream is one step, and the threads
  interleave between steps: the worker, the callers of \<open>shutdown\<close> and one HTTP handler per job. A job's
  address is its index in \<open>jobs\<close>. The engine is whatever it does between two steps: it may emit deltas,
  return a result or throw. Clocks are not modelled: a wait that times out is a step that is possible
  whenever what it waits for is not there.
\<close>

subsection \<open>Streams\<close>

datatype JobEvent = Delta TextDelta | Finished ConversationResult | Failed ErrorKind string

fun terminal :: "JobEvent \<Rightarrow> bool" where
  "terminal (Delta d) \<longleftrightarrow> False"
| "terminal _ \<longleftrightarrow> True"

record JobStream =
  events :: "JobEvent list"
  stream_closed :: bool

definition stream_push :: "JobEvent \<Rightarrow> JobStream \<Rightarrow> JobStream" where
  "stream_push e s = s\<lparr>events := events s @ [e]\<rparr>"

definition stream_close :: "JobStream \<Rightarrow> JobStream" where
  "stream_close s = s\<lparr>stream_closed := True\<rparr>"

text \<open>\<open>pop\<close> at the moment it stops waiting: an event, or none because the stream is drained or the wait
  timed out.\<close>

definition stream_pop :: "JobStream \<Rightarrow> JobEvent option \<times> JobStream" where
  "stream_pop s = (case events s of [] \<Rightarrow> (None, s) | e # es \<Rightarrow> (Some e, s\<lparr>events := es\<rparr>))"

definition is_closed :: "JobStream \<Rightarrow> bool" where
  "is_closed s = stream_closed s"

subsection \<open>The service\<close>

datatype ServiceState = Loading | Ready | Stopping

datatype submit_error = QueueFull | NotReady

record Job =
  job_id :: nat
  job_request :: ConversationRequest
  job_stream :: JobStream
  job_cancel :: bool

text \<open>Where the worker is: before its first section, at the wait, with a job in hand, inside the engine, before
  the close, before the last section of the loop body, and after the loop.\<close>

datatype Worker =
    AtStart | AtWait | Picked nat | InEngine nat | AtClose nat ConversationResult | AtPublish nat ConversationResult
  | AtSwap | Draining "nat list" bool | AtStop | Stopped

text \<open>Where the handler of a job is: before a \<open>pop\<close>, before the \<open>is_closed\<close> that follows a failed one, done,
  with the terminal event it saw if it saw one, or gone because its client is.\<close>

datatype Handler = AtPop | AtClosedCheck | HandlerDone "JobEvent option" | HandlerGone

record Service =
  max_queue :: nat
  queue :: "nat list"
  service_state :: ServiceState
  running :: bool
  next_id :: nat
  live_job :: "nat option"
  live_tokens :: nat
  live_seen_delta :: bool
  last_run :: "ConversationResult option"
  service_info :: ConversationInfo

record World =
  service :: Service
  jobs :: "Job list"
  worker :: Worker
  shutdowns :: "(nat list \<times> bool) list"
  handlers :: "Handler list"
  received :: "JobEvent list list"

definition initial_world :: "nat \<Rightarrow> ConversationInfo \<Rightarrow> World" where
  "initial_world capacity info = \<lparr>service = \<lparr>max_queue = capacity, queue = [], service_state = Loading, running = True, next_id = 1,
      live_job = None, live_tokens = 0, live_seen_delta = False, last_run = None, service_info = info\<rparr>,
     jobs = [], worker = AtStart, shutdowns = [], handlers = [], received = []\<rparr>"

definition on_service :: "(Service \<Rightarrow> Service) \<Rightarrow> World \<Rightarrow> World" where
  "on_service f w = w\<lparr>service := f (service w)\<rparr>"

definition on_job :: "nat \<Rightarrow> (Job \<Rightarrow> Job) \<Rightarrow> World \<Rightarrow> World" where
  "on_job j f w = w\<lparr>jobs := (jobs w)[j := f (jobs w ! j)]\<rparr>"

definition on_stream :: "nat \<Rightarrow> (JobStream \<Rightarrow> JobStream) \<Rightarrow> World \<Rightarrow> World" where
  "on_stream j f = on_job j (\<lambda>b. b\<lparr>job_stream := f (job_stream b)\<rparr>)"

definition at_worker :: "Worker \<Rightarrow> World \<Rightarrow> World" where
  "at_worker p w = w\<lparr>worker := p\<rparr>"

definition cancelled_result :: ConversationResult where
  "cancelled_result = default_result\<lparr>res_stop := Cancelled\<rparr>"

text \<open>\<open>submit\<close>; the handler of the new job is created with it.\<close>

definition submit :: "ConversationRequest \<Rightarrow> World \<Rightarrow> (submit_error, World, nat) outcome" where
  "submit request w =
     (let s = service w in
      if service_state s \<noteq> Ready then throw NotReady w
      else if max_queue s \<le> length (queue s) then throw QueueFull w
      else
        let j = length (jobs w);
            job = \<lparr>job_id = next_id s, job_request = request, job_stream = \<lparr>events = [], stream_closed = False\<rparr>, job_cancel = False\<rparr>
        in ok j (w\<lparr>service := s\<lparr>next_id := (next_id s + 1) mod 2 ^ 64, queue := queue s @ [j]\<rparr>, jobs := jobs w @ [job],
             handlers := handlers w @ [AtPop], received := received w @ [[]]\<rparr>))"

definition cancel_job :: "nat \<Rightarrow> World \<Rightarrow> World" where
  "cancel_job j = on_job j (\<lambda>b. b\<lparr>job_cancel := True\<rparr>)"

fun index_from :: "nat \<Rightarrow> nat \<Rightarrow> nat list \<Rightarrow> nat" where
  "index_from i j [] = 0"
| "index_from i j (k # ks) = (if k = j then i else index_from (Suc i) j ks)"

definition position :: "nat \<Rightarrow> World \<Rightarrow> nat" where
  "position j w = (if live_job (service w) = Some j then 0 else index_from 1 j (queue (service w)))"

subsection \<open>The worker\<close>

definition publish_ready :: "ConversationInfo \<Rightarrow> World \<Rightarrow> World" where
  "publish_ready info w = at_worker AtWait (on_service (\<lambda>s. s\<lparr>service_info := info, service_state := Ready\<rparr>) w)"

text \<open>The wait ends when the service stops or the queue has a job.\<close>

definition worker_take :: "World \<Rightarrow> World" where
  "worker_take w =
     (if \<not> running (service w) then at_worker AtSwap w
      else let j = hd (queue (service w)) in
        at_worker (Picked j) (on_service (\<lambda>s. s\<lparr>queue := tl (queue s), live_job := Some j, live_tokens := 0, live_seen_delta := False\<rparr>) w))"

definition worker_begin :: "nat \<Rightarrow> World \<Rightarrow> World" where
  "worker_begin j w =
     (if job_cancel (jobs w ! j) then at_worker (AtClose j cancelled_result) (on_stream j (stream_push (Finished cancelled_result)) w)
      else at_worker (InEngine j) w)"

text \<open>The sink: two atomics, then the push.\<close>

definition engine_delta :: "nat \<Rightarrow> TextDelta \<Rightarrow> World \<Rightarrow> World" where
  "engine_delta j d w = on_stream j (stream_push (Delta d))
     (on_service (\<lambda>s. s\<lparr>live_seen_delta := True, live_tokens := (live_tokens s + 1) mod 2 ^ 64\<rparr>) w)"

definition engine_return :: "nat \<Rightarrow> ConversationResult \<Rightarrow> World \<Rightarrow> World" where
  "engine_return j r w = at_worker (AtClose j r) (on_stream j (stream_push (Finished r)) w)"

definition engine_throw :: "nat \<Rightarrow> ErrorKind \<Rightarrow> string \<Rightarrow> World \<Rightarrow> World" where
  "engine_throw j k m w = at_worker (AtClose j (cancelled_result\<lparr>res_stop := Error\<rparr>)) (on_stream j (stream_push (Failed k m)) w)"

definition worker_close :: "nat \<Rightarrow> ConversationResult \<Rightarrow> World \<Rightarrow> World" where
  "worker_close j r w = at_worker (AtPublish j r) (on_stream j stream_close w)"

definition worker_publish :: "ConversationResult \<Rightarrow> ConversationInfo \<Rightarrow> World \<Rightarrow> World" where
  "worker_publish r info w = at_worker AtWait (on_service (\<lambda>s. s\<lparr>service_info := info, last_run := Some r, live_job := None\<rparr>) w)"

definition worker_swap :: "World \<Rightarrow> World" where
  "worker_swap w = at_worker (Draining (queue (service w)) False) (on_service (\<lambda>s. s\<lparr>queue := []\<rparr>) w)"

definition worker_stop :: "World \<Rightarrow> World" where
  "worker_stop w = at_worker Stopped (on_service (\<lambda>s. s\<lparr>service_state := Stopping\<rparr>) w)"

text \<open>Failing a job that never ran, used by the worker and by \<open>shutdown\<close>: a push, then a close.\<close>

definition drain_push :: "nat \<Rightarrow> World \<Rightarrow> World" where
  "drain_push j = on_stream j (stream_push (Finished cancelled_result))"

definition drain_close :: "nat \<Rightarrow> World \<Rightarrow> World" where
  "drain_close j = on_stream j stream_close"

text \<open>The locked section of \<open>shutdown\<close>; what it took from the queue is drained outside the lock.\<close>

definition shutdown_section :: "World \<Rightarrow> World" where
  "shutdown_section w =
     (let s = service w;
          w1 = (case live_job s of None \<Rightarrow> w | Some j \<Rightarrow> cancel_job j w)
      in w1\<lparr>service := s\<lparr>running := False, service_state := Stopping, queue := []\<rparr>, shutdowns := shutdowns w1 @ [(queue s, False)]\<rparr>)"

subsection \<open>The handlers\<close>

text \<open>A failed \<open>pop\<close> is followed by a separate \<open>is_closed\<close>; a terminal event ends the handler.\<close>

definition handler_pop :: "nat \<Rightarrow> World \<Rightarrow> World" where
  "handler_pop j w = (case stream_pop (job_stream (jobs w ! j)) of
     (None, _) \<Rightarrow> w\<lparr>handlers := (handlers w)[j := AtClosedCheck]\<rparr>
   | (Some e, s) \<Rightarrow> (on_stream j (\<lambda>_. s) w)\<lparr>received := (received w)[j := received w ! j @ [e]],
       handlers := (handlers w)[j := (if terminal e then HandlerDone (Some e) else AtPop)]\<rparr>)"

definition handler_check :: "nat \<Rightarrow> World \<Rightarrow> World" where
  "handler_check j w = w\<lparr>handlers := (handlers w)[j :=
     (if is_closed (job_stream (jobs w ! j)) then HandlerDone None else AtPop)]\<rparr>"

definition handler_abort :: "nat \<Rightarrow> World \<Rightarrow> World" where
  "handler_abort j w = (cancel_job j w)\<lparr>handlers := (handlers w)[j := HandlerGone]\<rparr>"

subsection \<open>The snapshot\<close>

record LiveJob =
  live_id :: nat
  live_phase :: string
  tokens_so_far :: nat

record ServerSnapshot =
  snap_state :: string
  snap_queue_depth :: nat
  snap_live :: "LiveJob option"
  snap_info :: ConversationInfo
  snap_last :: "ConversationResult option"

fun state_name :: "ServiceState \<Rightarrow> string" where
  "state_name Loading = ''loading''"
| "state_name Ready = ''ready''"
| "state_name Stopping = ''stopping''"

definition live_snapshot :: "World \<Rightarrow> LiveJob option" where
  "live_snapshot w = map_option (\<lambda>j. \<lparr>live_id = job_id (jobs w ! j),
       live_phase = (if live_seen_delta (service w) then ''decoding'' else ''prefilling''),
       tokens_so_far = live_tokens (service w)\<rparr>) (live_job (service w))"

definition snapshot :: "World \<Rightarrow> ServerSnapshot" where
  "snapshot w = \<lparr>snap_state = state_name (service_state (service w)), snap_queue_depth = length (queue (service w)),
     snap_live = live_snapshot w, snap_info = service_info (service w), snap_last = last_run (service w)\<rparr>"

subsection \<open>Interleavings\<close>

inductive step :: "World \<Rightarrow> World \<Rightarrow> bool" where
  submit_ok: "submit request w = ok j w' \<Longrightarrow> step w w'"
| cancel: "j < length (jobs w) \<Longrightarrow> step w (cancel_job j w)"
| publish: "worker w = AtStart \<Longrightarrow> step w (publish_ready info w)"
| take_job: "worker w = AtWait \<Longrightarrow> \<not> running (service w) \<or> queue (service w) \<noteq> [] \<Longrightarrow> step w (worker_take w)"
| begin_job: "worker w = Picked j \<Longrightarrow> step w (worker_begin j w)"
| delta: "worker w = InEngine j \<Longrightarrow> step w (engine_delta j d w)"
| returns: "worker w = InEngine j \<Longrightarrow> step w (engine_return j r w)"
| throws: "worker w = InEngine j \<Longrightarrow> step w (engine_throw j k m w)"
| close: "worker w = AtClose j r \<Longrightarrow> step w (worker_close j r w)"
| publish_run: "worker w = AtPublish j r \<Longrightarrow> step w (worker_publish r info w)"
| swap: "worker w = AtSwap \<Longrightarrow> step w (worker_swap w)"
| drain_one: "worker w = Draining (j # js) False \<Longrightarrow> step w (at_worker (Draining (j # js) True) (drain_push j w))"
| drain_two: "worker w = Draining (j # js) True \<Longrightarrow> step w (at_worker (Draining js False) (drain_close j w))"
| drained: "worker w = Draining [] False \<Longrightarrow> step w (at_worker AtStop w)"
| stop: "worker w = AtStop \<Longrightarrow> step w (worker_stop w)"
| shutdown: "step w (shutdown_section w)"
| shutdown_one: "i < length (shutdowns w) \<Longrightarrow> shutdowns w ! i = (j # js, False) \<Longrightarrow>
    step w ((drain_push j w)\<lparr>shutdowns := (shutdowns w)[i := (j # js, True)]\<rparr>)"
| shutdown_two: "i < length (shutdowns w) \<Longrightarrow> shutdowns w ! i = (j # js, True) \<Longrightarrow>
    step w ((drain_close j w)\<lparr>shutdowns := (shutdowns w)[i := (js, False)]\<rparr>)"
| pops: "j < length (handlers w) \<Longrightarrow> handlers w ! j = AtPop \<Longrightarrow> step w (handler_pop j w)"
| checks: "j < length (handlers w) \<Longrightarrow> handlers w ! j = AtClosedCheck \<Longrightarrow> step w (handler_check j w)"
| aborts: "j < length (handlers w) \<Longrightarrow> handlers w ! j = AtPop \<or> handlers w ! j = AtClosedCheck \<Longrightarrow> step w (handler_abort j w)"

inductive runs :: "World \<Rightarrow> World \<Rightarrow> bool" where
  runs_refl: "runs w w"
| runs_step: "runs w w' \<Longrightarrow> step w' w'' \<Longrightarrow> runs w w''"

inductive_cases stepE: "step w w'"

subsection \<open>Every job gets one terminal event\<close>

definition quiet :: "JobEvent list \<Rightarrow> bool" where
  "quiet h \<longleftrightarrow> (\<forall>e\<in>set h. \<not> terminal e)"

definition complete :: "JobEvent list \<Rightarrow> bool" where
  "complete h \<longleftrightarrow> h \<noteq> [] \<and> terminal (last h) \<and> quiet (butlast h)"

lemma complete_snoc [simp]: "complete (h @ [e]) \<longleftrightarrow> terminal e \<and> quiet h"
  by (auto simp: complete_def)

lemma quiet_snoc [simp]: "quiet (h @ [e]) \<longleftrightarrow> quiet h \<and> \<not> terminal e"
  by (auto simp: quiet_def)

lemma quiet_Nil [simp]: "quiet []"
  by (simp add: quiet_def)

text \<open>Everything pushed to a stream so far, what the handler took first.\<close>

definition history :: "World \<Rightarrow> nat \<Rightarrow> JobEvent list" where
  "history w j = received w ! j @ events (job_stream (jobs w ! j))"

definition shut :: "World \<Rightarrow> nat \<Rightarrow> bool" where
  "shut w j = stream_closed (job_stream (jobs w ! j))"

text \<open>A job is open while it waits, runs or is to be failed, and pushed between its terminal event and
  the close.\<close>

fun drain_open :: "nat list \<times> bool \<Rightarrow> nat list" where
  "drain_open (js, b) = (if b then drop 1 js else js)"

fun drain_pushed :: "nat list \<times> bool \<Rightarrow> nat list" where
  "drain_pushed (js, b) = (if b then take 1 js else [])"

fun worker_open :: "Worker \<Rightarrow> nat list" where
  "worker_open (Picked j) = [j]"
| "worker_open (InEngine j) = [j]"
| "worker_open (Draining js b) = drain_open (js, b)"
| "worker_open _ = []"

fun worker_pushed :: "Worker \<Rightarrow> nat list" where
  "worker_pushed (AtClose j r) = [j]"
| "worker_pushed (Draining js b) = drain_pushed (js, b)"
| "worker_pushed _ = []"

definition opens :: "World \<Rightarrow> nat \<Rightarrow> nat" where
  "opens w j = count_list (queue (service w)) j + count_list (worker_open (worker w)) j + (\<Sum>d\<leftarrow>shutdowns w. count_list (drain_open d) j)"

definition pushes :: "World \<Rightarrow> nat \<Rightarrow> nat" where
  "pushes w j = count_list (worker_pushed (worker w)) j + (\<Sum>d\<leftarrow>shutdowns w. count_list (drain_pushed d) j)"

definition job_fine :: "JobEvent list \<Rightarrow> bool \<Rightarrow> nat \<Rightarrow> nat \<Rightarrow> bool" where
  "job_fine h c n_open n_pushed \<longleftrightarrow>
     (n_open = 1 \<and> n_pushed = 0 \<and> quiet h \<and> \<not> c) \<or> (n_open = 0 \<and> n_pushed = 1 \<and> complete h \<and> \<not> c) \<or>
     (n_open = 0 \<and> n_pushed = 0 \<and> complete h \<and> c)"

definition world_ok :: "World \<Rightarrow> bool" where
  "world_ok w \<longleftrightarrow> length (handlers w) = length (jobs w) \<and> length (received w) = length (jobs w) \<and>
     (\<forall>j. if j < length (jobs w) then job_fine (history w j) (shut w j) (opens w j) (pushes w j) else opens w j = 0 \<and> pushes w j = 0)"

lemma world_okI:
  assumes "length (handlers w) = length (jobs w)" and "length (received w) = length (jobs w)"
    and "\<And>j. j < length (jobs w) \<Longrightarrow> job_fine (history w j) (shut w j) (opens w j) (pushes w j)"
    and "\<And>j. length (jobs w) \<le> j \<Longrightarrow> opens w j = 0 \<and> pushes w j = 0"
  shows "world_ok w"
  using assms by (auto simp: world_ok_def)

lemma world_okD:
  assumes "world_ok w"
  shows "length (handlers w) = length (jobs w)" "length (received w) = length (jobs w)"
    "j < length (jobs w) \<Longrightarrow> job_fine (history w j) (shut w j) (opens w j) (pushes w j)"
    "length (jobs w) \<le> j \<Longrightarrow> opens w j = 0 \<and> pushes w j = 0"
  using assms by (auto simp: world_ok_def split: if_splits)

lemma open_job_exists: "world_ok w \<Longrightarrow> 0 < opens w j \<Longrightarrow> j < length (jobs w) \<and> quiet (history w j) \<and> \<not> shut w j \<and> opens w j = 1 \<and> pushes w j = 0"
  using world_okD(3,4)[of w j] by (cases "j < length (jobs w)") (auto simp: job_fine_def)

lemma pushed_job_exists: "world_ok w \<Longrightarrow> 0 < pushes w j \<Longrightarrow> j < length (jobs w) \<and> complete (history w j) \<and> \<not> shut w j \<and> opens w j = 0 \<and> pushes w j = 1"
  using world_okD(3,4)[of w j] by (cases "j < length (jobs w)") (auto simp: job_fine_def)

text \<open>What a step does to the counts, the histories and the closed flags decides whether it keeps the
  invariant.\<close>

lemma world_ok_same:
  assumes "world_ok w" and "length (jobs w') = length (jobs w)" and "length (handlers w') = length (handlers w)" and "length (received w') = length (received w)"
    and "\<And>j. j < length (jobs w) \<Longrightarrow> history w' j = history w j" and "\<And>j. j < length (jobs w) \<Longrightarrow> shut w' j = shut w j"
    and "opens w' = opens w" and "pushes w' = pushes w"
  shows "world_ok w'"
  using world_okD[OF assms(1)] assms(2-) by (intro world_okI) auto

lemma world_ok_change:
  assumes "world_ok w" and "length (jobs w') = length (jobs w)" and "length (handlers w') = length (handlers w)" and "length (received w') = length (received w)"
    and "j < length (jobs w)" and "job_fine (history w' j) (shut w' j) (opens w' j) (pushes w' j)"
    and "\<And>k. k \<noteq> j \<Longrightarrow> history w' k = history w k \<and> shut w' k = shut w k \<and> opens w' k = opens w k \<and> pushes w' k = pushes w k"
  shows "world_ok w'"
proof (rule world_okI)
  fix k assume k: "k < length (jobs w')"
  show "job_fine (history w' k) (shut w' k) (opens w' k) (pushes w' k)"
    using world_okD(3)[OF assms(1), of k] assms(2,6) assms(7)[of k] k by (cases "k = j") simp_all
next
  fix k assume k: "length (jobs w') \<le> k"
  then show "opens w' k = 0 \<and> pushes w' k = 0" using world_okD(4)[OF assms(1), of k] assms(2,5) assms(7)[of k] by (cases "k = j") simp_all
qed (use world_okD(1,2)[OF assms(1)] assms(2,3,4) in simp_all)

lemma world_fields [simp]:
  "service (on_service f w) = f (service w)" "jobs (on_service f w) = jobs w" "worker (on_service f w) = worker w"
  "shutdowns (on_service f w) = shutdowns w" "handlers (on_service f w) = handlers w" "received (on_service f w) = received w"
  "service (at_worker p w) = service w" "jobs (at_worker p w) = jobs w" "worker (at_worker p w) = p"
  "shutdowns (at_worker p w) = shutdowns w" "handlers (at_worker p w) = handlers w" "received (at_worker p w) = received w"
  "service (on_job j g w) = service w" "length (jobs (on_job j g w)) = length (jobs w)" "worker (on_job j g w) = worker w"
  "shutdowns (on_job j g w) = shutdowns w" "handlers (on_job j g w) = handlers w" "received (on_job j g w) = received w"
  "service (on_stream j h w) = service w" "length (jobs (on_stream j h w)) = length (jobs w)" "worker (on_stream j h w) = worker w"
  "shutdowns (on_stream j h w) = shutdowns w" "handlers (on_stream j h w) = handlers w" "received (on_stream j h w) = received w"
  by (simp_all add: on_service_def at_worker_def on_job_def on_stream_def)

lemma counts_simps [simp]:
  "opens (on_job j g w) = opens w" "pushes (on_job j g w) = pushes w"
  "opens (on_stream j h w) = opens w" "pushes (on_stream j h w) = pushes w"
  by (simp_all add: opens_def pushes_def fun_eq_iff)

lemma streams_simps [simp]:
  "history (on_service f w) = history w" "history (at_worker p w) = history w" "shut (on_service f w) = shut w" "shut (at_worker p w) = shut w"
  by (simp_all add: history_def shut_def fun_eq_iff)

lemma on_stream_other [simp]: "k \<noteq> j \<Longrightarrow> history (on_stream j h w) k = history w k" "k \<noteq> j \<Longrightarrow> shut (on_stream j h w) k = shut w k"
  by (simp_all add: on_stream_def on_job_def history_def shut_def)

lemma on_stream_same [simp]:
  "j < length (jobs w) \<Longrightarrow> history (on_stream j (stream_push e) w) j = history w j @ [e]"
  "j < length (jobs w) \<Longrightarrow> shut (on_stream j (stream_push e) w) j = shut w j"
  "j < length (jobs w) \<Longrightarrow> history (on_stream j stream_close w) j = history w j"
  "j < length (jobs w) \<Longrightarrow> shut (on_stream j stream_close w) j"
  by (simp_all add: on_stream_def on_job_def history_def shut_def stream_push_def stream_close_def)

lemma cancel_simps [simp]: "history (cancel_job j w) = history w" "shut (cancel_job j w) = shut w"
proof -
  have "job_stream (jobs (cancel_job j w) ! k) = job_stream (jobs w ! k)" for k
    by (cases "j < length (jobs w)"; cases "k = j") (simp_all add: cancel_job_def on_job_def list_update_beyond)
  then show "history (cancel_job j w) = history w" "shut (cancel_job j w) = shut w"
    by (simp_all add: history_def shut_def fun_eq_iff) (simp add: cancel_job_def)
qed

lemma cancel_fields [simp]:
  "service (cancel_job j w) = service w" "length (jobs (cancel_job j w)) = length (jobs w)" "worker (cancel_job j w) = worker w"
  "shutdowns (cancel_job j w) = shutdowns w" "handlers (cancel_job j w) = handlers w" "received (cancel_job j w) = received w"
  "opens (cancel_job j w) = opens w" "pushes (cancel_job j w) = pushes w"
  by (simp_all add: cancel_job_def)

lemma sum_list_replace: "i < length xs \<Longrightarrow> (\<Sum>d\<leftarrow>xs[i := y]. f d :: nat) + f (xs ! i) = (\<Sum>d\<leftarrow>xs. f d) + f y"
  by (induction xs arbitrary: i) (auto split: nat.splits)

text \<open>The worker's moves.\<close>

lemma world_ok_worker_push:
  assumes "world_ok w" and "worker_open (worker w) = j # js" and "worker_pushed (worker w) = []"
    and "worker_open p = js" and "worker_pushed p = [j]" and "terminal e"
  shows "world_ok (at_worker p (on_stream j (stream_push e) w))"
proof -
  have o: "0 < opens w j" using assms(2) by (simp add: opens_def)
  note x = open_job_exists[OF assms(1) o]
  have k: "opens w j = Suc (opens (at_worker p w) j)" "pushes (at_worker p w) j = Suc (pushes w j)"
    using assms(2-5) by (simp_all add: opens_def pushes_def)
  have other: "opens (at_worker p w) k = opens w k \<and> pushes (at_worker p w) k = pushes w k" if "k \<noteq> j" for k
    using that assms(2-5) by (simp add: opens_def pushes_def)
  have e: "opens (at_worker p (on_stream j h w)) = opens (at_worker p w)" "pushes (at_worker p (on_stream j h w)) = pushes (at_worker p w)" for h
    by (simp_all add: opens_def pushes_def fun_eq_iff)
  show ?thesis
    by (rule world_ok_change[OF assms(1), of _ j]) (use x k other assms(6) in \<open>simp_all add: e job_fine_def\<close>)
qed

lemma world_ok_worker_close:
  assumes "world_ok w" and "worker_pushed (worker w) = [j]" and "worker_pushed p = []" and "worker_open p = worker_open (worker w)"
  shows "world_ok (at_worker p (on_stream j stream_close w))"
proof -
  have o: "0 < pushes w j" using assms(2) by (simp add: pushes_def)
  note x = pushed_job_exists[OF assms(1) o]
  have k: "opens (at_worker p w) = opens w" "pushes w j = Suc (pushes (at_worker p w) j)"
    using assms(2-4) by (simp_all add: opens_def pushes_def fun_eq_iff)
  have other: "pushes (at_worker p w) k = pushes w k" if "k \<noteq> j" for k
    using that assms(2-4) by (simp add: pushes_def)
  have e: "opens (at_worker p (on_stream j h w)) = opens (at_worker p w)" "pushes (at_worker p (on_stream j h w)) = pushes (at_worker p w)" for h
    by (simp_all add: opens_def pushes_def fun_eq_iff)
  show ?thesis
    by (rule world_ok_change[OF assms(1), of _ j]) (use x k other in \<open>simp_all add: e job_fine_def\<close>)
qed

lemma world_ok_worker_moves:
  assumes "world_ok w" and "jobs w' = jobs w" and "handlers w' = handlers w" and "received w' = received w"
    and "opens w' = opens w" and "pushes w' = pushes w"
  shows "world_ok w'"
  by (rule world_ok_same[OF assms(1)]) (use assms(2-) in \<open>simp_all add: history_def shut_def\<close>)

lemma world_ok_submit: "world_ok w \<Longrightarrow> submit request w = ok j w' \<Longrightarrow> world_ok w'"
proof -
  assume ok: "world_ok w" and run: "submit request w = ok j w'"
  define job where "job = \<lparr>job_id = next_id (service w), job_request = request, job_stream = \<lparr>events = [], stream_closed = False\<rparr>, job_cancel = False\<rparr>"
  have w': "jobs w' = jobs w @ [job]" "handlers w' = handlers w @ [AtPop]" "received w' = received w @ [[]]" "worker w' = worker w"
      "shutdowns w' = shutdowns w" "queue (service w') = queue (service w) @ [length (jobs w)]"
    using run by (auto simp: submit_def Let_def job_def split: if_splits)
  have c: "opens w' k = opens w k + (if k = length (jobs w) then 1 else 0)" "pushes w' k = pushes w k" for k
    by (simp_all add: opens_def pushes_def w')
  show ?thesis
  proof (rule world_okI)
    fix k assume "k < length (jobs w')"
    then consider "k < length (jobs w)" | "k = length (jobs w)" by (auto simp: w' less_Suc_eq)
    then show "job_fine (history w' k) (shut w' k) (opens w' k) (pushes w' k)"
    proof cases
      case 1
      then show ?thesis using world_okD(1,2)[OF ok] world_okD(3)[OF ok, of k] by (simp add: c history_def shut_def w' nth_append)
    next
      case 2
      then show ?thesis using world_okD(1,2)[OF ok] world_okD(4)[OF ok, of k] by (simp add: c history_def shut_def w' nth_append job_def job_fine_def)
    qed
  next
    fix k assume "length (jobs w') \<le> k"
    then show "opens w' k = 0 \<and> pushes w' k = 0" using world_okD(4)[OF ok, of k] by (simp add: c w')
  qed (use world_okD(1,2)[OF ok] in \<open>simp_all add: w'\<close>)
qed

lemma world_ok_handler_pop:
  assumes "world_ok w" and "j < length (handlers w)"
  shows "world_ok (handler_pop j w)"
proof (rule world_ok_same[OF assms(1)])
  have l: "j < length (jobs w)" "j < length (received w)" using assms world_okD(1,2) by simp_all
  fix k
  show "history (handler_pop j w) k = history w k" "shut (handler_pop j w) k = shut w k"
    using l by (cases "k = j"; auto simp: handler_pop_def stream_pop_def history_def shut_def on_stream_def on_job_def split: list.splits)+
qed (auto simp: handler_pop_def stream_pop_def opens_def pushes_def fun_eq_iff split: list.splits)

lemma world_ok_handlers: "world_ok w \<Longrightarrow> length hs = length (handlers w) \<Longrightarrow> world_ok (w\<lparr>handlers := hs\<rparr>)"
  by (rule world_ok_same[of w]) (simp_all add: history_def shut_def opens_def pushes_def fun_eq_iff)

lemma world_ok_cancel: "world_ok w \<Longrightarrow> world_ok (cancel_job j w)"
  by (rule world_ok_same) simp_all

lemma world_ok_shutdown_push:
  assumes "world_ok w" and "i < length (shutdowns w)" and "shutdowns w ! i = (j # js, False)"
  shows "world_ok ((drain_push j w)\<lparr>shutdowns := (shutdowns w)[i := (j # js, True)]\<rparr>)" (is "world_ok ?w'")
proof -
  have sum: "(\<Sum>d\<leftarrow>(shutdowns w)[i := (j # js, True)]. f d) + f (j # js, False) = (\<Sum>d\<leftarrow>shutdowns w. f d) + f (j # js, True)" for f :: "nat list \<times> bool \<Rightarrow> nat"
    using sum_list_replace[OF assms(2), of f "(j # js, True)"] assms(3) by simp
  have o: "opens w k = opens ?w' k + (if k = j then 1 else 0)" "pushes ?w' k = pushes w k + (if k = j then 1 else 0)" for k
    using sum[of "\<lambda>d. count_list (drain_open d) k"] sum[of "\<lambda>d. count_list (drain_pushed d) k"]
    by (cases "k = j"; simp add: opens_def pushes_def drain_push_def)+
  note x = open_job_exists[OF assms(1), of j]
  show ?thesis
  proof (rule world_ok_change[OF assms(1), of _ j])
    show "j < length (jobs w)" using x o(1)[of j] by simp
    show "job_fine (history ?w' j) (shut ?w' j) (opens ?w' j) (pushes ?w' j)"
    proof -
      have "history ?w' j = history w j @ [Finished cancelled_result]" "shut ?w' j = shut w j"
        using x o(1)[of j] by (simp_all add: history_def shut_def drain_push_def on_stream_def on_job_def stream_push_def)
      then show ?thesis using x o[of j] by (simp add: job_fine_def)
    qed
  qed (use o in \<open>auto simp: drain_push_def history_def shut_def on_stream_def on_job_def\<close>)
qed

lemma world_ok_shutdown_close:
  assumes "world_ok w" and "i < length (shutdowns w)" and "shutdowns w ! i = (j # js, True)"
  shows "world_ok ((drain_close j w)\<lparr>shutdowns := (shutdowns w)[i := (js, False)]\<rparr>)" (is "world_ok ?w'")
proof -
  have sum: "(\<Sum>d\<leftarrow>(shutdowns w)[i := (js, False)]. f d) + f (j # js, True) = (\<Sum>d\<leftarrow>shutdowns w. f d) + f (js, False)" for f :: "nat list \<times> bool \<Rightarrow> nat"
    using sum_list_replace[OF assms(2), of f "(js, False)"] assms(3) by simp
  have o: "opens w k = opens ?w' k" "pushes w k = pushes ?w' k + (if k = j then 1 else 0)" for k
    using sum[of "\<lambda>d. count_list (drain_open d) k"] sum[of "\<lambda>d. count_list (drain_pushed d) k"]
    by (cases "k = j"; simp add: opens_def pushes_def drain_close_def)+
  note x = pushed_job_exists[OF assms(1), of j]
  show ?thesis
  proof (rule world_ok_change[OF assms(1), of _ j])
    show "j < length (jobs w)" using x o(2)[of j] by simp
    show "job_fine (history ?w' j) (shut ?w' j) (opens ?w' j) (pushes ?w' j)"
    proof -
      have "history ?w' j = history w j" "shut ?w' j"
        using x o(2)[of j] by (simp_all add: history_def shut_def drain_close_def on_stream_def on_job_def stream_close_def)
      then show ?thesis using x o[of j] by (simp add: job_fine_def)
    qed
  qed (use o in \<open>auto simp: drain_close_def history_def shut_def on_stream_def on_job_def\<close>)
qed

lemma world_ok_shutdown: "world_ok w \<Longrightarrow> world_ok (shutdown_section w)"
proof -
  assume ok: "world_ok w"
  define w1 where "w1 = (case live_job (service w) of None \<Rightarrow> w | Some j \<Rightarrow> cancel_job j w)"
  have ok1: "world_ok w1" using ok world_ok_cancel by (simp add: w1_def split: option.splits)
  have s: "service w1 = service w" "worker w1 = worker w" "shutdowns w1 = shutdowns w" by (simp_all add: w1_def split: option.splits)
  show ?thesis
    by (rule world_ok_worker_moves[OF ok1])
      (simp_all add: shutdown_section_def Let_def w1_def[symmetric] opens_def pushes_def s fun_eq_iff)
qed

lemmas worker_steps = publish_ready_def worker_take_def worker_publish_def worker_swap_def worker_stop_def Let_def

theorem step_world_ok: "step w w' \<Longrightarrow> world_ok w \<Longrightarrow> world_ok w'"
proof (induction rule: step.induct)
  case (submit_ok request w j w')
  then show ?case by (rule world_ok_submit[rotated])
next
  case (take_job w)
  show ?case
  proof (cases "running (service w)")
    case True
    then obtain j js where "queue (service w) = j # js" using take_job by (cases "queue (service w)") auto
    then show ?thesis using take_job True
      by (intro world_ok_worker_moves[OF take_job(3)]) (simp_all add: worker_steps opens_def pushes_def fun_eq_iff)
  next
    case False
    then show ?thesis using take_job
      by (intro world_ok_worker_moves[OF take_job(3)]) (simp_all add: worker_steps opens_def pushes_def fun_eq_iff)
  qed
next
  case (begin_job w j)
  show ?case
  proof (cases "job_cancel (jobs w ! j)")
    case True
    then show ?thesis using begin_job world_ok_worker_push[of w j "[]" "AtClose j cancelled_result"] by (simp add: worker_begin_def)
  next
    case False
    then show ?thesis using begin_job
      by (intro world_ok_worker_moves[OF begin_job(2)]) (simp_all add: worker_begin_def opens_def pushes_def fun_eq_iff)
  qed
next
  case (delta w j d)
  have "0 < opens w j" using delta(1) by (simp add: opens_def)
  note x = open_job_exists[OF delta(2) this]
  show ?case
    by (rule world_ok_change[OF delta(2), of _ j])
      (use x in \<open>simp_all add: engine_delta_def job_fine_def opens_def pushes_def\<close>)
next
  case (returns w j r)
  then show ?case using world_ok_worker_push[of w j "[]" "AtClose j r"] by (simp add: engine_return_def)
next
  case (throws w j k m)
  then show ?case using world_ok_worker_push[of w j "[]" "AtClose j (cancelled_result\<lparr>res_stop := Error\<rparr>)"] by (simp add: engine_throw_def)
next
  case (close w j r)
  then show ?case using world_ok_worker_close[of w j "AtPublish j r"] by (simp add: worker_close_def)
next
  case (drain_one w j js)
  then show ?case using world_ok_worker_push[of w j js "Draining (j # js) True"] by (simp add: drain_push_def)
next
  case (drain_two w j js)
  then show ?case using world_ok_worker_close[of w j "Draining js False"] by (simp add: drain_close_def)
next
  case (aborts j w)
  then show ?case by (simp add: handler_abort_def world_ok_handlers world_ok_cancel)
next
  case (checks j w)
  then show ?case by (simp add: handler_check_def world_ok_handlers)
qed (simp_all add: world_ok_cancel world_ok_shutdown world_ok_shutdown_push world_ok_shutdown_close world_ok_handler_pop,
    (rule world_ok_worker_moves, assumption, simp_all add: worker_steps opens_def pushes_def fun_eq_iff)+)

lemma initial_world_ok: "world_ok (initial_world n info)"
  by (simp add: world_ok_def initial_world_def opens_def pushes_def)

lemma runs_world_ok: "runs w w' \<Longrightarrow> world_ok w \<Longrightarrow> world_ok w'"
  by (induction rule: runs.induct) (auto intro: step_world_ok)

text \<open>A handler that ended with an event took everything.\<close>

definition handler_fine :: "World \<Rightarrow> bool" where
  "handler_fine w \<longleftrightarrow> (\<forall>j<length (handlers w). \<forall>e. handlers w ! j = HandlerDone (Some e) \<longrightarrow>
     terminal e \<and> received w ! j \<noteq> [] \<and> last (received w ! j) = e)"

lemma handler_fine_same: "handler_fine w \<Longrightarrow> handlers w' = handlers w \<Longrightarrow> received w' = received w \<Longrightarrow> handler_fine w'"
  by (simp add: handler_fine_def)

lemma step_handler_fine: "step w w' \<Longrightarrow> world_ok w \<Longrightarrow> handler_fine w \<Longrightarrow> handler_fine w'"
proof (induction rule: step.induct)
  case (submit_ok request w j w')
  have "handlers w' = handlers w @ [AtPop]" "received w' = received w @ [[]]" using submit_ok(1) by (auto simp: submit_def Let_def split: if_splits)
  then show ?case using submit_ok(3) world_okD(1,2)[OF submit_ok(2)] by (auto simp: handler_fine_def nth_append)
next
  case (pops j w)
  show ?case
  proof (cases "events (job_stream (jobs w ! j))")
    case Nil
    then show ?thesis using pops by (auto simp: handler_pop_def stream_pop_def handler_fine_def nth_list_update)
  next
    case (Cons e es)
    have "j < length (received w)" using pops world_okD(1,2)[OF pops(3)] by simp
    then show ?thesis using pops Cons by (auto simp: handler_pop_def stream_pop_def handler_fine_def nth_list_update)
  qed
next
  case (checks j w)
  then show ?case by (auto simp: handler_check_def handler_fine_def nth_list_update)
next
  case (aborts j w)
  then show ?case by (auto simp: handler_abort_def handler_fine_def nth_list_update)
next
  case (take_job w)
  then show ?case by (auto simp: worker_take_def Let_def elim: handler_fine_same)
next
  case (begin_job w j)
  then show ?case by (auto simp: worker_begin_def elim: handler_fine_same)
next
  case (shutdown w)
  then show ?case by (auto simp: shutdown_section_def Let_def elim!: handler_fine_same split: option.splits)
qed (erule handler_fine_same; simp add: publish_ready_def engine_delta_def engine_return_def engine_throw_def worker_close_def
    worker_publish_def worker_swap_def worker_stop_def drain_push_def drain_close_def)+

lemma runs_handler_fine: "runs w w' \<Longrightarrow> world_ok w \<Longrightarrow> handler_fine w \<Longrightarrow> handler_fine w'"
  by (induction rule: runs.induct) (auto intro: step_handler_fine runs_world_ok)

lemma complete_filter: "complete h \<Longrightarrow> filter terminal h = [last h]"
proof -
  assume c: "complete h"
  then have "h = butlast h @ [last h]" by (simp add: complete_def)
  moreover have "filter terminal (butlast h) = []" using c by (simp add: complete_def quiet_def filter_empty_conv)
  ultimately show ?thesis using c by (metis append_Nil complete_def filter.simps filter_append)
qed

lemma complete_prefix: "complete (a @ b) \<Longrightarrow> a \<noteq> [] \<Longrightarrow> terminal (last a) \<Longrightarrow> b = []"
proof (rule ccontr)
  assume c: "complete (a @ b)" and a: "a \<noteq> []" "terminal (last a)" and b: "b \<noteq> []"
  then have "last a \<in> set (butlast (a @ b))" by (simp add: butlast_append)
  then show False using c a by (auto simp: complete_def quiet_def)
qed

lemma handler_done_complete:
  assumes "runs (initial_world capacity info) w" and "j < length (jobs w)" and e: "handlers w ! j = HandlerDone (Some e)"
  shows "complete (received w ! j) \<and> events (job_stream (jobs w ! j)) = []"
proof -
  have ok: "world_ok w" using runs_world_ok[OF assms(1) initial_world_ok] .
  have "handler_fine w" by (rule runs_handler_fine[OF assms(1) initial_world_ok]) (simp add: handler_fine_def initial_world_def)
  then have h: "terminal e" "received w ! j \<noteq> []" "last (received w ! j) = e"
    using e assms(2) world_okD(1)[OF ok] by (auto simp: handler_fine_def)
  have "quiet (history w j) \<or> complete (history w j)" using world_okD(3)[OF ok assms(2)] by (auto simp: job_fine_def)
  then have c: "complete (history w j)" using h by (auto simp: history_def quiet_def)
  then have "events (job_stream (jobs w ! j)) = []" using complete_prefix[of "received w ! j"] h by (auto simp: history_def)
  then show ?thesis using c by (simp add: history_def)
qed

text \<open>C10: one answer per job. Whatever the interleaving of HTTP threads, worker and \<open>shutdown\<close> callers, at most
  one terminal event is ever pushed to a job's stream, a closed stream has got it, as its last event, and a handler that
  ended with a terminal event has received everything that was pushed.\<close>

theorem one_terminal_event:
  assumes "runs (initial_world capacity info) w" and "j < length (jobs w)"
  shows "length (filter terminal (history w j)) \<le> 1 \<and> (shut w j \<longrightarrow> complete (history w j)) \<and>
     (\<forall>e. handlers w ! j = HandlerDone (Some e) \<longrightarrow> complete (received w ! j) \<and> events (job_stream (jobs w ! j)) = [])"
proof -
  have fine: "job_fine (history w j) (shut w j) (opens w j) (pushes w j)"
    using world_okD(3)[OF runs_world_ok[OF assms(1) initial_world_ok] assms(2)] .
  then have "length (filter terminal (history w j)) \<le> 1"
    using complete_filter[of "history w j"] by (auto simp: job_fine_def quiet_def filter_empty_conv)
  moreover have "shut w j \<longrightarrow> complete (history w j)" using fine by (auto simp: job_fine_def)
  ultimately show ?thesis using handler_done_complete[OF assms] by blast
qed

subsection \<open>An orderly shutdown leaves no job behind\<close>

text \<open>\<open>shutdown\<close> is orderly when it comes after the worker has published \<open>Ready\<close>.\<close>

definition orderly :: "World \<Rightarrow> bool" where
  "orderly w \<longleftrightarrow> (worker w = AtStart \<longrightarrow> running (service w))"

inductive orderly_runs :: "World \<Rightarrow> World \<Rightarrow> bool" where
  orderly_refl: "orderly_runs w w"
| orderly_step: "orderly_runs w w' \<Longrightarrow> step w' w'' \<Longrightarrow> orderly w'' \<Longrightarrow> orderly_runs w w''"

fun leaving :: "Worker \<Rightarrow> bool" where
  "leaving AtSwap \<longleftrightarrow> True"
| "leaving (Draining js b) \<longleftrightarrow> True"
| "leaving AtStop \<longleftrightarrow> True"
| "leaving Stopped \<longleftrightarrow> True"
| "leaving _ \<longleftrightarrow> False"

definition lifecycle :: "World \<Rightarrow> bool" where
  "lifecycle w \<longleftrightarrow> (\<not> running (service w) \<longrightarrow> service_state (service w) = Stopping \<and> queue (service w) = []) \<and>
     (leaving (worker w) \<longrightarrow> \<not> running (service w)) \<and> (worker w = AtStart \<longrightarrow> running (service w))"

lemma orderly_runs_runs: "orderly_runs w w' \<Longrightarrow> runs w w'"
  by (induction rule: orderly_runs.induct) (auto intro: runs.intros)

lemma lifecycle_same:
  "lifecycle w \<Longrightarrow> service w' = service w \<Longrightarrow> worker w' = worker w \<Longrightarrow> lifecycle w'"
  by (simp add: lifecycle_def)

lemma step_lifecycle: "step w w' \<Longrightarrow> orderly w' \<Longrightarrow> lifecycle w \<Longrightarrow> lifecycle w'"
proof (induction rule: step.induct)
  case (submit_ok request w j w')
  then show ?case by (auto simp: submit_def Let_def lifecycle_def split: if_splits)
next
  case (cancel j w)
  then show ?case by (auto elim: lifecycle_same)
next
  case (pops j w)
  then show ?case by (auto simp: handler_pop_def stream_pop_def elim!: lifecycle_same split: list.splits)
next
  case (checks j w)
  then show ?case by (auto simp: handler_check_def elim!: lifecycle_same)
next
  case (aborts j w)
  then show ?case by (auto simp: handler_abort_def elim!: lifecycle_same)
qed (auto simp: lifecycle_def orderly_def worker_steps worker_begin_def engine_delta_def engine_return_def engine_throw_def
    worker_close_def drain_push_def drain_close_def shutdown_section_def split: option.splits)

lemma orderly_lifecycle: "orderly_runs w w' \<Longrightarrow> lifecycle w \<Longrightarrow> lifecycle w'"
  by (induction rule: orderly_runs.induct) (auto intro: step_lifecycle)

lemma drained_counts:
  assumes "queue (service w) = []" and "worker w = Stopped" and "\<forall>d\<in>set (shutdowns w). d = ([], False)"
  shows "opens w j = 0" "pushes w j = 0"
  using assms by (auto simp: opens_def pushes_def)

text \<open>C11: an orderly shutdown leaves no job behind. When the worker has published \<open>Ready\<close> before the first
  \<open>shutdown\<close>, then after the worker has returned and every \<open>shutdown\<close> has drained what it took, every job ever
  accepted has its one terminal event and a closed stream.\<close>

theorem orderly_shutdown_answers:
  assumes "orderly_runs (initial_world capacity info) w" and "worker w = Stopped"
    and "\<forall>d\<in>set (shutdowns w). d = ([], False)" and "j < length (jobs w)"
  shows "shut w j \<and> complete (history w j)"
proof -
  have "lifecycle w" by (rule orderly_lifecycle[OF assms(1)]) (simp add: lifecycle_def initial_world_def)
  then have "queue (service w) = []" using assms(2) by (simp add: lifecycle_def)
  moreover have "world_ok w" using runs_world_ok[OF orderly_runs_runs[OF assms(1)] initial_world_ok] .
  ultimately show ?thesis using drained_counts[OF _ assms(2,3), of j] world_okD(3)[of w j] assms(4)
    by (auto simp: job_fine_def)
qed

text \<open>The queue never holds more than its capacity.\<close>

lemma step_queue: "step w w' \<Longrightarrow> length (queue (service w)) \<le> max_queue (service w) \<Longrightarrow>
    max_queue (service w') = max_queue (service w) \<and> length (queue (service w')) \<le> max_queue (service w')"
proof (induction rule: step.induct)
  case (submit_ok request w j w')
  then show ?case by (auto simp: submit_def Let_def split: if_splits)
next
  case (pops j w)
  then show ?case by (auto simp: handler_pop_def stream_pop_def split: list.splits)
qed (auto simp: worker_steps worker_begin_def engine_delta_def engine_return_def engine_throw_def
    worker_close_def drain_push_def drain_close_def shutdown_section_def handler_check_def handler_abort_def split: option.splits)

lemma runs_queue: "runs w w' \<Longrightarrow> length (queue (service w)) \<le> max_queue (service w) \<Longrightarrow>
    max_queue (service w') = max_queue (service w) \<and> length (queue (service w')) \<le> max_queue (service w')"
proof (induction rule: runs.induct)
  case (runs_step w w' w'')
  then show ?case using step_queue[of w' w''] by simp
qed simp

subsection \<open>Two races\<close>

text \<open>A \<open>shutdown\<close> that comes while the model loads is undone by the worker, which stores \<open>Ready\<close> over
  \<open>Stopping\<close>; a job accepted between the worker's last look at the queue and its last store is never answered.\<close>

definition default_request :: ConversationRequest where
  "default_request = \<lparr>req_messages = [], req_tools_json = [], req_response_format_json = [], req_thinking = False,
     req_reasoning_effort = [], req_max_new_tokens = None,
     req_sampling = \<lparr>temperature = None, top_p = None, sampling_seed = None\<rparr>\<rparr>"

definition early_shutdown :: "ConversationInfo \<Rightarrow> World" where
  "early_shutdown info = worker_swap (worker_take (publish_ready info (shutdown_section (initial_world 1 info))))"

definition lost_job :: "ConversationInfo \<Rightarrow> World" where
  "lost_job info = worker_stop (at_worker AtStop (snd (submit default_request (early_shutdown info))))"

theorem early_shutdown_loses_job:
  "runs (initial_world 1 info) (lost_job info) \<and> worker (lost_job info) = Stopped \<and> shutdowns (lost_job info) = [([], False)] \<and>
   queue (service (lost_job info)) = [0] \<and> history (lost_job info) 0 = [] \<and> \<not> shut (lost_job info) 0"
proof -
  let ?w0 = "initial_world 1 info" and ?w1 = "shutdown_section (initial_world 1 info)"
  let ?w2 = "publish_ready info ?w1" and ?w4 = "early_shutdown info"
  let ?w5 = "snd (submit default_request ?w4)" and ?w3 = "worker_take (publish_ready info ?w1)"
  note defs = early_shutdown_def initial_world_def shutdown_section_def publish_ready_def worker_take_def worker_swap_def
    at_worker_def on_service_def Let_def submit_def worker_stop_def lost_job_def
  have "runs ?w0 ?w1" by (rule runs_step[OF runs_refl shutdown])
  moreover have "step ?w1 ?w2" by (rule publish) (simp add: defs)
  moreover have "step ?w2 ?w3" by (rule take_job) (simp_all add: defs)
  moreover have "step ?w3 ?w4" unfolding early_shutdown_def by (rule swap) (simp add: defs)
  moreover have "step ?w4 ?w5" by (rule submit_ok[of default_request _ 0]) (simp add: defs ok_def)
  moreover have "step ?w5 (at_worker AtStop ?w5)" by (rule drained) (simp add: defs ok_def)
  moreover have "step (at_worker AtStop ?w5) (lost_job info)" unfolding lost_job_def by (rule stop) simp
  ultimately have "runs ?w0 (lost_job info)" by (meson runs_step)
  then show ?thesis by (simp add: defs ok_def history_def shut_def)
qed

text \<open>A \<open>pop\<close> that times out and the \<open>is_closed\<close> after it are two sections: between them the worker may push the
  result and close, and the handler then ends as if there were none.\<close>

definition waiting_handler :: "ConversationInfo \<Rightarrow> World" where
  "waiting_handler info = handler_pop 0 (worker_begin 0 (worker_take (snd (submit default_request (publish_ready info (initial_world 1 info))))))"

definition missed_result :: "ConversationResult \<Rightarrow> ConversationInfo \<Rightarrow> World" where
  "missed_result r info = handler_check 0 (worker_close 0 r (engine_return 0 r (waiting_handler info)))"

theorem handler_misses_result:
  "runs (initial_world 1 info) (missed_result r info) \<and> handlers (missed_result r info) = [HandlerDone None] \<and>
   events (job_stream (jobs (missed_result r info) ! 0)) = [Finished r]"
proof -
  let ?w0 = "initial_world 1 info" and ?w1 = "publish_ready info (initial_world 1 info)"
  let ?w2 = "snd (submit default_request ?w1)" 
  let ?w3 = "worker_take ?w2" 
  let ?w4 = "worker_begin 0 ?w3" and ?w5 = "waiting_handler info"
  let ?w6 = "engine_return 0 r ?w5" 
  let ?w7 = "worker_close 0 r ?w6"
  note defs = initial_world_def publish_ready_def worker_take_def on_job_def on_stream_def stream_pop_def stream_push_def stream_close_def is_closed_def
    at_worker_def on_service_def Let_def submit_def worker_begin_def waiting_handler_def missed_result_def handler_pop_def handler_check_def
    engine_return_def worker_close_def
  have "runs ?w0 ?w1" by (rule runs_step[OF runs_refl publish]) (simp add: defs)
  moreover have "step ?w1 ?w2" by (rule submit_ok[of default_request _ 0]) (simp add: defs ok_def)
  moreover have "step ?w2 ?w3" by (rule take_job) (simp_all add: defs ok_def)
  moreover have "step ?w3 ?w4" by (rule begin_job) (simp add: defs ok_def)
  moreover have "step ?w4 ?w5" unfolding waiting_handler_def by (rule pops) (simp_all add: defs ok_def)
  moreover have "step ?w5 ?w6" by (rule returns) (simp add: defs ok_def)
  moreover have "step ?w6 ?w7" by (rule close) (simp add: defs ok_def)
  moreover have "step ?w7 (missed_result r info)" unfolding missed_result_def by (rule checks) (simp_all add: defs ok_def)
  ultimately have "runs ?w0 (missed_result r info)" by (meson runs_step)
  then show ?thesis by (simp add: defs ok_def)
qed

subsection \<open>Instances\<close>

text \<open>A job that runs to its end, with one delta, and a job that a \<open>shutdown\<close> finds in the queue.\<close>

definition sample_info :: ConversationInfo where
  "sample_info = \<lparr>info_model_id = ''m'', info_context_capacity = 8, info_resident_tokens = 0, info_invariants_ok = True\<rparr>"

definition queued_world :: World where
  "queued_world = snd (submit default_request (publish_ready sample_info (initial_world 1 sample_info)))"

definition sample_delta :: TextDelta where
  "sample_delta = \<lparr>channel = Content, delta_text = [104, 10, 34]\<rparr>"

definition finished_world :: World where
  "finished_world = handler_pop 0 (handler_pop 0 (engine_return 0 default_result (engine_delta 0 sample_delta (worker_begin 0 (worker_take queued_world)))))"

definition drained_world :: World where
  "drained_world = (let w1 = shutdown_section queued_world;
       w2 = (drain_push 0 w1)\<lparr>shutdowns := [([0], True)]\<rparr>;
       w3 = (drain_close 0 w2)\<lparr>shutdowns := [([], False)]\<rparr>
     in worker_stop (at_worker AtStop (worker_swap (worker_take w3))))"

lemmas world_steps = initial_world_def publish_ready_def worker_take_def on_job_def on_stream_def stream_pop_def stream_push_def
  stream_close_def at_worker_def on_service_def Let_def submit_def worker_begin_def handler_pop_def engine_return_def
  worker_swap_def worker_stop_def shutdown_section_def drain_push_def drain_close_def orderly_def ok_def engine_delta_def

lemma queued_run: "orderly_runs (initial_world 1 sample_info) queued_world"
proof -
  let ?w1 = "publish_ready sample_info (initial_world 1 sample_info)"
  have "orderly_runs (initial_world 1 sample_info) ?w1"
    by (rule orderly_step[OF orderly_refl publish]) (simp_all add: world_steps)
  then show ?thesis unfolding queued_world_def
    by (rule orderly_step[OF _ submit_ok[of default_request _ 0]]) (simp_all add: world_steps)
qed

lemma finished_run: "orderly_runs (initial_world 1 sample_info) finished_world"
proof -
  let ?w1 = "worker_take queued_world"
  let ?w2 = "worker_begin 0 ?w1"
  let ?w3 = "engine_delta 0 sample_delta ?w2"
  let ?w4 = "engine_return 0 default_result ?w3"
  let ?w5 = "handler_pop 0 ?w4"
  have "orderly_runs (initial_world 1 sample_info) ?w1"
    by (rule orderly_step[OF queued_run take_job]) (simp_all add: queued_world_def world_steps)
  moreover have "step ?w1 ?w2" "orderly ?w2" by (rule begin_job, simp_all add: queued_world_def world_steps)
  moreover have "step ?w2 ?w3" "orderly ?w3" by (rule delta, simp_all add: queued_world_def world_steps)
  moreover have "step ?w3 ?w4" "orderly ?w4" by (rule returns, simp_all add: queued_world_def world_steps)
  moreover have "step ?w4 ?w5" "orderly ?w5" by (rule pops, simp_all add: queued_world_def world_steps)
  moreover have "step ?w5 finished_world" "orderly finished_world"
    unfolding finished_world_def by (rule pops, simp_all add: queued_world_def world_steps)
  ultimately show ?thesis by (meson orderly_step)
qed

lemma drained_run: "orderly_runs (initial_world 1 sample_info) drained_world"
proof -
  let ?w1 = "shutdown_section queued_world"
  let ?w2 = "(drain_push 0 ?w1)\<lparr>shutdowns := [([0], True)]\<rparr>"
  let ?w3 = "(drain_close 0 ?w2)\<lparr>shutdowns := [([], False)]\<rparr>"
  let ?w4 = "worker_take ?w3" 
  let ?w5 = "worker_swap ?w4" 
  let ?w6 = "at_worker AtStop ?w5"
  have f: "shutdowns ?w1 = [([0], False)]" "shutdowns ?w2 = [([0], True)]" by (simp_all add: queued_world_def world_steps)
  have s2: "step ?w1 ?w2" using shutdown_one[of 0 ?w1 0 "[]"] f by simp
  have s3: "step ?w2 ?w3" using shutdown_two[of 0 ?w2 0 "[]"] f by simp
  have o: "orderly ?w1" "orderly ?w2" "orderly ?w3" "orderly ?w4" "orderly ?w5" "orderly ?w6" "orderly drained_world"
    by (simp_all add: drained_world_def queued_world_def world_steps)
  have "step ?w3 ?w4" by (rule take_job) (simp_all add: queued_world_def world_steps)
  moreover have "step ?w4 ?w5" by (rule swap) (simp add: queued_world_def world_steps)
  moreover have "step ?w5 ?w6" by (rule drained) (simp add: queued_world_def world_steps)
  moreover have "step ?w6 drained_world" using stop[of ?w6] by (simp add: drained_world_def Let_def)
  ultimately show ?thesis using orderly_step[OF queued_run shutdown o(1)] s2 s3 o by (meson orderly_step)
qed

theorem one_terminal_event_witness:
  "history finished_world 0 = [Delta sample_delta, Finished default_result] \<and> complete (received finished_world ! 0)"
proof -
  have "handlers finished_world ! 0 = HandlerDone (Some (Finished default_result))" "0 < length (jobs finished_world)"
    "history finished_world 0 = [Delta sample_delta, Finished default_result]"
    by (simp_all add: finished_world_def queued_world_def world_steps history_def)
  then show ?thesis using one_terminal_event[OF orderly_runs_runs[OF finished_run], of 0] by simp
qed

theorem orderly_shutdown_answers_witness:
  "length (jobs drained_world) = 1 \<and> shut drained_world 0 \<and> complete (history drained_world 0)"
proof -
  have "worker drained_world = Stopped" "\<forall>d\<in>set (shutdowns drained_world). d = ([], False)" "length (jobs drained_world) = 1"
    by (simp_all add: drained_world_def queued_world_def world_steps)
  then show ?thesis using orderly_shutdown_answers[OF drained_run, of 0] by simp
qed

end
