(* ===== verification/Http_Responses.thy ===== *)
theory Http_Responses
  imports Openai_Codec Job_Service
begin

text \<open>
  The replies: the response writers of \<^verbatim>\<open>src/server/openai_codec.cpp\<close> and what the two handlers of
  \<^verbatim>\<open>src/server/http_server.cpp\<close> send for the events they take from a job's stream. A writer is the nesting
  of \<open>JsonWriter\<close> calls it makes, so its text is that of \<open>write_doc\<close>; the wall clock and the id of a reply are arguments.
  The transport below, cpp-httplib, is what takes the texts of the writes.
\<close>

subsection \<open>The writers\<close>

record Usage =
  usage_prompt :: nat
  usage_completion :: nat
  usage_total :: nat

record Timings =
  tim_ttft_ms :: fp
  tim_tokens_per_second :: fp
  tim_reused :: nat
  tim_prefilled :: nat
  tim_verdict :: string
  tim_seed :: nat

fun finish_reason_json :: "StopReason \<Rightarrow> string" where
  \<open>finish_reason_json Eos = ''"stop"''\<close>
| \<open>finish_reason_json MaxNewTokens = ''"length"''\<close>
| \<open>finish_reason_json ContextLimit = ''"length"''\<close>
| \<open>finish_reason_json Cancelled = ''null''\<close>
| \<open>finish_reason_json Error = ''null''\<close>

fun finish_value :: "StopReason \<Rightarrow> JsonValue" where
  "finish_value Eos = JString ''stop''"
| "finish_value MaxNewTokens = JString ''length''"
| "finish_value ContextLimit = JString ''length''"
| "finish_value _ = JNull"

definition text_of :: "json_doc \<Rightarrow> string" where
  "text_of d = out (write_doc d new_writer)"

definition chunk_envelope :: "int \<Rightarrow> string \<Rightarrow> string \<Rightarrow> json_doc \<Rightarrow> json_doc" where
  "chunk_envelope now rid model choices = DObject
     [(''id'', DString rid), (''object'', DString ''chat.completion.chunk''), (''created'', DInt now), (''model'', DString model), (''choices'', choices)]"

definition role_choices :: json_doc where
  \<open>role_choices = DRaw ''[{"index":0,"delta":{"role":"assistant"},"finish_reason":null}]''
     (JArray [JObject [(''delta'', JObject [(''role'', JString ''assistant'')]), (''finish_reason'', JNull), (''index'', JNumber (double_of 0))]])\<close>

definition chat_completion_chunk_role :: "int \<Rightarrow> string \<Rightarrow> string \<Rightarrow> string" where
  "chat_completion_chunk_role now rid model = text_of (chunk_envelope now rid model role_choices)"

definition channel_field :: "Channel \<Rightarrow> string" where
  "channel_field ch = (if ch = Reasoning then ''reasoning_content'' else ''content'')"

definition delta_doc :: "Channel \<Rightarrow> string \<Rightarrow> json_doc" where
  "delta_doc ch text = DObject [(channel_field ch, DString text)]"

definition delta_choices :: "Channel \<Rightarrow> string \<Rightarrow> json_doc" where
  \<open>delta_choices ch text = DRaw (''[{"index":0,"delta":'' @ text_of (delta_doc ch text) @ '',"finish_reason":null}]'')
     (JArray [JObject [(''delta'', doc_value (delta_doc ch text)), (''finish_reason'', JNull), (''index'', JNumber (double_of 0))]])\<close>

definition chat_completion_chunk_delta :: "int \<Rightarrow> string \<Rightarrow> string \<Rightarrow> Channel \<Rightarrow> string \<Rightarrow> string" where
  "chat_completion_chunk_delta now rid model ch text = text_of (chunk_envelope now rid model (delta_choices ch text))"

definition finish_choices :: "StopReason \<Rightarrow> json_doc" where
  \<open>finish_choices stop = DRaw (''[{"index":0,"delta":{},"finish_reason":'' @ finish_reason_json stop @ ''}]'')
     (JArray [JObject [(''delta'', JObject []), (''finish_reason'', finish_value stop), (''index'', JNumber (double_of 0))]])\<close>

definition chat_completion_chunk_finish :: "int \<Rightarrow> string \<Rightarrow> string \<Rightarrow> StopReason \<Rightarrow> string" where
  "chat_completion_chunk_finish now rid model stop = text_of (chunk_envelope now rid model (finish_choices stop))"

definition usage_doc :: "Usage \<Rightarrow> json_doc" where
  "usage_doc u = DObject [(''prompt_tokens'', DInt (int (usage_prompt u))), (''completion_tokens'', DInt (int (usage_completion u))),
     (''total_tokens'', DInt (int (usage_total u)))]"

definition usage_chunk_doc :: "int \<Rightarrow> string \<Rightarrow> string \<Rightarrow> Usage \<Rightarrow> json_doc" where
  "usage_chunk_doc now rid model u = DObject
     [(''id'', DString rid), (''object'', DString ''chat.completion.chunk''), (''created'', DInt now), (''model'', DString model),
      (''choices'', DRaw ''[]'' (JArray [])), (''usage'', usage_doc u)]"

definition chat_completion_chunk_usage :: "int \<Rightarrow> string \<Rightarrow> string \<Rightarrow> Usage \<Rightarrow> string" where
  "chat_completion_chunk_usage now rid model u = text_of (usage_chunk_doc now rid model u)"

text \<open>A number is written as text; what it reads as is that text's value.\<close>

definition number_doc :: "fp \<Rightarrow> json_doc" where
  "number_doc x = DRaw (json_number x) (case parse_document (json_number x) of Inr v \<Rightarrow> v | Inl _ \<Rightarrow> JNull)"

definition to_signed :: "nat \<Rightarrow> int" where
  "to_signed n = (if n < 2 ^ 63 then int n else int n - 2 ^ 64)"

definition timings_doc :: "Timings \<Rightarrow> json_doc" where
  "timings_doc t = DObject [(''ttft_ms'', number_doc (tim_ttft_ms t)), (''decode_tokens_per_second'', number_doc (tim_tokens_per_second t)),
     (''reused_tokens'', DInt (int (tim_reused t))), (''prefilled_tokens'', DInt (int (tim_prefilled t))),
     (''reuse_verdict'', DString (tim_verdict t)), (''seed'', DInt (to_signed (tim_seed t)))]"

definition message_doc :: "string \<Rightarrow> string \<Rightarrow> json_doc" where
  "message_doc reasoning content = DObject ([(''role'', DString ''assistant''), (''content'', DString content)] @
     (if reasoning = [] then [] else [(''reasoning_content'', DString reasoning)]))"

definition completion_doc :: "int \<Rightarrow> string \<Rightarrow> string \<Rightarrow> string \<Rightarrow> string \<Rightarrow> StopReason \<Rightarrow> Usage \<Rightarrow> Timings \<Rightarrow> json_doc" where
  "completion_doc now rid model reasoning content stop u t = DObject
     [(''id'', DString rid), (''object'', DString ''chat.completion''), (''created'', DInt now), (''model'', DString model),
      (''choices'', DArray [DObject [(''index'', DInt 0), (''message'', message_doc reasoning content),
         (''finish_reason'', DRaw (finish_reason_json stop) (finish_value stop))]]),
      (''usage'', usage_doc u), (''timings'', timings_doc t)]"

definition chat_completion :: "int \<Rightarrow> string \<Rightarrow> string \<Rightarrow> string \<Rightarrow> string \<Rightarrow> StopReason \<Rightarrow> Usage \<Rightarrow> Timings \<Rightarrow> string" where
  "chat_completion now rid model reasoning content stop u t = text_of (completion_doc now rid model reasoning content stop u t)"

definition error_doc :: "CodecError \<Rightarrow> json_doc" where
  "error_doc e = DObject [(''error'', DObject [(''message'', DString (error_message e)), (''type'', DString (error_code e)), (''code'', DString (error_code e))])]"

definition error_json :: "CodecError \<Rightarrow> string" where
  "error_json e = text_of (error_doc e)"

subsection \<open>The handlers\<close>

definition usage_of :: "ConversationResult \<Rightarrow> Usage" where
  "usage_of r = \<lparr>usage_prompt = res_prompt_tokens r, usage_completion = res_completion_tokens r,
     usage_total = u32 (res_prompt_tokens r + res_completion_tokens r)\<rparr>"

fun error_of :: "ErrorKind \<Rightarrow> string \<Rightarrow> CodecError" where
  "error_of InvalidRequest m = \<lparr>http_status = 400, error_code = ''invalid_request_error'', error_message = m\<rparr>"
| "error_of ContextOverflow m = \<lparr>http_status = 400, error_code = ''context_length_exceeded'', error_message = m\<rparr>"
| "error_of Internal m = \<lparr>http_status = 500, error_code = ''internal_error'', error_message = m\<rparr>"

definition delta_string :: "TextDelta \<Rightarrow> string" where
  "delta_string d = map (\<lambda>b. char_of (unat b)) (delta_text d)"

abbreviation newline :: char where "newline \<equiv> CHR 0x0A"

definition write_data :: "string \<Rightarrow> string" where
  "write_data json = ''data: '' @ json @ [newline, newline]"

definition keep_alive :: "nat \<Rightarrow> string" where
  "keep_alive k = '': queued position='' @ decimal_digits k @ [newline, newline]"

text \<open>What \<open>stream_job\<close> writes for an event, and for a whole run: the events it popped, with the positions it
  reported in between while it waited. The clock is read once per chunk.\<close>

fun event_writes :: "int \<Rightarrow> int \<Rightarrow> string \<Rightarrow> string \<Rightarrow> bool \<Rightarrow> JobEvent \<Rightarrow> string list" where
  "event_writes now now2 rid model usage (Delta d) = [write_data (chat_completion_chunk_delta now rid model (channel d) (delta_string d))]"
| "event_writes now now2 rid model usage (Finished r) =
     [write_data (chat_completion_chunk_finish now rid model (res_stop r))] @
     (if usage then [write_data (chat_completion_chunk_usage now2 rid model (usage_of r))] else []) @ [''data: [DONE]'' @ [newline, newline]]"
| "event_writes now now2 rid model usage (Failed k m) = [write_data (error_json (error_of k m))]"

datatype handler_poll = Popped int int JobEvent | Waited nat

fun poll_writes :: "string \<Rightarrow> string \<Rightarrow> bool \<Rightarrow> handler_poll \<Rightarrow> string list" where
  "poll_writes rid model usage (Popped now now2 e) = event_writes now now2 rid model usage e"
| "poll_writes rid model usage (Waited p) = [keep_alive p]"

definition stream_body :: "int \<Rightarrow> string \<Rightarrow> string \<Rightarrow> bool \<Rightarrow> handler_poll list \<Rightarrow> string" where
  "stream_body now rid model usage ps =
     write_data (chat_completion_chunk_role now rid model) @ concat (concat (map (poll_writes rid model usage) ps))"

text \<open>What \<open>handle_non_stream\<close> collects and answers: status and body.\<close>

fun collect :: "JobEvent list \<Rightarrow> string \<Rightarrow> string \<Rightarrow> string \<times> string \<times> JobEvent option" where
  "collect [] reasoning content = (reasoning, content, None)"
| "collect (Delta d # es) reasoning content =
     (if channel d = Reasoning then collect es (reasoning @ delta_string d) content else collect es reasoning (content @ delta_string d))"
| "collect (e # es) reasoning content = (reasoning, content, Some e)"

definition timings_of :: "ConversationResult \<Rightarrow> nat \<Rightarrow> Timings" where
  "timings_of r s = \<lparr>tim_ttft_ms = res_ttft_ms r, tim_tokens_per_second = res_tokens_per_second r, tim_reused = res_reused_tokens r,
     tim_prefilled = res_prefilled_tokens r, tim_verdict = verdict_name (res_verdict r), tim_seed = s\<rparr>"

definition plain_reply :: "int \<Rightarrow> string \<Rightarrow> string \<Rightarrow> nat \<Rightarrow> JobEvent list \<Rightarrow> nat \<times> string" where
  "plain_reply now rid model s es = (case collect es [] [] of
     (reasoning, content, Some (Finished r)) \<Rightarrow>
       (200, chat_completion now rid model reasoning content (res_stop r) (usage_of r) (timings_of r s))
   | (_, _, Some (Failed k m)) \<Rightarrow> (http_status (error_of k m), error_json (error_of k m))
   | _ \<Rightarrow> (500, error_json \<lparr>http_status = 500, error_code = ''internal_error'', error_message = ''the job stream closed without a result''\<rparr>))"

text \<open>\<open>handle_chat\<close> up to the choice of the handler: an error of the parser or of \<open>submit\<close> is answered at once, and an exception
  that is no \<open>CodecError\<close> by the server's exception handler.\<close>

definition internal_error :: "string \<Rightarrow> CodecError" where
  "internal_error m = \<lparr>http_status = 500, error_code = ''internal_error'', error_message = m\<rparr>"

fun reject_error :: "codec_exn \<Rightarrow> CodecError" where
  "reject_error (Codec e) = e"
| "reject_error (Escapes x) = internal_error ''internal server error''"

fun busy_error :: "submit_error \<Rightarrow> CodecError" where
  "busy_error QueueFull = \<lparr>http_status = 503, error_code = ''server_busy'', error_message = ''the request queue is full''\<rparr>"
| "busy_error NotReady = \<lparr>http_status = 503, error_code = ''server_loading'', error_message = ''the engine is not ready''\<rparr>"

definition error_reply :: "CodecError \<Rightarrow> nat \<times> string" where
  "error_reply e = (http_status e, error_json e)"

definition handle_chat :: "nat \<Rightarrow> string \<Rightarrow> World \<Rightarrow> (nat \<times> string, World, nat \<times> ParsedRequest) outcome" where
  "handle_chat drawn body w = (case parse_chat_request drawn body of
     Inl e \<Rightarrow> throw (error_reply (reject_error e)) w
   | Inr p \<Rightarrow> (case submit (request p) w of
       (Inl e, w') \<Rightarrow> throw (error_reply (busy_error e)) w'
     | (Inr j, w') \<Rightarrow> ok (j, p) w'))"

text \<open>The server's error handler, for replies the library makes itself.\<close>

definition error_handler :: "nat \<Rightarrow> string \<Rightarrow> nat \<times> string" where
  "error_handler res_status body =
     (if body \<noteq> [] then (res_status, body)
      else let status = (if res_status < 400 then 500 else res_status);
               code = (if 500 \<le> status then ''internal_error'' else if status = 404 then ''not_found''
                 else if status = 405 then ''method_not_allowed'' else if status = 413 then ''payload_too_large'' else ''invalid_request_error'')
        in error_reply \<lparr>http_status = status, error_code = code, error_message = ''request failed''\<rparr>)"

definition health :: "World \<Rightarrow> nat \<times> string" where
  \<open>health w = (if service_state (service w) = Ready then (200, ''{"status":"ok"}'') else (503, ''{"status":"loading"}''))\<close>

definition models_doc :: "string \<Rightarrow> json_doc" where
  "models_doc model = DObject [(''object'', DString ''list''),
     (''data'', DArray [DObject [(''id'', DString model), (''object'', DString ''model''), (''owned_by'', DString ''aeon'')]])]"

text \<open>The status page; the three times it reports are arguments.\<close>

definition live_doc :: "fp \<Rightarrow> LiveJob \<Rightarrow> json_doc" where
  "live_doc elapsed l = DObject [(''id'', DInt (to_signed (live_id l))), (''phase'', DString (live_phase l)),
     (''tokens_so_far'', DInt (to_signed (tokens_so_far l))), (''elapsed_ms'', number_doc elapsed)]"

definition last_doc :: "fp \<Rightarrow> fp \<Rightarrow> ConversationResult \<Rightarrow> json_doc" where
  "last_doc waited overall r = DObject [(''stop'', DString (stop_reason_name (res_stop r))),
     (''prompt_tokens'', DInt (int (res_prompt_tokens r))), (''completion_tokens'', DInt (int (res_completion_tokens r))),
     (''reused_tokens'', DInt (int (res_reused_tokens r))), (''prefilled_tokens'', DInt (int (res_prefilled_tokens r))),
     (''reuse_verdict'', DString (verdict_name (res_verdict r))), (''ttft_ms'', number_doc (res_ttft_ms r)),
     (''decode_tokens_per_second'', number_doc (res_tokens_per_second r)), (''queue_wait_ms'', number_doc waited), (''total_ms'', number_doc overall)]"

definition status_doc :: "fp \<Rightarrow> fp \<Rightarrow> fp \<Rightarrow> ServerSnapshot \<Rightarrow> json_doc" where
  "status_doc elapsed waited overall s = DObject [(''state'', DString (snap_state s)), (''queue_depth'', DInt (to_signed (snap_queue_depth s))),
     (''conversation'', DObject [(''model_id'', DString (info_model_id (snap_info s))), (''context_capacity'', DInt (int (info_context_capacity (snap_info s)))),
        (''resident_tokens'', DInt (int (info_resident_tokens (snap_info s)))), (''invariants_ok'', DBool (info_invariants_ok (snap_info s)))]),
     (''live'', case snap_live s of None \<Rightarrow> DNull | Some l \<Rightarrow> live_doc elapsed l),
     (''last'', case snap_last s of None \<Rightarrow> DNull | Some r \<Rightarrow> last_doc waited overall r)]"

subsection \<open>The texts\<close>

lemma text_of_print: "text_of d = print_doc d"
  using write_doc_prints[of new_writer d] by (simp add: text_of_def ready_writer_def new_writer_def after_value_def sep_def)

text \<open>The hand-written \<open>choices\<close> are the texts of documents.\<close>

definition choices_doc :: "json_doc \<Rightarrow> json_doc \<Rightarrow> json_doc" where
  "choices_doc dd ff = DArray [DObject [(''index'', DInt 0), (''delta'', dd), (''finish_reason'', ff)]]"

lemma print_choices:
  \<open>print_doc (choices_doc dd ff) = ''[{"index":0,"delta":'' @ print_doc dd @ '',"finish_reason":'' @ print_doc ff @ ''}]''\<close>
  by (simp add: choices_doc_def quoted_def json_escape_def escape_char_def int_to_string_def)

lemma choices_value: "doc_value (choices_doc dd ff) =
    JArray [JObject [(''delta'', doc_value dd), (''finish_reason'', doc_value ff), (''index'', JNumber (double_of 0))]]"
  by (simp add: choices_doc_def)

lemma choices_reads: "doc_ok dd \<Longrightarrow> doc_ok ff \<Longrightarrow> reads_as (print_doc (choices_doc dd ff)) (doc_value (choices_doc dd ff))"
  by (rule print_doc_reads) (simp add: choices_doc_def)

lemma finish_reason_reads: "reads_as (finish_reason_json stop) (finish_value stop)"
proof -
  have "reads_as (print_doc (DString t)) (JString t)" for t using print_doc_reads[of "DString t"] by simp
  moreover have "reads_as (print_doc DNull) JNull" using print_doc_reads[of DNull] by simp
  ultimately have "reads_as (quoted t) (JString t)" "reads_as ''null'' JNull" for t by simp_all
  from this(1)[of "''stop''"] this(1)[of "''length''"] this(2) show ?thesis
    by (cases stop) (simp_all add: quoted_def json_escape_def escape_char_def)
qed

lemma choices_ok [simp]: "doc_ok role_choices" "doc_ok (delta_choices ch text)" "doc_ok (finish_choices stop)"
proof -
  let ?role = "DObject [(''role'', DString ''assistant'')]"
  have \<open>print_doc ?role = ''{"role":"assistant"}''\<close> by (simp add: quoted_def json_escape_def escape_char_def)
  then show "doc_ok role_choices" using choices_reads[of ?role DNull] print_choices[of ?role DNull]
    by (simp add: role_choices_def choices_value)
  show "doc_ok (delta_choices ch text)" using choices_reads[of "delta_doc ch text" DNull] print_choices[of "delta_doc ch text" DNull]
    by (simp add: delta_choices_def choices_value delta_doc_def text_of_print)
  let ?stop = "DRaw (finish_reason_json stop) (finish_value stop)"
  show "doc_ok (finish_choices stop)" using choices_reads[of "DObject []" ?stop] print_choices[of "DObject []" ?stop] finish_reason_reads[of stop]
    by (simp add: finish_choices_def choices_value)
qed

lemma envelope_ok: "\<bar>now\<bar> < 2 ^ 64 \<Longrightarrow> doc_ok choices \<Longrightarrow> doc_ok (chunk_envelope now rid model choices)"
  by (simp add: chunk_envelope_def)

lemma envelope_value: "json_find ''choices'' (doc_value (chunk_envelope now rid model choices)) = Some (doc_value choices)"
  by (simp add: chunk_envelope_def json_find_def)

subsection \<open>No control characters\<close>

definition printable :: "string \<Rightarrow> bool" where
  "printable t \<longleftrightarrow> (\<forall>c\<in>set t. (32::nat) \<le> byte_of c)"

lemma printable_simps [simp]: "printable []" "printable (a @ b) \<longleftrightarrow> printable a \<and> printable b" "printable (c # t) \<longleftrightarrow> (32::nat) \<le> byte_of c \<and> printable t"
  by (auto simp: printable_def)

lemma printable_hex_digit: "d < 16 \<Longrightarrow> (32::nat) \<le> byte_of (hex_digit d)"
  by (auto simp: hex_digit_def of_char_of)

lemma printable_escape: "printable (json_escape t)"
proof -
  have "printable (escape_char c)" for c
  proof (cases "(byte_of c :: nat) < 32")
    case True
    then have "(byte_of c :: nat) div 16 < 16" "(byte_of c :: nat) mod 16 < 16" by simp_all
    then have "(32::nat) \<le> byte_of (hex_digit (byte_of c div 16))" "(32::nat) \<le> byte_of (hex_digit (byte_of c mod 16))"
      using printable_hex_digit by blast+
    moreover have "c \<noteq> quote_char" "c \<noteq> backslash_char" using True by auto
    ultimately show ?thesis using True by (simp add: escape_char_def)
  qed (simp add: escape_char_def)
  then show ?thesis by (induction t) (simp_all add: json_escape_def)
qed

lemma printable_decimal: "printable (decimal_digits n)"
  using decimal_digits_all[of n] by (auto simp: printable_def json_digit_def)

lemma printable_int: "printable (int_to_string i)"
  using printable_decimal by (simp add: int_to_string_def)

lemma printable_quoted: "printable (quoted t)"
  using printable_escape by (simp add: quoted_def)

lemma printable_commas: "(\<forall>t\<in>set ts. printable t) \<Longrightarrow> printable (commas ts)"
  by (induction ts rule: commas.induct) auto

fun raw_printable :: "json_doc \<Rightarrow> bool" where
  "raw_printable (DRaw t v) \<longleftrightarrow> printable t"
| "raw_printable (DArray ds) \<longleftrightarrow> (\<forall>d\<in>set ds. raw_printable d)"
| "raw_printable (DObject ms) \<longleftrightarrow> (\<forall>(k, d)\<in>set ms. raw_printable d)"
| "raw_printable _ \<longleftrightarrow> True"

lemma print_doc_printable: "raw_printable d \<Longrightarrow> printable (print_doc d)"
proof (induction d)
  case (DArray ds)
  then show ?case by (auto intro!: printable_commas)
next
  case (DObject ms)
  have "printable (quoted k @ '':'' @ print_doc d)" if "(k, d) \<in> set ms" for k d
    using DObject that printable_quoted by (fastforce simp: snds.simps)
  then have "printable (commas (map (\<lambda>(k, d). quoted k @ '':'' @ print_doc d) ms))" by (auto intro!: printable_commas)
  then show ?case by simp
qed (simp_all add: printable_int printable_quoted)

subsection \<open>A client\<close>

text \<open>What a client of the event stream does: it splits the body into lines, keeps those that start with
  \<^verbatim>\<open>data: \<close>, parses each and appends the text of the delta it carries for a channel.\<close>

fun split_lines :: "string \<Rightarrow> string \<Rightarrow> string list" where
  "split_lines line [] = [line]"
| "split_lines line (c # r) = (if c = newline then line # split_lines [] r else split_lines (line @ [c]) r)"

definition sse_payloads :: "string \<Rightarrow> string list" where
  "sse_payloads body = map (drop 6) (filter (\<lambda>l. take 6 l = ''data: '') (split_lines [] body))"

definition choice_text :: "Channel \<Rightarrow> JsonValue \<Rightarrow> string" where
  "choice_text ch v = (case v of
     JArray (c # cs) \<Rightarrow> (case json_find ''delta'' c of Some d \<Rightarrow> string_or_empty (find_string (channel_field ch) d) | None \<Rightarrow> [])
   | _ \<Rightarrow> [])"

definition chunk_text :: "Channel \<Rightarrow> string \<Rightarrow> string" where
  "chunk_text ch t = (case parse_document t of
     Inr v \<Rightarrow> (case json_find ''choices'' v of Some x \<Rightarrow> choice_text ch x | None \<Rightarrow> [])
   | Inl _ \<Rightarrow> [])"

definition streamed :: "Channel \<Rightarrow> string \<Rightarrow> string" where
  "streamed ch body = concat (map (chunk_text ch) (sse_payloads body))"

lemma split_lines_line: "newline \<notin> set l \<Longrightarrow> split_lines a (l @ newline # r) = (a @ l) # split_lines [] r"
  by (induction l arbitrary: a) auto

lemma printable_no_newline: "printable t \<Longrightarrow> newline \<notin> set t"
  by (auto simp: printable_def)

lemma payload_data: "printable t \<Longrightarrow> sse_payloads (write_data t @ r) = t # sse_payloads r"
  using split_lines_line[of "''data: '' @ t" "[]" "newline # r"] printable_no_newline[of t]
  by (simp add: sse_payloads_def write_data_def)

lemma payload_done: "sse_payloads (''data: [DONE]'' @ newline # newline # r) = ''[DONE]'' # sse_payloads r"
  using payload_data[of "''[DONE]''" r] by (simp add: write_data_def)

lemma payload_keep_alive: "sse_payloads (keep_alive k @ r) = sse_payloads r"
  using split_lines_line[of "'': queued position='' @ decimal_digits k" "[]" "newline # r"] printable_no_newline[OF printable_decimal]
  by (simp add: sse_payloads_def keep_alive_def)

lemma payload_end: "sse_payloads [] = []"
  by (simp add: sse_payloads_def)

definition clock_ok :: "int \<Rightarrow> bool" where
  "clock_ok now \<longleftrightarrow> \<bar>now\<bar> < 2 ^ 63"

lemma doc_reads: "doc_ok d \<Longrightarrow> parse_document (text_of d) = Inr (doc_value d)"
  unfolding text_of_def by (rule write_doc_parses)

lemma chunk_text_doc: "doc_ok d \<Longrightarrow> chunk_text ch (text_of d) = (case json_find ''choices'' (doc_value d) of Some x \<Rightarrow> choice_text ch x | None \<Rightarrow> [])"
  by (simp add: chunk_text_def doc_reads)

lemma chunk_text_envelope: "clock_ok now \<Longrightarrow> doc_ok choices \<Longrightarrow> chunk_text ch (text_of (chunk_envelope now rid model choices)) = choice_text ch (doc_value choices)"
  by (simp add: chunk_text_doc[OF envelope_ok] clock_ok_def envelope_value)

lemma choice_texts:
  "choice_text ch (doc_value role_choices) = []"
  "choice_text ch (doc_value (delta_choices ch' t)) = (if ch = ch' then t else [])"
  "choice_text ch (doc_value (finish_choices stop)) = []"
proof -
  show "choice_text ch (doc_value role_choices) = []"
    by (simp add: role_choices_def choice_text_def json_find_def find_string_def channel_field_def string_or_empty_def)
  show "choice_text ch (doc_value (delta_choices ch' t)) = (if ch = ch' then t else [])"
    by (cases ch; cases ch')
      (simp_all add: delta_choices_def delta_doc_def choice_text_def json_find_def find_string_def channel_field_def string_or_empty_def)
  show "choice_text ch (doc_value (finish_choices stop)) = []"
    by (simp add: finish_choices_def choice_text_def json_find_def find_string_def string_or_empty_def)
qed

text \<open>Every payload fits on a line and carries the text of its event only.\<close>

lemma raw_printables [simp]: "raw_printable role_choices" "raw_printable (delta_choices ch t)" "raw_printable (finish_choices stop)"
proof -
  show "raw_printable role_choices" by (simp add: role_choices_def)
  show "raw_printable (delta_choices ch t)" 
    using print_doc_printable[of "delta_doc ch t"] by (simp add: delta_choices_def text_of_print delta_doc_def)
  show "raw_printable (finish_choices stop)" by (cases stop) (simp_all add: finish_choices_def)
qed

lemma chunk_printable: "raw_printable choices \<Longrightarrow> printable (text_of (chunk_envelope now rid model choices))"
  unfolding text_of_print by (rule print_doc_printable) (simp add: chunk_envelope_def)

lemma usage_chunk_printable: "printable (chat_completion_chunk_usage now rid model u)"
  unfolding chat_completion_chunk_usage_def text_of_print
  by (rule print_doc_printable) (simp add: usage_chunk_doc_def usage_doc_def)

lemma error_printable: "printable (error_json e)"
  unfolding error_json_def text_of_print by (rule print_doc_printable) (simp add: error_doc_def)

definition result_ok :: "ConversationResult \<Rightarrow> bool" where
  "result_ok r \<longleftrightarrow> res_prompt_tokens r < 2 ^ 32 \<and> res_completion_tokens r < 2 ^ 32"

lemma usage_text: "clock_ok now \<Longrightarrow> result_ok r \<Longrightarrow> chunk_text ch (chat_completion_chunk_usage now rid model (usage_of r)) = []"
proof -
  assume c: "clock_ok now" and r: "result_ok r"
  have "reads_as ''[]'' (JArray [])" using print_doc_reads[of "DArray []"] by simp
  moreover have "usage_total (usage_of r) < 2 ^ 32" by (simp add: usage_of_def u32_def)
  ultimately have ok: "doc_ok (usage_chunk_doc now rid model (usage_of r))"
    using c r by (simp add: usage_chunk_doc_def usage_doc_def clock_ok_def result_ok_def usage_of_def)
  have "json_find ''choices'' (doc_value (usage_chunk_doc now rid model (usage_of r))) = Some (JArray [])"
    by (simp add: usage_chunk_doc_def json_find_def)
  then show ?thesis by (simp add: chat_completion_chunk_usage_def chunk_text_doc[OF ok] choice_text_def)
qed

lemma error_text: "chunk_text ch (error_json e) = []"
proof -
  have ok: "doc_ok (error_doc e)" by (simp add: error_doc_def)
  show ?thesis unfolding error_json_def chunk_text_doc[OF ok] by (simp add: error_doc_def json_find_def)
qed

lemma done_text: "chunk_text ch ''[DONE]'' = []"
proof -
  have "isl (parse_document ''[DONE]'')" by code_simp
  then show ?thesis by (auto simp: chunk_text_def split: sum.splits)
qed

text \<open>The payloads of a run and the text they carry.\<close>

fun event_payloads :: "int \<Rightarrow> int \<Rightarrow> string \<Rightarrow> string \<Rightarrow> bool \<Rightarrow> JobEvent \<Rightarrow> string list" where
  "event_payloads now now2 rid model usage (Delta d) = [chat_completion_chunk_delta now rid model (channel d) (delta_string d)]"
| "event_payloads now now2 rid model usage (Finished r) = chat_completion_chunk_finish now rid model (res_stop r) #
     (if usage then [chat_completion_chunk_usage now2 rid model (usage_of r)] else []) @ [''[DONE]'']"
| "event_payloads now now2 rid model usage (Failed k m) = [error_json (error_of k m)]"

fun poll_payloads :: "string \<Rightarrow> string \<Rightarrow> bool \<Rightarrow> handler_poll \<Rightarrow> string list" where
  "poll_payloads rid model usage (Popped now now2 e) = event_payloads now now2 rid model usage e"
| "poll_payloads rid model usage (Waited k) = []"

lemmas chunk_defs = chat_completion_chunk_role_def chat_completion_chunk_delta_def chat_completion_chunk_finish_def

lemma poll_writes_payloads: "sse_payloads (concat (poll_writes rid model usage p) @ r) = poll_payloads rid model usage p @ sse_payloads r"
proof (cases p)
  case (Popped now now2 e)
  then show ?thesis
    by (cases e) (simp_all add: payload_data chunk_defs chunk_printable payload_done[simplified] usage_chunk_printable error_printable)
qed (simp add: payload_keep_alive)

lemma stream_payloads:
  "sse_payloads (stream_body now rid model usage ps) = chat_completion_chunk_role now rid model # concat (map (poll_payloads rid model usage) ps)"
proof -
  have "sse_payloads (concat (concat (map (poll_writes rid model usage) ps))) = concat (map (poll_payloads rid model usage) ps)"
    by (induction ps) (simp_all add: payload_end poll_writes_payloads)
  then show ?thesis by (simp add: stream_body_def payload_data chunk_defs chunk_printable)
qed

fun event_ok :: "JobEvent \<Rightarrow> bool" where
  "event_ok (Finished r) \<longleftrightarrow> result_ok r"
| "event_ok _ \<longleftrightarrow> True"

fun poll_ok :: "handler_poll \<Rightarrow> bool" where
  "poll_ok (Popped now now2 e) \<longleftrightarrow> clock_ok now \<and> clock_ok now2 \<and> event_ok e"
| "poll_ok (Waited k) \<longleftrightarrow> True"

fun popped :: "handler_poll list \<Rightarrow> JobEvent list" where
  "popped [] = []"
| "popped (Popped now now2 e # ps) = e # popped ps"
| "popped (Waited k # ps) = popped ps"

fun event_text :: "Channel \<Rightarrow> JobEvent \<Rightarrow> string" where
  "event_text ch (Delta d) = (if ch = channel d then delta_string d else [])"
| "event_text ch _ = []"

lemma event_payloads_text:
  "clock_ok now \<Longrightarrow> clock_ok now2 \<Longrightarrow> event_ok e \<Longrightarrow> concat (map (chunk_text ch) (event_payloads now now2 rid model usage e)) = event_text ch e"
  by (cases e) (simp_all add: chunk_defs chunk_text_envelope choice_texts usage_text error_text done_text)

lemma polls_text: "list_all poll_ok ps \<Longrightarrow>
    concat (map (chunk_text ch) (concat (map (poll_payloads rid model usage) ps))) = concat (map (event_text ch) (popped ps))"
  by (induction ps rule: popped.induct) (simp_all add: event_payloads_text)

lemma streamed_text:
  "clock_ok now \<Longrightarrow> list_all poll_ok ps \<Longrightarrow> streamed ch (stream_body now rid model usage ps) = concat (map (event_text ch) (popped ps))"
  using polls_text[of ps ch rid model usage]
  by (simp add: streamed_def stream_payloads chunk_defs chunk_text_envelope choice_texts)

lemma collect_quiet: "quiet es \<Longrightarrow> terminal e \<Longrightarrow>
    collect (es @ [e]) a b = (a @ concat (map (event_text Reasoning) es), b @ concat (map (event_text Content) es), Some e)"
proof (induction es arbitrary: a b)
  case Nil
  then show ?case by (cases e) simp_all
next
  case (Cons x es)
  then obtain d where x: "x = Delta d" by (cases x) (auto simp: quiet_def)
  have "quiet es" using Cons.prems by (simp add: quiet_def)
  then show ?case using Cons.IH Cons.prems(2) x by (cases "channel d") simp_all
qed

lemma complete_split: "complete es \<Longrightarrow> \<exists>qs e. es = qs @ [e] \<and> quiet qs \<and> terminal e"
  by (metis append_butlast_last_id complete_def)

lemma terminal_text: "terminal e \<Longrightarrow> event_text ch e = []"
  by (cases e) simp_all

lemma braced: "''[DONE]'' \<noteq> text_of (DObject ms)" "text_of (DObject ms) \<noteq> ''[DONE]''"
  by (simp_all add: text_of_print)

lemma event_done: "''[DONE]'' \<in> set (event_payloads now now2 rid model usage e) \<longleftrightarrow> (\<exists>r. e = Finished r)"
  by (cases e) (auto simp: braced chunk_defs chunk_envelope_def error_json_def error_doc_def)

lemma polls_done: "''[DONE]'' \<in> set (concat (map (poll_payloads rid model usage) ps)) \<longleftrightarrow> (\<exists>r. Finished r \<in> set (popped ps))"
  by (induction ps rule: popped.induct) (auto simp: event_done)

lemma agreement:
  assumes "complete (popped ps)" and "clock_ok now" and "list_all poll_ok ps"
  shows "collect (popped ps) [] [] = (streamed Reasoning (stream_body now rid model usage ps),
       streamed Content (stream_body now rid model usage ps), Some (last (popped ps))) \<and>
     (''[DONE]'' \<in> set (sse_payloads (stream_body now rid model usage ps)) \<longleftrightarrow> (\<exists>r. last (popped ps) = Finished r))"
proof -
  obtain qs e where e: "popped ps = qs @ [e]" "quiet qs" "terminal e" using complete_split[OF assms(1)] by blast
  have "''[DONE]'' \<in> set (sse_payloads (stream_body now rid model usage ps)) \<longleftrightarrow> (\<exists>r. Finished r \<in> set (popped ps))"
    using polls_done[of rid model usage ps] by (simp add: braced stream_payloads chunk_defs chunk_envelope_def del: set_concat)
  moreover have "(\<exists>r. Finished r \<in> set (popped ps)) \<longleftrightarrow> (\<exists>r. last (popped ps) = Finished r)"
    using e by (auto simp: quiet_def)
  ultimately show ?thesis using e(1) collect_quiet[OF e(2,3), of "[]" "[]"] streamed_text[OF assms(2,3)] terminal_text[OF e(3)] by simp
qed


definition sample_polls :: "handler_poll list" where
  "sample_polls = [Waited 1, Popped 5 5 (Delta sample_delta), Popped 6 7 (Finished default_result)]"


subsection \<open>Every reply is JSON\<close>

text \<open>What a client gets from an error or from the two information pages parses.\<close>

theorem error_replies_parse: "parse_document (error_json e) = Inr (doc_value (error_doc e))"
  unfolding error_json_def by (rule doc_reads) (simp add: error_doc_def)

theorem models_parse: "parse_document (text_of (models_doc m)) = Inr (doc_value (models_doc m))"
  by (rule doc_reads) (simp add: models_doc_def)

text \<open>The codec's errors become replies with status 400 and the service's with 503; nothing of a refused request reaches the queue.\<close>

theorem refused_request_leaves_service:
  assumes "handle_chat drawn body w = throw r w'"
  shows "w' = w \<and> fst r \<in> {400, 500, 503} \<and> (\<exists>e. parse_document (snd r) = Inr (doc_value (error_doc e)))"
proof -
  have j: "\<exists>e'. parse_document (error_json e) = Inr (doc_value (error_doc e'))" for e using error_replies_parse by blast
  show ?thesis
  proof (cases "parse_chat_request drawn body")
    case (Inl e)
    then have r: "r = error_reply (reject_error e)" "w' = w" using assms by (auto simp: handle_chat_def)
    have "http_status (reject_error e) \<in> {400, 500}"
      using refusals_are_client_errors[OF Inl] by (cases e) (auto simp: refusal_def plain_refusal_def internal_error_def split: sum.splits)
    then show ?thesis using r j by (auto simp: error_reply_def)
  next
    case (Inr p)
    then obtain e where e: "submit (request p) w = (Inl e, w')" "r = error_reply (busy_error e)"
      using assms by (auto simp: handle_chat_def split: sum.splits prod.splits)
    then have "w' = w" by (auto simp: submit_def Let_def throw_def ok_def split: if_splits)
    moreover have "http_status (busy_error e) = 503" by (cases e) simp_all
    ultimately show ?thesis using e j by (auto simp: error_reply_def)
  qed
qed

end
