(* ===== verification/Tokenizer_Model.thy ===== *)
theory Tokenizer_Model
  imports Json_Value
begin

text \<open>
  The tokenizer, \<^verbatim>\<open>src/architecture/deepseek_v4/text/dsv4_tokenizer.cpp\<close>. Text is a \<open>string\<close> of bytes; a function that walks an
  offset over a text takes the rest of it. An unordered map is a partial map; the artifact is the bytes of its file. \<open>load\<close> starts
  from a fresh object and its result is the object it leaves when it returns. The loop of \<open>encode\<close> could run forever on an empty
  added token, so it is a partial function.
\<close>

subsection \<open>Code points\<close>

definition utf8_error :: "string \<Rightarrow> exn" where
  "utf8_error m = runtime_error (''Invalid UTF-8'' @ m)"

definition code_width :: "nat \<Rightarrow> nat option" where
  "code_width b = (if b < 128 then Some 1 else if b div 32 = 6 then Some 2 else if b div 16 = 14 then Some 3
     else if b div 8 = 30 then Some 4 else None)"

definition lead_value :: "nat \<Rightarrow> nat \<Rightarrow> nat" where
  "lead_value b width = (if width = 1 then b else if width = 2 then b mod 32 else if width = 3 then b mod 16 else b mod 8)"

fun continue_value :: "nat \<Rightarrow> string \<Rightarrow> exn + nat" where
  "continue_value v [] = Inr v"
| "continue_value v (c # cs) =
     (if byte_of c div 64 \<noteq> (2::nat) then Inl (utf8_error '' continuation byte'') else continue_value (64 * v + byte_of c mod 64) cs)"

definition bad_code_point :: "nat \<Rightarrow> nat \<Rightarrow> bool" where
  "bad_code_point width v \<longleftrightarrow> width = 2 \<and> v < 0x80 \<or> width = 3 \<and> v < 0x800 \<or> width = 4 \<and> v < 0x10000 \<or> 0x10ffff < v \<or> 0xd800 \<le> v \<and> v \<le> 0xdfff"

definition decode_code_point :: "string \<Rightarrow> exn + nat \<times> string" where
  "decode_code_point s = (case s of
     [] \<Rightarrow> Inl (utf8_error '': missing code point'')
   | c # r \<Rightarrow> (case code_width (byte_of c) of
       None \<Rightarrow> Inl (utf8_error '' leading byte'')
     | Some width \<Rightarrow>
         if length s < width then Inl (utf8_error '': truncated code point'')
         else (case continue_value (lead_value (byte_of c) width) (take (width - 1) r) of
             Inl e \<Rightarrow> Inl e
           | Inr v \<Rightarrow> if bad_code_point width v then Inl (utf8_error '' code point'') else Inr (v, drop width s))))"

definition encode_code_point :: "nat \<Rightarrow> string" where
  "encode_code_point v = map char_of
     (if v \<le> 0x7f then [v]
      else if v \<le> 0x7ff then [0xc0 + v div 64, 0x80 + v mod 64]
      else if v \<le> 0xffff then [0xe0 + v div 4096, 0x80 + v div 64 mod 64, 0x80 + v mod 64]
      else [0xf0 + v div 262144, 0x80 + v div 4096 mod 64, 0x80 + v div 64 mod 64, 0x80 + v mod 64])"

definition is_ascii_digit :: "nat \<Rightarrow> bool" where
  "is_ascii_digit v \<longleftrightarrow> 48 \<le> v \<and> v \<le> 57"

definition is_cjk :: "nat \<Rightarrow> bool" where
  "is_cjk v \<longleftrightarrow> 0x4e00 \<le> v \<and> v \<le> 0x9fff \<or> 0x3400 \<le> v \<and> v \<le> 0x4dbf \<or> 0x3040 \<le> v \<and> v \<le> 0x30ff \<or> 0x31f0 \<le> v \<and> v \<le> 0x31ff"

definition is_space :: "nat \<Rightarrow> bool" where
  "is_space v \<longleftrightarrow> v \<in> {32, 9, 10, 13, 12, 11, 0xa0, 0x1680} \<or> 0x2000 \<le> v \<and> v \<le> 0x200a \<or> v \<in> {0x2028, 0x2029, 0x202f, 0x205f, 0x3000}"

definition is_letter_or_mark :: "nat \<Rightarrow> bool" where
  "is_letter_or_mark v \<longleftrightarrow> 65 \<le> v \<and> v \<le> 90 \<or> 97 \<le> v \<and> v \<le> 122 \<or> 0x300 \<le> v \<and> v \<le> 0x36f \<or>
     0xc0 \<le> v \<and> \<not> is_space v \<and> \<not> is_cjk v \<and> \<not> (0x2000 \<le> v \<and> v \<le> 0x206f)"

definition is_ascii_punctuation_or_symbol :: "nat \<Rightarrow> bool" where
  "is_ascii_punctuation_or_symbol v \<longleftrightarrow> 0x21 \<le> v \<and> v \<le> 0x2f \<or> 0x3a \<le> v \<and> v \<le> 0x40 \<or> 0x5b \<le> v \<and> v \<le> 0x60 \<or> 0x7b \<le> v \<and> v \<le> 0x7e"

definition is_punctuation_or_symbol :: "nat \<Rightarrow> bool" where
  "is_punctuation_or_symbol v \<longleftrightarrow> is_ascii_punctuation_or_symbol v \<or>
     \<not> (is_space v \<or> is_letter_or_mark v \<or> is_ascii_digit v \<or> is_cjk v)"

subsection \<open>Bytes as symbols\<close>

definition direct :: "nat \<Rightarrow> bool" where
  "direct b \<longleftrightarrow> 33 \<le> b \<and> b \<le> 126 \<or> 161 \<le> b \<and> b \<le> 172 \<or> 174 \<le> b \<and> b \<le> 255"

definition extra_before :: "nat \<Rightarrow> nat" where
  "extra_before b = length (filter (\<lambda>k. \<not> direct k) [0..<b])"

definition symbol_code :: "nat \<Rightarrow> nat" where
  "symbol_code b = (if direct b then b else 256 + extra_before b)"

definition byte_to_symbol :: "char \<Rightarrow> string" where
  "byte_to_symbol c = encode_code_point (symbol_code (byte_of c))"

definition reverse_symbol :: "nat \<Rightarrow> nat option" where
  "reverse_symbol v = find (\<lambda>b. symbol_code b = v) [0..<256]"

lemma continue_value_length: "decode_code_point s = Inr (v, r) \<Longrightarrow> length r < length s"
proof (cases s)
  case (Cons c t)
  assume "decode_code_point s = Inr (v, r)"
  then obtain w where w: "code_width (byte_of c) = Some w" "r = drop w s" using Cons
    by (auto simp: decode_code_point_def split: option.splits if_splits sum.splits)
  then have "0 < w" by (auto simp: code_width_def split: if_splits)
  then show ?thesis using w Cons by simp
qed (simp add: decode_code_point_def)

function symbol_to_bytes :: "string \<Rightarrow> exn + string" where
  "symbol_to_bytes s = (if s = [] then Inr []
     else case decode_code_point s of
       Inl e \<Rightarrow> Inl e
     | Inr (v, r) \<Rightarrow> (case symbol_to_bytes r of
         Inl e \<Rightarrow> Inl e
       | Inr bytes \<Rightarrow> Inr ((case reverse_symbol v of None \<Rightarrow> encode_code_point v | Some b \<Rightarrow> [char_of b]) @ bytes)))"
  by pat_completeness auto

termination by (relation "measure length") (auto dest: continue_value_length)

declare symbol_to_bytes.simps [simp del]

definition decode_base_symbol :: "string \<Rightarrow> exn + string" where
  "decode_base_symbol = symbol_to_bytes"

subsection \<open>Splitting\<close>

text \<open>A code point with its text.\<close>

function decode_utf8 :: "string \<Rightarrow> exn + (nat \<times> string) list" where
  "decode_utf8 s = (if s = [] then Inr []
     else case decode_code_point s of
       Inl e \<Rightarrow> Inl e
     | Inr (v, r) \<Rightarrow> (case decode_utf8 r of Inl e \<Rightarrow> Inl e | Inr cs \<Rightarrow> Inr ((v, take (length s - length r) s) # cs)))"
  by pat_completeness auto

termination by (relation "measure length") (auto dest: continue_value_length)

declare decode_utf8.simps [simp del]

definition is_break :: "nat \<Rightarrow> bool" where
  "is_break v \<longleftrightarrow> v = 13 \<or> v = 10"

text \<open>How many code points after the first the piece takes.\<close>

definition run_length :: "(nat \<Rightarrow> bool) \<Rightarrow> nat list \<Rightarrow> nat" where
  "run_length p vs = length (takeWhile p vs)"

definition piece_rest :: "nat \<Rightarrow> nat list \<Rightarrow> nat" where
  "piece_rest v vs =
     (if is_ascii_digit v then min 2 (run_length is_ascii_digit vs)
      else if is_cjk v then run_length is_cjk vs
      else if is_break v then run_length is_break vs
      else if is_space v then
        if v = 32 \<and> vs \<noteq> [] \<and> is_letter_or_mark (hd vs) then run_length is_letter_or_mark vs
        else run_length (\<lambda>u. is_space u \<and> u \<noteq> 13 \<and> u \<noteq> 10) vs
      else if is_letter_or_mark v then run_length is_letter_or_mark vs
      else if is_punctuation_or_symbol v then
        let n = run_length is_punctuation_or_symbol vs in n + run_length is_break (drop n vs)
      else 0)"

function pieces :: "(nat \<times> string) list \<Rightarrow> string list" where
  "pieces [] = []"
| "pieces ((v, t) # cs) =
     (let n = piece_rest v (map fst cs) in (t @ concat (map snd (take n cs))) # pieces (drop n cs))"
  by pat_completeness auto

termination by (relation "measure length") auto

definition split_pretokens :: "string \<Rightarrow> exn + string list" where
  "split_pretokens s = (case decode_utf8 s of Inl e \<Rightarrow> Inl e | Inr cs \<Rightarrow> Inr (pieces cs))"

subsection \<open>The tokenizer\<close>

record AddedToken =
  tok_id :: nat
  tok_flags :: nat
  tok_content :: string

record Dsv4Tokenizer =
  vocab_symbols :: "string list"
  decoded_symbols :: "string list"
  added_tokens :: "AddedToken list"
  symbol_to_id :: "string \<rightharpoonup> nat"
  added_content_to_id :: "string \<rightharpoonup> nat"
  merge_ranks :: "string \<rightharpoonup> nat"
  id_limit :: nat
  bos_token_id :: nat
  eos_token_id :: nat
  user_token_id :: nat
  assistant_token_id :: nat
  thinking_start_token_id :: nat
  thinking_end_token_id :: nat
  loaded :: bool

definition pair_key :: "string \<Rightarrow> string \<Rightarrow> string" where
  "pair_key l r = l @ [CHR 0x00] @ r"

text \<open>The pair to merge: the lowest rank, the leftmost of equal ones.\<close>

fun best_merge :: "(string \<rightharpoonup> nat) \<Rightarrow> nat \<Rightarrow> string list \<Rightarrow> nat \<times> nat \<Rightarrow> nat \<times> nat" where
  "best_merge ranks i (a # b # r) (best_rank, best_index) = best_merge ranks (Suc i) (b # r)
     (case ranks (pair_key a b) of
        Some k \<Rightarrow> if k < best_rank then (k, i) else (best_rank, best_index)
      | None \<Rightarrow> (best_rank, best_index))"
| "best_merge ranks i syms best = best"

lemma best_merge_index: "snd (best_merge ranks i syms best) = snd best \<or> i \<le> snd (best_merge ranks i syms best) \<and> Suc (snd (best_merge ranks i syms best)) < i + length syms"
proof (induction ranks i syms best rule: best_merge.induct)
  case (1 ranks i a b r best_rank best_index)
  then show ?case by (fastforce split: option.splits)
qed auto

function merge_all :: "(string \<rightharpoonup> nat) \<Rightarrow> string list \<Rightarrow> string list" where
  "merge_all ranks syms =
     (let i = snd (best_merge ranks 0 syms (2 ^ 32 - 1, length syms)) in
      if length syms \<le> 1 \<or> i = length syms then syms
      else merge_all ranks (take i syms @ [syms ! i @ syms ! Suc i] @ drop (i + 2) syms))"
  by pat_completeness auto

termination
proof (relation "measure (\<lambda>(ranks, syms). length syms)", goal_cases)
  case (2 ranks syms x)
  then have "Suc x < length syms" using best_merge_index[of ranks 0 syms "(2 ^ 32 - 1, length syms)"] by auto
  then show ?case by simp
qed simp

declare merge_all.simps [simp del]

fun lookup_symbols :: "(string \<rightharpoonup> nat) \<Rightarrow> string list \<Rightarrow> exn + nat list" where
  "lookup_symbols ids [] = Inr []"
| "lookup_symbols ids (s # ss) = (case ids s of
     None \<Rightarrow> Inl (runtime_error ''Tokenizer BPE produced an unknown symbol'')
   | Some i \<Rightarrow> (case lookup_symbols ids ss of Inl e \<Rightarrow> Inl e | Inr is \<Rightarrow> Inr (i # is)))"

text \<open>The code points of the byte-level text, each with its own text.\<close>

definition encode_piece :: "Dsv4Tokenizer \<Rightarrow> string \<Rightarrow> exn + nat list" where
  "encode_piece t piece = (case decode_utf8 (concat (map byte_to_symbol piece)) of
     Inl e \<Rightarrow> Inl e
   | Inr cs \<Rightarrow> lookup_symbols (symbol_to_id t) (merge_all (merge_ranks t) (map snd cs)))"

fun encode_pieces :: "Dsv4Tokenizer \<Rightarrow> string list \<Rightarrow> exn + nat list" where
  "encode_pieces t [] = Inr []"
| "encode_pieces t (p # ps) = (case encode_piece t p of
     Inl e \<Rightarrow> Inl e
   | Inr is \<Rightarrow> (case encode_pieces t ps of Inl e \<Rightarrow> Inl e | Inr js \<Rightarrow> Inr (is @ js)))"

definition encode_standard :: "Dsv4Tokenizer \<Rightarrow> string \<Rightarrow> exn + nat list" where
  "encode_standard t s = (case split_pretokens s of Inl e \<Rightarrow> Inl e | Inr ps \<Rightarrow> encode_pieces t ps)"

definition starts_with :: "string \<Rightarrow> string \<Rightarrow> bool" where
  "starts_with p s \<longleftrightarrow> length p \<le> length s \<and> take (length p) s = p"

fun find_text :: "string \<Rightarrow> string \<Rightarrow> nat option" where
  "find_text p [] = (if p = [] then Some 0 else None)"
| "find_text p (c # s) = (if starts_with p (c # s) then Some 0 else map_option Suc (find_text p s))"

definition next_added :: "AddedToken list \<Rightarrow> string \<Rightarrow> nat" where
  "next_added tokens s = fold (\<lambda>t n. case find_text (tok_content t) s of Some i \<Rightarrow> if i < n then i else n | None \<Rightarrow> n) tokens (length s)"

partial_function (option) encode_from :: "Dsv4Tokenizer \<Rightarrow> string \<Rightarrow> (exn + nat list) option" where
  "encode_from t s =
     (if s = [] then Some (Inr [])
      else case find (\<lambda>a. starts_with (tok_content a) s) (added_tokens t) of
        Some a \<Rightarrow> Option.bind (encode_from t (drop (length (tok_content a)) s))
          (\<lambda>r. Some (case r of Inl e \<Rightarrow> Inl e | Inr is \<Rightarrow> Inr (tok_id a # is)))
      | None \<Rightarrow>
          let n = next_added (added_tokens t) s in
          if n = 0 then Some (Inl (runtime_error ''Tokenizer failed to advance''))
          else (case encode_standard t (take n s) of
              Inl e \<Rightarrow> Some (Inl e)
            | Inr js \<Rightarrow> Option.bind (encode_from t (drop n s))
                (\<lambda>r. Some (case r of Inl e \<Rightarrow> Inl e | Inr is \<Rightarrow> Inr (js @ is)))))"

definition not_loaded :: exn where
  "not_loaded = runtime_error ''Tokenizer is not loaded''"

definition encode :: "Dsv4Tokenizer \<Rightarrow> string \<Rightarrow> (exn + nat list) option" where
  "encode t s = (if \<not> loaded t then Some (Inl not_loaded) else encode_from t s)"

definition is_special :: "AddedToken \<Rightarrow> bool" where
  "is_special a \<longleftrightarrow> odd (tok_flags a)"

definition decode_id :: "Dsv4Tokenizer \<Rightarrow> bool \<Rightarrow> nat \<Rightarrow> exn + string" where
  "decode_id t skip i =
     (if id_limit t \<le> i then Inl (out_of_range ''Token ID exceeds tokenizer vocabulary'')
      else case find (\<lambda>a. tok_id a = i) (added_tokens t) of
        Some a \<Rightarrow> Inr (if skip \<and> is_special a then [] else tok_content a)
      | None \<Rightarrow> if vocab_symbols t ! i = [] then Inl (runtime_error ''Token ID has no vocabulary entry'')
          else Inr (decoded_symbols t ! i))"

fun decode_ids :: "Dsv4Tokenizer \<Rightarrow> bool \<Rightarrow> nat list \<Rightarrow> exn + string" where
  "decode_ids t skip [] = Inr []"
| "decode_ids t skip (i # is) = (case decode_id t skip i of
     Inl e \<Rightarrow> Inl e
   | Inr x \<Rightarrow> (case decode_ids t skip is of Inl e \<Rightarrow> Inl e | Inr y \<Rightarrow> Inr (x @ y)))"

definition tokenizer_decode :: "Dsv4Tokenizer \<Rightarrow> nat list \<Rightarrow> bool \<Rightarrow> exn + string" where
  "tokenizer_decode t ids skip = (if \<not> loaded t then Inl not_loaded else decode_ids t skip ids)"

definition token_id :: "Dsv4Tokenizer \<Rightarrow> string \<Rightarrow> exn + nat" where
  "token_id t content = (if \<not> loaded t then Inl not_loaded else case added_content_to_id t content of
     None \<Rightarrow> Inl (invalid_argument ''Unknown DSV4 token'') | Some i \<Rightarrow> Inr i)"

definition has_added_token :: "Dsv4Tokenizer \<Rightarrow> string \<Rightarrow> exn + bool" where
  "has_added_token t content = (if \<not> loaded t then Inl not_loaded else Inr (added_content_to_id t content \<noteq> None))"

definition added_token_text :: "Dsv4Tokenizer \<Rightarrow> string \<Rightarrow> exn + string" where
  "added_token_text t content = (if \<not> loaded t then Inl not_loaded else case added_content_to_id t content of
     None \<Rightarrow> Inl (runtime_error ''Tokenizer does not define special token'')
   | Some i \<Rightarrow> (case find (\<lambda>a. tok_id a = i) (added_tokens t) of
       None \<Rightarrow> Inl (runtime_error ''Tokenizer added-token table is inconsistent'') | Some a \<Rightarrow> Inr (tok_content a)))"

subsection \<open>Loading\<close>

definition short_file :: exn where
  "short_file = runtime_error ''Unexpected end of tokenizer artifact''"

definition little_endian :: "string \<Rightarrow> nat" where
  "little_endian bs = foldr (\<lambda>c n. byte_of c + 256 * n) bs 0"

definition read_u32 :: "string \<Rightarrow> exn + nat \<times> string" where
  "read_u32 f = (if length f < 4 then Inl short_file else Inr (little_endian (take 4 f), drop 4 f))"

definition read_u8 :: "string \<Rightarrow> exn + nat \<times> string" where
  "read_u8 f = (case f of [] \<Rightarrow> Inl short_file | c # r \<Rightarrow> Inr (byte_of c, r))"

definition read_bytes :: "nat \<Rightarrow> string \<Rightarrow> exn + string \<times> string" where
  "read_bytes n f = (if length f < n then Inl short_file else Inr (take n f, drop n f))"

definition reads :: "exn + 'a \<times> string \<Rightarrow> ('a \<Rightarrow> string \<Rightarrow> exn + 'b) \<Rightarrow> exn + 'b" where
  "reads m k = (case m of Inl e \<Rightarrow> Inl e | Inr (x, f) \<Rightarrow> k x f)"

definition read_string :: "string \<Rightarrow> exn + string \<times> string" where
  "read_string f = reads (read_u32 f) (\<lambda>n. read_bytes n)"

definition map_emplace :: "'k \<Rightarrow> 'v \<Rightarrow> ('k \<rightharpoonup> 'v) \<Rightarrow> ('k \<rightharpoonup> 'v)" where
  "map_emplace k v m = (if m k = None then m(k \<mapsto> v) else m)"

fun load_vocab :: "nat \<Rightarrow> Dsv4Tokenizer \<Rightarrow> string \<Rightarrow> exn + Dsv4Tokenizer \<times> string" where
  "load_vocab 0 t f = Inr (t, f)"
| "load_vocab (Suc n) t f =
     reads (read_u32 f) (\<lambda>i f1. reads (read_string f1) (\<lambda>symbol f2.
       if id_limit t \<le> i \<or> vocab_symbols t ! i \<noteq> [] then Inl (runtime_error ''Invalid base vocabulary ID'')
       else case decode_base_symbol symbol of
         Inl e \<Rightarrow> Inl e
       | Inr bytes \<Rightarrow> load_vocab n (t\<lparr>vocab_symbols := (vocab_symbols t)[i := symbol], decoded_symbols := (decoded_symbols t)[i := bytes],
           symbol_to_id := map_emplace symbol i (symbol_to_id t)\<rparr>) f2))"

fun load_merges :: "nat \<Rightarrow> nat \<Rightarrow> Dsv4Tokenizer \<Rightarrow> string \<Rightarrow> exn + Dsv4Tokenizer \<times> string" where
  "load_merges 0 rank t f = Inr (t, f)"
| "load_merges (Suc n) rank t f =
     reads (read_string f) (\<lambda>l f1. reads (read_string f1) (\<lambda>r f2.
       load_merges n (Suc rank) (t\<lparr>merge_ranks := map_emplace (pair_key l r) rank (merge_ranks t)\<rparr>) f2))"

fun load_added :: "nat \<Rightarrow> Dsv4Tokenizer \<Rightarrow> string \<Rightarrow> exn + Dsv4Tokenizer \<times> string" where
  "load_added 0 t f = Inr (t, f)"
| "load_added (Suc n) t f =
     reads (read_u32 f) (\<lambda>i f1. reads (read_u8 f1) (\<lambda>flags f2. reads (read_string f2) (\<lambda>content f3.
       if id_limit t \<le> i \<or> content = [] then Inl (runtime_error ''Invalid added token'')
       else load_added n (t\<lparr>added_content_to_id := (added_content_to_id t)(content \<mapsto> i),
           added_tokens := added_tokens t @ [\<lparr>tok_id = i, tok_flags = flags, tok_content = content\<rparr>]\<rparr>) f3)))"

text \<open>Longer contents first, equal lengths by bytes. \<^verbatim>\<open>std::sort\<close> leaves the order of equal contents open; here it is
  that of the artifact.\<close>

definition added_before :: "AddedToken \<Rightarrow> AddedToken \<Rightarrow> bool" where
  "added_before a b \<longleftrightarrow> (if length (tok_content a) \<noteq> length (tok_content b) then length (tok_content b) < length (tok_content a)
     else key_less (tok_content a) (tok_content b))"

fun insert_added :: "AddedToken \<Rightarrow> AddedToken list \<Rightarrow> AddedToken list" where
  "insert_added a [] = [a]"
| "insert_added a (b # bs) = (if added_before b a then b # insert_added a bs else a # b # bs)"

definition sort_added :: "AddedToken list \<Rightarrow> AddedToken list" where
  "sort_added as = foldr insert_added as []"

definition load_header :: "string \<Rightarrow> exn + (nat \<times> nat \<times> nat \<times> Dsv4Tokenizer) \<times> string" where
  "load_header f0 =
     reads (read_bytes 8 f0) (\<lambda>magic f. if magic \<noteq> ''AEONTOK1'' then Inl (runtime_error ''Invalid DSV4 tokenizer artifact magic'') else
     reads (read_u32 f) (\<lambda>version f. if version \<noteq> 2 then Inl (runtime_error ''Unsupported DSV4 tokenizer artifact version'') else
     reads (read_u32 f) (\<lambda>base_size f. reads (read_u32 f) (\<lambda>limit f. reads (read_u32 f) (\<lambda>merges f. reads (read_u32 f) (\<lambda>added f.
     reads (read_u32 f) (\<lambda>bos f. reads (read_u32 f) (\<lambda>eos f. reads (read_u32 f) (\<lambda>user f. reads (read_u32 f) (\<lambda>assistant f.
     reads (read_u32 f) (\<lambda>think f. reads (read_u32 f) (\<lambda>unthink f. reads (read_bytes 32 f) (\<lambda>hash f.
       if base_size = 0 \<or> limit = 0 \<or> limit \<le> bos \<or> limit \<le> eos \<or> limit \<le> user \<or> limit \<le> assistant \<or> limit \<le> think \<or> limit \<le> unthink
       then Inl (runtime_error ''Invalid DSV4 tokenizer artifact dimensions'')
       else Inr ((base_size, merges, added, \<lparr>vocab_symbols = replicate limit [], decoded_symbols = replicate limit [], added_tokens = [],
         symbol_to_id = Map.empty, added_content_to_id = Map.empty, merge_ranks = Map.empty, id_limit = limit, bos_token_id = bos,
         eos_token_id = eos, user_token_id = user, assistant_token_id = assistant, thinking_start_token_id = think,
         thinking_end_token_id = unthink, loaded = False\<rparr>), f))))))))))))))"

definition load_tokenizer :: "string \<Rightarrow> exn + Dsv4Tokenizer" where
  "load_tokenizer file =
     reads (load_header file) (\<lambda>(base_size, merges, added, t) f.
     reads (load_vocab base_size t f) (\<lambda>t1 f1.
     reads (load_merges merges 0 t1 f1) (\<lambda>t2 f2.
     reads (load_added added t2 f2) (\<lambda>t3 f3.
     Inr (t3\<lparr>added_tokens := sort_added (added_tokens t3), loaded := True\<rparr>)))))"

end
