(* ===== verification/Tokenizer_Roundtrip.thy ===== *)
theory Tokenizer_Roundtrip
  imports Tokenizer_Model
begin

text \<open>
  Decoding what the tokenizer encodes gives the text back, for every tokenizer \<open>load\<close> accepts whose token ids
  are unambiguous.
\<close>

subsection \<open>Bytes as symbols\<close>

lemma of_char_small [simp]: "n < 256 \<Longrightarrow> (of_char (char_of n :: char) :: nat) = n"
  by (simp add: of_char_of)

lemma decode_short:
  assumes "v < 0x800"
  shows "decode_code_point (encode_code_point v @ r) = Inr (v, r)"
proof (cases "v \<le> 0x7f")
  case True
  then show ?thesis by (simp add: decode_code_point_def encode_code_point_def code_width_def lead_value_def bad_code_point_def)
next
  case False
  define a b where "a = v div 64" and "b = v mod 64"
  have ab: "v = 64 * a + b" "b < 64" "a < 32" "2 \<le> a" using assms False unfolding a_def b_def by (simp, simp, linarith, linarith)
  have "(192 + a) mod 32 = a" "(192 + a) div 32 = 6" 
    using ab(3) mod_mult_self2[of a 32 6] div_mult_self2[of 32 a 6] by (simp_all add: add.commute)
  then have "code_width (192 + a) = Some 2" "lead_value (192 + a) 2 = a" by (simp_all add: code_width_def lead_value_def)
  moreover have "(128 + b) div 64 = 2" "(128 + b) mod 64 = b"
    using ab(2) mod_mult_self2[of b 64 2] div_mult_self2[of 64 b 2] by (simp_all add: add.commute)
  ultimately show ?thesis using ab assms False
    by (simp add: decode_code_point_def encode_code_point_def a_def[symmetric] b_def[symmetric] bad_code_point_def)
qed

lemma extra_before_mono: "b < c \<Longrightarrow> \<not> direct b \<Longrightarrow> extra_before b < extra_before c"
proof -
  assume bc: "b < c" and d: "\<not> direct b"
  have "[0..<c] = [0..<b] @ b # [Suc b..<c]" using bc upt_add_eq_append[of 0 b "c - b"] by (simp add: upt_conv_Cons)
  then show ?thesis using d by (simp add: extra_before_def)
qed

lemma extra_before_le: "extra_before b \<le> b"
  unfolding extra_before_def using length_filter_le[of _ "[0..<b]"] by simp

lemma symbol_code_inj: "b < 256 \<Longrightarrow> c < 256 \<Longrightarrow> symbol_code b = symbol_code c \<Longrightarrow> b = c"
  using extra_before_mono[of b c] extra_before_mono[of c b] by (cases b c rule: linorder_cases) (auto simp: symbol_code_def split: if_splits)

lemma symbol_code_bound: "b < 256 \<Longrightarrow> symbol_code b < 512"
  using extra_before_le[of b] by (simp add: symbol_code_def)

lemma find_in: "find P xs = Some x \<Longrightarrow> x \<in> set xs \<and> P x"
  by (induction xs) (auto split: if_splits)

lemma reverse_symbol_code: "b < 256 \<Longrightarrow> reverse_symbol (symbol_code b) = Some b"
proof -
  assume b: "b < 256"
  have "k = b" if f: "find (\<lambda>k. symbol_code k = symbol_code b) [0..<256] = Some k" for k
  proof -
    have "k \<in> set [0..<256]" "symbol_code k = symbol_code b" using find_in[OF f] by simp_all
    then show ?thesis using symbol_code_inj[of k b] b by simp
  qed
  moreover have "find (\<lambda>k. symbol_code k = symbol_code b) [0..<256] \<noteq> None" using b by (auto simp: find_None_iff)
  ultimately show ?thesis unfolding reverse_symbol_def by auto
qed

lemma byte_bound: "(byte_of c :: nat) < 256"
  by simp

definition byte_level :: "string \<Rightarrow> string" where
  "byte_level bs = concat (map byte_to_symbol bs)"

lemma decode_byte_symbol: "decode_code_point (byte_to_symbol c @ r) = Inr (symbol_code (byte_of c), r)"
  unfolding byte_to_symbol_def using symbol_code_bound[OF byte_bound[of c]] by (intro decode_short) simp

lemma byte_symbol_nonempty [simp]: "byte_to_symbol c \<noteq> []"
  by (simp add: byte_to_symbol_def encode_code_point_def)

lemma byte_level_simps [simp]: "byte_level [] = []" "byte_level (c # bs) = byte_to_symbol c @ byte_level bs" "byte_level (a @ b) = byte_level a @ byte_level b"
  by (simp_all add: byte_level_def)

lemma byte_level_empty [simp]: "byte_level bs = [] \<longleftrightarrow> bs = []"
  by (cases bs) simp_all

lemma decode_utf8_byte_level: "decode_utf8 (byte_level bs) = Inr (map (\<lambda>c. (symbol_code (byte_of c), byte_to_symbol c)) bs)"
  by (induction bs) (subst decode_utf8.simps, simp add: decode_byte_symbol)+

lemma symbol_to_bytes_byte_level: "symbol_to_bytes (byte_level bs) = Inr bs"
  by (induction bs) (subst symbol_to_bytes.simps, simp add: decode_byte_symbol reverse_symbol_code)+

subsection \<open>Pieces\<close>

lemma decode_utf8_text: "decode_utf8 s = Inr cs \<Longrightarrow> concat (map snd cs) = s"
proof (induction s arbitrary: cs rule: decode_utf8.induct)
  case (1 s)
  show ?case
  proof (cases "s = []")
    case True
    then show ?thesis using "1.prems" by (simp add: decode_utf8.simps[of "[]"])
  next
    case False
    then obtain v r cs' where d: "decode_code_point s = Inr (v, r)" "decode_utf8 r = Inr cs'" "cs = (v, take (length s - length r) s) # cs'"
      using "1.prems" by (subst (asm) decode_utf8.simps) (auto split: sum.splits prod.splits)
    obtain w where "r = drop w s" using d(1) by (auto simp: decode_code_point_def split: list.splits option.splits if_splits sum.splits)
    then have "take (length s - length r) s @ r = s"
      by (metis append_take_drop_id diff_diff_cancel length_drop linorder_le_cases drop_all take_all diff_is_0_eq)
    then show ?thesis using "1.IH"[OF False d(1) refl d(2)] d(3) by simp
  qed
qed

lemma pieces_text: "concat (pieces cs) = concat (map snd cs)"
proof (induction cs rule: pieces.induct)
  case (2 v t cs)
  then show ?case by (simp add: Let_def) (metis append_take_drop_id concat_append map_append)
qed simp

lemma split_pretokens_text: "split_pretokens s = Inr ps \<Longrightarrow> concat ps = s"
  by (auto simp: split_pretokens_def pieces_text decode_utf8_text split: sum.splits)

subsection \<open>Merging\<close>

lemma merge_all_bytes:
  "syms = map byte_level bss \<Longrightarrow> [] \<notin> set bss \<Longrightarrow> \<exists>bss'. merge_all ranks syms = map byte_level bss' \<and> concat bss' = concat bss \<and> [] \<notin> set bss'"
proof (induction ranks syms arbitrary: bss rule: merge_all.induct)
  case (1 ranks syms)
  define i where "i = snd (best_merge ranks 0 syms (2 ^ 32 - 1, length syms))"
  show ?case
  proof (cases "length syms \<le> 1 \<or> i = length syms")
    case True
    then show ?thesis using "1.prems" by (subst merge_all.simps) (auto simp: i_def Let_def)
  next
    case False
    then have i: "Suc i < length syms" using best_merge_index[of ranks 0 syms "(2 ^ 32 - 1, length syms)"] by (auto simp: i_def)
    define bss1 where "bss1 = take i bss @ [bss ! i @ bss ! Suc i] @ drop (i + 2) bss"
    have len: "Suc i < length bss" using i "1.prems" by simp
    have split: "bss = take i bss @ bss ! i # bss ! Suc i # drop (i + 2) bss" using len
      by (metis Cons_nth_drop_Suc Suc_lessD add_2_eq_Suc' append_take_drop_id)
    have s1: "take i syms @ [syms ! i @ syms ! Suc i] @ drop (i + 2) syms = map byte_level bss1"
      using len "1.prems"(1) by (simp add: bss1_def take_map drop_map)
    have "concat bss1 = concat (take i bss @ bss ! i # bss ! Suc i # drop (i + 2) bss)" by (simp add: bss1_def)
    then have "concat bss1 = concat bss" using split by metis
    moreover have "bss ! i \<noteq> []" using "1.prems"(2) nth_mem[OF Suc_lessD[OF len]] by metis
    then have "[] \<notin> set bss1" using "1.prems"(2) unfolding bss1_def
      by (auto dest: in_set_takeD in_set_dropD)
    moreover have "merge_all ranks syms = merge_all ranks (take i syms @ [syms ! i @ syms ! Suc i] @ drop (i + 2) syms)"
      using False by - (subst merge_all.simps, unfold i_def[symmetric] Let_def, rule if_not_P)
    ultimately show ?thesis using "1.IH"[OF i_def False s1] by simp
  qed
qed

subsection \<open>The vocabulary\<close>

definition vocab_ok :: "Dsv4Tokenizer \<Rightarrow> bool" where
  "vocab_ok t \<longleftrightarrow> length (vocab_symbols t) = id_limit t \<and> length (decoded_symbols t) = id_limit t \<and>
     (\<forall>s i. symbol_to_id t s = Some i \<longrightarrow> s \<noteq> [] \<longrightarrow>
        i < id_limit t \<and> vocab_symbols t ! i = s \<and> decode_base_symbol s = Inr (decoded_symbols t ! i))"

definition unambiguous :: "Dsv4Tokenizer \<Rightarrow> bool" where
  "unambiguous t \<longleftrightarrow> distinct (map tok_id (added_tokens t)) \<and> (\<forall>s i. symbol_to_id t s = Some i \<longrightarrow> i \<notin> tok_id ` set (added_tokens t))"

lemma decode_ids_append: "decode_ids t skip is = Inr a \<Longrightarrow> decode_ids t skip js = Inr b \<Longrightarrow> decode_ids t skip (is @ js) = Inr (a @ b)"
  by (induction "is" arbitrary: a) (auto split: sum.splits)

lemma decode_base_id:
  assumes "vocab_ok t" and "unambiguous t" and "symbol_to_id t (byte_level bs) = Some i" and "bs \<noteq> []"
  shows "decode_id t skip i = Inr bs"
proof -
  have "i < id_limit t" "vocab_symbols t ! i = byte_level bs" "decode_base_symbol (byte_level bs) = Inr (decoded_symbols t ! i)"
    using assms(1,3,4) unfolding vocab_ok_def by auto
  moreover have "find (\<lambda>a. tok_id a = i) (added_tokens t) = None" using assms(2,3) by (force simp: unambiguous_def find_None_iff)
  ultimately show ?thesis using assms(4) by (simp add: decode_id_def decode_base_symbol_def symbol_to_bytes_byte_level)
qed

lemma decode_lookup:
  "vocab_ok t \<Longrightarrow> unambiguous t \<Longrightarrow> lookup_symbols (symbol_to_id t) (map byte_level bss) = Inr is \<Longrightarrow> [] \<notin> set bss \<Longrightarrow>
     decode_ids t skip is = Inr (concat bss)"
  by (induction bss arbitrary: "is") (auto simp: decode_base_id split: option.splits sum.splits)

lemma decode_piece:
  assumes "vocab_ok t" and "unambiguous t" and "encode_piece t piece = Inr is"
  shows "decode_ids t skip is = Inr piece"
proof -
  have "lookup_symbols (symbol_to_id t) (merge_all (merge_ranks t) (map byte_to_symbol piece)) = Inr is"
    using assms(3) decode_utf8_byte_level[of piece] by (simp add: encode_piece_def byte_level_def comp_def)
  moreover have "map byte_to_symbol piece = map byte_level (map (\<lambda>c. [c]) piece)" by simp
  moreover obtain bss where "merge_all (merge_ranks t) (map byte_to_symbol piece) = map byte_level bss" "concat bss = piece" "[] \<notin> set bss"
    using merge_all_bytes[OF calculation(2), of "merge_ranks t"] by auto
  ultimately show ?thesis using decode_lookup[OF assms(1,2), of bss "is" skip] by metis
qed

lemma decode_standard:
  assumes "vocab_ok t" and "unambiguous t" and "encode_standard t s = Inr is"
  shows "decode_ids t skip is = Inr s"
proof -
  have "encode_pieces t ps = Inr is \<Longrightarrow> decode_ids t skip is = Inr (concat ps)" for ps "is"
    by (induction ps arbitrary: "is") (auto simp: decode_piece[OF assms(1,2)] decode_ids_append split: sum.splits)
  then show ?thesis using assms(3) by (auto simp: encode_standard_def split: sum.splits dest: split_pretokens_text)
qed

subsection \<open>Added tokens\<close>

definition added_ok :: "Dsv4Tokenizer \<Rightarrow> bool" where
  "added_ok t \<longleftrightarrow> (\<forall>a\<in>set (added_tokens t). tok_content a \<noteq> [] \<and> tok_id a < id_limit t)"

lemma find_text_zero: "find_text p s = Some 0 \<Longrightarrow> s \<noteq> [] \<Longrightarrow> starts_with p s"
  by (cases s) (auto split: if_splits)

lemma find_text_bound: "find_text p s = Some i \<Longrightarrow> i \<le> length s"
  by (induction p s arbitrary: i rule: find_text.induct) (auto split: if_splits)

lemma next_added_pos:
  assumes "s \<noteq> []" and "\<forall>a\<in>set tokens. \<not> starts_with (tok_content a) s"
  shows "0 < next_added tokens s" "next_added tokens s \<le> length s"
proof -
  have "0 < fold (\<lambda>t n. case find_text (tok_content t) s of Some i \<Rightarrow> if i < n then i else n | None \<Rightarrow> n) ts n \<and>
      fold (\<lambda>t n. case find_text (tok_content t) s of Some i \<Rightarrow> if i < n then i else n | None \<Rightarrow> n) ts n \<le> n"
    if "set ts \<subseteq> set tokens" "0 < n" for ts n
    using that
  proof (induction ts arbitrary: n)
    case (Cons a ts)
    define n' where "n' = (case find_text (tok_content a) s of Some i \<Rightarrow> if i < n then i else n | None \<Rightarrow> n)"
    have "find_text (tok_content a) s \<noteq> Some 0" using find_text_zero[of _ s] assms Cons.prems by auto
    then have "0 < n'" "n' \<le> n" using Cons.prems(2) unfolding n'_def by (auto split: option.splits)
    then show ?case using Cons.IH[of n'] Cons.prems(1) by (auto simp: n'_def[symmetric])
  qed simp
  from this[of tokens "length s"] show "0 < next_added tokens s" "next_added tokens s \<le> length s"
    using assms(1) by (simp_all add: next_added_def)
qed

lemma decode_added_id:
  assumes "unambiguous t" and "added_ok t" and "a \<in> set (added_tokens t)"
  shows "decode_id t False (tok_id a) = Inr (tok_content a)"
proof -
  obtain b where f: "find (\<lambda>b. tok_id b = tok_id a) (added_tokens t) = Some b" using assms(3)
    by (cases "find (\<lambda>b. tok_id b = tok_id a) (added_tokens t)") (auto simp: find_None_iff)
  then have "b \<in> set (added_tokens t)" "tok_id b = tok_id a" using find_in[OF f] by simp_all
  then have "b = a" using assms(1,3) by (auto simp: unambiguous_def distinct_map dest: inj_onD)
  then show ?thesis using f assms(2,3) by (auto simp: decode_id_def added_ok_def)
qed

text \<open>The loop ends, never fails to advance, and what it produces decodes to the text.\<close>

definition encodes_well :: "Dsv4Tokenizer \<Rightarrow> string \<Rightarrow> exn + nat list \<Rightarrow> bool" where
  "encodes_well t s r \<longleftrightarrow> r \<noteq> Inl (runtime_error ''Tokenizer failed to advance'') \<and> (\<forall>is. r = Inr is \<longrightarrow> decode_ids t False is = Inr s)"

lemma continue_value_error: "continue_value v cs = Inl e \<Longrightarrow> \<exists>m. e = utf8_error m"
  by (induction cs arbitrary: v) (auto split: if_splits)

lemma decode_code_point_error: "decode_code_point s = Inl e \<Longrightarrow> \<exists>m. e = utf8_error m"
  by (auto simp: decode_code_point_def split: list.splits option.splits if_splits sum.splits dest: continue_value_error)

lemma decode_utf8_error: "decode_utf8 s = Inl e \<Longrightarrow> \<exists>m. e = utf8_error m"
proof (induction s rule: decode_utf8.induct)
  case (1 s)
  have "decode_utf8 s = Inl e" by fact
  then show ?case
    by (subst (asm) decode_utf8.simps) (use "1.IH" in \<open>auto split: if_splits sum.splits dest: decode_code_point_error\<close>)
qed

lemma lookup_error: "lookup_symbols ids ss = Inl e \<Longrightarrow> e = runtime_error ''Tokenizer BPE produced an unknown symbol''"
  by (induction ss) (auto split: option.splits sum.splits)

lemma encode_piece_error: "encode_piece t p = Inl e \<Longrightarrow> e = runtime_error ''Tokenizer BPE produced an unknown symbol''"
  using decode_utf8_byte_level[of p] by (auto simp: encode_piece_def byte_level_def dest: lookup_error)

lemma encode_standard_error:
  "encode_standard t s = Inl e \<Longrightarrow> e = runtime_error ''Tokenizer BPE produced an unknown symbol'' \<or> (\<exists>m. e = utf8_error m)"
proof -
  have "encode_pieces t ps = Inl e \<Longrightarrow> e = runtime_error ''Tokenizer BPE produced an unknown symbol''" for ps e
    by (induction ps) (auto split: sum.splits dest: encode_piece_error)
  then show "encode_standard t s = Inl e \<Longrightarrow> e = runtime_error ''Tokenizer BPE produced an unknown symbol'' \<or> (\<exists>m. e = utf8_error m)"
    by (auto simp: encode_standard_def split_pretokens_def split: sum.splits dest: decode_utf8_error)
qed

lemma starts_with_take: "starts_with p s \<Longrightarrow> p @ drop (length p) s = s"
  by (metis append_take_drop_id starts_with_def)

lemma encodes_well_then:
  assumes "encodes_well t s r" and "decode_ids t False js = Inr x"
  shows "encodes_well t (x @ s) (case r of Inl e \<Rightarrow> Inl e | Inr is \<Rightarrow> Inr (js @ is))"
  using assms by (auto simp: encodes_well_def decode_ids_append split: sum.splits)

lemma encode_from_well:
  assumes "vocab_ok t" and "unambiguous t" and "added_ok t"
  shows "\<exists>r. encode_from t s = Some r \<and> encodes_well t s r"
proof (induction s rule: length_induct)
  case (1 s)
  show ?case
  proof (cases "s = []")
    case True
    then show ?thesis by (subst encode_from.simps) (simp add: encodes_well_def)
  next
    case False
    show ?thesis
    proof (cases "find (\<lambda>a. starts_with (tok_content a) s) (added_tokens t)")
      case (Some a)
      then have a: "a \<in> set (added_tokens t)" "starts_with (tok_content a) s" using find_in by fastforce+
      let ?s = "drop (length (tok_content a)) s"
      have "tok_content a \<noteq> []" using a(1) assms(3) by (simp add: added_ok_def)
      then have "length ?s < length s" using False by simp
      then obtain r where r: "encode_from t ?s = Some r" "encodes_well t ?s r" using 1 by blast
      have "decode_ids t False [tok_id a] = Inr (tok_content a)" using decode_added_id[OF assms(2,3) a(1)] by simp
      from encodes_well_then[OF r(2) this] show ?thesis
        using Some r(1) False starts_with_take[OF a(2)] by (subst encode_from.simps) (cases r; simp)
    next
      case None
      then have "\<forall>a\<in>set (added_tokens t). \<not> starts_with (tok_content a) s" by (simp add: find_None_iff)
      note n = next_added_pos[OF False this]
      let ?n = "next_added (added_tokens t) s"
      show ?thesis
      proof (cases "encode_standard t (take ?n s)")
        case (Inl e)
        then show ?thesis using None False n(1) encode_standard_error[OF Inl]
          by (subst encode_from.simps) (auto simp: Let_def encodes_well_def utf8_error_def)
      next
        case (Inr js)
        have "length (drop ?n s) < length s" using n False by simp
        then obtain r where r: "encode_from t (drop ?n s) = Some r" "encodes_well t (drop ?n s) r" using 1 by blast
        from encodes_well_then[OF r(2) decode_standard[OF assms(1,2) Inr]] show ?thesis
          using None r(1) False n(1) Inr by (subst encode_from.simps) (simp add: Let_def)
      qed
    qed
  qed
qed

subsection \<open>What \<open>load\<close> establishes\<close>

lemma reads_Inr: "reads m k = Inr y \<longleftrightarrow> (\<exists>x f. m = Inr (x, f) \<and> k x f = Inr y)"
  by (auto simp: reads_def split: sum.splits)

lemma vocab_ok_insert:
  assumes "vocab_ok t" and "i < id_limit t" and "vocab_symbols t ! i = []" and "decode_base_symbol symbol = Inr bytes"
  shows "vocab_ok (t\<lparr>vocab_symbols := (vocab_symbols t)[i := symbol], decoded_symbols := (decoded_symbols t)[i := bytes],
     symbol_to_id := map_emplace symbol i (symbol_to_id t)\<rparr>)"
proof -
  have other: "j < id_limit t \<and> j \<noteq> i \<and> vocab_symbols t ! j = s \<and> decode_base_symbol s = Inr (decoded_symbols t ! j)"
    if "symbol_to_id t s = Some j" "s \<noteq> []" for s j
    using assms(1,3) that unfolding vocab_ok_def by force
  show ?thesis
    using assms other unfolding vocab_ok_def by (auto simp: map_emplace_def nth_list_update split: if_splits)
qed

lemma load_vocab_ok: "load_vocab n t f = Inr (t', f') \<Longrightarrow> vocab_ok t \<Longrightarrow> added_ok t \<Longrightarrow> vocab_ok t' \<and> added_ok t'"
proof (induction n t f rule: load_vocab.induct)
  case (2 n t f)
  then obtain i f1 symbol f2 bytes where r: "i < id_limit t" "vocab_symbols t ! i = []" "decode_base_symbol symbol = Inr bytes"
      "read_u32 f = Inr (i, f1)" "read_string f1 = Inr (symbol, f2)"
      "load_vocab n (t\<lparr>vocab_symbols := (vocab_symbols t)[i := symbol], decoded_symbols := (decoded_symbols t)[i := bytes],
           symbol_to_id := map_emplace symbol i (symbol_to_id t)\<rparr>) f2 = Inr (t', f')"
    by (auto simp: reads_Inr split: if_splits sum.splits)
  show ?case
    by (rule "2.IH"[OF _ r(3) r(6) vocab_ok_insert[OF "2.prems"(2) r(1,2,3)]]) (use r "2.prems"(3) in \<open>simp_all add: added_ok_def\<close>)
qed simp

lemma load_merges_ok: "load_merges n k t f = Inr (t', f') \<Longrightarrow> vocab_ok t \<Longrightarrow> added_ok t \<Longrightarrow> vocab_ok t' \<and> added_ok t'"
proof (induction n k t f rule: load_merges.induct)
  case (2 n k t f)
  then show ?case by (auto simp: reads_Inr vocab_ok_def added_ok_def)
qed simp

lemma load_added_ok: "load_added n t f = Inr (t', f') \<Longrightarrow> vocab_ok t \<Longrightarrow> added_ok t \<Longrightarrow> vocab_ok t' \<and> added_ok t'"
proof (induction n t f rule: load_added.induct)
  case (2 n t f)
  then show ?case by (auto simp: reads_Inr vocab_ok_def added_ok_def split: if_splits)
qed simp

lemma insert_added_set: "set (insert_added a bs) = insert a (set bs)"
  by (induction bs) auto

lemma sort_added_set: "set (sort_added as) = set as"
  unfolding sort_added_def by (induction as) (simp_all add: insert_added_set)

lemma load_header_ok: "load_header f = Inr ((b, m, a, t), f') \<Longrightarrow> vocab_ok t \<and> added_ok t"
  by (auto simp: load_header_def reads_Inr vocab_ok_def added_ok_def split: if_splits)

lemma load_ok: "load_tokenizer file = Inr t \<Longrightarrow> vocab_ok t \<and> added_ok t \<and> loaded t"
proof -
  assume "load_tokenizer file = Inr t"
  then obtain b m a t0 f0 t1 f1 t2 f2 t3 f3 where r: "load_header file = Inr ((b, m, a, t0), f0)" "load_vocab b t0 f0 = Inr (t1, f1)"
      "load_merges m 0 t1 f1 = Inr (t2, f2)" "load_added a t2 f2 = Inr (t3, f3)"
      and t: "t = t3\<lparr>added_tokens := sort_added (added_tokens t3), loaded := True\<rparr>"
    by (auto simp: load_tokenizer_def reads_Inr)
  have "vocab_ok t3 \<and> added_ok t3"
    using load_added_ok[OF r(4)] load_merges_ok[OF r(3)] load_vocab_ok[OF r(2)] load_header_ok[OF r(1)] by blast
  then show ?thesis by (simp add: t vocab_ok_def added_ok_def sort_added_set)
qed

subsection \<open>Valid text is cut at code points\<close>

definition valid_text :: "string \<Rightarrow> bool" where
  "valid_text s \<longleftrightarrow> (\<exists>cs. decode_utf8 s = Inr cs)"

lemma valid_text_Nil [simp]: "valid_text []"
  by (simp add: valid_text_def decode_utf8.simps[of "[]"])

lemma valid_text_step: "s \<noteq> [] \<Longrightarrow> valid_text s \<longleftrightarrow> (\<exists>v r. decode_code_point s = Inr (v, r) \<and> valid_text r)"
  unfolding valid_text_def by (subst decode_utf8.simps) (auto split: sum.splits)

lemma continue_value_tail: "continue_value v cs = Inr u \<Longrightarrow> c \<in> set cs \<Longrightarrow> byte_of c div 64 = (2::nat)"
  by (induction cs arbitrary: v) (auto split: if_splits)

lemma decode_code_point_shape:
  assumes "decode_code_point s = Inr (v, r)"
  obtains c p where "s = c # p @ r" "code_width (byte_of c) = Some (Suc (length p))" "\<forall>d\<in>set p. byte_of d div 64 = (2::nat)"
    "\<And>x. decode_code_point (c # p @ x) = Inr (v, x)"
proof -
  obtain c s' w where s: "s = c # s'" "code_width (byte_of c) = Some w" "w \<le> length s" "\<not> bad_code_point w v" "r = drop w s"
      "continue_value (lead_value (byte_of c) w) (take (w - 1) s') = Inr v"
    using assms by (auto simp: decode_code_point_def not_less split: list.splits option.splits if_splits sum.splits)
  have w: "0 < w" using s(2) by (auto simp: code_width_def split: if_splits)
  define p where "p = take (w - 1) s'"
  have p: "length p = w - 1" "s = c # p @ r" using s(1,3,5) w by (simp_all add: p_def drop_Cons')
  have k: "continue_value (lead_value (byte_of c) w) p = Inr v" using s(6) by (simp add: p_def)
  have "decode_code_point (c # p @ x) = Inr (v, x)" for x
  proof -
    have "drop w (c # p @ x) = x" "take (w - 1) (p @ x) = p" "\<not> length (c # p @ x) < w" using p(1) w by (simp_all add: drop_Cons')
    then show ?thesis using s(2,4) k by (simp add: decode_code_point_def)
  qed
  moreover have "\<forall>d\<in>set p. byte_of d div 64 = (2::nat)" using continue_value_tail s(6) by (auto simp: p_def)
  ultimately show ?thesis using that p w s(2) by simp
qed

lemma valid_text_suffix: "valid_text p \<Longrightarrow> valid_text (p @ s) \<Longrightarrow> valid_text s"
proof (induction p rule: length_induct)
  case (1 p)
  show ?case
  proof (cases "p = []")
    case False
    then obtain v r where d: "decode_code_point p = Inr (v, r)" "valid_text r" using 1 valid_text_step by blast
    obtain c q where q: "p = c # q @ r" "decode_code_point (c # q @ r @ s) = Inr (v, r @ s)" using decode_code_point_shape[OF d(1)] by metis
    then have "valid_text (r @ s)" using 1(3) valid_text_step[of "p @ s"] False by auto
    moreover have "length r < length p" using q(1) by simp
    ultimately show ?thesis using 1(1) d(2) by blast
  qed (use 1 in simp)
qed

definition lead_byte :: "char \<Rightarrow> bool" where
  "lead_byte c \<longleftrightarrow> byte_of c div 64 \<noteq> (2::nat)"

lemma valid_text_cut: "valid_text s \<Longrightarrow> n \<le> length s \<Longrightarrow> n = length s \<or> lead_byte (s ! n) \<Longrightarrow> valid_text (take n s) \<and> valid_text (drop n s)"
proof (induction s arbitrary: n rule: length_induct)
  case (1 s)
  show ?case
  proof (cases "n = 0")
    case False
    then have "s \<noteq> []" using 1(3) by auto
    then obtain v r where d: "decode_code_point s = Inr (v, r)" "valid_text r" using 1(2) valid_text_step by blast
    then obtain c p where p: "s = c # p @ r" "\<forall>d\<in>set p. \<not> lead_byte d" "\<And>x. decode_code_point (c # p @ x) = Inr (v, x)"
      by (metis decode_code_point_shape lead_byte_def)
    have n: "Suc (length p) \<le> n"
    proof (rule ccontr)
      assume "\<not> ?thesis"
      then have "s ! n = p ! (n - 1)" "n - 1 < length p" "n < length s" using False p(1) by (auto simp: nth_append nth_Cons')
      then show False using 1(4) p(2) by auto
    qed
    define m where "m = n - Suc (length p)"
    have m: "n = Suc (length p) + m" using n by (simp add: m_def)
    have "valid_text (take m r) \<and> valid_text (drop m r)"
      using 1(1)[rule_format, of r m] d(2) p(1) 1(3,4) m by (auto simp: nth_append nth_Cons')
    moreover have "take n s = c # p @ take m r" "drop n s = drop m r" using p(1) m by simp_all
    moreover have "valid_text (c # p @ take m r) \<longleftrightarrow> valid_text (take m r)" using valid_text_step[of "c # p @ take m r"] p(3) by auto
    ultimately show ?thesis by simp
  qed (use 1(2) in simp)
qed

subsection \<open>A complete vocabulary encodes every text\<close>

text \<open>What the artifact has to promise: a symbol for every byte and for what every merge makes, and added tokens that are text.\<close>

definition complete_vocab :: "Dsv4Tokenizer \<Rightarrow> bool" where
  "complete_vocab t \<longleftrightarrow> (\<forall>c. symbol_to_id t (byte_to_symbol c) \<noteq> None) \<and>
     (\<forall>l r. merge_ranks t (pair_key l r) \<noteq> None \<longrightarrow> symbol_to_id t (l @ r) \<noteq> None)"

lemma best_merge_ranked:
  "snd (best_merge ranks i syms best) = snd best \<or>
   ranks (pair_key (syms ! (snd (best_merge ranks i syms best) - i)) (syms ! Suc (snd (best_merge ranks i syms best) - i))) \<noteq> None"
proof (induction ranks i syms best rule: best_merge.induct)
  case (1 ranks i a b r best_rank best_index)
  let ?best = "case ranks (pair_key a b) of Some k \<Rightarrow> if k < best_rank then (k, i) else (best_rank, best_index) | None \<Rightarrow> (best_rank, best_index)"
  let ?j = "snd (best_merge ranks (Suc i) (b # r) ?best)"
  have hit: "ranks (pair_key a b) \<noteq> None" if "snd ?best \<noteq> best_index" using that by (auto split: option.splits)
  have at_i: "snd ?best = best_index \<or> snd ?best = i" by (simp split: option.splits)
  show ?case
  proof (cases "?j = snd ?best")
    case True
    then show ?thesis using hit at_i by auto
  next
    case False
    then have "Suc i \<le> ?j" using best_merge_index[of ranks "Suc i" "b # r" ?best] by blast
    then have "?j - i = Suc (?j - Suc i)" by simp
    then show ?thesis using "1.IH" False by simp
  qed
qed simp_all

lemma merge_all_known:
  "(\<forall>l r. ranks (pair_key l r) \<noteq> None \<longrightarrow> P (l @ r)) \<Longrightarrow> (\<forall>x\<in>set syms. P x) \<Longrightarrow> (\<forall>x\<in>set (merge_all ranks syms). P x)"
proof (induction ranks syms rule: merge_all.induct)
  case (1 ranks syms)
  define i where "i = snd (best_merge ranks 0 syms (2 ^ 32 - 1, length syms))"
  show ?case
  proof (cases "length syms \<le> 1 \<or> i = length syms")
    case True
    then have "merge_all ranks syms = syms" by - (subst merge_all.simps, unfold i_def[symmetric] Let_def, rule if_P)
    then show ?thesis using "1.prems"(2) by simp
  next
    case False
    have "ranks (pair_key (syms ! i) (syms ! Suc i)) \<noteq> None"
      using best_merge_ranked[of ranks 0 syms "(2 ^ 32 - 1, length syms)"] False unfolding i_def by simp
    then have "P (syms ! i @ syms ! Suc i)" using "1.prems"(1) by blast
    then have "\<forall>x\<in>set (take i syms @ [syms ! i @ syms ! Suc i] @ drop (i + 2) syms). P x"
      using "1.prems"(2) by (auto dest: in_set_takeD in_set_dropD)
    moreover have "merge_all ranks syms = merge_all ranks (take i syms @ [syms ! i @ syms ! Suc i] @ drop (i + 2) syms)"
      using False by - (subst merge_all.simps, unfold i_def[symmetric] Let_def, rule if_not_P)
    ultimately show ?thesis using "1.IH"[OF i_def False "1.prems"(1)] by metis
  qed
qed

lemma lookup_known: "\<forall>x\<in>set syms. ids x \<noteq> None \<Longrightarrow> \<exists>is. lookup_symbols ids syms = Inr is"
  by (induction syms) (auto split: option.splits)

lemma encode_piece_total: "complete_vocab t \<Longrightarrow> \<exists>is. encode_piece t piece = Inr is"
proof -
  assume c: "complete_vocab t"
  have "\<forall>x\<in>set (merge_all (merge_ranks t) (map byte_to_symbol piece)). symbol_to_id t x \<noteq> None"
    by (rule merge_all_known) (use c in \<open>auto simp: complete_vocab_def\<close>)
  from lookup_known[OF this] show ?thesis
    using decode_utf8_byte_level[of piece] by (simp add: encode_piece_def byte_level_def comp_def)
qed

lemma encode_standard_total: "complete_vocab t \<Longrightarrow> valid_text s \<Longrightarrow> \<exists>is. encode_standard t s = Inr is"
proof -
  assume c: "complete_vocab t" and v: "valid_text s"
  have "\<exists>is. encode_pieces t ps = Inr is" for ps
  proof (induction ps)
    case (Cons p ps)
    then show ?case using encode_piece_total[OF c, of p] by auto
  qed simp
  then show ?thesis using v by (auto simp: valid_text_def encode_standard_def split_pretokens_def)
qed

lemma find_text_at: "find_text p s = Some i \<Longrightarrow> starts_with p (drop i s)"
  by (induction p s arbitrary: i rule: find_text.induct) (auto simp: starts_with_def split: if_splits)

lemma next_added_at: "next_added tokens s = length s \<or> (\<exists>a\<in>set tokens. starts_with (tok_content a) (drop (next_added tokens s) s))"
proof -
  have "\<exists>a\<in>set ts. find_text (tok_content a) s = Some (fold (\<lambda>t n. case find_text (tok_content t) s of Some i \<Rightarrow> if i < n then i else n | None \<Rightarrow> n) ts n)"
    if "fold (\<lambda>t n. case find_text (tok_content t) s of Some i \<Rightarrow> if i < n then i else n | None \<Rightarrow> n) ts n \<noteq> n" for ts n
    using that
  proof (induction ts arbitrary: n)
    case (Cons a ts)
    define n' where "n' = (case find_text (tok_content a) s of Some i \<Rightarrow> if i < n then i else n | None \<Rightarrow> n)"
    have hit: "find_text (tok_content a) s = Some n'" if "n' \<noteq> n" using that by (auto simp: n'_def split: option.splits if_splits)
    let ?f = "fold (\<lambda>t n. case find_text (tok_content t) s of Some i \<Rightarrow> if i < n then i else n | None \<Rightarrow> n) ts"
    have "?f n' \<noteq> n" using Cons.prems by (simp add: n'_def)
    then have "\<exists>b\<in>set (a # ts). find_text (tok_content b) s = Some (?f n')"
      using Cons.IH[of n'] hit by (cases "?f n' = n'") auto
    then show ?case by (simp add: n'_def)
  qed simp
  then show ?thesis unfolding next_added_def using find_text_at by blast
qed

lemma code_width_lead: "code_width b \<noteq> None \<Longrightarrow> b div 64 \<noteq> 2"
proof
  assume w: "code_width b \<noteq> None" and "b div 64 = 2"
  then have b: "128 \<le> b" "b \<le> 191" by linarith+
  have "b div 32 \<le> 5" "b div 16 \<le> 11" "b div 8 \<le> 23" 
    using div_le_mono[OF b(2), of 32] div_le_mono[OF b(2), of 16] div_le_mono[OF b(2), of 8] by simp_all
  then show False using w b(1) by (simp add: code_width_def)
qed

lemma starts_with_lead:
  assumes "valid_text p" and "p \<noteq> []" and "starts_with p (drop n s)"
  shows "lead_byte (s ! n)" "n < length s"
proof -
  obtain v r where "decode_code_point p = Inr (v, r)" using assms(1,2) valid_text_step by blast
  then obtain c q where c: "p = c # q" "code_width (byte_of c) \<noteq> None"
    by (rule decode_code_point_shape) simp
  have "byte_of c div 64 \<noteq> (2::nat)" using code_width_lead[OF c(2)] .
  moreover have "drop n s = c # tl (drop n s)" using assms(3) c(1) by (cases "drop n s") (auto simp: starts_with_def)
  then have "n < length s" "s ! n = c" by (metis drop_all leI list.discI, metis nth_via_drop)
  ultimately show "lead_byte (s ! n)" "n < length s" by (simp_all add: lead_byte_def)
qed

lemma encode_from_total:
  assumes "added_ok t" and "complete_vocab t" and "\<forall>a\<in>set (added_tokens t). valid_text (tok_content a)"
  shows "valid_text s \<Longrightarrow> \<exists>is. encode_from t s = Some (Inr is)"
proof (induction s rule: length_induct)
  case (1 s)
  show ?case
  proof (cases "s = []")
    case True
    then show ?thesis by (subst encode_from.simps) simp
  next
    case False
    show ?thesis
    proof (cases "find (\<lambda>a. starts_with (tok_content a) s) (added_tokens t)")
      case (Some a)
      then have a: "a \<in> set (added_tokens t)" "starts_with (tok_content a) s" using find_in by fastforce+
      let ?s = "drop (length (tok_content a)) s"
      have "valid_text ?s" using valid_text_suffix[of "tok_content a" ?s] assms(3) a 1(2) starts_with_take[OF a(2)] by simp
      moreover have "length ?s < length s" using a(1) assms(1) False by (simp add: added_ok_def)
      ultimately obtain "is" where "encode_from t ?s = Some (Inr is)" using 1(1) by blast
      then show ?thesis using Some False by (subst encode_from.simps) simp
    next
      case None
      then have "\<forall>a\<in>set (added_tokens t). \<not> starts_with (tok_content a) s" by (simp add: find_None_iff)
      note n = next_added_pos[OF False this]
      let ?n = "next_added (added_tokens t) s"
      have "?n = length s \<or> lead_byte (s ! ?n)"
        using next_added_at[of "added_tokens t" s] starts_with_lead(1) assms(1,3) by (fastforce simp: added_ok_def)
      then have v: "valid_text (take ?n s)" "valid_text (drop ?n s)" using valid_text_cut[OF 1(2) n(2)] by simp_all
      have "length (drop ?n s) < length s" using n False by simp
      then obtain "is" where "encode_from t (drop ?n s) = Some (Inr is)" using 1(1) v(2) by blast
      moreover obtain js where "encode_standard t (take ?n s) = Inr js" using encode_standard_total[OF assms(2) v(1)] by blast
      ultimately show ?thesis using None False n(1) by (subst encode_from.simps) (simp add: Let_def)
    qed
  qed
qed

text \<open>Whatever the vocabulary, the loop of \<open>encode\<close> ends and never fails to advance, and what it returns decodes to the text.\<close>

theorem encode_returns:
  assumes "load_tokenizer file = Inr t" and "unambiguous t"
  shows "\<exists>r. encode t s = Some r \<and> encodes_well t s r"
  using encode_from_well[of t s] load_ok[OF assms(1)] assms(2) by (simp add: encode_def)

text \<open>C15: tokenizing and back. Take a tokenizer loaded from an artifact in which no two tokens share an id, every byte and the result of
  every merge has a symbol and the added tokens are UTF-8. Then \<open>encode\<close> returns for every well-formed UTF-8 text, through all of pretoken splitting,
  byte-level symbols, merging and the search for added tokens, and \<open>decode\<close> of the ids is the text again.\<close>

theorem encode_decode_text:
  assumes "load_tokenizer file = Inr t" and "unambiguous t" and "complete_vocab t"
    and "\<forall>a\<in>set (added_tokens t). valid_text (tok_content a)" and "valid_text s"
  shows "\<exists>ids. encode t s = Some (Inr ids) \<and> tokenizer_decode t ids False = Inr s"
proof -
  have ok: "vocab_ok t" "added_ok t" "loaded t" using load_ok[OF assms(1)] by simp_all
  obtain ids where ids: "encode_from t s = Some (Inr ids)" using encode_from_total[OF ok(2) assms(3-5)] by blast
  then have "decode_ids t False ids = Inr s" using encode_from_well[OF ok(1) assms(2) ok(2), of s] by (auto simp: encodes_well_def)
  then show ?thesis using ids ok(3) by (auto simp: encode_def tokenizer_decode_def)
qed

subsection \<open>An artifact\<close>

text \<open>The converter's side of the format, to show an artifact that meets the conditions: a symbol per byte, one merge and one
  added token.\<close>

definition put_u32 :: "nat \<Rightarrow> string" where
  "put_u32 n = map char_of [n mod 256, n div 256 mod 256, n div 65536 mod 256, n div 16777216 mod 256]"

definition put_string :: "string \<Rightarrow> string" where
  "put_string s = put_u32 (length s) @ s"

definition put_entry :: "nat \<times> string \<Rightarrow> string" where
  "put_entry e = put_u32 (fst e) @ put_string (snd e)"

lemma read_put_u32 [simp]: "n < 2 ^ 32 \<Longrightarrow> read_u32 (put_u32 n @ f) = Inr (n, f)"
proof -
  assume n: "n < 2 ^ 32"
  define a b c d where "a = n mod 256" and "b = n div 256 mod 256" and "c = n div 65536 mod 256" and "d = n div 16777216 mod 256"
  have "n = 256 * (n div 256) + a" "n div 256 = 256 * (n div 65536) + b" "n div 65536 = 256 * (n div 16777216) + c"
    unfolding a_def b_def c_def using mod_mult_div_eq[of n 256] mod_mult_div_eq[of "n div 256" 256] mod_mult_div_eq[of "n div 65536" 256]
    by (simp_all add: div_mult2_eq[symmetric] mult.commute)
  moreover have "n div 16777216 = d" unfolding d_def using n by simp
  ultimately have "a + 256 * (b + 256 * (c + 256 * d)) = n" by simp
  moreover have "a < 256" "b < 256" "c < 256" "d < 256" by (simp_all add: a_def b_def c_def d_def)
  ultimately show ?thesis
    by (simp add: read_u32_def put_u32_def little_endian_def a_def[symmetric] b_def[symmetric] c_def[symmetric] d_def[symmetric])
qed

lemma read_put_string [simp]: "length s < 2 ^ 32 \<Longrightarrow> read_string (put_string s @ f) = Inr (s, f)"
  by (simp add: read_string_def put_string_def reads_def read_bytes_def)

lemma load_vocab_put:
  assumes "\<forall>(i, s)\<in>set es. i < id_limit t \<and> i < 2 ^ 32 \<and> length s < 2 ^ 32 \<and> (\<exists>d. decode_base_symbol s = Inr d) \<and> vocab_symbols t ! i = []"
    and "distinct (map fst es)" and "length (vocab_symbols t) = id_limit t"
  shows "\<exists>t'. load_vocab (length es) t (concat (map put_entry es) @ f) = Inr (t', f) \<and>
     dom (symbol_to_id t') = dom (symbol_to_id t) \<union> snd ` set es \<and> ran (symbol_to_id t') \<subseteq> ran (symbol_to_id t) \<union> fst ` set es \<and>
     id_limit t' = id_limit t \<and> added_tokens t' = added_tokens t \<and> merge_ranks t' = merge_ranks t"
  using assms
proof (induction es arbitrary: t)
  case (Cons e es)
  obtain i s where e: "e = (i, s)" by (cases e)
  then obtain d where h: "i < id_limit t" "i < 2 ^ 32" "length s < 2 ^ 32" "decode_base_symbol s = Inr d" "vocab_symbols t ! i = []"
    using Cons.prems(1) by auto
  define t1 where "t1 = t\<lparr>vocab_symbols := (vocab_symbols t)[i := s], decoded_symbols := (decoded_symbols t)[i := d],
     symbol_to_id := map_emplace s i (symbol_to_id t)\<rparr>"
  have dom1: "dom (symbol_to_id t1) = insert s (dom (symbol_to_id t))" "ran (symbol_to_id t1) \<subseteq> insert i (ran (symbol_to_id t))"
    by (auto simp: t1_def map_emplace_def ran_def split: if_splits)
  have "\<exists>t'. load_vocab (length es) t1 (concat (map put_entry es) @ f) = Inr (t', f) \<and>
     dom (symbol_to_id t') = dom (symbol_to_id t1) \<union> snd ` set es \<and> ran (symbol_to_id t') \<subseteq> ran (symbol_to_id t1) \<union> fst ` set es \<and>
     id_limit t' = id_limit t1 \<and> added_tokens t' = added_tokens t1 \<and> merge_ranks t' = merge_ranks t1"
    using Cons.prems e by (intro Cons.IH) (force simp: t1_def nth_list_update)+
  then obtain t' where t': "load_vocab (length es) t1 (concat (map put_entry es) @ f) = Inr (t', f)"
     "dom (symbol_to_id t') = dom (symbol_to_id t1) \<union> snd ` set es" "ran (symbol_to_id t') \<subseteq> ran (symbol_to_id t1) \<union> fst ` set es"
     "id_limit t' = id_limit t1" "added_tokens t' = added_tokens t1" "merge_ranks t' = merge_ranks t1" by blast
  have "load_vocab (length (e # es)) t (concat (map put_entry (e # es)) @ f) = Inr (t', f)"
    using h t'(1) by (simp add: e put_entry_def reads_def t1_def)
  moreover have "dom (symbol_to_id t') = dom (symbol_to_id t) \<union> snd ` set (e # es)" using t'(2) dom1(1) e by auto
  moreover have "ran (symbol_to_id t') \<subseteq> ran (symbol_to_id t) \<union> fst ` set (e # es)" using t'(3) dom1(2) e by auto
  ultimately show ?case using t'(4,5,6) by (intro exI[of _ t']) (simp add: t1_def)
qed simp

definition sample_vocab :: "(nat \<times> string) list" where
  "sample_vocab = map (\<lambda>b. (b, byte_to_symbol (char_of b))) [0..<256] @ [(256, ''hi'')]"

definition sample_artifact :: string where
  "sample_artifact = ''AEONTOK1'' @ put_u32 2 @ put_u32 257 @ put_u32 258 @ put_u32 1 @ put_u32 1 @ put_u32 0 @ put_u32 0 @ put_u32 0 @
     put_u32 0 @ put_u32 0 @ put_u32 0 @ replicate 32 (CHR 0x00) @ concat (map put_entry sample_vocab) @
     put_string ''h'' @ put_string ''i'' @ put_u32 257 @ CHR 0x01 # put_string ''<x>'' @ []"

definition sample_blank :: Dsv4Tokenizer where
  "sample_blank = \<lparr>vocab_symbols = replicate 258 [], decoded_symbols = replicate 258 [], added_tokens = [],
     symbol_to_id = Map.empty, added_content_to_id = Map.empty, merge_ranks = Map.empty, id_limit = 258, bos_token_id = 0,
     eos_token_id = 0, user_token_id = 0, assistant_token_id = 0, thinking_start_token_id = 0, thinking_end_token_id = 0, loaded = False\<rparr>"

lemma sample_header: "load_header (sample_artifact) = Inr ((257, 1, 1, sample_blank), concat (map put_entry sample_vocab) @
     put_string ''h'' @ put_string ''i'' @ put_u32 257 @ CHR 0x01 # put_string ''<x>'' @ [])"
proof -
  have b: "read_bytes 8 (''AEONTOK1'' @ f) = Inr (''AEONTOK1'', f)" "read_bytes 32 (replicate 32 (CHR 0x00) @ f) = Inr (replicate 32 (CHR 0x00), f)" for f
    by (simp_all add: read_bytes_def)
  show ?thesis unfolding load_header_def sample_artifact_def sample_blank_def
    by (simp add: b reads_def del: append.simps replicate.simps)
qed

lemma sample_vocab_loads: "\<exists>t1. load_vocab 257 sample_blank (concat (map put_entry sample_vocab) @ f) = Inr (t1, f) \<and>
     dom (symbol_to_id t1) = snd ` set sample_vocab \<and> ran (symbol_to_id t1) \<subseteq> {..256} \<and> id_limit t1 = 258 \<and> added_tokens t1 = [] \<and> merge_ranks t1 = Map.empty"
proof -
  have len: "length sample_vocab = 257" by (simp add: sample_vocab_def)
  have d: "distinct (map fst sample_vocab)" by (simp add: sample_vocab_def comp_def)
  have r: "fst ` set sample_vocab \<subseteq> {..256}" by (auto simp: sample_vocab_def)
  have l: "length (byte_to_symbol c) < 5" for c by (simp add: byte_to_symbol_def encode_code_point_def)
  have b: "decode_base_symbol (byte_to_symbol c) = Inr [c]" for c
    using symbol_to_bytes_byte_level[of "[c]"] by (simp add: decode_base_symbol_def)
  have hi: "byte_level ''hi'' = ''hi''" by code_simp
  have h: "decode_base_symbol ''hi'' = Inr ''hi''" using symbol_to_bytes_byte_level[of "''hi''"] unfolding hi decode_base_symbol_def .
  have "\<forall>(i, s)\<in>set sample_vocab. i < 258 \<and> i < 2 ^ 32 \<and> length s < 2 ^ 32 \<and> (\<exists>d. decode_base_symbol s = Inr d)"
    using b h by (auto simp: sample_vocab_def intro: less_trans[OF l])
  then have "\<forall>(i, s)\<in>set sample_vocab. i < id_limit sample_blank \<and> i < 2 ^ 32 \<and> length s < 2 ^ 32 \<and> (\<exists>d. decode_base_symbol s = Inr d) \<and> vocab_symbols sample_blank ! i = []"
    by (auto simp: sample_blank_def)
  from load_vocab_put[OF this d, of f] show ?thesis using len r by (fastforce simp: sample_blank_def)
qed

lemma sample_loads: "\<exists>t. load_tokenizer sample_artifact = Inr t \<and> unambiguous t \<and> complete_vocab t \<and>
    added_tokens t = [\<lparr>tok_id = 257, tok_flags = 1, tok_content = ''<x>''\<rparr>]"
proof -
  let ?rest = "put_string ''h'' @ put_string ''i'' @ put_u32 257 @ CHR 0x01 # put_string ''<x>'' @ []"
  obtain t1 where t1: "load_vocab 257 sample_blank (concat (map put_entry sample_vocab) @ ?rest) = Inr (t1, ?rest)"
      "dom (symbol_to_id t1) = snd ` set sample_vocab" "ran (symbol_to_id t1) \<subseteq> {..256}" "id_limit t1 = 258" "added_tokens t1 = []" "merge_ranks t1 = Map.empty"
    using sample_vocab_loads[of ?rest] by blast
  define t2 where "t2 = t1\<lparr>merge_ranks := map_emplace (pair_key ''h'' ''i'') 0 (merge_ranks t1)\<rparr>"
  have m: "load_merges 1 0 t1 ?rest = Inr (t2, put_u32 257 @ CHR 0x01 # put_string ''<x>'' @ [])"
    using read_put_string[of "''h''"] read_put_string[of "''i''"] by (simp add: reads_def t2_def)
  define t3 where "t3 = t2\<lparr>added_content_to_id := (added_content_to_id t2)(''<x>'' \<mapsto> 257), added_tokens := [\<lparr>tok_id = 257, tok_flags = 1, tok_content = ''<x>''\<rparr>]\<rparr>"
  have a: "load_added 1 t2 (put_u32 257 @ CHR 0x01 # put_string ''<x>'' @ []) = Inr (t3, [])"
    using read_put_string[of "''<x>''" "[]"] t1(4,5) by (simp add: reads_def read_u8_def t3_def t2_def)
  define t where "t = t3\<lparr>added_tokens := sort_added (added_tokens t3), loaded := True\<rparr>"
  have "load_tokenizer sample_artifact = Inr t" unfolding load_tokenizer_def sample_header t_def using t1(1) m a by (simp add: reads_def)
  moreover have "added_tokens t = [\<lparr>tok_id = 257, tok_flags = 1, tok_content = ''<x>''\<rparr>]" by (simp add: t_def t3_def sort_added_def)
  moreover have "unambiguous t" using t1(3) by (auto simp: unambiguous_def t_def t3_def t2_def sort_added_def ran_def)
  moreover have "complete_vocab t"
  proof -
    have s: "symbol_to_id t = symbol_to_id t1" "merge_ranks t = [pair_key ''h'' ''i'' \<mapsto> 0]" using t1(6) by (simp_all add: t_def t3_def t2_def map_emplace_def)
    have "byte_to_symbol c \<in> snd ` set sample_vocab" for c
    proof -
      have "(byte_of c, byte_to_symbol c) \<in> (\<lambda>b. (b, byte_to_symbol (char_of b))) ` set [0..<256]"
        by (rule image_eqI[of _ _ "byte_of c"]) simp_all
      then have "(byte_of c, byte_to_symbol c) \<in> set sample_vocab" by (simp add: sample_vocab_def)
      then show ?thesis by force
    qed
    moreover have "l @ r = ''hi''" if "pair_key l r = pair_key ''h'' ''i''" for l r
      using that by (cases l rule: remdups_adj.cases; cases r rule: remdups_adj.cases) (auto simp: pair_key_def)
    moreover have "''hi'' \<in> snd ` set sample_vocab" by (simp add: sample_vocab_def)
    ultimately show ?thesis using t1(2) unfolding complete_vocab_def s by (auto split: if_splits)
  qed
  ultimately show ?thesis by blast
qed

theorem encode_decode_text_witness:
  "\<exists>t ids. load_tokenizer sample_artifact = Inr t \<and> encode t ''oh hi<x>'' = Some (Inr ids) \<and> tokenizer_decode t ids False = Inr ''oh hi<x>''"
proof -
  obtain t where t: "load_tokenizer sample_artifact = Inr t" "unambiguous t" "complete_vocab t"
      "added_tokens t = [\<lparr>tok_id = 257, tok_flags = 1, tok_content = ''<x>''\<rparr>]" using sample_loads by blast
  have "isl (decode_utf8 ''<x>'') = False" "isl (decode_utf8 ''oh hi<x>'') = False" by code_simp+
  then have "valid_text ''<x>''" "valid_text ''oh hi<x>''" unfolding valid_text_def by (metis isl_def old.sum.exhaust)+
  then show ?thesis using encode_decode_text[OF t(1-3), of "''oh hi<x>''"] t(1,4) by auto
qed

end
