(* ===== verification/Spec2Isabelle.thy ===== *)
theory Spec2Isabelle
  imports Registry_Properties Session Stream_Decoder Memory_Budget Parallel_Topology Prefill_Controller Http_Responses Tokenizer_Roundtrip
begin

text \<open>
  Project Aeon runs a large mixture-of-experts model on one or a few small GPUs. The experts live in three tiers, Hot
  (VRAM), Warm (pinned host memory) and cold (the artifact on NVMe), and most of the program's own logic keeps that
  hierarchy right while tokens are generated. This development models that logic, the text path around it and the server
  in front of it.

  \<^bold>\<open>The parts and how they interact.\<close> A request over HTTP is a JSON body: the \<^emph>\<open>codec\<close> parses it, the \<^emph>\<open>job service\<close> queues it
  for its one worker, and the handler writes the job's events back as an event stream or as one reply. The worker gives the
  request to the engine; the \<^emph>\<open>tokenizer\<close> turns prompt text into ids and ids into text. An \<^emph>\<open>engine\<close> turn feeds a
  prompt through a graph, reusing the prefix a conversation has already computed, and generates tokens that a \<^emph>\<open>decoder\<close> turns into UTF-8 text. At load a \<^emph>\<open>topology\<close> cuts the
  layers into stages, and a \<^emph>\<open>memory budget\<close> cuts VRAM and host memory into pools. While layers run, the \<^emph>\<open>expert
  registry\<close> decides which tier owns an expert, the \<^emph>\<open>tiered supply\<close> moves experts between tiers through a \<^emph>\<open>staging
  arena\<close> and a \<^emph>\<open>direct I/O reader\<close>, the \<^emph>\<open>coordinator\<close> turns a layer's routing into supply requests, and a prefill window
  runs a \<^emph>\<open>sweep\<close> over whole layers after moving the \<^emph>\<open>partition\<close> between Warm and staging.

  \<^bold>\<open>Theories.\<close> Paths are under \<^verbatim>\<open>src/src/infrastructure\<close> unless they begin with \<^verbatim>\<open>deepseek_v4\<close>, which stands for
  \<^verbatim>\<open>src/src/architecture/deepseek_v4\<close>.

  \<^item> \<open>Aeon_Prelude\<close>, \<open>Aeon_Errors\<close>: results that keep the state a throw leaves behind, loops, casts, exceptions.
  \<^item> \<open>Expert_Registry_Types\<close>, \<open>Expert_Registry\<close>: \<^verbatim>\<open>expert/residency/*.hpp\<close>. \<open>ExpertRegistry\<close> is the class's data; one
    definition per member function. \<open>Registry_Invariant\<close> states the invariant \<open>reg_inv\<close>; \<open>Registry_Slots\<close>,
    \<open>Registry_Settle\<close>, \<open>Registry_Reserve\<close>, \<open>Registry_Requests\<close> and \<open>Registry_Modes\<close> show that every mutator keeps it;
    \<open>Registry_System\<close> makes the mutators a step relation (\<open>reachable\<close>) and gives both slot arrays one contract, the
    locale \<open>slot_map\<close>, interpreted for VRAM and for Warm. Properties C1, C2 and C4 to C9 (\<open>Registry_System\<close>, \<open>Registry_Properties\<close>).
  \<^item> \<open>Utf8_Text\<close>: \<^verbatim>\<open>text/utf8_chunker.hpp\<close> against a reference decoder of UTF-8 (C13, C14). \<open>Stream_Decoder\<close>:
    \<^verbatim>\<open>deepseek_v4/text/dsv4_stream_decoder.hpp\<close> (C21).
  \<^item> \<open>Text_Generation\<close>: \<^verbatim>\<open>text/text_generation.cpp\<close> (C16). \<open>Session\<close>: \<^verbatim>\<open>session/prefix_record.hpp\<close> and the turn of
    \<^verbatim>\<open>deepseek_v4/runtime/v4_engine.hpp\<close> (C17 to C20).
  \<^item> \<open>Memory_Budget\<close>: \<^verbatim>\<open>memory/*.hpp\<close>, \<^verbatim>\<open>expert/storage/expert_format.hpp\<close> (C22 to C25). \<open>Parallel_Topology\<close>:
    \<^verbatim>\<open>parallel/parallel_topology.hpp\<close> (C26, C28).
  \<^item> \<open>Host_Storage\<close>: \<^verbatim>\<open>expert/storage/expert_host_region.hpp\<close>, \<^verbatim>\<open>host_expert_pool.hpp\<close> (C29). \<open>Staging_Arena\<close>:
    \<^verbatim>\<open>expert/transport/prefetch_staging.hpp\<close>, whose slot state machine refines a hand-over of slots between owners
    (C30, C31). \<open>Direct_Io\<close>: \<^verbatim>\<open>io/direct_io_reader.hpp\<close> with 32-bit ring indices (C32, C39).
  \<^item> \<open>Expert_Supply\<close>: \<^verbatim>\<open>expert/transport/tiered_expert_supply_types.hpp\<close>, \<^verbatim>\<open>pending_transfer_registry.hpp\<close>,
    \<^verbatim>\<open>expert_transfer_pipeline.hpp\<close>. \<open>Tiered_Supply\<close>: \<^verbatim>\<open>tiered_expert_supply.hpp\<close> and that every path of it keeps the registry
    \<open>sound\<close>. \<open>Supply_Properties\<close>: the audit, the order of device commands, and a supply that cannot recover (C33 to C35).
  \<^item> \<open>Layer_Supply\<close>: \<^verbatim>\<open>expert/layer_batch_supply.hpp\<close> and its implementation \<^verbatim>\<open>deepseek_v4/moe/v4_expert_supply.hpp\<close> (C36).
    \<open>Prefill_Sweep\<close>: \<^verbatim>\<open>prefill/prefill_sweep.hpp\<close>, \<^verbatim>\<open>prefill_lookahead.hpp\<close>; what the sweep relies on is the locale
    \<open>layer_batch_supply\<close>, interpreted on the coordinator (C37). \<open>Host_Partition\<close>: \<^verbatim>\<open>expert/storage/host_partition.hpp\<close>
    (C38). \<open>Prefill_Controller\<close>: \<^verbatim>\<open>prefill/prefill_controller.hpp\<close>.
  \<^item> \<open>Binary_Float\<close>, \<open>Json_Value\<close>: \<^verbatim>\<open>json.hpp\<close>, the parser and its accessors; a number is the \<^verbatim>\<open>double\<close>
    that \<^verbatim>\<open>std::stod\<close> rounds its text to, computed in exact arithmetic. \<open>Json_Writer\<close>: \<^verbatim>\<open>src/server/json_write.hpp\<close>, and that
    the parser reads back what the writer writes (C3). \<open>Json_Grammar\<close>, \<open>Json_Span\<close>: \<^verbatim>\<open>src/server/json_span.hpp\<close>, a second reader
    that finds a member without parsing, against the parser (C12).
  \<^item> \<open>Conversation_Seam\<close>: \<^verbatim>\<open>session/conversation.hpp\<close>. \<open>Job_Service\<close>: \<^verbatim>\<open>src/server/job_stream.hpp\<close>,
    \<^verbatim>\<open>conversation_service.hpp\<close> and \<^verbatim>\<open>.cpp\<close>; every critical section, atomic store and stream call of the worker, the submitters,
    \<^verbatim>\<open>shutdown\<close> and the handlers is one step of the relation \<open>step\<close>, so that the theorems cover every interleaving (C10, C11).
  \<^item> \<open>Openai_Codec\<close>, \<open>Http_Responses\<close>: \<^verbatim>\<open>src/server/openai_codec.cpp\<close> and the handlers of \<^verbatim>\<open>src/server/http_server.cpp\<close> (C27, C40).
  \<^item> \<open>Tokenizer_Model\<close>, \<open>Tokenizer_Roundtrip\<close>: \<^verbatim>\<open>deepseek_v4/text/dsv4_tokenizer.cpp\<close>, from the bytes of the artifact to
    encoding and decoding (C15).

  \<^bold>\<open>How the state corresponds.\<close> A class is a record with the class's members; a member function is a function from its
  arguments and the state to a result and the state it leaves, also when it throws. Objects that hold pointers to one
  another are one record (\<open>ExpertSupply\<close>, \<open>host_services\<close>). The device, the drive and the allocator are outside: what is sent
  to the device is a log of commands, what they answer is an argument, and the theorems hold for every answer unless they say
  otherwise. Sizes are natural numbers, with the wrap-around of \<^verbatim>\<open>uint32_t\<close> written out (\<open>u32\<close>, \<open>as_u32\<close>) where a value
  can leave the range; ring indices are 32-bit words.

  \<^bold>\<open>Loops, bounds and fuel.\<close> Loops are structural recursion or carry a measure. Three wait on the outside: the reservation
  loop of \<open>dispatch\<close> takes the device's answers round by round (\<open>polls\<close>), the submission loop takes the kernel's
  answers, a blocking read takes the completions still to come. When the answers end before the loop does the result is
  \<open>None\<close>; C39 shows that the submission loop returns when the kernel makes progress. Device events have one status within a
  call and any status in the next. The JSON parser and the tokenizer's loops recurse on the text that is left, with the length as
  measure; the tokenizer's outer loop, which an empty added token would keep running, is a partial function, and C15 shows
  that it returns.

  \<^bold>\<open>What is shown.\<close> The registry: its audit never fails, slots are exclusive, leased experts are spared, a granted transfer can
  always complete or fail, frozen Warm is untouched. The text path: chunked UTF-8 equals whole UTF-8, tokens decode to the text they
  were made from, generation stops where it should, a reused prefix is the prefix. The server: written JSON parses, an accepted request is
  well formed, every job gets one terminal event in every interleaving, an orderly shutdown leaves no job unanswered, a streamed reply says
  what a plain one says. Memory: what the budget accepts fits, lanes and corridor tile the region,
  no block is lost, no staged byte overlaps. The supply: nothing it does breaks the registry, uploads wait for the downloads
  of the slots they overwrite, batches serve every token, the sweep's lookahead stays ordered and bounded. Some theorems
  show where the code does not recover; the lemmas \<open>allocate_after_bind_leaks\<close>, \<open>bind_forgets_owned_memory\<close>,
  \<open>moved_view_frees_foreign_memory\<close>, \<open>full_ring_keeps_partial_read\<close>, \<open>skipped_layer_shares_bank\<close>, \<open>early_shutdown_loses_job\<close>, \<open>handler_misses_result\<close>,
  \<open>fractional_cap_escapes\<close> and \<open>large_cap_truncated\<close> show further defects.

  \<^bold>\<open>Not modelled.\<close> GPU kernels, layer bodies, the graph and the oracle (floating-point device code); HIP resources, hosts and
  artifact loading (assembly around system calls); the sampler, the random seed and the completion id
  (randomness and clock; the latter two are arguments) and the sockets of the HTTP server (third-party code);
  telemetry, timers and profiles (no effect on behaviour); the supply without an arena or a Warm pool (the host always
  binds both). Still open along this plan: the executor's dispatch (\<^verbatim>\<open>v4_expert_executor.hpp\<close>), the blocking load reads
  (\<^verbatim>\<open>expert_direct_io.hpp\<close>), the prompt encoder (\<^verbatim>\<open>dsv4_prompt_encoder.cpp\<close> with its own JSON type) and the
  computation key.
\<close>

end
